(* ===== verification/Prelude.thy ===== *)
theory Prelude
  imports Main "HOL-Library.Word" "HOL-Library.Monad_Syntax"
begin

text \<open>
  Shared vocabulary of the development: the C integer types as words, array accesses with
  the failure written out, the error numbers of \<^verbatim>\<open>kernel/include/lib/errors.h\<close>, and the
  generic lemmas on lists, options and words that the component theories rely on.

  Throughout the development a result of type \<^typ>\<open>'a option\<close> is read as follows:
  \<^term>\<open>None\<close> is an execution that has no defined result in C (an access outside an array, a
  null or freed pointer, an uninitialised variable) or that never returns;
  \<^term>\<open>Some\<close> is an execution that returns normally. Error codes that the C functions
  return are values inside \<^term>\<open>Some\<close>.
\<close>

unbundle bit_operations_syntax

section \<open>Types\<close>

type_synonym u8 = "8 word"
type_synonym u16 = "16 word"
type_synonym u32 = "32 word"
type_synonym u64 = "64 word"

text \<open>
  A 32-bit signed integer of the source is the same type \<^typ>\<open>32 word\<close>, read with the
  signed comparison \<^term>\<open>word_sless\<close> or with \<^term>\<open>sint\<close>.
\<close>

type_synonym i32 = "32 word"

text \<open>A pointer is the address of an object; the null pointer is the address 0.\<close>

type_synonym ptr = "32 word"

abbreviation NULL :: ptr where
  "NULL \<equiv> 0"

section \<open>Collections of simplification rules\<close>

named_theorems c_const \<open>constants of the headers\<close>
named_theorems arr_simps \<open>array reads and writes inside the bounds\<close>

section \<open>Array accesses\<close>

definition arr_get :: "'a list \<Rightarrow> nat \<Rightarrow> 'a option" where
  "arr_get xs i = (if i < length xs then Some (xs ! i) else None)"

definition arr_set :: "'a list \<Rightarrow> nat \<Rightarrow> 'a \<Rightarrow> 'a list option" where
  "arr_set xs i v = (if i < length xs then Some (xs[i := v]) else None)"

lemma arr_get_in [simp, arr_simps]: "i < length xs \<Longrightarrow> arr_get xs i = Some (xs ! i)"
  by (simp add: arr_get_def)

lemma arr_get_out [simp, arr_simps]: "length xs \<le> i \<Longrightarrow> arr_get xs i = None"
  by (simp add: arr_get_def)

lemma arr_set_in [simp, arr_simps]: "i < length xs \<Longrightarrow> arr_set xs i v = Some (xs[i := v])"
  by (simp add: arr_set_def)

lemma arr_set_out [simp, arr_simps]: "length xs \<le> i \<Longrightarrow> arr_set xs i v = None"
  by (simp add: arr_set_def)

lemma arr_get_eq_Some: "arr_get xs i = Some v \<longleftrightarrow> i < length xs \<and> v = xs ! i"
  by (auto simp: arr_get_def)

lemma arr_set_eq_Some: "arr_set xs i v = Some ys \<longleftrightarrow> i < length xs \<and> ys = xs[i := v]"
  by (auto simp: arr_set_def)

lemma arr_set_length: "arr_set xs i v = Some ys \<Longrightarrow> length ys = length xs"
  by (auto simp: arr_set_eq_Some)

section \<open>Options\<close>

text \<open>
  The congruence rule that lets \<^theory_text>\<open>function\<close> see the result of the first computation
  of a bind while it proves termination.
\<close>

lemma option_bind_fundef_cong [fundef_cong]:
  assumes "x = y" and "\<And>a. y = Some a \<Longrightarrow> f a = g a"
  shows "Option.bind x f = Option.bind y g"
  using assms by (cases y) auto

lemma option_bind_eq_Some: "Option.bind x f = Some r \<longleftrightarrow> (\<exists>a. x = Some a \<and> f a = Some r)"
  by (cases x) auto

section \<open>Lists\<close>

lemma list_update_drop_Cons:
  "i < length xs \<Longrightarrow> xs[i := v] = take i xs @ v # drop (Suc i) xs"
  by (rule upd_conv_take_nth_drop)

lemma take_list_update_Suc:
  "i < length xs \<Longrightarrow> take (Suc i) (xs[i := v]) = take i xs @ [v]"
  by (simp add: take_Suc_conv_app_nth)

lemma takeWhile_eq_take_index:
  assumes "i < length xs" and "\<not> P (xs ! i)" and "\<forall>j<i. P (xs ! j)"
  shows "takeWhile P xs = take i xs"
proof -
  have "takeWhile P (take i xs @ xs ! i # drop (Suc i) xs) = take i xs"
    using assms by (subst takeWhile_append2) (auto simp: in_set_conv_nth)
  then show ?thesis using assms(1) by (simp add: id_take_nth_drop [symmetric])
qed

lemma filter_length_le_card:
  "finite A \<Longrightarrow> set (filter P xs) \<subseteq> A \<Longrightarrow> distinct xs \<Longrightarrow> length (filter P xs) \<le> card A"
  by (metis card_mono distinct_card distinct_filter)

section \<open>Words\<close>

lemma unat_u32_bound: "unat (w :: u32) < 4294967296"
  using unsigned_less [of w] by simp

lemma unat_u8_bound: "unat (w :: u8) < 256"
  using unsigned_less [of w] by simp

lemma u8_eq_iff_uint: "(a :: u8) = b \<longleftrightarrow> uint a - uint b = 0"
  by (simp add: word_uint_eq_iff)

text \<open>Addition and multiplication of small values do not wrap.\<close>

lemma unat_add_small:
  fixes a b :: u32
  shows "unat a + unat b < 4294967296 \<Longrightarrow> unat (a + b) = unat a + unat b"
  by (simp add: unat_word_ariths)

lemma unat_sub_le:
  fixes a b :: u32
  shows "unat b \<le> unat a \<Longrightarrow> unat (a - b) = unat a - unat b"
  by (simp add: unat_sub word_le_nat_alt)

lemma unat_sub_wrap:
  fixes a b :: u32
  shows "unat (a - b) = (unat a + (4294967296 - unat b)) mod 4294967296"
proof (cases "unat b \<le> unat a")
  case True
  then have e: "unat a + (4294967296 - unat b) = (unat a - unat b) + 4294967296"
    using unat_u32_bound [of b] by linarith
  have "unat a - unat b < 4294967296" using unat_u32_bound [of a] by linarith
  with True show ?thesis by (simp only: e mod_add_self2 unat_sub_le mod_less)
next
  case False
  then have "unat a + (4294967296 - unat b) < 4294967296"
    using unat_u32_bound [of b] by linarith
  moreover have "unat (a - b) = unat a + (4294967296 - unat b)"
    using False unat_sub_if_size [of a b] unat_u32_bound [of b] by (simp add: word_size)
  ultimately show ?thesis by simp
qed

lemma unat_of_nat_small: "n < 4294967296 \<Longrightarrow> unat (of_nat n :: u32) = n"
  by (simp add: unat_of_nat take_bit_nat_eq_self_iff)

lemma u32_bit_unat: "bit (r :: u32) i \<longleftrightarrow> odd (unat r div 2 ^ i)"
proof -
  have "bit r i \<longleftrightarrow> bit (unat r) i" by (auto simp: bit_unsigned_iff dest: bit_imp_le_length)
  then show ?thesis by (simp add: bit_iff_odd)
qed

lemma high_bit_unset:
  assumes "unat (r :: u32) < 2 ^ k" and "k \<le> n"
  shows "\<not> bit r n"
proof -
  have "(2::nat) ^ k \<le> 2 ^ n" using assms(2) by (rule power_increasing) simp
  with assms(1) have "unat r < 2 ^ n" by linarith
  then have "unat r div 2 ^ n = 0" by (rule div_less)
  then show ?thesis by (simp add: u32_bit_unat)
qed

text \<open>The signed reading of a 32-bit word.\<close>

lemma sint_u32: "sint (r :: u32) = uint r - 2 ^ 32 * of_bool (bit r 31)"
proof -
  have t: "take_bit 32 (uint r) = uint r"
    using uint_lt2p [of r] by (simp add: take_bit_int_eq_self_iff)
  have "sint r = take_bit (Suc 31) (uint r) - 2 ^ Suc 31 * of_bool (bit (uint r) 31)"
    by (simp add: sint_uint signed_take_bit_eq_take_bit_minus)
  with t show ?thesis by (simp add: bit_unsigned_iff)
qed

lemma unat_of_sint: "0 \<le> sint (r :: u32) \<Longrightarrow> sint r = int (unat r)"
proof -
  assume "0 \<le> sint r"
  moreover have "uint r < 2 ^ 32" using uint_lt2p [of r] by simp
  ultimately show ?thesis by (cases "bit r 31") (simp_all add: sint_u32)
qed

lemma sint_nonneg_iff: "0 \<le> sint (r :: u32) \<longleftrightarrow> unat r < 2147483648"
proof
  assume "0 \<le> sint r"
  then have "sint r = int (unat r)" by (rule unat_of_sint)
  moreover have "sint r < 2147483648" using sint_lt [of r] by simp
  ultimately show "unat r < 2147483648" by linarith
next
  assume "unat r < 2147483648"
  then have "\<not> bit r 31" by (intro high_bit_unset [of r 31]) simp_all
  then show "0 \<le> sint r" by (simp add: sint_u32)
qed

section \<open>Error numbers\<close>

text \<open>\<^verbatim>\<open>kernel/include/lib/errors.h\<close>\<close>

definition ENOENT :: i32 where "ENOENT = 2"

definition EBADF :: i32 where "EBADF = 9"

definition ECHILD :: i32 where "ECHILD = 10"

definition ENOMEM :: i32 where "ENOMEM = 12"

definition ENODEV :: i32 where "ENODEV = 19"

definition ENOTDIR :: i32 where "ENOTDIR = 20"

definition ENFILE :: i32 where "ENFILE = 23"

definition ERANGE :: i32 where "ERANGE = 34"

definition ENOSYS :: i32 where "ENOSYS = 38"

lemmas errno_defs [c_const] =
  ENOENT_def EBADF_def ECHILD_def ENOMEM_def ENODEV_def ENOTDIR_def ENFILE_def ERANGE_def
  ENOSYS_def

end
