(* ===== verification/Board.thy ===== *)
theory Board
  imports Prelude
begin

text \<open>
  The memory-mapped devices: the bus (\<^verbatim>\<open>kernel/include/lib/mmio.h\<close>,
  \<^verbatim>\<open>kernel/drivers/bcm2835/bcm2835_io.c\<close>), the GPIO pins (\<^verbatim>\<open>kernel/drivers/gpio/gpio.c\<close>), the
  LED (\<^verbatim>\<open>kernel/drivers/led/led.c\<close>), and the interrupt controllers
  (\<^verbatim>\<open>irq_enable\<close> and \<^verbatim>\<open>irq_disable\<close> of \<^verbatim>\<open>kernel/interrupts/interrupts.c\<close>, \<^verbatim>\<open>gic-400.c\<close>).

  The hardware behind the registers is not part of the program. It is a parameter: a state of a
  type \<open>'h\<close> and what a load and a store at an address do to it. A load may change the state too,
  as the registers of a queue do. The messages that the drivers print are left out.
\<close>

section \<open>The bus\<close>

record 'h board =
  bus_read :: "u32 \<Rightarrow> 'h \<Rightarrow> u32 \<times> 'h"
  bus_write :: "u32 \<Rightarrow> u32 \<Rightarrow> 'h \<Rightarrow> 'h"

text \<open>The variables of the drivers, with the state of the hardware.\<close>

record 'h devices =
  hw :: 'h
  io_base :: u32
  hardware_type :: u32
  gpio_reserved :: u64
  led_gpio :: u32
  led_active_low :: u32
  led_configured :: u32
  timer_next_wakeup :: u32
  blinking_enabled :: u32
  lit_count :: i32
  num_interrupts :: u32

definition mmio_write :: "'h board \<Rightarrow> u32 \<Rightarrow> u32 \<Rightarrow> 'h devices \<Rightarrow> 'h devices" where
  "mmio_write B address data d = d\<lparr>hw := bus_write B address data (hw d)\<rparr>"

definition mmio_read :: "'h board \<Rightarrow> u32 \<Rightarrow> 'h devices \<Rightarrow> u32 \<times> 'h devices" where
  "mmio_read B address d = (let (data, h) = bus_read B address (hw d) in (data, d\<lparr>hw := h\<rparr>))"

definition bcm2835_write :: "'h board \<Rightarrow> u32 \<Rightarrow> u32 \<Rightarrow> 'h devices \<Rightarrow> 'h devices" where
  "bcm2835_write B address data d = mmio_write B (io_base d + address) data d"

definition bcm2835_read :: "'h board \<Rightarrow> u32 \<Rightarrow> 'h devices \<Rightarrow> u32 \<times> 'h devices" where
  "bcm2835_read B address d = mmio_read B (io_base d + address) d"

text \<open>The addresses of \<^verbatim>\<open>bcm2835_periph.h\<close>.\<close>

definition GPIO_BASE :: u32 where "GPIO_BASE = 0x200000"
definition GPIO_GPFSEL0 :: u32 where "GPIO_GPFSEL0 = GPIO_BASE + 0x00"
definition GPIO_GPFSEL1 :: u32 where "GPIO_GPFSEL1 = GPIO_BASE + 0x04"
definition GPIO_GPSET0 :: u32 where "GPIO_GPSET0 = GPIO_BASE + 0x1c"
definition GPIO_GPCLR0 :: u32 where "GPIO_GPCLR0 = GPIO_BASE + 0x28"
definition GPIO_GPLEV0 :: u32 where "GPIO_GPLEV0 = GPIO_BASE + 0x34"
definition GPIO_GPEDS0 :: u32 where "GPIO_GPEDS0 = GPIO_BASE + 0x40"
definition GPIO_GPFEN0 :: u32 where "GPIO_GPFEN0 = GPIO_BASE + 0x58"
definition GPIO_GPPUD :: u32 where "GPIO_GPPUD = GPIO_BASE + 0x94"
definition GPIO_GPPUDCLK0 :: u32 where "GPIO_GPPUDCLK0 = GPIO_BASE + 0x98"

definition IRQ_BASE :: u32 where "IRQ_BASE = 0x00b000"
definition IRQ_BASIC_PENDING :: u32 where "IRQ_BASIC_PENDING = IRQ_BASE + 0x200"
definition IRQ0_PENDING0 :: u32 where "IRQ0_PENDING0 = IRQ_BASE + 0x200"
definition IRQ0_PENDING1 :: u32 where "IRQ0_PENDING1 = IRQ_BASE + 0x204"
definition IRQ0_PENDING2 :: u32 where "IRQ0_PENDING2 = IRQ_BASE + 0x208"
definition IRQ_ENABLE_IRQ1 :: u32 where "IRQ_ENABLE_IRQ1 = IRQ_BASE + 0x210"
definition IRQ_ENABLE_BASIC_IRQ :: u32 where "IRQ_ENABLE_BASIC_IRQ = IRQ_BASE + 0x218"
definition IRQ_DISABLE_IRQ1 :: u32 where "IRQ_DISABLE_IRQ1 = IRQ_BASE + 0x21c"

section \<open>Signed division\<close>

text \<open>Division and remainder of C by a positive constant: they truncate towards zero.\<close>

definition c_quot :: "i32 \<Rightarrow> int \<Rightarrow> i32" where
  "c_quot a n = word_of_int (if 0 \<le> sint a then sint a div n else - (- sint a div n))"

definition c_rem :: "i32 \<Rightarrow> int \<Rightarrow> i32" where
  "c_rem a n = word_of_int (if 0 \<le> sint a then sint a mod n else - (- sint a mod n))"

section \<open>kernel/drivers/gpio/gpio.c\<close>

definition MAX_GPIO :: nat where "MAX_GPIO = 54"

definition gpio_request :: "u32 \<Rightarrow> 'h devices \<Rightarrow> i32 \<times> 'h devices" where
  "gpio_request which_one d =
     (if MAX_GPIO < unat which_one then (-1, d)
      else if push_bit (unat which_one) 1 AND gpio_reserved d \<noteq> 0 then (-1, d)
      else (0, d\<lparr>gpio_reserved := gpio_reserved d OR push_bit (unat which_one) 1\<rparr>))"

definition gpio_free :: "u32 \<Rightarrow> 'h devices \<Rightarrow> i32 \<times> 'h devices" where
  "gpio_free which_one d =
     (if MAX_GPIO < unat which_one then (-1, d)
      else (0, d\<lparr>gpio_reserved := gpio_reserved d AND NOT (push_bit (unat which_one) 1)\<rparr>))"

text \<open>The pin number of the other functions is signed; a shift by 32 or more has no defined result.\<close>

definition gpio_direction_input :: "'h board \<Rightarrow> i32 \<Rightarrow> 'h devices \<Rightarrow> (i32 \<times> 'h devices) option" where
  "gpio_direction_input B which_one d =
     (if int MAX_GPIO < sint which_one then Some (-1, d)
      else
        (let addr_offset = c_quot which_one 10 * 4; b = c_rem which_one 10 * 3 in
         if 32 \<le> unat b then None
         else
           (let (old, d1) = bcm2835_read B (GPIO_GPFSEL0 + addr_offset) d;
                old1 = old AND NOT (push_bit (unat b) 7) in
            Some (0, bcm2835_write B (GPIO_GPFSEL0 + addr_offset) old1 d1))))"

definition gpio_direction_output :: "'h board \<Rightarrow> i32 \<Rightarrow> 'h devices \<Rightarrow> (i32 \<times> 'h devices) option" where
  "gpio_direction_output B which_one d =
     (if int MAX_GPIO < sint which_one then Some (-1, d)
      else
        (let addr_offset = c_quot which_one 10 * 4; b = c_rem which_one 10 * 3 in
         if 32 \<le> unat b then None
         else
           (let (old, d1) = bcm2835_read B (GPIO_GPFSEL0 + addr_offset) d;
                old1 = old AND NOT (push_bit (unat b) 7);
                old2 = old1 OR push_bit (unat b) 1 in
            Some (0, bcm2835_write B (GPIO_GPFSEL0 + addr_offset) old2 d1))))"

definition gpio_to_irq :: "i32 \<Rightarrow> i32" where
  "gpio_to_irq which_one = 49"

text \<open>The bit and the register of a pin in the banks of 32 pins.\<close>

definition bank_bit :: "i32 \<Rightarrow> u32" where
  "bank_bit which_one = push_bit (unat (which_one AND 0x1f)) 1"

definition bank_offset :: "i32 \<Rightarrow> u32" where
  "bank_offset which_one = c_quot which_one 32 * 4"

definition gpio_get_value :: "'h board \<Rightarrow> i32 \<Rightarrow> 'h devices \<Rightarrow> i32 \<times> 'h devices" where
  "gpio_get_value B which_one d =
     (if int MAX_GPIO < sint which_one then (-1, d)
      else
        (let (result, d1) = bcm2835_read B (GPIO_GPLEV0 + bank_offset which_one) d in
         (if result AND bank_bit which_one \<noteq> 0 then 1 else 0, d1)))"

definition gpio_set_value :: "'h board \<Rightarrow> i32 \<Rightarrow> i32 \<Rightarrow> 'h devices \<Rightarrow> i32 \<times> 'h devices" where
  "gpio_set_value B which_one v d =
     (if int MAX_GPIO < sint which_one then (-1, d)
      else
        (0, if v = 0 then bcm2835_write B (GPIO_GPCLR0 + bank_offset which_one) (bank_bit which_one) d
            else if v = 1 then bcm2835_write B (GPIO_GPSET0 + bank_offset which_one) (bank_bit which_one) d
            else d))"

definition gpio_set_falling :: "'h board \<Rightarrow> i32 \<Rightarrow> 'h devices \<Rightarrow> i32 \<times> 'h devices" where
  "gpio_set_falling B which_one d =
     (if int MAX_GPIO < sint which_one then (-1, d)
      else
        (let (old, d1) = bcm2835_read B (GPIO_GPFEN0 + bank_offset which_one) d in
         (0, bcm2835_write B (GPIO_GPFEN0 + bank_offset which_one) (old OR bank_bit which_one) d1)))"

definition gpio_clear_interrupt :: "'h board \<Rightarrow> i32 \<Rightarrow> 'h devices \<Rightarrow> i32 \<times> 'h devices" where
  "gpio_clear_interrupt B which_one d =
     (if int MAX_GPIO < sint which_one then (-1, d)
      else (0, bcm2835_write B (GPIO_GPEDS0 + bank_offset which_one) (bank_bit which_one) d))"

section \<open>kernel/drivers/led/led.c\<close>

definition RPI_MODEL_UNKNOWN :: u32 where "RPI_MODEL_UNKNOWN = 0"
definition RPI_MODEL_A :: u32 where "RPI_MODEL_A = 1"
definition RPI_MODEL_B :: u32 where "RPI_MODEL_B = 2"
definition RPI_MODEL_APLUS :: u32 where "RPI_MODEL_APLUS = 3"
definition RPI_MODEL_BPLUS :: u32 where "RPI_MODEL_BPLUS = 4"
definition RPI_COMPUTE_MODULE1 :: u32 where "RPI_COMPUTE_MODULE1 = 6"
definition RPI_MODEL_2B :: u32 where "RPI_MODEL_2B = 7"
definition RPI_MODEL_ZERO :: u32 where "RPI_MODEL_ZERO = 8"
definition RPI_MODEL_3B :: u32 where "RPI_MODEL_3B = 9"
definition RPI_MODEL_3BPLUS :: u32 where "RPI_MODEL_3BPLUS = 10"
definition RPI_MODEL_2B_V1_2 :: u32 where "RPI_MODEL_2B_V1_2 = 11"
definition RPI_COMPUTE_MODULE3 :: u32 where "RPI_COMPUTE_MODULE3 = 12"
definition RPI_MODEL_ZERO_W :: u32 where "RPI_MODEL_ZERO_W = 13"
definition RPI_MODEL_ZERO_2W :: u32 where "RPI_MODEL_ZERO_2W = 14"
definition RPI_MODEL_3APLUS :: u32 where "RPI_MODEL_3APLUS = 15"
definition RPI_MODEL_4B :: u32 where "RPI_MODEL_4B = 16"

lemmas model_defs [c_const] = RPI_MODEL_UNKNOWN_def RPI_MODEL_A_def RPI_MODEL_B_def RPI_MODEL_APLUS_def
  RPI_MODEL_BPLUS_def RPI_COMPUTE_MODULE1_def RPI_MODEL_2B_def RPI_MODEL_ZERO_def RPI_MODEL_3B_def
  RPI_MODEL_3BPLUS_def RPI_MODEL_2B_V1_2_def RPI_COMPUTE_MODULE3_def RPI_MODEL_ZERO_W_def
  RPI_MODEL_ZERO_2W_def RPI_MODEL_3APLUS_def RPI_MODEL_4B_def

lemmas periph_defs [c_const] = GPIO_BASE_def GPIO_GPFSEL0_def GPIO_GPFSEL1_def GPIO_GPSET0_def
  GPIO_GPCLR0_def GPIO_GPLEV0_def GPIO_GPEDS0_def GPIO_GPFEN0_def GPIO_GPPUD_def GPIO_GPPUDCLK0_def
  IRQ_BASE_def IRQ_BASIC_PENDING_def IRQ0_PENDING0_def IRQ0_PENDING1_def IRQ0_PENDING2_def
  IRQ_ENABLE_IRQ1_def IRQ_ENABLE_BASIC_IRQ_def IRQ_DISABLE_IRQ1_def

definition hardware_get_type :: "'h devices \<Rightarrow> u32" where
  "hardware_get_type d = hardware_type d"

text \<open>The pin and the polarity by model; None when the model is unknown.\<close>

definition led_pin :: "u32 \<Rightarrow> (u32 \<times> u32) option" where
  "led_pin t =
     (if t = RPI_MODEL_B \<or> t = RPI_MODEL_A then Some (16, 1)
      else if t = RPI_MODEL_BPLUS \<or> t = RPI_MODEL_APLUS \<or> t = RPI_MODEL_2B then Some (47, 0)
      else if t = RPI_MODEL_3B then Some (18, 0)
      else if t = RPI_MODEL_4B then Some (42, 0)
      else None)"

definition led_init :: "'h board \<Rightarrow> 'h devices \<Rightarrow> (i32 \<times> 'h devices) option" where
  "led_init B d =
     (let d1 = d\<lparr>led_configured := 1\<rparr> in
      case led_pin (hardware_get_type d1) of
        None \<Rightarrow> Some (ENODEV, d1\<lparr>led_configured := 0\<rparr>)
      | Some (pin, low) \<Rightarrow>
          (let d2 = d1\<lparr>led_gpio := pin, led_active_low := low\<rparr>;
               (r, d3) = gpio_request (led_gpio d2) d2 in
           do { (r1, d4) \<leftarrow> gpio_direction_output B (led_gpio d3) d3; Some (0, d4) }))"

definition led_on :: "'h board \<Rightarrow> 'h devices \<Rightarrow> i32 \<times> 'h devices" where
  "led_on B d =
     (if led_configured d = 0 then (0, d)
      else if led_active_low d \<noteq> 0 then (0, snd (gpio_set_value B (led_gpio d) 0 d))
      else (0, snd (gpio_set_value B (led_gpio d) 1 d)))"

definition led_off :: "'h board \<Rightarrow> 'h devices \<Rightarrow> i32 \<times> 'h devices" where
  "led_off B d =
     (if led_configured d = 0 then (0, d)
      else if led_active_low d \<noteq> 0 then (0, snd (gpio_set_value B (led_gpio d) 1 d))
      else (0, snd (gpio_set_value B (led_gpio d) 0 d)))"

section \<open>Interrupt controllers\<close>

definition MAX_IRQ :: nat where "MAX_IRQ = 64"

definition irq_enable :: "'h board \<Rightarrow> i32 \<Rightarrow> 'h devices \<Rightarrow> i32 \<times> 'h devices" where
  "irq_enable B which_one d =
     (if int MAX_IRQ < sint which_one then (-1, d)
      else
        (let (old, d1) = bcm2835_read B (IRQ_ENABLE_IRQ1 + bank_offset which_one) d in
         (0, bcm2835_write B (IRQ_ENABLE_IRQ1 + bank_offset which_one) (old OR bank_bit which_one) d1)))"

definition irq_disable :: "'h board \<Rightarrow> i32 \<Rightarrow> 'h devices \<Rightarrow> i32 \<times> 'h devices" where
  "irq_disable B which_one d =
     (if int MAX_IRQ < sint which_one then (-1, d)
      else
        (let (old, d1) = bcm2835_read B (IRQ_DISABLE_IRQ1 + bank_offset which_one) d in
         (0, bcm2835_write B (IRQ_DISABLE_IRQ1 + bank_offset which_one) (old OR bank_bit which_one) d1)))"
text \<open>\<^verbatim>\<open>gic-400.c\<close>, whose registers have fixed addresses.\<close>

definition ARM_GICD_BASE :: u32 where "ARM_GICD_BASE = 0xFF840000 + 0x1000"
definition ARM_GICC_BASE :: u32 where "ARM_GICC_BASE = 0xFF840000 + 0x2000"
definition GICD_ICPENDR0 :: u32 where "GICD_ICPENDR0 = ARM_GICD_BASE + 0x280"

definition gic_quiet :: "'h board \<Rightarrow> nat \<Rightarrow> 'h devices \<Rightarrow> 'h devices" where
  "gic_quiet B n d =
     (let d1 = mmio_write B (ARM_GICD_BASE + 0x180 + 4 * of_nat n) 0xffffffff d;
          d2 = mmio_write B (GICD_ICPENDR0 + 4 * of_nat n) 0xffffffff d1 in
      mmio_write B (ARM_GICD_BASE + 0x380 + 4 * of_nat n) 0xffffffff d2)"

definition gic_route :: "'h board \<Rightarrow> nat \<Rightarrow> 'h devices \<Rightarrow> 'h devices" where
  "gic_route B n d =
     (let d1 = mmio_write B (ARM_GICD_BASE + 0x400 + 4 * of_nat n)
            (0xA0 OR push_bit 8 0xA0 OR push_bit 16 0xA0 OR push_bit 24 0xA0) d in
      mmio_write B (ARM_GICD_BASE + 0x800 + 4 * of_nat n)
            (1 OR push_bit 8 1 OR push_bit 16 1 OR push_bit 24 1) d1)"

definition gic400_init :: "'h board \<Rightarrow> u32 \<Rightarrow> 'h devices \<Rightarrow> u32 \<times> 'h devices" where
  "gic400_init B interrupt_controller_base d =
     (let d1 = mmio_write B ARM_GICD_BASE 0 d;
          (t, d2) = mmio_read B (ARM_GICD_BASE + 4) d1;
          n = (t AND 0xf) * 32;
          d3 = d2\<lparr>num_interrupts := n\<rparr>;
          d4 = fold (gic_quiet B) [0..<unat (n div 32)] d3;
          d5 = fold (gic_route B) [0..<unat (n div 4)] d4;
          d6 = fold (\<lambda>i. mmio_write B (ARM_GICD_BASE + 0xC00 + 4 * of_nat i) 0) [0..<unat (n div 16)] d5;
          d7 = mmio_write B (ARM_GICD_BASE + 0x100) 0x80000000 d6;
          d8 = mmio_write B ARM_GICD_BASE 1 d7;
          d9 = mmio_write B (ARM_GICC_BASE + 4) 0xF0 d8 in
      (0, mmio_write B ARM_GICC_BASE 1 d9))"

definition platform_irq_enable :: "'h board \<Rightarrow> 'h devices \<Rightarrow> i32 \<times> 'h devices" where
  "platform_irq_enable B d =
     (0, if hardware_type d = RPI_MODEL_4B then snd (gic400_init B 0xFF840000 d) else d)"

section \<open>Reservation of pins\<close>

text \<open>The reserved pins as a set.\<close>

definition reserved_pins :: "'h devices \<Rightarrow> nat set" where
  "reserved_pins d = {i. bit (gpio_reserved d) i}"

lemma bit_one_shift: "bit (2 ^ n :: 'a :: len word) i \<longleftrightarrow> i = n \<and> n < LENGTH('a)"
  by (auto simp: bit_exp_iff)

lemma and_single: "n < LENGTH('a) \<Longrightarrow> 2 ^ n AND (x :: 'a :: len word) \<noteq> 0 \<longleftrightarrow> bit x n"
  by (auto simp: bit_eq_iff [of _ "0 :: 'a word"] bit_and_iff bit_one_shift dest: bit_imp_le_length)

text \<open>
  A request succeeds exactly when the pin exists and nobody holds it; then the pin is held.
  The bound of the source lets the number 54 pass, although the pins end at 53.
\<close>

lemma gpio_request_reserves:
  "gpio_request p d =
    (if unat p \<le> 54 \<and> unat p \<notin> reserved_pins d
     then (0, d\<lparr>gpio_reserved := gpio_reserved d OR push_bit (unat p) 1\<rparr>) else (-1, d))"
  "unat p \<le> 54 \<Longrightarrow> reserved_pins (snd (gpio_request p d)) = insert (unat p) (reserved_pins d)"
  by (auto simp: gpio_request_def reserved_pins_def MAX_GPIO_def and_single bit_or_iff bit_one_shift)

lemma gpio_free_releases:
  "unat p \<le> 54 \<Longrightarrow> reserved_pins (snd (gpio_free p d)) = reserved_pins d - {unat p}"
  by (auto simp: gpio_free_def reserved_pins_def MAX_GPIO_def bit_and_iff bit_not_iff bit_one_shift
      dest: bit_imp_le_length)

section \<open>Function selection\<close>

text \<open>The function of pin \<open>j\<close> of a selection register: three bits for each of ten pins.\<close>

definition fsel :: "u32 \<Rightarrow> nat \<Rightarrow> u32" where
  "fsel v j = drop_bit (3 * j) v AND 7"

lemma seven: "(7 :: u32) = mask 3"
  by (simp add: mask_eq_exp_minus_1)

lemma bit_fsel: "bit (fsel v j) i \<longleftrightarrow> i < 3 \<and> bit v (3 * j + i)"
  by (auto simp: fsel_def seven bit_and_iff bit_drop_bit_eq bit_mask_iff dest: bit_imp_le_length)

lemma triple_in: "i < (3 :: nat) \<Longrightarrow> 3 * p \<le> 3 * j + i \<and> 3 * j + i - 3 * p < 3 \<longleftrightarrow> j = p"
  by auto

lemma fsel_update:
  assumes "p < 10" and "f < 8"
  shows "j < 10 \<Longrightarrow> fsel ((v AND NOT (push_bit (3 * p) 7)) OR push_bit (3 * p) f) j = (if j = p then f else fsel v j)"
    and "drop_bit 30 ((v AND NOT (push_bit (3 * p) 7)) OR push_bit (3 * p) f) = drop_bit 30 v"
proof -
  have "take_bit 3 f = f"
    using assms(2) by (simp add: take_bit_eq_mod unat_mod word_less_nat_alt word_unat_eq_iff)
  then have f: "bit f i \<Longrightarrow> i < 3" for i by (metis bit_take_bit_iff)
  have b: "bit ((v AND NOT (push_bit (3 * p) 7)) OR push_bit (3 * p) f) n \<longleftrightarrow>
    (if 3 * p \<le> n \<and> n - 3 * p < 3 then n < 32 \<and> bit f (n - 3 * p) else bit v n)" for n
    using f by (auto simp: seven bit_or_iff bit_and_iff bit_not_iff bit_push_bit_iff bit_mask_iff
        dest: bit_imp_le_length)
  show "fsel ((v AND NOT (push_bit (3 * p) 7)) OR push_bit (3 * p) f) j = (if j = p then f else fsel v j)"
    if "j < 10"
    using that assms(1) f by (intro bit_eqI) (auto simp: bit_fsel b triple_in)
  show "drop_bit 30 ((v AND NOT (push_bit (3 * p) 7)) OR push_bit (3 * p) f) = drop_bit 30 v"
    using assms(1) by (intro bit_eqI) (auto simp: bit_drop_bit_eq b simp del: drop_bit_or drop_bit_and)
qed

lemma small_pin:
  assumes "w < 54"
  shows "sint w = int (unat w)" and "c_quot w 10 * 4 = 4 * (w div 10)" and "unat (c_rem w 10 * 3) = 3 * (unat w mod 10)"
proof -
  have u: "unat w < 54" using assms by (simp add: word_less_nat_alt)
  then show s: "sint w = int (unat w)" using unat_of_sint [of w] sint_nonneg_iff [of w] by simp
  have "word_of_int (int (unat w div 10)) = w div 10" using u by (simp add: word_unat_eq_iff unat_div unat_of_nat)
  then show "c_quot w 10 * 4 = 4 * (w div 10)" by (simp add: c_quot_def s zdiv_int)
  have k: "unat (of_nat n :: u32) = n" if "n < 30" for n using that by (simp add: unat_of_nat)
  have "unat (of_nat (3 * (unat w mod 10)) :: u32) = 3 * (unat w mod 10)" by (rule k) simp
  moreover have "c_rem w 10 = of_nat (unat w mod 10)"
    by (simp only: c_rem_def s zmod_int [symmetric, of _ 10, simplified] of_nat_0_le_iff if_True of_int_of_nat_eq)
  ultimately show "unat (c_rem w 10 * 3) = 3 * (unat w mod 10)" by (simp add: mult.commute)
qed

text \<open>
  Selecting the direction of a pin is one load and one store of the selection register of the
  pin. The stored value gives the pin the function 0 (input) or 1 (output) and is the loaded value
  for the nine other pins and for the two spare bits.
\<close>

lemma gpio_direction_selects:
  assumes "w < 54" and "bus_read B (io_base d + GPIO_BASE + 4 * (w div 10)) (hw d) = (v, h)"
  shows "\<exists>v0 v1. gpio_direction_input B w d =
      Some (0, d\<lparr>hw := bus_write B (io_base d + GPIO_BASE + 4 * (w div 10)) v0 h\<rparr>) \<and>
    gpio_direction_output B w d =
      Some (0, d\<lparr>hw := bus_write B (io_base d + GPIO_BASE + 4 * (w div 10)) v1 h\<rparr>) \<and>
    (\<forall>j<10. fsel v0 j = (if j = unat w mod 10 then 0 else fsel v j) \<and>
       fsel v1 j = (if j = unat w mod 10 then 1 else fsel v j)) \<and>
    drop_bit 30 v0 = drop_bit 30 v \<and> drop_bit 30 v1 = drop_bit 30 v"
proof -
  let ?p = "unat w mod 10" and ?m = "NOT (push_bit (3 * (unat w mod 10)) 7) :: u32"
  have p: "?p < 10" "\<not> 32 \<le> 3 * ?p" by simp_all
  have g: "\<not> int MAX_GPIO < sint w"
    using assms(1) small_pin(1) [OF assms(1)] by (simp add: MAX_GPIO_def word_less_nat_alt del: of_nat_unat)
  note run = g small_pin(2,3) [OF assms(1)] p(2) bcm2835_read_def mmio_read_def bcm2835_write_def mmio_write_def
    GPIO_GPFSEL0_def assms(2)
  define v0 where "v0 = (v AND ?m) OR push_bit (3 * ?p) 0"
  define v1 where "v1 = (v AND ?m) OR push_bit (3 * ?p) 1"
  have "gpio_direction_input B w d = Some (0, d\<lparr>hw := bus_write B (io_base d + GPIO_BASE + 4 * (w div 10)) v0 h\<rparr>)"
    by (simp add: gpio_direction_input_def run add.assoc [symmetric] v0_def)
  moreover have "gpio_direction_output B w d = Some (0, d\<lparr>hw := bus_write B (io_base d + GPIO_BASE + 4 * (w div 10)) v1 h\<rparr>)"
    by (simp add: gpio_direction_output_def run add.assoc [symmetric] v1_def)
  moreover have "\<forall>j<10. fsel v0 j = (if j = ?p then 0 else fsel v j) \<and> fsel v1 j = (if j = ?p then 1 else fsel v j)"
    unfolding v0_def v1_def using p(1) by (intro allI impI conjI fsel_update(1)) simp_all
  moreover have "drop_bit 30 v0 = drop_bit 30 v" "drop_bit 30 v1 = drop_bit 30 v"
    unfolding v0_def v1_def using p(1) by (intro fsel_update(2); simp)+
  ultimately show ?thesis by blast
qed

text \<open>A bus whose registers are plain memory.\<close>

definition memory_bus :: "(u32 \<Rightarrow> u32) board" where
  "memory_bus = \<lparr>bus_read = (\<lambda>a h. (h a, h)), bus_write = (\<lambda>a x h. h(a := x))\<rparr>"

definition board_at :: "u32 \<Rightarrow> 'h \<Rightarrow> 'h devices" where
  "board_at base h = \<lparr>hw = h, io_base = base, hardware_type = RPI_MODEL_3B, gpio_reserved = 0, led_gpio = 16,
     led_active_low = 1, led_configured = 0, timer_next_wakeup = 0, blinking_enabled = 1, lit_count = 0,
     num_interrupts = 0\<rparr>"

end
