(* ===== verification/Contracts.thy ===== *)
theory Contracts
  imports Prelude "HOL-Library.Multiset"
begin

text \<open>
  The interfaces between the components, as locales: what a client calls and what the provider
  promises. Each is interpreted in the theory of the component that provides the operations.
\<close>

section \<open>A memory allocator\<close>

text \<open>
  \<open>alloc\<close> returns the null pointer when it fails. \<open>blk p n\<close> are the cells that an allocation of
  size \<open>n\<close> at \<open>p\<close> owns, \<open>used s\<close> the cells in use, \<open>reserved\<close> the cells that are never handed out
  and \<open>ok n\<close> the sizes that may be released.
\<close>

locale allocator =
  fixes alloc :: "'n \<Rightarrow> 's \<Rightarrow> (ptr \<times> 's) option"
    and release :: "ptr \<Rightarrow> 'n \<Rightarrow> 's \<Rightarrow> 's option"
    and used :: "'s \<Rightarrow> 'c set"
    and blk :: "ptr \<Rightarrow> 'n \<Rightarrow> 'c set"
    and reserved :: "'c set"
    and ok :: "'n \<Rightarrow> bool"
    and inv :: "'s \<Rightarrow> bool"
  assumes blk_nonempty: "blk p n \<noteq> {}"
    and reserved_used: "inv s \<Longrightarrow> reserved \<subseteq> used s"
    and alloc_inv: "inv s \<Longrightarrow> alloc n s = Some (p, s') \<Longrightarrow> inv s'"
    and alloc_fail: "inv s \<Longrightarrow> alloc n s = Some (NULL, s') \<Longrightarrow> s' = s"
    and alloc_fresh: "inv s \<Longrightarrow> alloc n s = Some (p, s') \<Longrightarrow> p \<noteq> NULL \<Longrightarrow> blk p n \<inter> used s = {}"
    and alloc_used: "inv s \<Longrightarrow> alloc n s = Some (p, s') \<Longrightarrow> p \<noteq> NULL \<Longrightarrow> used s' = used s \<union> blk p n"
    and release_total: "inv s \<Longrightarrow> ok n \<Longrightarrow> blk p n \<subseteq> used s \<Longrightarrow> blk p n \<inter> reserved = {} \<Longrightarrow>
      \<exists>s'. release p n s = Some s' \<and> inv s' \<and> used s' = used s - blk p n"
begin

lemma fresh_not_reserved:
  "inv s \<Longrightarrow> alloc n s = Some (p, s') \<Longrightarrow> p \<noteq> NULL \<Longrightarrow> blk p n \<inter> reserved = {}"
  using alloc_fresh reserved_used by blast

text \<open>Two allocations that are live at the same time do not overlap.\<close>

lemma two_disjoint:
  assumes "inv s" and "alloc n s = Some (p, s1)" "p \<noteq> NULL" and "alloc k s1 = Some (q, s2)" "q \<noteq> NULL"
  shows "blk p n \<inter> blk q k = {}"
proof -
  have "blk p n \<subseteq> used s1" using alloc_used [OF assms(1,2,3)] by blast
  moreover have "blk q k \<inter> used s1 = {}" using alloc_fresh [OF alloc_inv [OF assms(1,2)] assms(4,5)] .
  ultimately show ?thesis by blast
qed

text \<open>Releasing an allocation restores the cells that were in use.\<close>

lemma alloc_release:
  assumes "inv s" and "alloc n s = Some (p, s1)" "p \<noteq> NULL" and "ok n"
  shows "\<exists>s2. release p n s1 = Some s2 \<and> inv s2 \<and> used s2 = used s"
proof -
  have "blk p n \<subseteq> used s1" using alloc_used [OF assms(1,2,3)] by blast
  from release_total [OF alloc_inv [OF assms(1,2)] assms(4) this fresh_not_reserved [OF assms(1,2,3)]]
  show ?thesis using alloc_used [OF assms(1,2,3)] alloc_fresh [OF assms(1,2,3)] by auto
qed

text \<open>
  A list of live blocks accounts for the used cells when the blocks are pairwise disjoint and,
  with a fixed set \<open>base\<close> that contains the reserved cells, make up all that is in use.
\<close>

definition accounts :: "'c set \<Rightarrow> (ptr \<times> 'n) list \<Rightarrow> 's \<Rightarrow> bool" where
  "accounts base live s \<longleftrightarrow> inv s \<and> reserved \<subseteq> base \<and> distinct live \<and>
     used s = base \<union> (\<Union>(p, n)\<in>set live. blk p n) \<and>
     (\<forall>(p, n)\<in>set live. blk p n \<inter> base = {}) \<and>
     pairwise (\<lambda>(p, n) (q, k). blk p n \<inter> blk q k = {}) (set live)"

lemma accounts_alloc:
  assumes "accounts base live s" and "alloc n s = Some (p, s')" "p \<noteq> NULL"
  shows "accounts base ((p, n) # live) s'"
proof -
  have i: "inv s" using assms(1) by (simp add: accounts_def)
  note a = alloc_inv [OF i assms(2)] alloc_used [OF i assms(2,3)] alloc_fresh [OF i assms(2,3)]
  have d: "blk p n \<inter> base = {}" "\<forall>(q, k)\<in>set live. blk p n \<inter> blk q k = {}"
    using a(3) assms(1) by (auto simp: accounts_def)
  then have "(p, n) \<notin> set live" using blk_nonempty [of p n] by blast
  then show ?thesis
    using assms(1) a d unfolding accounts_def
    by (auto simp: pairwise_insert Int_commute)
qed

lemma accounts_cong:
  "mset live = mset live' \<Longrightarrow> accounts base live s = accounts base live' s"
  unfolding accounts_def by (metis mset_eq_imp_distinct_iff mset_eq_setD)

lemma accounts_member:
  assumes "accounts base live s" and "(p, n) \<in> set live"
  shows "blk p n \<subseteq> used s" and "blk p n \<inter> base = {}" and "inv s"
    and "(q, k) \<in> set live \<Longrightarrow> (q, k) \<noteq> (p, n) \<Longrightarrow> blk q k \<inter> blk p n = {}"
proof -
  show "blk p n \<subseteq> used s" "inv s" using assms by (auto simp: accounts_def)
  show "blk p n \<inter> base = {}" using assms by (fastforce simp: accounts_def)
  show "(q, k) \<in> set live \<Longrightarrow> (q, k) \<noteq> (p, n) \<Longrightarrow> blk q k \<inter> blk p n = {}"
    using pairwiseD [of _ "set live" "(q, k)" "(p, n)"] assms by (auto simp: accounts_def)
qed

lemma accounts_release:
  assumes "accounts base live s" and "(p, n) \<in> set live" and "ok n"
  shows "\<exists>s'. release p n s = Some s' \<and> accounts base (remove1 (p, n) live) s' \<and>
    used s' = used s - blk p n"
proof -
  note m = accounts_member [OF assms(1,2)]
  have r: "blk p n \<inter> reserved = {}" using m(2) assms(1) by (auto simp: accounts_def)
  obtain s' where s': "release p n s = Some s'" "inv s'" "used s' = used s - blk p n"
    using release_total [OF m(3) assms(3) m(1) r] by blast
  have l: "set (remove1 (p, n) live) = set live - {(p, n)}"
    using assms(1) by (simp add: accounts_def)
  let ?rest = "\<Union>(q, k)\<in>set live - {(p, n)}. blk q k"
  have u: "used s = base \<union> (blk p n \<union> ?rest)" using assms(1,2) by (auto simp: accounts_def)
  have "?rest \<inter> blk p n = {}" using m(4) by fastforce
  then have "used s' = base \<union> (\<Union>(q, k)\<in>set (remove1 (p, n) live). blk q k)"
    using s'(3) m(2) unfolding l u by blast
  then have "accounts base (remove1 (p, n) live) s'"
    using assms(1) s'(2) unfolding accounts_def l by (auto simp: pairwise_def)
  with s' show ?thesis by blast
qed

end

section \<open>An ordered table of objects\<close>

text \<open>
  A table that holds a list of distinct objects: \<open>rep s xs\<close> says that the state \<open>s\<close> holds the list
  \<open>xs\<close>, and \<open>live x s\<close> that \<open>x\<close> is an object that may be entered. New entries go to the end.
\<close>

locale ordered_table =
  fixes rep :: "'s \<Rightarrow> 'x list \<Rightarrow> bool"
    and live :: "'x \<Rightarrow> 's \<Rightarrow> bool"
    and enter :: "'x \<Rightarrow> 's \<Rightarrow> 's option"
    and delete :: "'x \<Rightarrow> 's \<Rightarrow> 's option"
  assumes rep_distinct: "rep s xs \<Longrightarrow> distinct xs"
    and rep_unique: "rep s xs \<Longrightarrow> rep s ys \<Longrightarrow> xs = ys"
    and enter_rep: "rep s xs \<Longrightarrow> live x s \<Longrightarrow> x \<notin> set xs \<Longrightarrow> \<exists>s'. enter x s = Some s' \<and> rep s' (xs @ [x])"
    and enter_live: "rep s xs \<Longrightarrow> live x s \<Longrightarrow> x \<notin> set xs \<Longrightarrow> enter x s = Some s' \<Longrightarrow> live y s \<Longrightarrow> live y s'"
    and delete_rep: "rep s xs \<Longrightarrow> x \<in> set xs \<Longrightarrow> \<exists>s'. delete x s = Some s' \<and> rep s' (remove1 x xs)"
begin

lemma enter_delete:
  assumes "rep s xs" and "live x s" and "x \<notin> set xs"
  shows "\<exists>s' s''. enter x s = Some s' \<and> delete x s' = Some s'' \<and> rep s'' xs"
  using enter_rep [OF assms] delete_rep [of _ "xs @ [x]" x] assms(3)
  by (fastforce simp: remove1_append)

text \<open>Entering several objects one after the other keeps their order.\<close>

fun enter_all :: "'x list \<Rightarrow> 's \<Rightarrow> 's option" where
  "enter_all [] s = Some s"
| "enter_all (x # xs) s = do { s' \<leftarrow> enter x s; enter_all xs s' }"

lemma enter_all_rep:
  "rep s ys \<Longrightarrow> distinct (ys @ xs) \<Longrightarrow> \<forall>x\<in>set xs. live x s \<Longrightarrow>
   \<exists>s'. enter_all xs s = Some s' \<and> rep s' (ys @ xs)"
proof (induction xs arbitrary: s ys)
  case Nil
  then show ?case by simp
next
  case (Cons x xs)
  then obtain s' where s': "enter x s = Some s'" "rep s' (ys @ [x])"
    using enter_rep [of s ys x] by auto
  have "\<forall>y\<in>set xs. live y s'" using enter_live [OF Cons.prems(1) _ _ s'(1)] Cons.prems(2,3) by auto
  with Cons.IH [OF s'(2)] Cons.prems(2) s'(1) show ?case by auto
qed

end

section \<open>A round-robin scheduler\<close>

text \<open>
  \<open>rep s R p\<close>: in state \<open>s\<close> the candidates stand in the ring \<open>R\<close> and the last one served is at
  position \<open>p\<close>. When somebody is ready, a step serves the first ready candidate after \<open>p\<close>.
\<close>

locale round_robin =
  fixes rep :: "'s \<Rightarrow> 'p list \<Rightarrow> nat \<Rightarrow> bool"
    and ready :: "'s \<Rightarrow> 'p \<Rightarrow> bool"
    and step :: "'s \<Rightarrow> 's option"
    and cur :: "'s \<Rightarrow> 'p"
  assumes rep_pos: "rep s R p \<Longrightarrow> p < length R"
    and rep_pos_unique: "rep s R p \<Longrightarrow> rep s R p' \<Longrightarrow> p = p'"
    and step_next: "rep s R p \<Longrightarrow> q \<in> set R \<Longrightarrow> ready s q \<Longrightarrow>
      \<exists>s' m. step s = Some s' \<and> 0 < m \<and> m \<le> length R \<and> rep s' R ((p + m) mod length R) \<and>
        cur s' = R ! ((p + m) mod length R) \<and> ready s (cur s') \<and>
        (\<forall>i. 0 < i \<and> i < m \<longrightarrow> \<not> ready s (R ! ((p + i) mod length R)))"
begin

text \<open>How far ahead of position \<open>p\<close> the position \<open>t\<close> is, as a number from 1 to the length.\<close>

definition ahead :: "nat \<Rightarrow> nat \<Rightarrow> nat \<Rightarrow> nat" where
  "ahead n p t = (if p < t then t - p else n + t - p)"

lemma ahead_mod: "p < n \<Longrightarrow> t < n \<Longrightarrow> (p + ahead n p t) mod n = t"
  by (simp add: ahead_def)

lemma ahead_bounds: "p < n \<Longrightarrow> t < n \<Longrightarrow> 0 < ahead n p t \<and> ahead n p t \<le> n"
  by (auto simp: ahead_def)

lemma ahead_less:
  assumes "p < n" and "t < n" and "0 < m" and "m < ahead n p t"
  shows "ahead n ((p + m) mod n) t + m = ahead n p t"
proof -
  have m: "m < n" using ahead_bounds [OF assms(1,2)] assms(4) by linarith
  show ?thesis
  proof (cases "p + m < n")
    case True
    then show ?thesis using assms by (auto simp: ahead_def split: if_splits)
  next
    case False
    then have "(p + m) mod n = p + m - n" using m assms(1) by (simp add: mod_if)
    with False show ?thesis using assms by (auto simp: ahead_def split: if_splits)
  qed
qed

text \<open>One step serves the waiting candidate or comes closer to it.\<close>

lemma step_closer:
  assumes "rep s R p" and "t < length R" and "ready s (R ! t)"
  shows "\<exists>s' p'. step s = Some s' \<and> rep s' R p' \<and> cur s' = R ! p' \<and>
    (p' = t \<or> ahead (length R) p' t < ahead (length R) p t)"
proof -
  let ?n = "length R"
  have p: "p < ?n" using rep_pos [OF assms(1)] .
  obtain s' m where s': "step s = Some s'" "0 < m" "m \<le> ?n" "rep s' R ((p + m) mod ?n)"
    "cur s' = R ! ((p + m) mod ?n)" "\<And>i. 0 < i \<Longrightarrow> i < m \<Longrightarrow> \<not> ready s (R ! ((p + i) mod ?n))"
    using step_next [OF assms(1) nth_mem [OF assms(2)] assms(3)] by blast
  have "m \<le> ahead ?n p t"
  proof (rule ccontr)
    assume "\<not> ?thesis"
    with s'(6) [of "ahead ?n p t"] ahead_bounds [OF p assms(2)] ahead_mod [OF p assms(2)] assms(3)
    show False by simp
  qed
  then have "(p + m) mod ?n = t \<or> ahead ?n ((p + m) mod ?n) t < ahead ?n p t"
    using ahead_less [OF p assms(2) s'(2)] ahead_mod [OF p assms(2)] s'(2)
    by (cases "m = ahead ?n p t") auto
  with s' show ?thesis by blast
qed

text \<open>
  Fairness: between two steps the environment may change everything but the ring and the position.
  A candidate that stays ready is served within one round.
\<close>

lemma fair:
  assumes "\<And>i. rep (S i) R (P i)" and "\<And>i. ready (S i) q" and "q \<in> set R"
    and "\<And>i s'. step (S i) = Some s' \<Longrightarrow> rep s' R (P (Suc i))"
  shows "\<exists>i<length R. \<exists>s'. step (S i) = Some s' \<and> cur s' = q"
proof -
  obtain t where t: "t < length R" "q = R ! t" using assms(3) by (auto simp: in_set_conv_nth)
  have st: "\<exists>s'. step (S i) = Some s' \<and> cur s' = R ! P (Suc i) \<and>
      (P (Suc i) = t \<or> ahead (length R) (P (Suc i)) t < ahead (length R) (P i) t)" for i
    using step_closer [OF assms(1) t(1), of i] assms(2) assms(4) rep_pos_unique t(2) by metis
  have "(\<exists>i<k. P (Suc i) = t) \<or> ahead (length R) (P k) t + k \<le> ahead (length R) (P 0) t" for k
  proof (induction k)
    case (Suc k)
    then show ?case using st [of k] less_Suc_eq by fastforce
  qed simp
  from this [of "length R"] have "\<exists>i<length R. P (Suc i) = t"
    using ahead_bounds [OF rep_pos [OF assms(1)] t(1), of "length R"]
      ahead_bounds [OF rep_pos [OF assms(1)] t(1), of 0] by auto
  with st t(2) show ?thesis by metis
qed

end

section \<open>Queues of sleepers\<close>

text \<open>
  \<open>rep s W\<close>: in state \<open>s\<close> the objects \<open>W q\<close> sleep in queue \<open>q\<close>. Putting an object to sleep appends
  it to a queue; waking a queue makes all its sleepers ready.
\<close>

locale sleep_queues =
  fixes rep :: "'s \<Rightarrow> ('q \<Rightarrow> 'p list) \<Rightarrow> bool"
    and exists_in :: "'p \<Rightarrow> 's \<Rightarrow> bool"
    and ready :: "'s \<Rightarrow> 'p \<Rightarrow> bool"
    and sleep_on :: "'q \<Rightarrow> 'p \<Rightarrow> 's \<Rightarrow> 's option"
    and wake :: "'q \<Rightarrow> 's \<Rightarrow> 's option"
  assumes rep_sleeps: "rep s W \<Longrightarrow> p \<in> set (W q) \<Longrightarrow> \<not> ready s p"
    and sleep_on_rep: "rep s W \<Longrightarrow> exists_in p s \<Longrightarrow> \<forall>r. p \<notin> set (W r) \<Longrightarrow>
      \<exists>s'. sleep_on q p s = Some s' \<and> rep s' (W(q := W q @ [p])) \<and> (\<forall>x. exists_in x s \<longrightarrow> exists_in x s')"
    and wake_rep: "rep s W \<Longrightarrow> \<exists>s'. wake q s = Some s' \<and> rep s' (W(q := [])) \<and>
      (\<forall>x\<in>set (W q). ready s' x) \<and> (\<forall>x. x \<notin> set (W q) \<longrightarrow> ready s' x = ready s x)"
begin

fun sleep_all :: "'q \<Rightarrow> 'p list \<Rightarrow> 's \<Rightarrow> 's option" where
  "sleep_all q [] s = Some s"
| "sleep_all q (p # ps) s = do { s' \<leftarrow> sleep_on q p s; sleep_all q ps s' }"

lemma sleep_all_rep:
  "rep s W \<Longrightarrow> distinct ps \<Longrightarrow> \<forall>p\<in>set ps. exists_in p s \<and> (\<forall>r. p \<notin> set (W r)) \<Longrightarrow>
   \<exists>s'. sleep_all q ps s = Some s' \<and> rep s' (W(q := W q @ ps))"
proof (induction ps arbitrary: s W)
  case Nil
  then show ?case by simp
next
  case (Cons p ps)
  then obtain s' where s': "sleep_on q p s = Some s'" "rep s' (W(q := W q @ [p]))"
    "\<forall>x. exists_in x s \<longrightarrow> exists_in x s'" using sleep_on_rep [of s W p q] by auto
  have "\<forall>x\<in>set ps. exists_in x s' \<and> (\<forall>r. x \<notin> set ((W(q := W q @ [p])) r))" and "distinct ps"
    using Cons.prems(2,3) s'(3) by (auto split: if_splits)
  from Cons.IH [OF s'(2) this(2,1)] obtain s'' where "sleep_all q ps s' = Some s''"
    "rep s'' ((W(q := W q @ [p]))(q := (W(q := W q @ [p])) q @ ps))"
    by blast
  moreover have "(W(q := W q @ [p]))(q := (W(q := W q @ [p])) q @ ps) = W(q := W q @ p # ps)" by simp
  ultimately show ?case using s'(1) by (simp only: sleep_all.simps bind.bind_lunit) blast
qed

text \<open>Everybody who went to sleep on a queue is ready after it has been woken.\<close>

lemma all_woken:
  assumes "rep s W" and "distinct ps" and "\<forall>p\<in>set ps. exists_in p s \<and> (\<forall>r. p \<notin> set (W r))"
  shows "\<exists>s' s''. sleep_all q ps s = Some s' \<and> (\<forall>p\<in>set ps. \<not> ready s' p) \<and> wake q s' = Some s'' \<and>
    (\<forall>p\<in>set ps. ready s'' p) \<and> rep s'' (W(q := []))"
proof -
  obtain s' where s': "sleep_all q ps s = Some s'" "rep s' (W(q := W q @ ps))"
    using sleep_all_rep [OF assms] by blast
  moreover from this have "\<forall>p\<in>set ps. \<not> ready s' p" using rep_sleeps by fastforce
  ultimately show ?thesis using wake_rep [OF s'(2), of q] by auto
qed

end

section \<open>Bounded queues\<close>

text \<open>
  A first-in first-out queue with room for \<open>cap\<close> elements: \<open>items\<close> reads the elements out of a
  state, \<open>put\<close> appends an element or reports a full queue and drops it, \<open>get\<close> takes the oldest
  element or returns \<open>none\<close>.
\<close>

datatype 'a fifo_op = Put 'a | Get

datatype 'a fifo_res = Stored | Dropped | Got 'a

fun fifo_step :: "nat \<Rightarrow> 'a \<Rightarrow> 'a fifo_op \<Rightarrow> 'a list \<Rightarrow> 'a fifo_res \<times> 'a list" where
  "fifo_step cap none (Put x) q = (if length q < cap then (Stored, q @ [x]) else (Dropped, q))"
| "fifo_step cap none Get [] = (Got none, [])"
| "fifo_step cap none Get (x # q) = (Got x, q)"

fun fifo_run :: "nat \<Rightarrow> 'a \<Rightarrow> 'a fifo_op list \<Rightarrow> 'a list \<Rightarrow> 'a fifo_res list \<times> 'a list" where
  "fifo_run cap none [] q = ([], q)"
| "fifo_run cap none (a # as) q =
     (let (r, q1) = fifo_step cap none a q; (rs, q2) = fifo_run cap none as q1 in (r # rs, q2))"

locale bounded_fifo =
  fixes wf :: "'s \<Rightarrow> bool"
    and items :: "'s \<Rightarrow> 'a list"
    and cap :: nat
    and none :: 'a
    and put :: "'a \<Rightarrow> 's \<Rightarrow> (bool \<times> 's) option"
    and get :: "'s \<Rightarrow> ('a \<times> 's) option"
  assumes items_bound: "wf s \<Longrightarrow> length (items s) \<le> cap"
    and put_room: "wf s \<Longrightarrow> length (items s) < cap \<Longrightarrow>
      \<exists>s'. put x s = Some (True, s') \<and> wf s' \<and> items s' = items s @ [x]"
    and put_full: "wf s \<Longrightarrow> length (items s) = cap \<Longrightarrow> put x s = Some (False, s)"
    and get_empty: "wf s \<Longrightarrow> items s = [] \<Longrightarrow> get s = Some (none, s)"
    and get_first: "wf s \<Longrightarrow> items s = x # q \<Longrightarrow> \<exists>s'. get s = Some (x, s') \<and> wf s' \<and> items s' = q"
begin

fun op_step :: "'a fifo_op \<Rightarrow> 's \<Rightarrow> ('a fifo_res \<times> 's) option" where
  "op_step (Put x) s = do { (stored, s') \<leftarrow> put x s; Some (if stored then Stored else Dropped, s') }"
| "op_step Get s = do { (x, s') \<leftarrow> get s; Some (Got x, s') }"

fun op_run :: "'a fifo_op list \<Rightarrow> 's \<Rightarrow> ('a fifo_res list \<times> 's) option" where
  "op_run [] s = Some ([], s)"
| "op_run (a # as) s = do { (r, s1) \<leftarrow> op_step a s; (rs, s2) \<leftarrow> op_run as s1; Some (r # rs, s2) }"

lemma op_step_refines:
  "wf s \<Longrightarrow> \<exists>s'. op_step a s = Some (fst (fifo_step cap none a (items s)), s') \<and> wf s' \<and>
     items s' = snd (fifo_step cap none a (items s))"
proof (cases a)
  case (Put x)
  assume w: "wf s"
  show ?thesis
  proof (cases "length (items s) < cap")
    case True
    with put_room [OF w True, of x] Put show ?thesis by auto
  next
    case False
    with items_bound [OF w] have "length (items s) = cap" by simp
    with put_full [OF w this, of x] Put w show ?thesis by simp
  qed
next
  case Get
  assume w: "wf s"
  show ?thesis
  proof (cases "items s")
    case Nil
    with get_empty [OF w Nil] Get w show ?thesis by simp
  next
    case (Cons x q)
    with get_first [OF w Cons] Get show ?thesis by auto
  qed
qed

text \<open>Every sequence of operations gives the results of the abstract queue.\<close>

lemma op_run_refines:
  "wf s \<Longrightarrow> \<exists>s'. op_run as s = Some (fst (fifo_run cap none as (items s)), s') \<and> wf s' \<and>
     items s' = snd (fifo_run cap none as (items s))"
proof (induction as arbitrary: s)
  case (Cons a as)
  obtain s1 where s1: "op_step a s = Some (fst (fifo_step cap none a (items s)), s1)" "wf s1"
    "items s1 = snd (fifo_step cap none a (items s))" using op_step_refines [OF Cons.prems] by blast
  from Cons.IH [OF s1(2)] s1 show ?case by (auto simp: split_beta Let_def)
qed simp

end

end
