(* ===== verification/Memory.thy ===== *)
theory Memory
  imports Contracts
begin

text \<open>
  The physical memory allocator of \<^verbatim>\<open>kernel/memory/memory.c\<close>: a bitmap of 4096-byte chunks,
  searched from where the last search left off. The static variables of the file are the
  fields of \<open>mem_state\<close>; \<open>ram\<close> is the memory itself, which \<^verbatim>\<open>memory_free\<close> overwrites.

  Chunk numbers are natural numbers: the loops of the source keep them below
  \<open>2^18 + 2^20\<close>, so no \<^verbatim>\<open>int\<close> overflows. An access outside \<^verbatim>\<open>memory_map\<close> is \<^term>\<open>None\<close>.
\<close>

section \<open>State and operations\<close>

definition MAX_MEMORY :: u32 where "MAX_MEMORY = 1073741824"

definition CHUNK_SIZE :: u32 where "CHUNK_SIZE = 4096"

lemmas memory_consts [c_const] = MAX_MEMORY_def CHUNK_SIZE_def

text \<open>\<^verbatim>\<open>MAX_MEMORY/CHUNK_SIZE/32\<close>, the length of \<^verbatim>\<open>memory_map\<close>.\<close>

abbreviation MAP_WORDS :: nat where
  "MAP_WORDS \<equiv> 8192"

record mem_state =
  memory_total :: u32
  memory_map :: "u32 list"
  max_chunk :: nat
  previous_block :: nat
  ram :: "ptr \<Rightarrow> u8"

definition memory_mark_used :: "nat \<Rightarrow> mem_state \<Rightarrow> mem_state option" where
  "memory_mark_used chunk m =
     (let element = chunk div 32; b = chunk mod 32 in
      do { w \<leftarrow> arr_get (memory_map m) element;
           mp \<leftarrow> arr_set (memory_map m) element (w OR push_bit b 1);
           Some (m\<lparr>memory_map := mp\<rparr>) })"

definition memory_mark_free :: "nat \<Rightarrow> mem_state \<Rightarrow> mem_state option" where
  "memory_mark_free chunk m =
     (let element = chunk div 32; b = chunk mod 32 in
      do { w \<leftarrow> arr_get (memory_map m) element;
           mp \<leftarrow> arr_set (memory_map m) element (w AND NOT (push_bit b 1));
           Some (m\<lparr>memory_map := mp\<rparr>) })"

definition memory_test_used :: "mem_state \<Rightarrow> nat \<Rightarrow> bool option" where
  "memory_test_used m chunk =
     (let element = chunk div 32; b = chunk mod 32 in
      do { w \<leftarrow> arr_get (memory_map m) element; Some (w AND push_bit b 1 \<noteq> 0) })"

text \<open>The loops over consecutive chunks; the last argument counts the iterations left.\<close>

fun mark_used_loop :: "nat \<Rightarrow> nat \<Rightarrow> mem_state \<Rightarrow> mem_state option" where
  "mark_used_loop i 0 m = Some m"
| "mark_used_loop i (Suc n) m =
     do { m' \<leftarrow> memory_mark_used i m; mark_used_loop (Suc i) n m' }"

fun mark_free_loop :: "nat \<Rightarrow> nat \<Rightarrow> mem_state \<Rightarrow> mem_state option" where
  "mark_free_loop i 0 m = Some m"
| "mark_free_loop i (Suc n) m =
     do { m' \<leftarrow> memory_mark_free i m; mark_free_loop (Suc i) n m' }"

fun clear_loop :: "nat \<Rightarrow> nat \<Rightarrow> mem_state \<Rightarrow> mem_state option" where
  "clear_loop i 0 m = Some m"
| "clear_loop i (Suc n) m =
     do { mp \<leftarrow> arr_set (memory_map m) i 0; clear_loop (Suc i) n (m\<lparr>memory_map := mp\<rparr>) }"

definition memory_init :: "u32 \<Rightarrow> u32 \<Rightarrow> mem_state \<Rightarrow> (i32 \<times> mem_state) option" where
  "memory_init mtotal memory_kernel m =
     (if mtotal > MAX_MEMORY then Some (-1, m)
      else
        do { m1 \<leftarrow> Some (m\<lparr>max_chunk := unat (mtotal div CHUNK_SIZE)\<rparr>);
             m2 \<leftarrow> clear_loop 0 (max_chunk m1 div 32) m1;
             m3 \<leftarrow> mark_used_loop 0 (unat (memory_kernel div CHUNK_SIZE + 1)) m2;
             Some (0, m3) })"

text \<open>The inner loop of \<^verbatim>\<open>find_free\<close>: \<open>True\<close> when it ran to \<^verbatim>\<open>j==num_chunks\<close>.\<close>

fun run_free :: "mem_state \<Rightarrow> nat \<Rightarrow> nat \<Rightarrow> bool option" where
  "run_free m i 0 = Some True"
| "run_free m i (Suc n) =
     do { u \<leftarrow> memory_test_used m i; if u then Some False else run_free m (Suc i) n }"

text \<open>One of the two search loops: from \<open>i\<close> up to, but without, \<open>lim\<close>.\<close>

function search :: "mem_state \<Rightarrow> nat \<Rightarrow> nat \<Rightarrow> nat \<Rightarrow> nat option option" where
  "search m num_chunks i lim =
     (if i < lim then
        do { u \<leftarrow> memory_test_used m i;
             if \<not> u then
               do { ok \<leftarrow> run_free m i num_chunks;
                    if ok then Some (Some i) else search m num_chunks (Suc i) lim }
             else search m num_chunks (Suc i) lim }
      else Some None)"
  by pat_completeness auto
termination
  by (relation "measure (\<lambda>(m, n, i, lim). lim - i)") auto

declare search.simps [simp del]

text \<open>The result \<^term>\<open>None :: nat option\<close> stands for the return value \<open>-1\<close>.\<close>

definition find_free :: "nat \<Rightarrow> mem_state \<Rightarrow> (nat option \<times> mem_state) option" where
  "find_free num_chunks m =
     do { r \<leftarrow> search m num_chunks (previous_block m) (max_chunk m);
          case r of
            Some i \<Rightarrow> Some (Some i, m\<lparr>previous_block := i + 1\<rparr>)
          | None \<Rightarrow>
              do { r' \<leftarrow> search m num_chunks 0 (previous_block m);
                   case r' of
                     Some i \<Rightarrow> Some (Some i, m\<lparr>previous_block := i + 1\<rparr>)
                   | None \<Rightarrow> Some (None, m) } }"

fun count_free :: "mem_state \<Rightarrow> nat \<Rightarrow> nat \<Rightarrow> nat option" where
  "count_free m i 0 = Some 0"
| "count_free m i (Suc n) =
     do { u \<leftarrow> memory_test_used m i; t \<leftarrow> count_free m (Suc i) n;
          Some (if \<not> u then Suc t else t) }"

definition memory_total_free :: "mem_state \<Rightarrow> i32 option" where
  "memory_total_free m =
     do { total_free \<leftarrow> count_free m 0 (max_chunk m); Some (of_nat total_free * CHUNK_SIZE) }"

definition memory_allocate :: "u32 \<Rightarrow> mem_state \<Rightarrow> (ptr \<times> mem_state) option" where
  "memory_allocate sz m =
     (let size' = (if sz = 0 then 1 else sz);
          num_chunks = unat ((size' - 1) div CHUNK_SIZE + 1) in
      do { (r, m1) \<leftarrow> find_free num_chunks m;
           case r of
             None \<Rightarrow> Some (NULL, m1)
           | Some first_chunk \<Rightarrow>
               do { m2 \<leftarrow> mark_used_loop first_chunk num_chunks m1;
                    Some (of_nat first_chunk * CHUNK_SIZE, m2) } })"

text \<open>The effect of \<^verbatim>\<open>memset(location,'V',size)\<close> on the memory.\<close>

definition ram_fill :: "ptr \<Rightarrow> nat \<Rightarrow> u8 \<Rightarrow> (ptr \<Rightarrow> u8) \<Rightarrow> (ptr \<Rightarrow> u8)" where
  "ram_fill a n c r = (\<lambda>x. if unat (x - a) < n then c else r x)"

text \<open>
  \<^verbatim>\<open>(int)location/CHUNK_SIZE\<close> is a signed division, which truncates towards zero; a negative
  chunk number would index the bitmap below its start.
\<close>

definition memory_free :: "ptr \<Rightarrow> u32 \<Rightarrow> mem_state \<Rightarrow> mem_state option" where
  "memory_free location sz m =
     (let num_chunks = unat ((sz - 1) div CHUNK_SIZE + 1) in
      if sint location \<le> - 4096 then None
      else
        (let first_chunk = nat (sint location div 4096);
             m1 = m\<lparr>ram := ram_fill location (unat sz) 86 (ram m)\<rparr> in
         mark_free_loop first_chunk num_chunks m1))"

definition memory_get_total :: "mem_state \<Rightarrow> u32" where
  "memory_get_total m = memory_total m"

text \<open>
  \<^verbatim>\<open>memory_hierarchy_init\<close>: the caches and the MMU are left aside (their functions have empty
  bodies in \<^verbatim>\<open>armv7-mmu.c\<close>); \<open>len\<close> is the length that \<^verbatim>\<open>hardware_get_memory\<close> reports. The result of
  \<^verbatim>\<open>memory_init\<close> is ignored.
\<close>

definition memory_hierarchy_init :: "u32 \<Rightarrow> u32 \<Rightarrow> mem_state \<Rightarrow> mem_state option" where
  "memory_hierarchy_init len memory_kernel m =
     do { m1 \<leftarrow> Some (m\<lparr>memory_total := len\<rparr>);
          (r, m2) \<leftarrow> memory_init (memory_total m1) memory_kernel m1;
          Some m2 }"

text \<open>The state of the static variables when the kernel starts.\<close>

definition boot_mem :: "(ptr \<Rightarrow> u8) \<Rightarrow> mem_state" where
  "boot_mem r = \<lparr>memory_total = 0, memory_map = replicate MAP_WORDS 0, max_chunk = 0,
     previous_block = 0, ram = r\<rparr>"

section \<open>The set of used chunks\<close>

definition used :: "mem_state \<Rightarrow> nat set" where
  "used m = {c. c < 32 * length (memory_map m) \<and> bit (memory_map m ! (c div 32)) (c mod 32)}"

definition wf_mem :: "mem_state \<Rightarrow> bool" where
  "wf_mem m \<longleftrightarrow> length (memory_map m) = MAP_WORDS \<and> max_chunk m \<le> 32 * MAP_WORDS \<and>
     previous_block m \<le> max_chunk m"

text \<open>The chunks of an allocation of \<open>sz\<close> bytes, and of the block it returns.\<close>

definition chunks_of :: "u32 \<Rightarrow> nat" where
  "chunks_of sz = (unat (if sz = 0 then 1 else sz) - 1) div 4096 + 1"

definition block :: "ptr \<Rightarrow> u32 \<Rightarrow> nat set" where
  "block p sz = {unat p div 4096 ..< unat p div 4096 + chunks_of sz}"

lemma used_simps [simp]:
  "used (m\<lparr>previous_block := b\<rparr>) = used m"
  "used (m\<lparr>max_chunk := c\<rparr>) = used m"
  "used (m\<lparr>ram := r\<rparr>) = used m"
  "used (m\<lparr>memory_total := t\<rparr>) = used m"
  by (simp_all add: used_def)

lemma num_chunks_word:
  assumes "(sz :: u32) \<noteq> 0"
  shows "unat ((sz - 1) div 4096 + 1) = (unat sz - 1) div 4096 + 1"
proof -
  have a: "unat (sz - 1) = unat sz - 1" using assms by (simp add: unat_minus_one)
  have "unat ((sz - 1) div 4096) = (unat sz - 1) div 4096" by (simp add: unat_div a)
  moreover have "(unat sz - 1) div 4096 < 4294967295"
    using unat_u32_bound [of sz] by simp
  ultimately show ?thesis by (subst unat_add_small) simp_all
qed

lemma chunks_of_word:
  "unat (((if sz = 0 then 1 else sz) - 1) div CHUNK_SIZE + 1) = chunks_of sz"
proof -
  have "(if sz = 0 then 1 else sz) \<noteq> (0 :: u32)" by simp
  from num_chunks_word [OF this] show ?thesis by (simp only: chunks_of_def CHUNK_SIZE_def)
qed

lemma chunks_of_pos: "0 < chunks_of sz"
  by (simp add: chunks_of_def)

lemma chunks_of_bound: "chunks_of sz \<le> 1048576"
  using unat_u32_bound [of "if sz = 0 then 1 else sz"] unfolding chunks_of_def by linarith

text \<open>The request fits into its chunks, and less than one chunk is wasted.\<close>

lemma chunks_of_covers: "unat sz \<le> 4096 * chunks_of sz"
  unfolding chunks_of_def by (simp, linarith)

lemma word_test_bit: "(w :: u32) AND push_bit b 1 \<noteq> 0 \<longleftrightarrow> bit w b"
  by (simp add: push_bit_eq_mult and_exp_eq_0_iff_not_bit)

lemma chunk_index_less: "c < 32 * n \<Longrightarrow> c div 32 < (n :: nat)"
  by (simp add: less_mult_imp_div_less mult.commute)

lemma chunk_index_ge: "32 * n \<le> c \<Longrightarrow> (n :: nat) \<le> c div 32"
  by (metis div_le_mono nonzero_mult_div_cancel_left zero_neq_numeral)

lemma memory_test_used_spec:
  "memory_test_used m c = (if c < 32 * length (memory_map m) then Some (c \<in> used m) else None)"
  by (auto simp: memory_test_used_def Let_def used_def word_test_bit chunk_index_less
      chunk_index_ge and_exp_eq_0_iff_not_bit)

lemma same_chunk: "c div 32 = d div 32 \<Longrightarrow> c mod 32 = d mod 32 \<Longrightarrow> c = (d :: nat)"
  by (metis div_mult_mod_eq)

lemma memory_mark_used_spec:
  assumes "c < 32 * length (memory_map m)"
  shows "\<exists>mp. memory_mark_used c m = Some (m\<lparr>memory_map := mp\<rparr>) \<and>
    length mp = length (memory_map m) \<and> used (m\<lparr>memory_map := mp\<rparr>) = insert c (used m)"
proof -
  let ?e = "c div 32"
  let ?mp = "(memory_map m)[?e := memory_map m ! ?e OR push_bit (c mod 32) 1]"
  have e: "?e < length (memory_map m)" using assms by (rule chunk_index_less)
  have "bit (?mp ! (d div 32)) (d mod 32) \<longleftrightarrow> d = c \<or> bit (memory_map m ! (d div 32)) (d mod 32)"
    if "d < 32 * length (memory_map m)" for d
    using e that by (cases "d div 32 = ?e") (auto simp: bit_simps dest: same_chunk)
  then have "used (m\<lparr>memory_map := ?mp\<rparr>) = insert c (used m)"
    using assms by (auto simp: used_def)
  then show ?thesis using e by (intro exI [of _ ?mp]) (simp add: memory_mark_used_def Let_def)
qed

lemma memory_mark_free_spec:
  assumes "c < 32 * length (memory_map m)"
  shows "\<exists>mp. memory_mark_free c m = Some (m\<lparr>memory_map := mp\<rparr>) \<and>
    length mp = length (memory_map m) \<and> used (m\<lparr>memory_map := mp\<rparr>) = used m - {c}"
proof -
  let ?e = "c div 32"
  let ?mp = "(memory_map m)[?e := memory_map m ! ?e AND NOT (push_bit (c mod 32) 1)]"
  have e: "?e < length (memory_map m)" using assms by (rule chunk_index_less)
  have "bit (?mp ! (d div 32)) (d mod 32) \<longleftrightarrow> d \<noteq> c \<and> bit (memory_map m ! (d div 32)) (d mod 32)"
    if "d < 32 * length (memory_map m)" for d
    using e that by (cases "d div 32 = ?e") (auto simp: bit_simps dest: same_chunk)
  then have "used (m\<lparr>memory_map := ?mp\<rparr>) = used m - {c}"
    using assms by (auto simp: used_def)
  then show ?thesis using e by (intro exI [of _ ?mp]) (simp add: memory_mark_free_def Let_def)
qed

lemma mark_used_loop_spec:
  assumes "i + n \<le> 32 * length (memory_map m)"
  shows "\<exists>mp. mark_used_loop i n m = Some (m\<lparr>memory_map := mp\<rparr>) \<and>
    length mp = length (memory_map m) \<and> used (m\<lparr>memory_map := mp\<rparr>) = used m \<union> {i..<i + n}"
  using assms
proof (induction n arbitrary: i m)
  case 0
  then show ?case by (intro exI [of _ "memory_map m"]) simp
next
  case (Suc n)
  then obtain mp where 1: "memory_mark_used i m = Some (m\<lparr>memory_map := mp\<rparr>)"
    and l: "length mp = length (memory_map m)" and u: "used (m\<lparr>memory_map := mp\<rparr>) = insert i (used m)"
    using memory_mark_used_spec [of i m] by auto
  from Suc.prems l obtain mp' where 2:
    "mark_used_loop (Suc i) n (m\<lparr>memory_map := mp\<rparr>) = Some (m\<lparr>memory_map := mp'\<rparr>)"
    "length mp' = length mp" "used (m\<lparr>memory_map := mp'\<rparr>) = insert i (used m) \<union> {Suc i..<Suc i + n}"
    using Suc.IH [of "Suc i" "m\<lparr>memory_map := mp\<rparr>"] u by auto
  have "insert i (used m) \<union> {Suc i..<Suc i + n} = used m \<union> {i..<i + Suc n}" by auto
  with 1 2 l show ?case by (intro exI [of _ mp']) simp
qed

lemma mark_free_loop_spec:
  assumes "i + n \<le> 32 * length (memory_map m)"
  shows "\<exists>mp. mark_free_loop i n m = Some (m\<lparr>memory_map := mp\<rparr>) \<and>
    length mp = length (memory_map m) \<and> used (m\<lparr>memory_map := mp\<rparr>) = used m - {i..<i + n}"
  using assms
proof (induction n arbitrary: i m)
  case 0
  then show ?case by (intro exI [of _ "memory_map m"]) simp
next
  case (Suc n)
  then obtain mp where 1: "memory_mark_free i m = Some (m\<lparr>memory_map := mp\<rparr>)"
    and l: "length mp = length (memory_map m)" and u: "used (m\<lparr>memory_map := mp\<rparr>) = used m - {i}"
    using memory_mark_free_spec [of i m] by auto
  from Suc.prems l obtain mp' where 2:
    "mark_free_loop (Suc i) n (m\<lparr>memory_map := mp\<rparr>) = Some (m\<lparr>memory_map := mp'\<rparr>)"
    "length mp' = length mp" "used (m\<lparr>memory_map := mp'\<rparr>) = used m - {i} - {Suc i..<Suc i + n}"
    using Suc.IH [of "Suc i" "m\<lparr>memory_map := mp\<rparr>"] u by auto
  have "used m - {i} - {Suc i..<Suc i + n} = used m - {i..<i + Suc n}" by auto
  with 1 2 l show ?case by (intro exI [of _ mp']) simp
qed

lemma run_free_spec:
  "i + n \<le> 32 * length (memory_map m) \<Longrightarrow>
   run_free m i n = Some ({i..<i + n} \<inter> used m = {})"
proof (induction n arbitrary: i)
  case 0
  then show ?case by simp
next
  case (Suc n)
  have "{i..<i + Suc n} = insert i {Suc i..<Suc i + n}" by auto
  with Suc show ?case by (auto simp: memory_test_used_spec)
qed

lemma run_free_True:
  "run_free m i n = Some True \<Longrightarrow> 0 < n \<Longrightarrow>
   i + n \<le> 32 * length (memory_map m) \<and> {i..<i + n} \<inter> used m = {}"
proof (induction n arbitrary: i)
  case 0
  then show ?case by simp
next
  case (Suc n)
  have *: "{i..<i + Suc n} = insert i {Suc i..<Suc i + n}" by auto
  show ?case
  proof (cases n)
    case 0
    with Suc show ?thesis by (auto simp: memory_test_used_spec split: if_splits)
  next
    case (Suc k)
    with Suc.prems Suc.IH [of "Suc i"] show ?thesis
      unfolding * by (auto simp: memory_test_used_spec split: if_splits)
  qed
qed

section \<open>The search for free chunks\<close>

text \<open>
  A run of \<open>n\<close> free chunks that starts at \<open>i\<close>. \<open>n\<close> is positive in every call.
\<close>

definition free_run :: "mem_state \<Rightarrow> nat \<Rightarrow> nat \<Rightarrow> bool" where
  "free_run m n i \<longleftrightarrow> {i..<i + n} \<inter> used m = {}"

lemma search_found:
  "search m n i lim = Some (Some j) \<Longrightarrow> 0 < n \<Longrightarrow>
   i \<le> j \<and> j < lim \<and> j + n \<le> 32 * length (memory_map m) \<and> free_run m n j"
proof (induction m n i lim rule: search.induct)
  case (1 m n i lim)
  note s = "1.prems"(1) [unfolded search.simps [of m n i lim]]
  have lt: "i < lim" using s by (auto split: if_splits)
  then obtain u where u: "memory_test_used m i = Some u"
    using s by (auto simp: option_bind_eq_Some)
  show ?case
  proof (cases "u \<or> run_free m i n = Some False")
    case True
    then have "search m n (Suc i) lim = Some (Some j)"
      using s lt u by (auto simp: option_bind_eq_Some split: if_splits)
    moreover have "i < lim \<Longrightarrow> search m n (Suc i) lim = Some (Some j) \<Longrightarrow>
        Suc i \<le> j \<and> j < lim \<and> j + n \<le> 32 * length (memory_map m) \<and> free_run m n j"
      using True "1.IH" u "1.prems"(2) by (cases u) auto
    ultimately show ?thesis using lt by auto
  next
    case False
    then have "run_free m i n = Some True" "j = i"
      using s lt u by (auto simp: option_bind_eq_Some split: if_splits)
    with lt "1.prems"(2) show ?thesis by (auto simp: free_run_def dest: run_free_True)
  qed
qed

text \<open>Inside the bitmap the search always ends, and it misses no run.\<close>

lemma search_complete:
  "lim + n \<le> 32 * length (memory_map m) \<Longrightarrow> 0 < n \<Longrightarrow>
   \<exists>r. search m n i lim = Some r \<and> (r = None \<longrightarrow> (\<forall>j. i \<le> j \<and> j < lim \<longrightarrow> \<not> free_run m n j))"
proof (induction m n i lim rule: search.induct)
  case (1 m n i lim)
  show ?case
  proof (cases "i < lim")
    case False
    then show ?thesis by (auto simp: search.simps [of m n i lim])
  next
    case True
    with "1.prems" have b: "i + n \<le> 32 * length (memory_map m)" "i < 32 * length (memory_map m)"
      by auto
    have t: "memory_test_used m i = Some (i \<in> used m)"
      using b by (simp add: memory_test_used_spec)
    have r: "run_free m i n = Some (free_run m n i)"
      using b by (simp add: run_free_spec free_run_def)
    show ?thesis
    proof (cases "free_run m n i")
      case fr: True
      then have "i \<notin> used m" using "1.prems"(2) by (simp add: free_run_def disjoint_iff)
      with True t r fr show ?thesis by (simp add: search.simps [of m n i lim])
    next
      case nf: False
      have IH: "\<exists>r. search m n (Suc i) lim = Some r \<and>
          (r = None \<longrightarrow> (\<forall>j. Suc i \<le> j \<and> j < lim \<longrightarrow> \<not> free_run m n j))"
        using "1.IH" True t r nf "1.prems" by (cases "i \<in> used m") auto
      moreover have "search m n i lim = search m n (Suc i) lim"
        using True t r nf by (simp add: search.simps [of m n i lim])
      ultimately show ?thesis using nf by (auto simp: Suc_le_eq) (metis le_neq_implies_less)
    qed
  qed
qed

lemma wf_mem_simps [simp]:
  "wf_mem (m\<lparr>ram := r\<rparr>) = wf_mem m"
  "length mp = length (memory_map m) \<Longrightarrow> wf_mem (m\<lparr>memory_map := mp\<rparr>) = wf_mem m"
  by (simp_all add: wf_mem_def)

lemma find_free_found:
  assumes "find_free n m = Some (Some i, m')" and "0 < n" and "wf_mem m"
  shows "i < max_chunk m" "i + n \<le> 32 * MAP_WORDS" "free_run m n i"
    "m' = m\<lparr>previous_block := i + 1\<rparr>"
proof -
  obtain k lim where k: "search m n k lim = Some (Some i)" and lim: "lim \<le> max_chunk m"
    and m': "m' = m\<lparr>previous_block := i + 1\<rparr>"
    using assms(1,3) unfolding find_free_def wf_mem_def
    by (auto simp: option_bind_eq_Some split: option.splits)
  from m' show "m' = m\<lparr>previous_block := i + 1\<rparr>" .
  from search_found [OF k assms(2)] lim assms(3)
  show "i < max_chunk m" "i + n \<le> 32 * MAP_WORDS" "free_run m n i"
    unfolding wf_mem_def by linarith+
qed

text \<open>The two loops together look at every chunk below \<^verbatim>\<open>max_chunk\<close>.\<close>

lemma find_free_none:
  assumes "find_free n m = Some (None, m')" and "0 < n" and "wf_mem m"
    and "max_chunk m + n \<le> 32 * MAP_WORDS" and "i < max_chunk m"
  shows "\<not> free_run m n i" and "m' = m"
proof -
  from assms(1) have s: "search m n (previous_block m) (max_chunk m) = Some None"
    "search m n 0 (previous_block m) = Some None" and "m' = m"
    by (auto simp: find_free_def option_bind_eq_Some split: option.splits)
  then show "m' = m" by simp
  have w: "max_chunk m + n \<le> 32 * length (memory_map m)"
    "previous_block m + n \<le> 32 * length (memory_map m)"
    using assms(3,4) by (auto simp: wf_mem_def)
  show "\<not> free_run m n i"
    using search_complete [OF w(1) assms(2), of "previous_block m"]
      search_complete [OF w(2) assms(2), of 0] s assms(5)
    by (cases "i < previous_block m") auto
qed

lemma find_free_total:
  assumes "wf_mem m" and "0 < n" and "max_chunk m + n \<le> 32 * MAP_WORDS"
  shows "find_free n m \<noteq> None"
proof -
  have w: "max_chunk m + n \<le> 32 * length (memory_map m)"
    "previous_block m + n \<le> 32 * length (memory_map m)"
    using assms(1,3) by (auto simp: wf_mem_def)
  show ?thesis
    using search_complete [OF w(1) assms(2), of "previous_block m"]
      search_complete [OF w(2) assms(2), of 0]
    by (auto simp: find_free_def split: option.splits)
qed

section \<open>Allocation and release\<close>

text \<open>
  The state the kernel runs in: the tables have their sizes and chunk 0 belongs to the kernel,
  so that a successful allocation is never the null pointer.
\<close>

definition mem_inv :: "mem_state \<Rightarrow> bool" where
  "mem_inv m \<longleftrightarrow> wf_mem m \<and> 0 \<in> used m"

lemma chunk_address:
  assumes "i < 262144"
  shows "unat ((of_nat i :: u32) * CHUNK_SIZE) = i * 4096"
proof -
  have "(of_nat i :: u32) * CHUNK_SIZE = of_nat (i * 4096)" by (simp add: CHUNK_SIZE_def)
  with assms show ?thesis by (simp only: unat_of_nat_small)
qed

lemma chunk_address_eq_0:
  assumes "i < 262144"
  shows "(of_nat i :: u32) * CHUNK_SIZE = 0 \<longleftrightarrow> i = 0"
  using chunk_address [OF assms] by (metis mult_eq_0_iff unat_0 unat_eq_zero zero_neq_numeral)

lemma memory_allocate_cases:
  assumes "memory_allocate sz m = Some (p, m')" and "mem_inv m"
  obtains (fail) "p = NULL" "find_free (chunks_of sz) m = Some (None, m')" "m' = m"
  | (ok) i mp where "find_free (chunks_of sz) m = Some (Some i, m\<lparr>previous_block := i + 1\<rparr>)"
      "p = of_nat i * CHUNK_SIZE" "unat p = i * 4096" "p \<noteq> NULL"
      "m' = m\<lparr>previous_block := i + 1, memory_map := mp\<rparr>" "length mp = length (memory_map m)"
      "used m' = used m \<union> {i..<i + chunks_of sz}" "free_run m (chunks_of sz) i"
      "i < max_chunk m"
proof -
  let ?n = "chunks_of sz"
  have wf: "wf_mem m" and z: "0 \<in> used m" using assms(2) by (auto simp: mem_inv_def)
  from assms(1) obtain r m1 where f: "find_free ?n m = Some (r, m1)"
    and rest: "(case r of None \<Rightarrow> Some (NULL, m1)
           | Some i \<Rightarrow> do { m2 \<leftarrow> mark_used_loop i ?n m1; Some (of_nat i * CHUNK_SIZE, m2) })
         = Some (p, m')"
    unfolding memory_allocate_def chunks_of_word Let_def by (auto simp: option_bind_eq_Some)
  show ?thesis
  proof (cases r)
    case None
    with f have "m1 = m" by (auto simp: find_free_def option_bind_eq_Some split: option.splits)
    then show ?thesis by (intro fail) (use None f rest in simp_all)
  next
    case (Some i)
    note ff = find_free_found [OF f [unfolded Some] chunks_of_pos wf]
    let ?m1 = "m\<lparr>previous_block := i + 1\<rparr>"
    from ff(2) wf have "i + ?n \<le> 32 * length (memory_map ?m1)" by (simp add: wf_mem_def)
    from mark_used_loop_spec [OF this] obtain mp where
      mp: "mark_used_loop i ?n ?m1 = Some (?m1\<lparr>memory_map := mp\<rparr>)" "length mp = length (memory_map m)"
        "used (?m1\<lparr>memory_map := mp\<rparr>) = used m \<union> {i..<i + ?n}"
      by auto
    have i: "i < 262144" using ff(1) wf by (simp add: wf_mem_def)
    have "i \<noteq> 0" using ff(3) z chunks_of_pos [of sz] by (auto simp: free_run_def)
    with i have "of_nat i * CHUNK_SIZE \<noteq> (0 :: u32)" by (simp add: chunk_address_eq_0)
    note p = this
    have pm: "p = of_nat i * CHUNK_SIZE" "m' = m\<lparr>previous_block := i + 1, memory_map := mp\<rparr>"
      using rest mp(1) ff(4) unfolding Some by simp_all
    show ?thesis
      by (rule ok [of i mp]) (use f ff mp p pm chunk_address [OF i] in \<open>simp_all add: Some\<close>)
  qed
qed

lemma allocate_disjoint:
  assumes "memory_allocate sz m = Some (p, m')" and "mem_inv m" and "p \<noteq> NULL"
  shows "block p sz \<inter> used m = {}" and "used m' = used m \<union> block p sz"
    and "unat p mod 4096 = 0" and "unat p < 4096 * max_chunk m"
  using memory_allocate_cases [OF assms(1,2)] assms(3)
  by (cases; simp add: block_def free_run_def)+

lemma allocate_null:
  assumes "memory_allocate sz m = Some (NULL, m')" and "mem_inv m"
  shows "m' = m" and "max_chunk m + chunks_of sz \<le> 32 * MAP_WORDS \<Longrightarrow> i < max_chunk m \<Longrightarrow>
    \<not> free_run m (chunks_of sz) i"
proof -
  have f: "find_free (chunks_of sz) m = Some (None, m')" "m' = m"
    using memory_allocate_cases [OF assms] by (cases; simp)+
  then show "m' = m" by simp
  have "wf_mem m" using assms(2) by (simp add: mem_inv_def)
  then show "max_chunk m + chunks_of sz \<le> 32 * MAP_WORDS \<Longrightarrow> i < max_chunk m \<Longrightarrow>
      \<not> free_run m (chunks_of sz) i"
    using find_free_none [OF f(1) chunks_of_pos] by blast
qed

lemma allocate_inv:
  assumes "memory_allocate sz m = Some (p, m')" and "mem_inv m"
  shows "mem_inv m'" and "max_chunk m' = max_chunk m" and "ram m' = ram m"
    and "memory_total m' = memory_total m"
  using memory_allocate_cases [OF assms] assms(2)
  by (cases; auto simp: mem_inv_def wf_mem_def)+

lemma allocate_total:
  assumes "mem_inv m" and "max_chunk m + chunks_of sz \<le> 32 * MAP_WORDS"
  shows "\<exists>p m'. memory_allocate sz m = Some (p, m')"
proof -
  have wf: "wf_mem m" using assms(1) by (simp add: mem_inv_def)
  obtain r m1 where f: "find_free (chunks_of sz) m = Some (r, m1)"
    using find_free_total [OF wf chunks_of_pos assms(2)] by auto
  show ?thesis
  proof (cases r)
    case None
    with f show ?thesis unfolding memory_allocate_def chunks_of_word Let_def by simp
  next
    case (Some i)
    note ff = find_free_found [OF f [unfolded Some] chunks_of_pos wf]
    from ff(2,4) wf have "i + chunks_of sz \<le> 32 * length (memory_map m1)" by (simp add: wf_mem_def)
    from mark_used_loop_spec [OF this] Some f show ?thesis
      unfolding memory_allocate_def chunks_of_word Let_def by auto
  qed
qed

lemma memory_free_spec:
  assumes "sz \<noteq> 0" and "0 \<le> sint p" and "unat p div 4096 + chunks_of sz \<le> 32 * length (memory_map m)"
  shows "\<exists>mp. memory_free p sz m =
      Some (m\<lparr>ram := ram_fill p (unat sz) 86 (ram m), memory_map := mp\<rparr>) \<and>
    length mp = length (memory_map m) \<and>
    used (m\<lparr>ram := ram_fill p (unat sz) 86 (ram m), memory_map := mp\<rparr>) = used m - block p sz"
proof -
  have n: "unat ((sz - 1) div CHUNK_SIZE + 1) = chunks_of sz"
    using chunks_of_word [of sz] assms(1) by simp
  have "sint p = int (unat p)" using assms(2) by (rule unat_of_sint)
  then have c: "nat (sint p div 4096) = unat p div 4096" by (simp add: nat_div_distrib)
  show ?thesis
    using mark_free_loop_spec [of "unat p div 4096" "chunks_of sz"
        "m\<lparr>ram := ram_fill p (unat sz) 86 (ram m)\<rparr>"] assms
    by (simp add: memory_free_def Let_def n c block_def del: One_nat_def)
qed

lemma used_bound: "used m \<subseteq> {..<32 * length (memory_map m)}"
  by (auto simp: used_def)

lemma block_nonempty: "unat p div 4096 \<in> block p sz"
  using chunks_of_pos [of sz] by (simp add: block_def)

lemma block_below:
  assumes "block p sz \<subseteq> {..<n}"
  shows "unat p div 4096 + chunks_of sz \<le> n"
proof -
  have "unat p div 4096 + chunks_of sz - 1 \<in> block p sz"
    using chunks_of_pos [of sz] unfolding block_def by simp
  with assms show ?thesis using chunks_of_pos [of sz] by auto
qed

lemma block_low_pointer:
  assumes "block p sz \<subseteq> {..<262144}"
  shows "0 \<le> sint p"
proof -
  have "unat p div 4096 < 262144" using block_below [OF assms] chunks_of_pos [of sz] by linarith
  then have "unat p < 2147483648" by (simp add: div_less_iff_less_mult)
  then show ?thesis by (simp add: sint_nonneg_iff)
qed

interpretation mm: allocator memory_allocate memory_free used block "{0}" "\<lambda>sz. sz \<noteq> 0" mem_inv
proof
  fix s :: mem_state and n :: u32 and p :: ptr
  assume i: "mem_inv s" and n: "n \<noteq> 0" and b: "block p n \<subseteq> used s" "block p n \<inter> {0} = {}"
  have l: "length (memory_map s) = MAP_WORDS" using i by (simp add: mem_inv_def wf_mem_def)
  with b(1) used_bound [of s] have sub: "block p n \<subseteq> {..<262144}" by auto
  have le: "unat p div 4096 + chunks_of n \<le> 32 * length (memory_map s)"
    using block_below [OF sub] l by simp
  obtain mp where f: "memory_free p n s =
      Some (s\<lparr>ram := ram_fill p (unat n) 86 (ram s), memory_map := mp\<rparr>)"
    "length mp = length (memory_map s)"
    "used (s\<lparr>ram := ram_fill p (unat n) 86 (ram s), memory_map := mp\<rparr>) = used s - block p n"
    using memory_free_spec [OF n block_low_pointer [OF sub] le] by blast
  then show "\<exists>s'. memory_free p n s = Some s' \<and> mem_inv s' \<and> used s' = used s - block p n"
    using i b(2) by (auto simp: mem_inv_def)
qed (use block_nonempty in blast, auto simp: mem_inv_def intro: allocate_inv [unfolded mem_inv_def] dest: allocate_null(1)
    allocate_disjoint(1,2) allocate_inv(1))

section \<open>Boot\<close>

lemma clear_loop_spec:
  "i + n \<le> length (memory_map m) \<Longrightarrow>
   \<exists>mp. clear_loop i n m = Some (m\<lparr>memory_map := mp\<rparr>) \<and> length mp = length (memory_map m) \<and>
     (\<forall>k < length mp. mp ! k = (if i \<le> k \<and> k < i + n then 0 else memory_map m ! k))"
proof (induction n arbitrary: i m)
  case 0
  then show ?case by (intro exI [of _ "memory_map m"]) auto
next
  case (Suc n)
  let ?m = "m\<lparr>memory_map := (memory_map m)[i := 0]\<rparr>"
  from Suc.prems obtain mp where "clear_loop (Suc i) n ?m = Some (m\<lparr>memory_map := mp\<rparr>)"
    "length mp = length (memory_map m)"
    "\<forall>k < length mp. mp ! k = (if Suc i \<le> k \<and> k < Suc i + n then 0 else (memory_map m)[i := 0] ! k)"
    using Suc.IH [of "Suc i" ?m] by auto
  with Suc.prems show ?case by (intro exI [of _ mp]) (auto simp: nth_list_update)
qed

lemma used_zero_map: "\<forall>k < length (memory_map m). memory_map m ! k = 0 \<Longrightarrow> used m = {}"
  by (auto simp: used_def chunk_index_less)

lemma boot_mem_simps [simp]:
  "used (boot_mem r) = {}" "length (memory_map (boot_mem r)) = MAP_WORDS"
  "max_chunk (boot_mem r) = 0" "previous_block (boot_mem r) = 0" "ram (boot_mem r) = r"
  by (simp_all add: boot_mem_def used_zero_map)

lemma memory_init_boot:
  assumes "mtotal \<le> MAX_MEMORY" and "unat memory_kernel < 1073741824"
  shows "\<exists>m. memory_init mtotal memory_kernel ((boot_mem r)\<lparr>memory_total := t\<rparr>) = Some (0, m) \<and>
    mem_inv m \<and> used m = {0..unat memory_kernel div 4096} \<and> max_chunk m = unat mtotal div 4096 \<and>
    previous_block m = 0 \<and> memory_total m = t \<and> ram m = r"
proof -
  let ?m0 = "(boot_mem r)\<lparr>memory_total := t\<rparr>"
  let ?m1 = "?m0\<lparr>max_chunk := unat (mtotal div CHUNK_SIZE)\<rparr>"
  have mc: "unat (mtotal div CHUNK_SIZE) = unat mtotal div 4096"
    by (simp add: CHUNK_SIZE_def unat_div)
  have le: "unat mtotal \<le> 1073741824"
    using assms(1) by (simp add: word_le_nat_alt MAX_MEMORY_def)
  then have mc_le: "unat mtotal div 4096 \<le> 262144" using div_le_mono [OF le, of 4096] by simp
  have k: "unat (memory_kernel div CHUNK_SIZE + 1) = unat memory_kernel div 4096 + 1"
    using assms(2) by (subst unat_add_small) (simp_all add: CHUNK_SIZE_def unat_div)
  have k_le: "unat memory_kernel div 4096 + 1 \<le> 262144" using assms(2) by simp
  have "0 + max_chunk ?m1 div 32 \<le> length (memory_map ?m1)"
    using div_le_mono [OF mc_le, of 32] by (simp add: mc)
  from clear_loop_spec [OF this] obtain mp where c: "clear_loop 0 (max_chunk ?m1 div 32) ?m1 =
      Some (?m1\<lparr>memory_map := mp\<rparr>)" and lmp: "length mp = MAP_WORDS"
    and z: "\<forall>k < length mp. mp ! k = 0"
    by (auto simp: boot_mem_def)
  let ?m2 = "?m1\<lparr>memory_map := mp\<rparr>"
  have u2: "used ?m2 = {}" using z by (intro used_zero_map) simp
  have "0 + (unat memory_kernel div 4096 + 1) \<le> 32 * length (memory_map ?m2)"
    using k_le lmp by simp
  from mark_used_loop_spec [OF this] u2 obtain mp' where
    m: "mark_used_loop 0 (unat memory_kernel div 4096 + 1) ?m2 = Some (?m2\<lparr>memory_map := mp'\<rparr>)"
      "length mp' = MAP_WORDS" "used (?m2\<lparr>memory_map := mp'\<rparr>) = {0..unat memory_kernel div 4096}"
    using lmp by (auto simp: atLeastLessThanSuc_atLeastAtMost)
  have "mem_inv (?m2\<lparr>memory_map := mp'\<rparr>)"
    using m(2,3) mc_le by (simp add: mem_inv_def wf_mem_def mc)
  then show ?thesis
    using assms(1) c m by (intro exI [of _ "?m2\<lparr>memory_map := mp'\<rparr>"])
      (simp add: memory_init_def k mc not_less del: mark_used_loop.simps)
qed

text \<open>
  C4: From a state that satisfies the allocator's invariant, \<^verbatim>\<open>memory_allocate\<close> keeps the invariant;
  a null result changes nothing, and a non-null result is the address of a chunk below
  \<^verbatim>\<open>max_chunk\<close> whose block was free and is now exactly what has been added to the used chunks. The
  block is large enough for the request.
\<close>

theorem memory_allocate_correct:
  assumes "mem_inv m" and "memory_allocate sz m = Some (p, m')"
  shows "mem_inv m' \<and> unat sz \<le> 4096 * card (block p sz) \<and>
    (if p = NULL then m' = m
     else unat p mod 4096 = 0 \<and> unat p < 4096 * max_chunk m \<and> block p sz \<inter> used m = {} \<and>
       used m' = used m \<union> block p sz)"
  using allocate_inv(1) [OF assms(2,1)] allocate_disjoint [OF assms(2,1)]
    allocate_null(1) [OF _ assms(1)] assms(2) chunks_of_covers [of sz]
  by (auto simp: block_def)

lemma boot_64k:
  "\<exists>m. memory_init 65536 20000 ((boot_mem r)\<lparr>memory_total := t\<rparr>) = Some (0, m) \<and>
    mem_inv m \<and> used m = {0..4} \<and> max_chunk m = 16 \<and> previous_block m = 0 \<and> ram m = r"
  using memory_init_boot [where mtotal = 65536 and memory_kernel = 20000 and r = r and t = t]
  by (auto simp: MAX_MEMORY_def)

theorem memory_allocate_correct_witness:
  "\<exists>m p m'. mem_inv m \<and> memory_allocate 8192 m = Some (p, m') \<and> mem_inv m' \<and>
    8192 \<le> 4096 * card (block p 8192)"
proof -
  obtain m where m: "mem_inv m" "max_chunk m = 16" using boot_64k by blast
  then obtain p m' where a: "memory_allocate 8192 m = Some (p, m')"
    using allocate_total [of m 8192] by (auto simp: chunks_of_def)
  show ?thesis using memory_allocate_correct [OF m(1) a] m(1) a by auto
qed



text \<open>
  The client's view: a run of the kernel allocates blocks and releases blocks it owns. The live
  blocks are kept as a list beside the state; a failed allocation leaves the list alone.
\<close>

inductive mem_run :: "mem_state \<Rightarrow> (ptr \<times> u32) list \<Rightarrow> mem_state \<Rightarrow> bool" for m0 where
  start: "mem_run m0 [] m0"
| alloc: "mem_run m0 live m \<Longrightarrow> memory_allocate sz m = Some (p, m') \<Longrightarrow> p \<noteq> NULL \<Longrightarrow>
    mem_run m0 ((p, sz) # live) m'"
| alloc_fail: "mem_run m0 live m \<Longrightarrow> memory_allocate sz m = Some (NULL, m') \<Longrightarrow>
    mem_run m0 live m'"
| release: "mem_run m0 live m \<Longrightarrow> (p, sz) \<in> set live \<Longrightarrow> sz \<noteq> 0 \<Longrightarrow>
    memory_free p sz m = Some m' \<Longrightarrow> mem_run m0 (remove1 (p, sz) live) m'"

lemma mem_run_accounts:
  "mem_run m0 live m \<Longrightarrow> mem_inv m0 \<Longrightarrow> mm.accounts (used m0) live m"
proof (induction rule: mem_run.induct)
  case start
  then have "0 \<in> used m0" by (simp add: mem_inv_def)
  with start show ?case by (simp add: mm.accounts_def)
next
  case (alloc live m sz p m')
  then show ?case by (simp add: mm.accounts_alloc)
next
  case (alloc_fail live m sz m')
  then have "m' = m" using mm.alloc_fail by (auto simp: mm.accounts_def)
  with alloc_fail show ?case by simp
next
  case (release live m p sz m')
  then show ?case using mm.accounts_release by fastforce
qed



text \<open>
  Allocating and then releasing restores the used chunks, and fills the released block with
  the byte \<^verbatim>\<open>'V'\<close>.
\<close>

lemma memory_free_undoes_allocate:
  assumes "mem_inv m" and "memory_allocate sz m = Some (p, m1)" and "p \<noteq> NULL" and "sz \<noteq> 0"
  shows "\<exists>m2. memory_free p sz m1 = Some m2 \<and> mem_inv m2 \<and> used m2 = used m \<and>
    (\<forall>a. ram m2 a = (if unat (a - p) < unat sz then 86 else ram m a))"
proof -
  obtain m2 where m2: "memory_free p sz m1 = Some m2" "mem_inv m2" "used m2 = used m"
    using mm.alloc_release [OF assms(1,2,3)] assms(4) by blast
  have "ram m' = ram k" if "mark_free_loop i n k = Some m'" for i n k m'
    using that by (induction n arbitrary: i k)
      (auto simp: option_bind_eq_Some memory_mark_free_def Let_def)
  then have "ram m2 = ram_fill p (unat sz) 86 (ram m1)"
    using m2(1) by (force simp: memory_free_def Let_def split: if_splits)
  with m2 allocate_inv(3) [OF assms(2,1)] show ?thesis by (auto simp: ram_fill_def)
qed

lemma count_free_spec:
  "i + n \<le> 32 * length (memory_map m) \<Longrightarrow> count_free m i n = Some (card ({i..<i + n} - used m))"
proof (induction n arbitrary: i)
  case 0
  then show ?case by simp
next
  case (Suc n)
  have "{i..<i + Suc n} - used m =
      (if i \<in> used m then {Suc i..<Suc i + n} - used m else insert i ({Suc i..<Suc i + n} - used m))"
    by (auto simp: not_le less_Suc_eq_le) (metis Suc_leI le_neq_implies_less)+
  with Suc show ?case by (simp add: memory_test_used_spec)
qed

text \<open>
  \<^verbatim>\<open>memory_total_free\<close> returns 4096 times the number of free chunks below \<^verbatim>\<open>max_chunk\<close>, without
  overflow: the result is non-negative as the signed integer that it is.
\<close>

lemma memory_total_free_correct:
  assumes "wf_mem m"
  shows "\<exists>t. memory_total_free m = Some t \<and> sint t = 4096 * int (card ({..<max_chunk m} - used m))"
proof -
  let ?k = "card ({..<max_chunk m} - used m)"
  have "?k \<le> max_chunk m" using card_mono [of "{..<max_chunk m}" "{..<max_chunk m} - used m"] by auto
  then have k: "?k \<le> 262144" using assms by (simp add: wf_mem_def)
  have "of_nat ?k * CHUNK_SIZE = (of_nat (?k * 4096) :: u32)" by (simp add: CHUNK_SIZE_def)
  then have u: "unat (of_nat ?k * CHUNK_SIZE :: u32) = ?k * 4096"
    using k by (simp only: unat_of_nat_small)
  then have "0 \<le> sint (of_nat ?k * CHUNK_SIZE :: u32)" using k by (simp add: sint_nonneg_iff)
  then have "sint (of_nat ?k * CHUNK_SIZE :: u32) = 4096 * int ?k" using u unat_of_sint by fastforce
  moreover have "count_free m 0 (max_chunk m) = Some ?k"
    using count_free_spec [of 0 "max_chunk m" m] assms by (simp add: wf_mem_def atLeast0LessThan)
  ultimately show ?thesis by (simp add: memory_total_free_def)
qed

theorem memory_total_free_correct_witness:
  "\<exists>m t. wf_mem m \<and> max_chunk m = 16 \<and> used m = {0..4} \<and> memory_total_free m = Some t \<and> sint t = 45056"
proof -
  obtain m where m: "mem_inv m" "max_chunk m = 16" "used m = {0..4}" using boot_64k by blast
  have "{..<16 :: nat} - {0..4} = {5..<16}" by auto
  then show ?thesis using memory_total_free_correct [of m] m by (auto simp: mem_inv_def)
qed

text \<open>
  After boot the allocator's invariant holds and the used chunks are exactly those that the
  kernel image covers, for any memory of at most 1 GB and any kernel below 1 GB.
\<close>

lemma memory_hierarchy_init_establishes:
  assumes "len \<le> MAX_MEMORY" and "unat memory_kernel < 1073741824"
  shows "\<exists>m. memory_hierarchy_init len memory_kernel (boot_mem r) = Some m \<and> mem_inv m \<and>
    used m = {0..unat memory_kernel div 4096} \<and> max_chunk m = unat len div 4096 \<and>
    memory_get_total m = len"
  using memory_init_boot [OF assms, where t = len and r = r]
  by (auto simp: memory_hierarchy_init_def memory_get_total_def)

section \<open>Where the allocator breaks its contract\<close>

text \<open>
  C40: \<^verbatim>\<open>find_free\<close> compares only the first chunk with \<^verbatim>\<open>max_chunk\<close>. When the last chunk of memory
  is free and a request needs more than one, the block that is returned runs past the end of
  physical memory.
\<close>

theorem memory_allocate_past_end:
  assumes "mem_inv m" and "max_chunk m + chunks_of sz \<le> 32 * MAP_WORDS" and "1 < chunks_of sz"
    and "used m = {..<max_chunk m - 1}" and "0 < max_chunk m"
  shows "\<exists>p m'. memory_allocate sz m = Some (p, m') \<and> p \<noteq> NULL \<and> \<not> block p sz \<subseteq> {..<max_chunk m}"
proof -
  obtain p m' where a: "memory_allocate sz m = Some (p, m')"
    using allocate_total [OF assms(1,2)] by blast
  have "free_run m (chunks_of sz) (max_chunk m - 1)"
    unfolding free_run_def assms(4) by (simp add: disjoint_iff)
  then have p: "p \<noteq> NULL" using allocate_null(2) a assms(1,2,5) by (metis diff_less zero_less_one)
  have "unat p div 4096 \<notin> used m"
    using allocate_disjoint(1) [OF a assms(1) p] block_nonempty [of p sz] by blast
  then have "max_chunk m - 1 \<le> unat p div 4096" unfolding assms(4) by simp
  then have "max_chunk m \<in> block p sz \<or> max_chunk m \<le> unat p div 4096"
    using assms(3) by (auto simp: block_def)
  then have "\<not> block p sz \<subseteq> {..<max_chunk m}" using block_nonempty [of p sz] by auto
  with a p show ?thesis by blast
qed

theorem memory_allocate_past_end_witness:
  "\<exists>m p m'. max_chunk m = 6 \<and> memory_allocate 8192 m = Some (p, m') \<and> p \<noteq> NULL \<and>
    \<not> block p 8192 \<subseteq> {..<6}"
proof -
  obtain m where m: "mem_inv m" "used m = {0..4}" "max_chunk m = 6"
    using memory_init_boot [where mtotal = 24576 and memory_kernel = 20000 and r = "\<lambda>a. 0" and t = 0]
    by (auto simp: MAX_MEMORY_def)
  have u: "used m = {..<max_chunk m - 1}" unfolding m(2,3) by auto
  have c: "chunks_of 8192 = 2" by (simp add: chunks_of_def)
  have "\<exists>p m'. memory_allocate 8192 m = Some (p, m') \<and> p \<noteq> NULL \<and>
      \<not> block p 8192 \<subseteq> {..<max_chunk m}"
    by (rule memory_allocate_past_end [OF m(1) _ _ u]) (simp_all add: m(3) c)
  with m(3) show ?thesis by metis
qed

lemma mark_free_loop_out:
  "32 * length (memory_map m) < i + n \<Longrightarrow> 0 < n \<Longrightarrow> mark_free_loop i n m = None"
proof (induction n arbitrary: i m)
  case 0
  then show ?case by simp
next
  case (Suc n)
  show ?case
  proof (cases "i < 32 * length (memory_map m)")
    case True
    then obtain mp where "memory_mark_free i m = Some (m\<lparr>memory_map := mp\<rparr>)"
      "length mp = length (memory_map m)" using memory_mark_free_spec [of i m] by blast
    with Suc True show ?thesis by (cases n) simp_all
  next
    case False
    then show ?thesis by (simp add: memory_mark_free_def Let_def chunk_index_ge not_less)
  qed
qed

text \<open>
  \<^verbatim>\<open>memory_free\<close> does not have the adjustment of a zero size that \<^verbatim>\<open>memory_allocate\<close> has:
  \<^verbatim>\<open>size-1\<close> wraps around and the loop clears \<open>2^20\<close> chunks, which runs out of the bitmap. So a
  block allocated with size 0 cannot be released with the same size.
\<close>

lemma memory_free_size_zero:
  assumes "wf_mem m"
  shows "memory_free p 0 m = None"
proof -
  have n: "unat ((0 - 1 :: u32) div CHUNK_SIZE + 1) = 1048576"
    by (simp add: CHUNK_SIZE_def unat_div unat_word_ariths)
  have "mark_free_loop i 1048576 (m\<lparr>ram := r\<rparr>) = None" for i r
    by (rule mark_free_loop_out) (use assms in \<open>simp_all add: wf_mem_def\<close>)
  then show ?thesis unfolding memory_free_def Let_def n by simp
qed

theorem memory_free_size_zero_witness:
  "wf_mem (boot_mem (\<lambda>a. 0)) \<and> memory_free 4096 0 (boot_mem (\<lambda>a. 0)) = None"
proof -
  have "wf_mem (boot_mem (\<lambda>a. 0))" by (simp add: wf_mem_def)
  then show ?thesis using memory_free_size_zero by simp
qed

end
