(* ===== verification/CString.thy ===== *)
theory CString
  imports Prelude
begin

text \<open>
  The string and block-memory routines of \<^verbatim>\<open>kernel/lib/string.c\<close>, \<^verbatim>\<open>kernel/lib/memcpy.c\<close>
  and \<^verbatim>\<open>kernel/lib/memset.c\<close>, and the string routines of \<^verbatim>\<open>userspace/vlibc/string.c\<close>.
  A \<^verbatim>\<open>char *\<close> argument is the list of bytes from the pointer to the end of the object it
  points into, so an access past the object is \<^term>\<open>None\<close>; \<^verbatim>\<open>char\<close> is unsigned, as on ARM.
  A routine that writes through a pointer returns the new contents.
\<close>

type_synonym buf = "u8 list"

section \<open>Abstract view of a C string\<close>

definition cstr :: "buf \<Rightarrow> u8 list" where
  "cstr s = takeWhile (\<lambda>c. c \<noteq> 0) s"

definition terminated :: "buf \<Rightarrow> bool" where
  "terminated s = (0 \<in> set s)"

text \<open>The bytes of a string literal, with its terminating nul.\<close>

definition lit :: "string \<Rightarrow> buf" where
  "lit s = map (\<lambda>c. of_nat (of_char c)) s @ [0]"

section \<open>kernel/lib/string.c\<close>

fun strncmp_from :: "buf \<Rightarrow> buf \<Rightarrow> nat \<Rightarrow> nat \<Rightarrow> int option" where
  "strncmp_from s1 s2 i 0 = Some 0"
| "strncmp_from s1 s2 i (Suc n) =
     do { a \<leftarrow> arr_get s1 i; b \<leftarrow> arr_get s2 i;
          let r = uint a - uint b;
          if r \<noteq> 0 then Some r
          else if a = 0 then Some 0
          else strncmp_from s1 s2 (Suc i) n }"

definition strncmp :: "buf \<Rightarrow> buf \<Rightarrow> nat \<Rightarrow> int option" where
  "strncmp s1 s2 n = strncmp_from s1 s2 0 n"

function memcmp_from :: "buf \<Rightarrow> buf \<Rightarrow> nat \<Rightarrow> nat \<Rightarrow> int option" where
  "memcmp_from s1 s2 i n =
     (if i = n then Some 0
      else do { a \<leftarrow> arr_get s1 i; b \<leftarrow> arr_get s2 i;
                let r = uint a - uint b;
                if r \<noteq> 0 then Some r else memcmp_from s1 s2 (Suc i) n })"
  by pat_completeness auto
termination
  by (relation "measure (\<lambda>(s1, s2, i, n). length s1 - i)") (auto simp: arr_get_eq_Some)

definition memcmp :: "buf \<Rightarrow> buf \<Rightarrow> nat \<Rightarrow> int option" where
  "memcmp s1 s2 n = memcmp_from s1 s2 0 n"

function strlen_from :: "buf \<Rightarrow> nat \<Rightarrow> nat option" where
  "strlen_from s i =
     do { c \<leftarrow> arr_get s i; if c \<noteq> 0 then strlen_from s (Suc i) else Some i }"
  by pat_completeness auto
termination
  by (relation "measure (\<lambda>(s, i). length s - i)") (auto simp: arr_get_eq_Some)

definition strlen :: "buf \<Rightarrow> nat option" where
  "strlen s = strlen_from s 0"

declare memcmp_from.simps [simp del] strlen_from.simps [simp del]

text \<open>
  The loop that \<^verbatim>\<open>strncpy\<close>, \<^verbatim>\<open>strlcpy\<close> and \<^verbatim>\<open>strncat\<close> share: it copies \<^verbatim>\<open>src[i]\<close> to
  \<^verbatim>\<open>dest[k+i]\<close> until a nul has been copied or the last argument, the number of iterations
  that are left, is used up. It returns the destination and the final \<^verbatim>\<open>i\<close>.
\<close>

fun copy_loop :: "buf \<Rightarrow> nat \<Rightarrow> buf \<Rightarrow> nat \<Rightarrow> nat \<Rightarrow> (buf \<times> nat) option" where
  "copy_loop dest k src i 0 = Some (dest, i)"
| "copy_loop dest k src i (Suc n) =
     do { c \<leftarrow> arr_get src i; dest' \<leftarrow> arr_set dest (k + i) c;
          if c = 0 then Some (dest', i) else copy_loop dest' k src (Suc i) n }"

fun zero_fill :: "buf \<Rightarrow> nat \<Rightarrow> nat \<Rightarrow> buf option" where
  "zero_fill dest i 0 = Some dest"
| "zero_fill dest i (Suc n) = do { d \<leftarrow> arr_set dest i 0; zero_fill d (Suc i) n }"

definition strncpy :: "buf \<Rightarrow> buf \<Rightarrow> nat \<Rightarrow> buf option" where
  "strncpy dest src n =
     do { (d, i) \<leftarrow> copy_loop dest 0 src 0 n; zero_fill d i (n - i) }"

definition strlcpy :: "buf \<Rightarrow> buf \<Rightarrow> u32 \<Rightarrow> (buf \<times> nat) option" where
  "strlcpy dest src n =
     do { (d, i) \<leftarrow> copy_loop dest 0 src 0 (unat (n - 1));
          d' \<leftarrow> arr_set d i 0;
          Some (d', i) }"

definition strncat :: "buf \<Rightarrow> buf \<Rightarrow> nat \<Rightarrow> buf option" where
  "strncat dest src n =
     do { dest_len \<leftarrow> strlen dest;
          (d, i) \<leftarrow> copy_loop dest dest_len src 0 n;
          arr_set d (dest_len + i) 0 }"

section \<open>kernel/lib/memcpy.c\<close>

fun memcpy_from :: "buf \<Rightarrow> buf \<Rightarrow> nat \<Rightarrow> nat \<Rightarrow> buf option" where
  "memcpy_from dest src i 0 = Some dest"
| "memcpy_from dest src i (Suc n) =
     do { c \<leftarrow> arr_get src i; d \<leftarrow> arr_set dest i c; memcpy_from d src (Suc i) n }"

definition memcpy :: "buf \<Rightarrow> buf \<Rightarrow> nat \<Rightarrow> buf option" where
  "memcpy dest src n = memcpy_from dest src 0 n"

text \<open>
  \<^verbatim>\<open>int_dest[i]=int_src[i]\<close> moves the four bytes at \<^verbatim>\<open>4*i\<close>; the trailing loop of the source
  then copies \<^verbatim>\<open>char_src[0..tail-1]\<close>, from the start of the block.
\<close>

definition memcpy_4byte :: "buf \<Rightarrow> buf \<Rightarrow> nat \<Rightarrow> buf option" where
  "memcpy_4byte dest src n =
     (let tail = n mod 4 in
      do { d \<leftarrow> memcpy_from dest src 0 (4 * ((n - tail) div 4)); memcpy_from d src 0 tail })"

section \<open>userspace/vlibc/string.c\<close>

function vlibc_strncmp_from :: "buf \<Rightarrow> buf \<Rightarrow> nat \<Rightarrow> nat \<Rightarrow> int option" where
  "vlibc_strncmp_from s1 s2 i n =
     (if i = n then Some 0
      else do { a \<leftarrow> arr_get s1 i; b \<leftarrow> arr_get s2 i;
                let r = uint a - uint b;
                if r \<noteq> 0 then Some r else vlibc_strncmp_from s1 s2 (Suc i) n })"
  by pat_completeness auto
termination
  by (relation "measure (\<lambda>(s1, s2, i, n). length s1 - i)") (auto simp: arr_get_eq_Some)

declare vlibc_strncmp_from.simps [simp del]

definition vlibc_strncmp :: "buf \<Rightarrow> buf \<Rightarrow> nat \<Rightarrow> int option" where
  "vlibc_strncmp s1 s2 n = vlibc_strncmp_from s1 s2 0 n"

section \<open>kernel/lib/memset.c\<close>

text \<open>Consecutive byte stores from position \<open>i\<close>.\<close>

fun fill_from :: "buf \<Rightarrow> nat \<Rightarrow> nat \<Rightarrow> u8 \<Rightarrow> buf option" where
  "fill_from s i 0 c = Some s"
| "fill_from s i (Suc n) c = do { s' \<leftarrow> arr_set s i c; fill_from s' (Suc i) n c }"

definition memset_byte :: "buf \<Rightarrow> u8 \<Rightarrow> nat \<Rightarrow> buf option" where
  "memset_byte s c n = fill_from s 0 n c"

text \<open>
  The first argument is the address of \<open>s\<close>, which decides its alignment. A store of the
  32-bit pattern is four stores of the byte \<open>c\<close>.
\<close>

definition memset_4byte :: "u32 \<Rightarrow> buf \<Rightarrow> u8 \<Rightarrow> u32 \<Rightarrow> buf option" where
  "memset_4byte addr s c n =
     (let offset = addr mod 4 in
      if offset \<noteq> 0 then
        do { s1 \<leftarrow> fill_from s 0 (unat (4 - offset)) c;
             s2 \<leftarrow> fill_from s1 (unat (4 - offset)) (4 * unat ((n - 1) div 4)) c;
             fill_from s2 (unat (n - offset)) (unat offset) c }
      else fill_from s 0 (4 * unat (n div 4)) c)"

text \<open>
  \<^verbatim>\<open>memset\<close> proper is inline assembly. \<open>strb\<close> stores the low byte of \<^verbatim>\<open>r1\<close> and steps
  \<^verbatim>\<open>ip\<close> by 1; \<open>stm\<close> stores \<open>k\<close> registers that all hold the value of \<^verbatim>\<open>r1\<close>, little endian,
  and steps \<^verbatim>\<open>ip\<close> by \<open>4 * k\<close>. The state of the routine is the buffer and \<^verbatim>\<open>ip\<close>, the
  position in it; the count \<^verbatim>\<open>r2\<close> is compared as a signed number, as the condition codes
  \<^verbatim>\<open>lt\<close>, \<^verbatim>\<open>ge\<close> and \<^verbatim>\<open>gt\<close> do.
\<close>

definition strb :: "u32 \<Rightarrow> buf \<times> nat \<Rightarrow> (buf \<times> nat) option" where
  "strb r1 st = (case st of (s, ip) \<Rightarrow>
     do { s' \<leftarrow> arr_set s ip (ucast r1); Some (s', ip + 1) })"

definition str_word :: "u32 \<Rightarrow> buf \<times> nat \<Rightarrow> (buf \<times> nat) option" where
  "str_word r1 st =
     do { a \<leftarrow> strb r1 st; b \<leftarrow> strb (drop_bit 8 r1) a;
          c \<leftarrow> strb (drop_bit 16 r1) b; strb (drop_bit 24 r1) c }"

fun stm :: "nat \<Rightarrow> u32 \<Rightarrow> buf \<times> nat \<Rightarrow> (buf \<times> nat) option" where
  "stm 0 r1 st = Some st"
| "stm (Suc k) r1 st = do { a \<leftarrow> str_word r1 st; stm k r1 a }"

definition memset_lessthan4 :: "u32 \<Rightarrow> u32 \<Rightarrow> buf \<times> nat \<Rightarrow> (buf \<times> nat) option" where
  "memset_lessthan4 r1 r2 st =
     do { a \<leftarrow> (if r2 AND 2 \<noteq> 0 then do { x \<leftarrow> strb r1 st; strb r1 x } else Some st);
          if r2 AND 1 \<noteq> 0 then strb r1 a else Some a }"

definition memset_tail :: "u32 \<Rightarrow> u32 \<Rightarrow> buf \<times> nat \<Rightarrow> (buf \<times> nat) option" where
  "memset_tail r1 r2 st =
     do { a \<leftarrow> (if r2 AND 32 \<noteq> 0 then stm 8 r1 st else Some st);
          b \<leftarrow> (if r2 AND 16 \<noteq> 0 then stm 4 r1 a else Some a);
          c \<leftarrow> (if r2 AND 8 \<noteq> 0 then stm 2 r1 b else Some b);
          d \<leftarrow> (if r2 AND 4 \<noteq> 0 then stm 1 r1 c else Some c);
          memset_lessthan4 r1 r2 d }"

function memset_loop :: "u32 \<Rightarrow> u32 \<Rightarrow> buf \<times> nat \<Rightarrow> (buf \<times> nat) option" where
  "memset_loop r1 r2 st =
     (let r2' = r2 - 64 in
      do { a \<leftarrow> (if 64 \<le> sint r2 then do { x \<leftarrow> stm 8 r1 st; stm 8 r1 x } else Some st);
           if 64 < sint r2 then memset_loop r1 r2' a
           else if r2 = 64 then Some a
           else memset_tail r1 r2' a })"
  by pat_completeness auto

lemma sint_sub_64: "64 \<le> sint (r :: u32) \<Longrightarrow> sint (r - 64) = sint r - 64"
proof -
  assume r: "64 \<le> sint r"
  have "sint r < 2 ^ 31" using sint_lt [of r] by simp
  with r show ?thesis by (subst sint_word_ariths) (simp add: signed_take_bit_int_eq_self_iff)
qed

termination memset_loop
  by (relation "measure (\<lambda>(r1, r2, st). nat (sint r2))") (auto simp: sint_sub_64)

declare memset_loop.simps [simp del]

definition memset_4bytealigned :: "u32 \<Rightarrow> u32 \<Rightarrow> buf \<times> nat \<Rightarrow> (buf \<times> nat) option" where
  "memset_4bytealigned r1 r2 st =
     (let p = r1 OR push_bit 8 r1; q = p OR push_bit 16 p in memset_loop q r2 st)"

definition memset :: "u32 \<Rightarrow> buf \<Rightarrow> u32 \<Rightarrow> u32 \<Rightarrow> buf option" where
  "memset addr s c n =
     (let r3 = addr AND 3 in
      do { st \<leftarrow>
             (if r3 = 0 then memset_4bytealigned c n (s, 0)
              else if sint n < 4 then memset_lessthan4 c (n - 4) (s, 0)
              else do { a \<leftarrow> (if r3 < 2 then strb c (s, 0) else Some (s, 0));
                        b \<leftarrow> (if r3 \<le> 2 then strb c a else Some a);
                        d \<leftarrow> strb c b;
                        memset_4bytealigned c (n - 4 + r3) d });
           Some (fst st) })"

section \<open>Correctness of the string routines\<close>

lemma terminated_iff_cstr_short: "terminated s \<longleftrightarrow> length (cstr s) < length s"
  by (induction s) (auto simp: terminated_def cstr_def)

lemma cstr_nth_zero: "terminated s \<Longrightarrow> s ! length (cstr s) = 0"
  unfolding cstr_def terminated_iff_cstr_short using nth_length_takeWhile by blast

lemma cstr_nth_nonzero: "i < length (cstr s) \<Longrightarrow> s ! i \<noteq> 0"
  unfolding cstr_def by (metis (mono_tags, lifting) nth_mem set_takeWhileD takeWhile_nth)

lemma strlen_from_cstr:
  assumes "terminated s" and "i \<le> length (cstr s)"
  shows "strlen_from s i = Some (length (cstr s))"
  using assms(2)
proof (induction "length (cstr s) - i" arbitrary: i)
  case 0
  then have "i = length (cstr s)" by simp
  with assms(1) show ?case
    using terminated_iff_cstr_short [of s] cstr_nth_zero [of s]
    by (subst strlen_from.simps) simp
next
  case (Suc n)
  then have lt: "i < length (cstr s)" by simp
  with assms(1) have "i < length s" by (simp add: terminated_iff_cstr_short)
  moreover have "strlen_from s (Suc i) = Some (length (cstr s))"
    using Suc lt by simp
  ultimately show ?case
    by (subst strlen_from.simps) (simp add: cstr_nth_nonzero [OF lt])
qed

lemma strlen_from_unterminated: "\<not> terminated s \<Longrightarrow> strlen_from s i = None"
proof (induction "length s - i" arbitrary: i)
  case 0
  then show ?case by (subst strlen_from.simps) simp
next
  case (Suc n)
  then have "i < length s" by simp
  moreover from this have "s ! i \<noteq> 0"
    using Suc.prems unfolding terminated_def by (metis nth_mem)
  ultimately show ?case using Suc by (subst strlen_from.simps) simp
qed

lemma strlen_cstr: "strlen s = (if terminated s then Some (length (cstr s)) else None)"
  by (simp add: strlen_def strlen_from_cstr strlen_from_unterminated)


lemma arr_get_Cons_Suc [simp]: "arr_get (x # xs) (Suc i) = arr_get xs i"
  by (simp add: arr_get_def)

lemma arr_get_Cons_0 [simp]: "arr_get (x # xs) 0 = Some x"
  by simp

lemma cstr_Nil [simp]: "cstr [] = []"
  by (simp add: cstr_def)

lemma cstr_Cons [simp]: "cstr (x # xs) = (if x = 0 then [] else x # cstr xs)"
  by (simp add: cstr_def)

lemma terminated_Nil [simp]: "\<not> terminated []"
  by (simp add: terminated_def)

lemma terminated_Cons [simp]: "terminated (x # xs) \<longleftrightarrow> x = 0 \<or> terminated xs"
  by (auto simp: terminated_def)

lemma strncmp_from_Cons: "strncmp_from (x # xs) (y # ys) (Suc i) n = strncmp_from xs ys i n"
  by (induction n arbitrary: i) (auto simp: Let_def cong: if_cong)

lemma strncmp_from_spec:
  assumes "terminated s1" and "terminated s2"
  shows "\<exists>r. strncmp_from s1 s2 0 n = Some r \<and>
    (r = 0 \<longleftrightarrow> take n (cstr s1) = take n (cstr s2))"
  using assms
proof (induction n arbitrary: s1 s2)
  case 0
  then show ?case by simp
next
  case (Suc n)
  then obtain a as b bs where s: "s1 = a # as" "s2 = b # bs"
    by (metis list.exhaust terminated_Nil)
  show ?case
  proof (cases "a = b \<and> a \<noteq> 0")
    case True
    with Suc.prems s have "terminated as" "terminated bs" by auto
    from Suc.IH [OF this] True s show ?thesis
      by (auto simp: strncmp_from_Cons Let_def)
  next
    case False
    with s show ?thesis by (auto simp: Let_def word_uint_eq_iff)
  qed
qed

lemma strncmp_spec:
  assumes "terminated s1" and "terminated s2"
  shows "\<exists>r. strncmp s1 s2 n = Some r \<and> (r = 0 \<longleftrightarrow> take n (cstr s1) = take n (cstr s2))"
  using strncmp_from_spec [OF assms] by (simp add: strncmp_def)

lemma copy_loop_shift:
  "copy_loop dest k (c # src) (Suc i) n =
     map_option (\<lambda>(d, j). (d, Suc j)) (copy_loop dest (Suc k) src i n)"
proof (induction n arbitrary: dest i)
  case 0
  then show ?case by simp
next
  case (Suc n)
  show ?case
    by (cases "arr_get src i"; cases "arr_set dest (Suc (k + i)) (the (arr_get src i))")
       (auto simp: Suc.IH)
qed

text \<open>Without a nul among the first \<open>n\<close> bytes the loop copies exactly \<open>n\<close> bytes.\<close>

lemma copy_loop_full:
  assumes "n \<le> length (cstr src)" and "k + n \<le> length dest"
  shows "copy_loop dest k src 0 n = Some (take k dest @ take n src @ drop (k + n) dest, n)"
  using assms
proof (induction src arbitrary: dest k n)
  case Nil
  then show ?case by simp
next
  case (Cons c src)
  show ?case
  proof (cases n)
    case 0
    then show ?thesis by simp
  next
    case (Suc m)
    with Cons.prems have c: "c \<noteq> 0" and m: "m \<le> length (cstr src)"
      by (auto split: if_splits)
    let ?d = "dest[k := c]"
    from Cons.prems Suc have k: "k < length dest" and km: "Suc k + m \<le> length ?d" by auto
    have "copy_loop ?d (Suc k) src 0 m =
        Some (take (Suc k) ?d @ take m src @ drop (Suc k + m) ?d, m)"
      by (rule Cons.IH [OF m km])
    with k c Suc show ?thesis by (simp add: copy_loop_shift take_list_update_Suc)
  qed
qed

text \<open>Otherwise it copies the string with its nul and stops at the nul.\<close>

lemma copy_loop_short:
  assumes "terminated src" and "length (cstr src) < n" and "k + length (cstr src) < length dest"
  shows "copy_loop dest k src 0 n =
    Some (take k dest @ cstr src @ 0 # drop (Suc (k + length (cstr src))) dest,
          length (cstr src))"
  using assms
proof (induction src arbitrary: dest k n)
  case Nil
  then show ?case by simp
next
  case (Cons c src)
  from Cons.prems(2) obtain m where n: "n = Suc m" by (cases n) auto
  let ?d = "dest[k := c]"
  show ?case
  proof (cases "c = 0")
    case True
    with Cons.prems n show ?thesis by (simp add: list_update_drop_Cons)
  next
    case False
    with Cons.prems n have "copy_loop ?d (Suc k) src 0 m =
        Some (take (Suc k) ?d @ cstr src @ 0 # drop (Suc (Suc k + length (cstr src))) ?d,
              length (cstr src))"
      by (intro Cons.IH) auto
    with False Cons.prems n show ?thesis by (simp add: copy_loop_shift take_list_update_Suc)
  qed
qed

lemma cstr_append_zero: "0 \<notin> set xs \<Longrightarrow> cstr (xs @ 0 # ys) = xs"
  by (induction xs) auto

lemma zero_notin_cstr: "0 \<notin> set (cstr s)"
  by (auto simp: cstr_def dest: set_takeWhileD)

lemma take_cstr: "n \<le> length (cstr s) \<Longrightarrow> take n s = take n (cstr s)"
  unfolding cstr_def by (metis takeWhile_eq_take length_take min.absorb2 take_take)

lemma cstr_take_cstr: "0 \<notin> set (take n (cstr s))"
  using zero_notin_cstr by (metis in_set_takeD)

lemma unat_minus_one: "(n :: u32) \<noteq> 0 \<Longrightarrow> unat (n - 1) = unat n - 1"
  by (simp add: unat_minus_one)

text \<open>
  \<^verbatim>\<open>strlcpy\<close> leaves a terminated string that is the source cut to \<open>n - 1\<close> characters, and
  changes nothing behind it.
\<close>

lemma strlcpy_copies:
  assumes src: "terminated src" and n: "n \<noteq> 0" and dest: "unat n \<le> length dest"
  shows "strlcpy dest src n =
    (let t = take (unat n - 1) (cstr src) in Some (t @ 0 # drop (Suc (length t)) dest, length t))"
proof (cases "unat n - 1 \<le> length (cstr src)")
  case True
  from n have n0: "0 < unat n" by (simp add: unat_gt_0)
  have "copy_loop dest 0 src 0 (unat n - 1) =
      Some (take (unat n - 1) src @ drop (unat n - 1) dest, unat n - 1)"
    using copy_loop_full [OF True, of 0 dest] dest by simp
  moreover have "length (take (unat n - 1) src) = unat n - 1"
    using True length_takeWhile_le [of "\<lambda>c. c \<noteq> 0" src] by (simp add: cstr_def)
  moreover have "take (unat n - 1) src = take (unat n - 1) (cstr src)"
    by (rule take_cstr [OF True])
  ultimately show ?thesis
    using n n0 dest True
    by (simp add: strlcpy_def unat_minus_one Let_def list_update_append
        Cons_nth_drop_Suc [symmetric])
next
  case False
  then have lt: "length (cstr src) < unat n - 1" by simp
  have "copy_loop dest 0 src 0 (unat n - 1) =
      Some (cstr src @ 0 # drop (Suc (length (cstr src))) dest, length (cstr src))"
    using copy_loop_short [OF src lt, of 0 dest] dest lt by simp
  with lt n show ?thesis
    by (simp add: strlcpy_def unat_minus_one Let_def list_update_append)
qed

lemma strncat_appends:
  assumes "terminated dest" and "terminated src \<or> n \<le> length (cstr src)"
    and "length (cstr dest) + length (take n (cstr src)) < length dest"
  shows "strncat dest src n =
    (let t = cstr dest @ take n (cstr src) in Some (t @ 0 # drop (Suc (length t)) dest))"
proof (cases "n \<le> length (cstr src)")
  case True
  let ?k = "length (cstr dest)"
  have "copy_loop dest ?k src 0 n = Some (take ?k dest @ take n src @ drop (?k + n) dest, n)"
    using True assms(3) by (intro copy_loop_full) auto
  moreover have "length (take n src) = n"
    using True length_takeWhile_le [of "\<lambda>c. c \<noteq> 0" src] by (simp add: cstr_def)
  moreover have "take ?k dest = cstr dest" by (simp add: take_cstr)
  ultimately show ?thesis
    using assms(1,3) True
    by (simp add: strncat_def strlen_cstr Let_def take_cstr [OF True] list_update_append
        Cons_nth_drop_Suc [symmetric])
next
  case False
  let ?k = "length (cstr dest)"
  from False assms have "copy_loop dest ?k src 0 n =
      Some (take ?k dest @ cstr src @ 0 # drop (Suc (?k + length (cstr src))) dest,
            length (cstr src))"
    by (intro copy_loop_short) auto
  moreover have "take ?k dest = cstr dest" by (simp add: take_cstr)
  ultimately show ?thesis
    using assms(1,3) False by (simp add: strncat_def strlen_cstr Let_def list_update_append)
qed

section \<open>Correctness of the block routines\<close>

lemma memcpy_from_spec:
  "i + n \<le> length src \<Longrightarrow> i + n \<le> length dest \<Longrightarrow>
   memcpy_from dest src i n =
     Some (take i dest @ take n (drop i src) @ drop (i + n) dest)"
proof (induction n arbitrary: dest i)
  case 0
  then show ?case by simp
next
  case (Suc n)
  then have "memcpy_from (dest[i := src ! i]) src (Suc i) n =
     Some (take (Suc i) (dest[i := src ! i]) @ take n (drop (Suc i) src) @
           drop (Suc i + n) (dest[i := src ! i]))"
    by (intro Suc.IH) auto
  with Suc.prems show ?case
    by (simp add: take_list_update_Suc Cons_nth_drop_Suc [symmetric])
qed

lemma memcpy_spec:
  "n \<le> length src \<Longrightarrow> n \<le> length dest \<Longrightarrow> memcpy dest src n = Some (take n src @ drop n dest)"
  using memcpy_from_spec [of 0 n src dest] by (simp add: memcpy_def)

lemma fill_from_spec:
  "i + n \<le> length s \<Longrightarrow>
   fill_from s i n c = Some (take i s @ replicate n c @ drop (i + n) s)"
proof (induction n arbitrary: s i)
  case 0
  then show ?case by simp
next
  case (Suc n)
  then have "fill_from (s[i := c]) (Suc i) n c =
     Some (take (Suc i) (s[i := c]) @ replicate n c @ drop (Suc i + n) (s[i := c]))"
    by (intro Suc.IH) auto
  with Suc.prems show ?case by (simp add: take_list_update_Suc)
qed

lemma memset_byte_spec:
  "n \<le> length s \<Longrightarrow> memset_byte s c n = Some (replicate n c @ drop n s)"
  by (simp add: memset_byte_def fill_from_spec)

text \<open>
  The assembly is compared with \<^term>\<open>fill_from\<close>. \<open>stores st k c st'\<close> says that the machine went
  from \<open>st\<close> to \<open>st'\<close> by storing \<open>k\<close> bytes \<open>c\<close> in sequence.
\<close>

definition stores :: "buf \<times> nat \<Rightarrow> nat \<Rightarrow> u8 \<Rightarrow> (buf \<times> nat) option" where
  "stores st k c = map_option (\<lambda>s. (s, snd st + k)) (fill_from (fst st) (snd st) k c)"

lemma stores_0 [simp]: "stores st 0 c = Some st"
  by (simp add: stores_def)

lemma stores_add: "stores st (j + k) c = Option.bind (stores st j c) (\<lambda>a. stores a k c)"
proof (induction j arbitrary: st)
  case 0
  then show ?case by simp
next
  case (Suc j)
  show ?case
  proof (cases "arr_set (fst st) (snd st) c")
    case None
    then show ?thesis by (simp add: stores_def)
  next
    case (Some s)
    have "stores (s, Suc (snd st)) (j + k) c =
        Option.bind (stores (s, Suc (snd st)) j c) (\<lambda>a. stores a k c)"
      by (rule Suc.IH)
    with Some show ?thesis
      by (cases "fill_from s (Suc (snd st)) j c") (simp_all add: stores_def)
  qed
qed

lemma strb_stores: "strb r st = stores st 1 (ucast r)"
  by (cases st) (cases "arr_set (fst st) (snd st) (ucast r)";
      simp add: strb_def stores_def)

text \<open>The word all of whose bytes are \<open>c\<close>.\<close>

definition splat :: "u8 \<Rightarrow> u32 \<Rightarrow> bool" where
  "splat c r \<longleftrightarrow> (ucast r = c \<and> ucast (drop_bit 8 r) = c \<and>
     ucast (drop_bit 16 r) = c \<and> ucast (drop_bit 24 r) = c)"

lemma str_word_stores: "splat c r \<Longrightarrow> str_word r st = stores st 4 c"
proof -
  assume c: "splat c r"
  have "stores st 4 c = stores st (1 + (1 + (1 + 1))) c" by (simp add: numeral_eq_Suc)
  also have "\<dots> = Option.bind (stores st 1 c) (\<lambda>a. Option.bind (stores a 1 c)
      (\<lambda>b. Option.bind (stores b 1 c) (\<lambda>d. stores d 1 c)))"
    by (simp only: stores_add)
  also have "\<dots> = str_word r st"
    using c by (simp add: str_word_def strb_stores splat_def)
  finally show ?thesis by simp
qed

lemma stm_stores: "splat c r \<Longrightarrow> stm k r st = stores st (4 * k) c"
proof (induction k arbitrary: st)
  case 0
  then show ?case by simp
next
  case (Suc k)
  have "stores st (4 + 4 * k) c = Option.bind (stores st 4 c) (\<lambda>a. stores a (4 * k) c)"
    by (rule stores_add)
  moreover have "stm k r = (\<lambda>a. stores a (4 * k) c)" using Suc by auto
  ultimately show ?case using Suc.prems by (simp add: str_word_stores)
qed

lemma if_stores:
  "(if b then stores st k c else Some st) = stores st (if b then k else 0) c"
  by simp

text \<open>Each \<^verbatim>\<open>tst r2, #2^i\<close> reads one binary digit of the count.\<close>

lemma tst_digit: "(r :: u32) AND 2 ^ i \<noteq> 0 \<longleftrightarrow> odd (unat r div 2 ^ i)"
  by (simp add: and_exp_eq_0_iff_not_bit u32_bit_unat)

lemma tst_digits:
  "(r :: u32) AND 1 \<noteq> 0 \<longleftrightarrow> odd (unat r)"
  "r AND 2 \<noteq> 0 \<longleftrightarrow> odd (unat r div 2)"
  "r AND 4 \<noteq> 0 \<longleftrightarrow> odd (unat r div 4)"
  "r AND 8 \<noteq> 0 \<longleftrightarrow> odd (unat r div 8)"
  "r AND 16 \<noteq> 0 \<longleftrightarrow> odd (unat r div 16)"
  "r AND 32 \<noteq> 0 \<longleftrightarrow> odd (unat r div 32)"
  using tst_digit [of r 0] tst_digit [of r 1] tst_digit [of r 2] tst_digit [of r 3]
    tst_digit [of r 4] tst_digit [of r 5]
  by simp_all

lemma mod_4_digits:
  "(n :: nat) mod 4 = (if odd (n div 2) then 2 else 0) + (if odd n then 1 else 0)"
  by presburger

lemma mod_64_digits:
  "(n :: nat) mod 64 = (if odd (n div 32) then 32 else 0) + ((if odd (n div 16) then 16 else 0) +
     ((if odd (n div 8) then 8 else 0) + ((if odd (n div 4) then 4 else 0) + n mod 4)))"
proof -
  have s: "(n :: nat) mod (2 * m) = (if odd (n div m) then m else 0) + n mod m" for n m
    by (subst mult.commute, subst mod_mult2_eq) (simp add: odd_iff_mod_2_eq_one)
  show ?thesis using s [of n 32] s [of n 16] s [of n 8] s [of n 4] by simp
qed

lemma memset_lessthan4_stores:
  "memset_lessthan4 r1 r2 st = stores st (unat r2 mod 4) (ucast r1)"
  unfolding memset_lessthan4_def tst_digits mod_4_digits stores_add
  using stores_add [of st 1 1 "ucast r1"]
  by (auto simp: strb_stores numeral_2_eq_2)

lemma memset_tail_stores:
  assumes "splat c r1"
  shows "memset_tail r1 r2 st = stores st (unat r2 mod 64) c"
proof -
  have c: "ucast r1 = c" using assms by (simp add: splat_def)
  have e: "stm 8 r1 = (\<lambda>a. stores a 32 c)" "stm 4 r1 = (\<lambda>a. stores a 16 c)"
    "stm 2 r1 = (\<lambda>a. stores a 8 c)" "stm 1 r1 = (\<lambda>a. stores a 4 c)"
    by (simp_all add: fun_eq_iff stm_stores [OF assms])
  show ?thesis
    unfolding memset_tail_def tst_digits mod_64_digits stores_add e if_stores
      memset_lessthan4_stores c ..
qed

lemma sint_64_iff: "sint (r :: u32) = 64 \<longleftrightarrow> r = 64"
  using signed_word_eqI [of r 64] by auto

lemma memset_loop_stores:
  assumes "splat c r1" and "0 \<le> sint r2"
  shows "memset_loop r1 r2 st = stores st (unat r2) c"
  using assms
proof (induction r1 r2 st rule: memset_loop.induct)
  case (1 r1 r2 st)
  note u = unat_of_sint [OF "1.prems"(2)]
  have e: "stm 8 r1 = (\<lambda>a. stores a 32 c)"
    by (simp add: fun_eq_iff stm_stores [OF "1.prems"(1)])
  have e2: "Option.bind (stores st 32 c) (\<lambda>a. stores a 32 c) = stores st 64 c"
    using stores_add [of st 32 32 c] by simp
  consider (gt) "64 < sint r2" | (eq) "sint r2 = 64" | (lt) "sint r2 < 64" by linarith
  then show ?case
  proof cases
    case gt
    then have ge: "64 \<le> sint r2" by simp
    have s: "0 \<le> sint (r2 - 64)" using gt by (simp add: sint_sub_64 [OF ge])
    have "64 \<le> unat r2" using gt u by linarith
    then have "unat (64 :: u32) \<le> unat r2" by simp
    then have "unat (r2 - 64) = unat r2 - 64" by (subst unat_sub_le) simp_all
    then have IH: "memset_loop r1 (r2 - 64) a = stores a (unat r2 - 64) c"
      if "stores st 64 c = Some a" for a
      using "1.IH" [OF refl, of a] that gt ge s "1.prems"(1) e e2 by simp
    have "memset_loop r1 r2 st = Option.bind (stores st 64 c) (memset_loop r1 (r2 - 64))"
      using gt by (subst memset_loop.simps) (simp add: Let_def e e2)
    also have "\<dots> = Option.bind (stores st 64 c) (\<lambda>a. stores a (unat r2 - 64) c)"
      by (rule option_bind_fundef_cong) (simp_all add: IH)
    also have "\<dots> = stores st (unat r2) c"
      using stores_add [of st 64 "unat r2 - 64" c] gt u by simp
    finally show ?thesis .
  next
    case eq
    then have "r2 = 64" by (simp add: sint_64_iff)
    then show ?thesis by (subst memset_loop.simps) (simp add: Let_def e e2)
  next
    case lt
    then have "r2 \<noteq> 64" and small: "unat r2 < 64" using u by (auto, linarith)
    have "unat (r2 - 64) = (unat r2 + (4294967296 - 64)) mod 4294967296"
      using unat_sub_wrap [of r2 64] by simp
    also have "\<dots> mod 64 = (unat r2 + 67108863 * 64) mod 64"
      by (simp add: mod_mod_cancel)
    also have "\<dots> = unat r2" using small by (simp only: mod_mult_self1 mod_less)
    finally show ?thesis
      using lt \<open>r2 \<noteq> 64\<close>
      by (subst memset_loop.simps) (simp add: Let_def memset_tail_stores [OF "1.prems"(1)])
  qed
qed

lemma splat_pattern:
  assumes "c < 256"
  shows "splat (ucast c) ((c OR push_bit 8 c) OR push_bit 16 (c OR push_bit 8 c))"
proof -
  have hi: "\<not> bit c n" if "8 \<le> n" for n
    using assms that by (intro high_bit_unset [of c 8]) (simp_all add: word_less_nat_alt)
  show ?thesis
    unfolding splat_def
    by (intro conjI bit_word_eqI)
       (auto simp: bit_simps hi)
qed

lemma memset_4bytealigned_stores:
  assumes "c < 256" and "0 \<le> sint n"
  shows "memset_4bytealigned c n st = stores st (unat n) (ucast c)"
  unfolding memset_4bytealigned_def Let_def
  by (rule memset_loop_stores [OF splat_pattern [OF assms(1)] assms(2)])

text \<open>The stores of a whole call, whatever the alignment of the buffer.\<close>

lemma memset_stores:
  assumes c: "c < 256" and n: "unat n < 2147483648"
  shows "memset addr s c n = map_option fst (stores (s, 0) (unat n) (ucast c))"
proof -
  have r3: "unat (addr AND 3) < 4"
    using word_and_le1 [of addr 3] by (simp add: word_le_nat_alt)
  have s0: "0 \<le> sint n" using n by (simp add: sint_nonneg_iff)
  note u = unat_of_sint [OF s0]
  let ?b = "ucast c :: u8" and ?r = "addr AND 3"
  consider (al) "?r = 0" | (few) "?r \<noteq> 0" "sint n < 4" | (un) "?r \<noteq> 0" "4 \<le> sint n" by linarith
  then have "memset addr s c n =
      Option.bind (stores (s, 0) (unat n) ?b) (\<lambda>st. Some (fst st))"
  proof cases
    case al
    then show ?thesis by (simp add: memset_def memset_4bytealigned_stores [OF c s0])
  next
    case few
    then have small: "unat n < 4" using u by linarith
    have "unat (n - 4) mod 4 = ((unat n + (4294967296 - 4)) mod 4294967296) mod 4"
      using unat_sub_wrap [of n 4] by simp
    also have "\<dots> = (unat n + 1073741823 * 4) mod 4"
      by (simp add: mod_mod_cancel)
    also have "\<dots> = unat n" using small by (simp only: mod_mult_self1 mod_less)
    finally show ?thesis using few by (simp add: memset_def memset_lessthan4_stores)
  next
    case un
    then have big: "4 \<le> unat n" using u by linarith
    have r0: "0 < unat ?r" using un by (simp add: unat_gt_0)
    let ?k = "4 - unat ?r"
    have lead: "Option.bind (if ?r < 2 then strb c (s, 0) else Some (s, 0))
        (\<lambda>a. Option.bind (if ?r \<le> 2 then strb c a else Some a) (\<lambda>b. strb c b)) =
        stores (s, 0) ?k ?b"
    proof -
      have s2: "stores x 2 ?b = Option.bind (stores x 1 ?b) (\<lambda>a. stores a 1 ?b)" for x
        using stores_add [of x 1 1 ?b] by (simp only: one_add_one)
      have s3: "stores x 3 ?b = Option.bind (stores x 1 ?b) (\<lambda>a. stores a 2 ?b)" for x
        using stores_add [of x 1 2 ?b] by (simp del: One_nat_def)
      consider "unat ?r = 1" | "unat ?r = 2" | "unat ?r = 3" using r0 r3 by linarith
      then show ?thesis
        by cases (simp_all add: strb_stores word_less_nat_alt word_le_nat_alt s2 s3)
    qed
    have "unat (n - 4) = unat n - 4" using big by (subst unat_sub_le) simp_all
    then have m: "unat (n - 4 + ?r) = unat n - ?k"
      using big r3 n by (subst unat_add_small) simp_all
    then have "0 \<le> sint (n - 4 + ?r)" using n by (simp add: sint_nonneg_iff)
    then have "memset_4bytealigned c (n - 4 + ?r) = (\<lambda>d. stores d (unat n - ?k) ?b)"
      by (simp add: fun_eq_iff memset_4bytealigned_stores [OF c] m)
    then show ?thesis
      using un stores_add [of "(s, 0)" ?k "unat n - ?k" ?b] big
      by (simp add: memset_def Let_def lead [symmetric])
  qed
  then show ?thesis by (cases "stores (s, 0) (unat n) ?b") simp_all
qed

text \<open>
  C28: the assembly \<^verbatim>\<open>memset\<close>, with its unaligned prologue, 64-byte loop and binary tail, is the
  byte loop \<^verbatim>\<open>memset_byte\<close>: for every alignment of the buffer it sets exactly the first \<open>n\<close>
  bytes, for counts below \<open>2^31\<close> and fill values below 256.
\<close>

theorem memset_correct:
  assumes "c < 256" and "unat n < 2147483648" and "unat n \<le> length s"
  shows "memset addr s c n = memset_byte s (ucast c) (unat n) \<and>
    memset addr s c n = Some (replicate (unat n) (ucast c) @ drop (unat n) s)"
  using assms by (simp add: memset_stores stores_def memset_byte_def fill_from_spec)

theorem memset_correct_witness:
  "memset 8193 (replicate 9 1) 86 7 = Some (replicate 7 86 @ replicate 2 1)"
proof -
  have "(86 :: u32) < 256" and "unat (7 :: u32) < 2147483648"
    and "unat (7 :: u32) \<le> length (replicate 9 (1 :: u8))"
    by simp_all
  from memset_correct [OF this, THEN conjunct2, of 8193] show ?thesis by simp
qed

text \<open>
  \<^verbatim>\<open>memcpy_4byte\<close> copies only the whole words of a block of four bytes or more: its trailing
  loop copies the first \<open>n mod 4\<close> bytes again, so the last \<open>n mod 4\<close> bytes of the destination
  keep their old contents.
\<close>

lemma memcpy_4byte_behaviour:
  assumes "4 \<le> n" and "n \<le> length src" and "n \<le> length dest"
  shows "memcpy_4byte dest src n =
    Some (take (n - n mod 4) src @ drop (n - n mod 4) dest)"
proof -
  let ?w = "n - n mod 4"
  have w: "4 * (?w div 4) = ?w" by (simp add: minus_mod_eq_mult_div)
  have "1 \<le> n div 4" using assms(1) by simp
  moreover have "?w = 4 * (n div 4)" by (simp add: minus_mod_eq_mult_div)
  ultimately have t: "n mod 4 \<le> ?w" using mod_less_divisor [of 4 n] by linarith
  have "memcpy_from dest src 0 ?w = Some (take ?w src @ drop ?w dest)"
    using assms memcpy_from_spec [of 0 ?w src dest] by simp
  moreover have "memcpy_from (take ?w src @ drop ?w dest) src 0 (n mod 4) =
      Some (take (n mod 4) src @ drop (n mod 4) (take ?w src @ drop ?w dest))"
    using assms t memcpy_from_spec [of 0 "n mod 4" src "take ?w src @ drop ?w dest"] by simp
  moreover have "take (n mod 4) src @ drop (n mod 4) (take ?w src) = take ?w src"
    using t by (metis append_take_drop_id min.absorb1 take_take)
  ultimately show ?thesis
    using assms t by (simp add: memcpy_4byte_def Let_def w)
qed

theorem memcpy_4byte_behaviour_witness:
  "memcpy_4byte [0, 0, 0, 0, 0, 0] [1, 2, 3, 4, 5, 6] 6 = Some [1, 2, 3, 4, 0, 0]"
  using memcpy_4byte_behaviour [of 6 "[1, 2, 3, 4, 5, 6]" "[0, 0, 0, 0, 0, 0]"] by simp

end
