(* ===== verification/Process.thy ===== *)
theory Process
  imports Memory CString
begin

text \<open>
  The process table of \<^verbatim>\<open>kernel/processes/process.c\<close>: process control blocks in a doubly linked
  list, creation and destruction, and the register save and switch code.

  The control blocks are objects of their own: \<open>pcbs\<close> maps the address of a control block to its
  contents, and an access through a null pointer or to a block that has been released is
  \<^term>\<open>None\<close>. The memory that the blocks occupy is accounted for in \<open>mem\<close>, the state of the
  allocator. \<open>cpu_r\<close> are the registers \<^verbatim>\<open>r0\<close> to \<^verbatim>\<open>r14\<close> and \<open>cpu_spsr\<close> the saved status
  register of the processor. A loop over the linked list is a partial function, because it does
  not end on a cyclic list.
\<close>

section \<open>Process control blocks\<close>

record user_regs =
  u_r :: "u32 list"
  u_pc :: u32
  u_spsr :: u32

record kernel_regs =
  k_r :: "u32 list"
  k_spsr :: u32

record pcb =
  user_state :: user_regs
  kernel_state :: kernel_regs
  p_next :: ptr
  p_prev :: ptr
  wait_queue_next :: ptr
  p_valid :: i32
  p_running :: i32
  p_status :: i32
  start_time :: i32
  last_scheduled :: i32
  total_time :: i32
  p_pid :: i32
  exit_value :: i32
  p_parent :: ptr
  current_dir :: i32
  p_stack :: ptr
  stacksize :: u32
  p_text :: ptr
  textsize :: u32
  p_name :: buf
  stack_padding :: "u32 list"

definition PROCESS_STATUS_SLEEPING :: i32 where "PROCESS_STATUS_SLEEPING = 0"

definition PROCESS_STATUS_READY :: i32 where "PROCESS_STATUS_READY = 1"

definition PROCESS_STATUS_EXITED :: i32 where "PROCESS_STATUS_EXITED = 2"

definition DEFAULT_USER_STACK_SIZE :: u32 where "DEFAULT_USER_STACK_SIZE = 8192"

lemmas status_defs [c_const] =
  PROCESS_STATUS_SLEEPING_def PROCESS_STATUS_READY_def PROCESS_STATUS_EXITED_def
  DEFAULT_USER_STACK_SIZE_def

text \<open>\<^verbatim>\<open>sizeof(struct process_control_block_type)\<close>: the padding fills it up to the kernel stack size.\<close>

definition PCB_SIZE :: u32 where "PCB_SIZE = 8192"

text \<open>A control block after \<^verbatim>\<open>memset(new_proc,0,...)\<close>.\<close>

definition zero_pcb :: pcb where
  "zero_pcb =
     \<lparr>user_state = \<lparr>u_r = replicate 15 0, u_pc = 0, u_spsr = 0\<rparr>,
      kernel_state = \<lparr>k_r = replicate 15 0, k_spsr = 0\<rparr>,
      p_next = NULL, p_prev = NULL, wait_queue_next = NULL, p_valid = 0, p_running = 0,
      p_status = 0, start_time = 0, last_scheduled = 0, total_time = 0, p_pid = 0,
      exit_value = 0, p_parent = NULL, current_dir = 0, p_stack = NULL, stacksize = 0,
      p_text = NULL, textsize = 0, p_name = replicate 32 0, stack_padding = replicate 1990 0\<rparr>"

lemma zero_pcb_links [simp]:
  "p_next zero_pcb = NULL" "p_prev zero_pcb = NULL" "wait_queue_next zero_pcb = NULL"
  by (simp_all add: zero_pcb_def)

text \<open>The three wait queues of the kernel, by the file that declares them.\<close>

datatype queue_id = Waitpid_queue | Timer_queue | Console_queue

record kernel =
  pcbs :: "ptr \<Rightarrow> pcb option"
  proc_first :: ptr
  current_process :: ptr
  avail_pid :: i32
  mem :: mem_state
  tick_counter :: u32
  wait_first :: "queue_id \<Rightarrow> ptr"
  cpu_r :: "u32 list"
  cpu_spsr :: u32

text \<open>Writing one control block; the block must exist.\<close>

definition pcb_upd :: "ptr \<Rightarrow> (pcb \<Rightarrow> pcb) \<Rightarrow> kernel \<Rightarrow> kernel option" where
  "pcb_upd p f k = do { b \<leftarrow> pcbs k p; Some (k\<lparr>pcbs := (pcbs k)(p \<mapsto> f b)\<rparr>) }"

section \<open>Lookups\<close>

partial_function (option) totals_from ::
  "kernel \<Rightarrow> ptr \<Rightarrow> nat \<Rightarrow> nat \<Rightarrow> (nat \<times> nat) option" where
  [code]: "totals_from k proc_ptr total_count ready_count =
     do { b \<leftarrow> pcbs k proc_ptr;
          let total_count' = total_count + 1;
          let ready_count' = (if p_status b = PROCESS_STATUS_READY then ready_count + 1 else ready_count);
          if p_next b = NULL then Some (total_count', ready_count')
          else totals_from k (p_next b) total_count' ready_count' }"

text \<open>The result is the returned total and the value stored through \<^verbatim>\<open>count\<close>; \<^verbatim>\<open>type\<close> is not used.\<close>

definition process_get_totals :: "kernel \<Rightarrow> (nat \<times> nat) option" where
  "process_get_totals k = totals_from k (proc_first k) 0 0"

partial_function (option) lookup_from :: "kernel \<Rightarrow> i32 \<Rightarrow> ptr \<Rightarrow> ptr option" where
  [code]: "lookup_from k pid result =
     (if result = NULL then Some NULL
      else do { b \<leftarrow> pcbs k result;
                if p_pid b = pid then Some result else lookup_from k pid (p_next b) })"

definition process_lookup :: "kernel \<Rightarrow> i32 \<Rightarrow> ptr option" where
  "process_lookup k pid = lookup_from k pid (proc_first k)"

partial_function (option) lookup_child_from :: "kernel \<Rightarrow> ptr \<Rightarrow> ptr \<Rightarrow> ptr option" where
  [code]: "lookup_child_from k caller result =
     (if result = NULL then Some NULL
      else do { b \<leftarrow> pcbs k result;
                if result \<noteq> caller \<and> p_parent b = caller then Some result
                else lookup_child_from k caller (p_next b) })"

definition process_lookup_child :: "kernel \<Rightarrow> ptr \<Rightarrow> ptr option" where
  "process_lookup_child k caller = lookup_child_from k caller (proc_first k)"

section \<open>The linked list\<close>

text \<open>The loop that looks for the last process.\<close>

partial_function (option) last_from :: "kernel \<Rightarrow> ptr \<Rightarrow> ptr option" where
  [code]: "last_from k p =
     do { b \<leftarrow> pcbs k p; if p_next b \<noteq> NULL then last_from k (p_next b) else Some p }"

definition process_insert :: "ptr \<Rightarrow> kernel \<Rightarrow> kernel option" where
  "process_insert proc k =
     (if proc_first k = NULL then
        pcb_upd proc (\<lambda>b. b\<lparr>p_next := NULL, p_prev := NULL\<rparr>) (k\<lparr>proc_first := proc\<rparr>)
      else
        do { last \<leftarrow> last_from k (proc_first k);
             k1 \<leftarrow> pcb_upd last (\<lambda>b. b\<lparr>p_next := proc\<rparr>) k;
             pcb_upd proc (\<lambda>b. b\<lparr>p_next := NULL, p_prev := last\<rparr>) k1 })"

text \<open>The search loop of \<^verbatim>\<open>process_remove\<close>: whether \<open>proc\<close> is reached.\<close>

partial_function (option) on_list_from :: "kernel \<Rightarrow> ptr \<Rightarrow> ptr \<Rightarrow> bool option" where
  [code]: "on_list_from k proc current =
     (if current = NULL then Some False
      else if current = proc then Some True
      else do { b \<leftarrow> pcbs k current; on_list_from k proc (p_next b) })"

definition process_remove :: "ptr \<Rightarrow> kernel \<Rightarrow> (i32 \<times> kernel) option" where
  "process_remove proc k =
     (if proc_first k = NULL then Some (-1, k)
      else if proc_first k = proc then
        do { b \<leftarrow> pcbs k proc; Some (0, k\<lparr>proc_first := p_next b\<rparr>) }
      else
        do { found \<leftarrow> on_list_from k proc (proc_first k);
             if found then
               do { b \<leftarrow> pcbs k proc;
                    k1 \<leftarrow> pcb_upd (p_prev b) (\<lambda>c. c\<lparr>p_next := p_next b\<rparr>) k;
                    b1 \<leftarrow> pcbs k1 proc;
                    k2 \<leftarrow> (if p_next b1 \<noteq> NULL
                           then pcb_upd (p_next b1) (\<lambda>c. c\<lparr>p_prev := p_prev b1\<rparr>) k1
                           else Some k1);
                    Some (0, k2) }
             else Some (0, k) })"

section \<open>Creation and destruction\<close>

definition ticks_since_boot :: "kernel \<Rightarrow> u32" where
  "ticks_since_boot k = tick_counter k"

definition process_create :: "kernel \<Rightarrow> (ptr \<times> kernel) option" where
  "process_create k =
     do { (new_proc, m) \<leftarrow> memory_allocate PCB_SIZE (mem k);
          let k1 = k\<lparr>mem := m\<rparr>;
          if new_proc = NULL then Some (NULL, k1)
          else
            do { let now = ticks_since_boot k1;
                 let b = zero_pcb
                   \<lparr>p_running := 0, p_status := PROCESS_STATUS_SLEEPING,
                    start_time := now, last_scheduled := now, total_time := 0,
                    p_pid := avail_pid k1, p_stack := NULL, p_text := NULL, stacksize := 0,
                    textsize := 0,
                    user_state := \<lparr>u_r = replicate 15 0, u_pc = 0, u_spsr = 16\<rparr>\<rparr>;
                 let k2 = k1\<lparr>pcbs := (pcbs k1)(new_proc \<mapsto> b), avail_pid := avail_pid k1 + 1\<rparr>;
                 k3 \<leftarrow> process_insert new_proc k2;
                 Some (new_proc, k3) } }"

text \<open>Releasing memory through the kernel state.\<close>

definition kfree :: "ptr \<Rightarrow> u32 \<Rightarrow> kernel \<Rightarrow> kernel option" where
  "kfree p sz k = do { m \<leftarrow> memory_free p sz (mem k); Some (k\<lparr>mem := m\<rparr>) }"

definition process_destroy :: "ptr \<Rightarrow> kernel \<Rightarrow> kernel option" where
  "process_destroy proc k =
     do { k1 \<leftarrow> pcb_upd proc (\<lambda>b. b\<lparr>p_valid := 0\<rparr>) k;
          (r, k2) \<leftarrow> process_remove proc k1;
          b \<leftarrow> pcbs k2 proc;
          k3 \<leftarrow> (if p_stack b \<noteq> NULL then kfree (p_stack b) (stacksize b) k2 else Some k2);
          k4 \<leftarrow> (if p_text b \<noteq> NULL then kfree (p_text b) (textsize b) k3 else Some k3);
          k5 \<leftarrow> kfree proc PCB_SIZE k4;
          Some (k5\<lparr>pcbs := (pcbs k5)(proc := None)\<rparr>) }"

section \<open>Registers\<close>

text \<open>
  The address of \<^verbatim>\<open>kernel_state.r[0]\<close> is 68 bytes into the control block. The assembly first
  moves that address into \<^verbatim>\<open>r2\<close>, so the stored \<^verbatim>\<open>r2\<close> is the address.
\<close>

definition process_save :: "ptr \<Rightarrow> u32 \<Rightarrow> kernel \<Rightarrow> kernel option" where
  "process_save proc new_stack k =
     (let regs = (cpu_r k)[2 := proc + 68];
          saved = regs[13 := new_stack] in
      do { k1 \<leftarrow> pcb_upd proc (\<lambda>b. b\<lparr>kernel_state := \<lparr>k_r = saved, k_spsr = cpu_spsr k\<rparr>\<rparr>) k;
           Some (k1\<lparr>cpu_r := regs[0 := cpu_spsr k, 2 := proc + 68 + 60]\<rparr>) })"

definition process_switch :: "ptr \<Rightarrow> ptr \<Rightarrow> kernel \<Rightarrow> kernel option" where
  "process_switch old new k =
     (let regs = (cpu_r k)[2 := old + 68] in
      do { k1 \<leftarrow> pcb_upd old (\<lambda>b. b\<lparr>kernel_state := \<lparr>k_r = regs, k_spsr = cpu_spsr k\<rparr>\<rparr>) k;
           let k2 = k1\<lparr>current_process := new\<rparr>;
           b \<leftarrow> pcbs k2 new;
           Some (k2\<lparr>cpu_spsr := k_spsr (kernel_state b), cpu_r := k_r (kernel_state b)\<rparr>) })"

section \<open>The list abstraction\<close>

text \<open>
  \<open>chain k a ps\<close>: following \<^verbatim>\<open>next\<close> from \<open>a\<close> visits the control blocks \<open>ps\<close> and then ends.
\<close>

fun chain :: "kernel \<Rightarrow> ptr \<Rightarrow> ptr list \<Rightarrow> bool" where
  "chain k a [] \<longleftrightarrow> a = NULL"
| "chain k a (p # ps) \<longleftrightarrow> a = p \<and> p \<noteq> NULL \<and> (\<exists>b. pcbs k p = Some b \<and> chain k (p_next b) ps)"

definition nth_ptr :: "ptr list \<Rightarrow> nat \<Rightarrow> ptr" where
  "nth_ptr ps i = (if i < length ps then ps ! i else NULL)"

text \<open>
  The process table holds the list \<open>ps\<close>. The \<^verbatim>\<open>prev\<close> pointer of the first process is never
  followed; \<^verbatim>\<open>process_remove\<close> leaves it dangling when it removes the first process.
\<close>

definition linked :: "kernel \<Rightarrow> ptr list \<Rightarrow> nat \<Rightarrow> bool" where
  "linked k ps i \<longleftrightarrow> (\<exists>b. pcbs k (ps ! i) = Some b \<and> p_next b = nth_ptr ps (Suc i) \<and>
     (0 < i \<longrightarrow> p_prev b = ps ! (i - 1)))"

definition proc_list :: "kernel \<Rightarrow> ptr list \<Rightarrow> bool" where
  "proc_list k ps \<longleftrightarrow> distinct ps \<and> NULL \<notin> set ps \<and> proc_first k = nth_ptr ps 0 \<and>
     (\<forall>i < length ps. linked k ps i)"

lemma proc_list_dom: "proc_list k ps \<Longrightarrow> p \<in> set ps \<Longrightarrow> \<exists>b. pcbs k p = Some b"
  unfolding proc_list_def linked_def in_set_conv_nth by blast

lemma proc_list_chain_from:
  assumes "proc_list k ps" and "i \<le> length ps"
  shows "chain k (nth_ptr ps i) (drop i ps)"
  using assms(2)
proof (induction "length ps - i" arbitrary: i)
  case 0
  then show ?case by (simp add: nth_ptr_def)
next
  case (Suc n)
  then have i: "i < length ps" by simp
  then have d: "drop i ps = ps ! i # drop (Suc i) ps" by (simp add: Cons_nth_drop_Suc)
  have "chain k (nth_ptr ps (Suc i)) (drop (Suc i) ps)" using Suc i by simp
  moreover have "linked k ps i" "ps ! i \<noteq> NULL"
    using assms(1) i by (auto simp: proc_list_def in_set_conv_nth)
  ultimately show ?case using i unfolding d by (auto simp: linked_def nth_ptr_def)
qed

lemma proc_list_chain: "proc_list k ps \<Longrightarrow> chain k (proc_first k) ps"
  using proc_list_chain_from [of k ps 0] by (simp add: proc_list_def)

text \<open>The list is determined by the state.\<close>

lemma chain_unique: "chain k a ps \<Longrightarrow> chain k a qs \<Longrightarrow> ps = qs"
proof (induction ps arbitrary: a qs)
  case Nil
  then show ?case by (cases qs) auto
next
  case (Cons p ps)
  then show ?case by (cases qs) auto
qed

text \<open>What the traversals compute.\<close>

definition pid_of :: "kernel \<Rightarrow> ptr \<Rightarrow> i32" where
  "pid_of k p = p_pid (the (pcbs k p))"

definition status_of :: "kernel \<Rightarrow> ptr \<Rightarrow> i32" where
  "status_of k p = p_status (the (pcbs k p))"

definition parent_of :: "kernel \<Rightarrow> ptr \<Rightarrow> ptr" where
  "parent_of k p = p_parent (the (pcbs k p))"

definition ptr_or_null :: "ptr option \<Rightarrow> ptr" where
  "ptr_or_null r = (case r of None \<Rightarrow> NULL | Some p \<Rightarrow> p)"

lemma lookup_from_chain:
  "chain k a ps \<Longrightarrow> lookup_from k pid a = Some (ptr_or_null (find (\<lambda>p. pid_of k p = pid) ps))"
  by (induction ps arbitrary: a)
    (auto simp: lookup_from.simps [of k pid] ptr_or_null_def pid_of_def)

lemma lookup_child_from_chain:
  "chain k a ps \<Longrightarrow> lookup_child_from k c a =
     Some (ptr_or_null (find (\<lambda>p. p \<noteq> c \<and> parent_of k p = c) ps))"
  by (induction ps arbitrary: a)
    (auto simp: lookup_child_from.simps [of k c] ptr_or_null_def parent_of_def)

lemma totals_from_chain:
  "chain k a ps \<Longrightarrow> ps \<noteq> [] \<Longrightarrow> totals_from k a t c =
     Some (t + length ps, c + length (filter (\<lambda>p. status_of k p = PROCESS_STATUS_READY) ps))"
proof (induction ps arbitrary: a t c)
  case Nil
  then show ?case by simp
next
  case (Cons p ps)
  then obtain b where b: "a = p" "pcbs k p = Some b" "chain k (p_next b) ps" by auto
  show ?case
  proof (cases ps)
    case Nil
    with b show ?thesis by (simp add: totals_from.simps [of k p] status_of_def Let_def)
  next
    case (Cons q qs)
    then have "p_next b \<noteq> NULL" using b(3) by auto
    with b Cons Cons.IH [OF b(3)] show ?thesis
      by (simp add: totals_from.simps [of k p] status_of_def Let_def)
  qed
qed

lemma last_from_chain: "chain k a ps \<Longrightarrow> ps \<noteq> [] \<Longrightarrow> last_from k a = Some (last ps)"
proof (induction ps arbitrary: a)
  case Nil
  then show ?case by simp
next
  case (Cons p ps)
  then obtain b where b: "a = p" "pcbs k p = Some b" "chain k (p_next b) ps" by auto
  show ?case
  proof (cases ps)
    case Nil
    with b show ?thesis by (simp add: last_from.simps [of k p])
  next
    case (Cons q qs)
    then have "p_next b \<noteq> NULL" using b(3) by auto
    with b Cons Cons.IH [OF b(3)] show ?thesis by (simp add: last_from.simps [of k p])
  qed
qed

lemma on_list_from_chain: "chain k a ps \<Longrightarrow> p \<noteq> NULL \<Longrightarrow> on_list_from k p a = Some (p \<in> set ps)"
  by (induction ps arbitrary: a) (auto simp: on_list_from.simps [of k p])

section \<open>Insertion and removal\<close>

text \<open>Two states that differ only in the links of the process list.\<close>

definition unlinked :: "pcb \<Rightarrow> pcb" where
  "unlinked b = b\<lparr>p_next := NULL, p_prev := NULL\<rparr>"

definition same_but_links :: "kernel \<Rightarrow> kernel \<Rightarrow> bool" where
  "same_but_links k k' \<longleftrightarrow> k' = k\<lparr>pcbs := pcbs k', proc_first := proc_first k'\<rparr> \<and>
     (\<forall>q. map_option unlinked (pcbs k' q) = map_option unlinked (pcbs k q))"

lemma unlinked_simps [simp]:
  "unlinked (b\<lparr>p_next := x\<rparr>) = unlinked b" "unlinked (b\<lparr>p_prev := x\<rparr>) = unlinked b"
  "unlinked (b\<lparr>p_next := x, p_prev := y\<rparr>) = unlinked b"
  by (simp_all add: unlinked_def)

lemma unlinked_fields:
  assumes "unlinked b = unlinked c"
  shows "p_status b = p_status c" "p_pid b = p_pid c" "p_parent b = p_parent c"
    "p_stack b = p_stack c" "stacksize b = stacksize c" "p_text b = p_text c"
    "textsize b = textsize c" "wait_queue_next b = wait_queue_next c" "user_state b = user_state c"
    "current_dir b = current_dir c" "p_name b = p_name c"
  using assms by (cases b; cases c; simp add: unlinked_def)+

lemma same_but_links_refl [simp]: "same_but_links k k"
  by (simp add: same_but_links_def)

lemma same_but_links_pcb:
  assumes "same_but_links k k'" and "pcbs k q = Some b"
  shows "\<exists>c. pcbs k' q = Some c \<and> unlinked c = unlinked b"
  using assms unfolding same_but_links_def by (metis map_option_eq_Some option.simps(9))

lemma same_but_links_dom: "same_but_links k k' \<Longrightarrow> dom (pcbs k') = dom (pcbs k)"
  unfolding same_but_links_def dom_def by (metis option.map_disc_iff)

lemma nth_ptr_append_one:
  "i < length ps \<Longrightarrow> nth_ptr (ps @ [p]) (Suc i) = (if Suc i < length ps then ps ! Suc i else p)"
  by (auto simp: nth_ptr_def nth_append)

lemma process_insert_spec:
  assumes "proc_list k ps" and "p \<notin> set ps" and "p \<noteq> NULL" and "pcbs k p = Some b"
  shows "\<exists>k'. process_insert p k = Some k' \<and> proc_list k' (ps @ [p]) \<and> same_but_links k k'"
proof (cases "ps = []")
  case True
  then show ?thesis
    using assms by (auto simp: process_insert_def pcb_upd_def proc_list_def nth_ptr_def linked_def
        same_but_links_def)
next
  case False
  let ?n = "length ps" and ?l = "last ps"
  have l: "?l = ps ! (?n - 1)" and n: "?n - 1 < ?n" using False by (simp_all add: last_conv_nth)
  have ne: "proc_first k \<noteq> NULL"
    using assms(1) False by (auto simp: proc_list_def nth_ptr_def in_set_conv_nth)
  have lf: "last_from k (proc_first k) = Some ?l"
    using last_from_chain [OF proc_list_chain [OF assms(1)] False] .
  obtain c where c: "pcbs k ?l = Some c" using proc_list_dom [OF assms(1)] False by fastforce
  have pl: "p \<noteq> ?l" using assms(2) False by auto
  let ?k' = "k\<lparr>pcbs := (pcbs k)(?l \<mapsto> c\<lparr>p_next := p\<rparr>, p \<mapsto> b\<lparr>p_next := NULL, p_prev := ?l\<rparr>)\<rparr>"
  have ins: "process_insert p k = Some ?k'"
    using ne lf c pl assms(4) by (simp add: process_insert_def pcb_upd_def)
  have d: "distinct ps" and lk: "\<And>i. i < ?n \<Longrightarrow> linked k ps i"
    using assms(1) by (auto simp: proc_list_def)
  have "linked ?k' (ps @ [p]) i" if i: "i < Suc ?n" for i
  proof (cases "i = ?n")
    case True
    then show ?thesis using l by (simp add: linked_def nth_ptr_def nth_append)
  next
    case False
    with i have i: "i < ?n" by simp
    have np: "ps ! i \<noteq> p" using assms(2) i by auto
    have "ps ! i = ?l \<longleftrightarrow> i = ?n - 1" using l d i n nth_eq_iff_index_eq by metis
    with lk [OF i] i np c show ?thesis
      by (auto simp: linked_def nth_append nth_ptr_append_one nth_ptr_def)
  qed
  then have "proc_list ?k' (ps @ [p])"
    using assms False by (auto simp: proc_list_def nth_ptr_def nth_append)
  moreover have "same_but_links k ?k'" using c assms(4) by (auto simp: same_but_links_def)
  ultimately show ?thesis using ins by blast
qed

text \<open>Removing the entry at position \<open>i\<close>.\<close>

abbreviation drop_at :: "nat \<Rightarrow> 'a list \<Rightarrow> 'a list" where
  "drop_at i xs \<equiv> take i xs @ drop (Suc i) xs"

lemma drop_at_nth:
  "i < length xs \<Longrightarrow> j < length xs - 1 \<Longrightarrow> drop_at i xs ! j = xs ! (if j < i then j else Suc j)"
  by (auto simp: nth_append min_def)

lemma remove1_drop_at: "distinct xs \<Longrightarrow> i < length xs \<Longrightarrow> remove1 (xs ! i) xs = drop_at i xs"
proof (induction xs arbitrary: i)
  case (Cons x xs)
  then show ?case by (cases i) auto
qed simp

lemma nth_ptr_drop_at:
  "i < length ps \<Longrightarrow> nth_ptr (drop_at i ps) j = nth_ptr ps (if j < i then j else Suc j)"
  by (auto simp: nth_ptr_def drop_at_nth)

lemma proc_list_nth:
  assumes "proc_list k ps"
  shows "a < length ps \<Longrightarrow> ps ! a \<noteq> NULL"
    and "a < length ps \<Longrightarrow> b < length ps \<Longrightarrow> ps ! a = ps ! b \<longleftrightarrow> a = b"
    and "a < length ps \<Longrightarrow> linked k ps a"
proof -
  show "a < length ps \<Longrightarrow> ps ! a \<noteq> NULL"
    using assms by (metis nth_mem proc_list_def)
  show "a < length ps \<Longrightarrow> b < length ps \<Longrightarrow> ps ! a = ps ! b \<longleftrightarrow> a = b"
    and "a < length ps \<Longrightarrow> linked k ps a"
    using assms by (simp_all add: proc_list_def nth_eq_iff_index_eq)
qed

text \<open>The links after the entry at position \<open>i\<close> has been unhooked: first, last and inner entry.\<close>

lemma linked_without_first:
  assumes "proc_list k ps" and "j < length ps - 1"
  shows "linked (k\<lparr>proc_first := x\<rparr>) (drop_at 0 ps) j"
proof -
  have "Suc j < length ps" using assms(2) by simp
  from proc_list_nth(3) [OF assms(1) this] this show ?thesis by (auto simp: linked_def nth_ptr_def)
qed

lemma linked_without_last:
  assumes "proc_list k ps" and "0 < i" and "Suc i = length ps" and "pcbs k (ps ! (i - 1)) = Some c"
    and "j < length ps - 1"
  shows "linked (k\<lparr>pcbs := (pcbs k)(ps ! (i - 1) \<mapsto> c\<lparr>p_next := NULL\<rparr>)\<rparr>) (drop_at i ps) j"
proof -
  have i: "i < length ps" "i - 1 < length ps" and ji: "j < i" and jj: "j < length ps"
    using assms by auto
  note L = proc_list_nth(3) [OF assms(1) jj, unfolded linked_def]
  have n: "drop_at i ps ! j = ps ! j" using drop_at_nth [OF i(1) assms(5)] ji by simp
  have n': "drop_at i ps ! (j - 1) = ps ! (j - 1)" if "0 < j"
    using drop_at_nth [OF i(1), of "j - 1"] assms(5) that ji by auto
  show ?thesis
    using L assms(3,4) n n' nth_ptr_drop_at [OF i(1), of "Suc j"]
      proc_list_nth(2) [OF assms(1) jj i(2)] ji
    by (cases "j = i - 1") (auto simp: linked_def nth_ptr_def)
qed

lemma linked_without_inner:
  assumes "proc_list k ps" and "0 < i" and "Suc i < length ps" and "pcbs k (ps ! (i - 1)) = Some c"
    and "pcbs k (ps ! Suc i) = Some e" and "j < length ps - 1"
  shows "linked (k\<lparr>pcbs := (pcbs k)(ps ! (i - 1) \<mapsto> c\<lparr>p_next := ps ! Suc i\<rparr>,
      ps ! Suc i \<mapsto> e\<lparr>p_prev := ps ! (i - 1)\<rparr>)\<rparr>) (drop_at i ps) j"
proof -
  have i: "i < length ps" "i - 1 < length ps" and s: "nth_ptr ps (Suc i) = ps ! Suc i"
    using assms(3) by (auto simp: nth_ptr_def)
  have jj: "(if j < i then j else Suc j) < length ps" using assms(6) by auto
  note L = proc_list_nth(3) [OF assms(1) jj, unfolded linked_def]
  note eq = proc_list_nth(2) [OF assms(1)]
  have n: "drop_at i ps ! j = ps ! (if j < i then j else Suc j)"
    by (rule drop_at_nth [OF i(1) assms(6)])
  have n': "drop_at i ps ! (j - 1) = ps ! (if j - 1 < i then j - 1 else j)" if "0 < j"
    using drop_at_nth [OF i(1), of "j - 1"] assms(6) that by auto
  have sq: "ps ! Suc i \<noteq> ps ! (i - 1)" using eq [OF assms(3) i(2)] by auto
  consider "j = i" | "j = i - 1" "j \<noteq> i" | "j \<noteq> i" "j \<noteq> i - 1" by blast
  then show ?thesis
  proof cases
    case 1
    then show ?thesis using L assms(2,5) s n n' nth_ptr_drop_at [OF i(1), of "Suc j"] sq
      by (simp add: linked_def)
  next
    case 2
    then show ?thesis using L assms(2,4) s n n' nth_ptr_drop_at [OF i(1), of "Suc j"] sq
      by (auto simp: linked_def)
  next
    case 3
    then have "drop_at i ps ! j \<noteq> ps ! (i - 1)" "drop_at i ps ! j \<noteq> ps ! Suc i"
      using n eq [OF jj i(2)] eq [OF jj assms(3)] assms(2) by (auto split: if_splits)
    then show ?thesis using L n n' nth_ptr_drop_at [OF i(1), of "Suc j"] 3 assms(2)
      by (auto simp: linked_def split: if_splits)
  qed
qed

text \<open>The computation of \<^verbatim>\<open>process_remove\<close> for an entry that is not the first.\<close>

lemma process_remove_later:
  assumes "proc_list k ps" and "0 < i" and "i < length ps"
  obtains (last) c where "Suc i = length ps" "pcbs k (ps ! (i - 1)) = Some c"
      "process_remove (ps ! i) k = Some (0, k\<lparr>pcbs := (pcbs k)(ps ! (i - 1) \<mapsto> c\<lparr>p_next := NULL\<rparr>)\<rparr>)"
  | (inner) c e where "Suc i < length ps" "pcbs k (ps ! (i - 1)) = Some c"
      "pcbs k (ps ! Suc i) = Some e"
      "process_remove (ps ! i) k = Some (0, k\<lparr>pcbs := (pcbs k)(ps ! (i - 1) \<mapsto> c\<lparr>p_next := ps ! Suc i\<rparr>,
         ps ! Suc i \<mapsto> e\<lparr>p_prev := ps ! (i - 1)\<rparr>)\<rparr>)"
proof -
  note nth = proc_list_nth [OF assms(1)]
  have i1: "i - 1 < length ps" using assms(3) by simp
  have pf: "proc_first k = ps ! 0" using assms by (auto simp: proc_list_def nth_ptr_def)
  have ps0: "0 < length ps" using assms(3) by linarith
  have first: "proc_first k \<noteq> NULL" "proc_first k \<noteq> ps ! i"
    using nth(1) [OF ps0] nth(2) [OF ps0 assms(3)] assms(2) pf by auto
  have on: "on_list_from k (ps ! i) (proc_first k) = Some True"
    using on_list_from_chain [OF proc_list_chain [OF assms(1)] nth(1) [OF assms(3)]] assms(3) by simp
  obtain b where b: "pcbs k (ps ! i) = Some b" "p_next b = nth_ptr ps (Suc i)" "p_prev b = ps ! (i - 1)"
    using nth(3) [OF assms(3)] assms(2) by (auto simp: linked_def)
  obtain c where c: "pcbs k (ps ! (i - 1)) = Some c" using nth(3) [OF i1] by (auto simp: linked_def)
  have pq: "ps ! i \<noteq> ps ! (i - 1)" using nth(2) [OF assms(3) i1] assms(2) by auto
  show ?thesis
  proof (cases "Suc i < length ps")
    case True
    obtain e where e: "pcbs k (ps ! Suc i) = Some e" using nth(3) [OF True] by (auto simp: linked_def)
    have "ps ! Suc i \<noteq> NULL" "ps ! Suc i \<noteq> ps ! i" "ps ! Suc i \<noteq> ps ! (i - 1)"
      using nth(1) [OF True] nth(2) [OF True assms(3)] nth(2) [OF True i1] by auto
    then have "process_remove (ps ! i) k = Some (0, k\<lparr>pcbs := (pcbs k)(ps ! (i - 1) \<mapsto> c\<lparr>p_next := ps ! Suc i\<rparr>,
         ps ! Suc i \<mapsto> e\<lparr>p_prev := ps ! (i - 1)\<rparr>)\<rparr>)"
      using first on b c e pq True by (simp add: process_remove_def pcb_upd_def nth_ptr_def)
    with True c e show ?thesis by (rule inner)
  next
    case False
    then have "process_remove (ps ! i) k = Some (0, k\<lparr>pcbs := (pcbs k)(ps ! (i - 1) \<mapsto> c\<lparr>p_next := NULL\<rparr>)\<rparr>)"
      using first on b c pq by (simp add: process_remove_def pcb_upd_def nth_ptr_def)
    with False assms(3) c show ?thesis by (intro last) auto
  qed
qed

lemma proc_list_drop_at:
  assumes "proc_list k ps" and "i < length ps" and "proc_first k' = nth_ptr (drop_at i ps) 0"
    and "\<And>j. j < length ps - 1 \<Longrightarrow> linked k' (drop_at i ps) j"
  shows "proc_list k' (drop_at i ps)"
proof -
  have r: "remove1 (ps ! i) ps = drop_at i ps"
    using remove1_drop_at assms(1,2) by (auto simp: proc_list_def)
  have "distinct (drop_at i ps)" "NULL \<notin> set (drop_at i ps)"
    using assms(1) unfolding r [symmetric] by (auto simp: proc_list_def dest: notin_set_remove1)
  with assms(2,3,4) show ?thesis by (auto simp: proc_list_def)
qed

lemma process_remove_spec:
  assumes "proc_list k ps" and "p \<in> set ps"
  shows "\<exists>k'. process_remove p k = Some (0, k') \<and> proc_list k' (remove1 p ps) \<and> same_but_links k k' \<and>
    pcbs k' p = pcbs k p"
proof -
  obtain i where i: "i < length ps" "p = ps ! i" using assms(2) by (auto simp: in_set_conv_nth)
  note nth = proc_list_nth [OF assms(1)]
  have pf: "proc_first k = ps ! 0" using assms(1) i by (auto simp: proc_list_def nth_ptr_def)
  have r: "remove1 p ps = drop_at i ps"
    using remove1_drop_at [of ps i] i assms(1) by (auto simp: proc_list_def)
  note pl = proc_list_drop_at [OF assms(1) i(1)]
  show ?thesis
  proof (cases "i = 0")
    case True
    obtain b where b: "pcbs k p = Some b" "p_next b = nth_ptr ps 1"
      using nth(3) [OF i(1)] i(2) True by (auto simp: linked_def)
    then have "process_remove p k = Some (0, k\<lparr>proc_first := p_next b\<rparr>)"
      using pf i True nth(1) [OF i(1)] by (simp add: process_remove_def)
    moreover have "proc_list (k\<lparr>proc_first := p_next b\<rparr>) (drop_at i ps)"
      using linked_without_first [OF assms(1)] True b(2) by (intro pl) (auto simp: nth_ptr_def)
    ultimately show ?thesis using r by (auto simp: same_but_links_def)
  next
    case False
    then have pos: "0 < i" and i1: "i - 1 < length ps" using i(1) by auto
    have pq: "p \<noteq> ps ! (i - 1)" using nth(2) [OF i(1) i1] i(2) False by auto
    have f0: "proc_first k = nth_ptr (drop_at i ps) 0"
      using nth_ptr_drop_at [OF i(1), of 0] pf pos i(1) by (auto simp: nth_ptr_def)
    show ?thesis
    proof (cases rule: process_remove_later [OF assms(1) pos i(1), case_names last inner])
      case (last c)
      have "proc_list (k\<lparr>pcbs := (pcbs k)(ps ! (i - 1) \<mapsto> c\<lparr>p_next := NULL\<rparr>)\<rparr>) (drop_at i ps)"
        using linked_without_last [OF assms(1) pos last(1,2)] f0 by (intro pl) simp_all
      with last r i(2) pq show ?thesis by (auto simp: same_but_links_def)
    next
      case (inner c e)
      have "p \<noteq> ps ! Suc i" using nth(2) [OF i(1) inner(1)] i(2) by auto
      moreover have "proc_list (k\<lparr>pcbs := (pcbs k)(ps ! (i - 1) \<mapsto> c\<lparr>p_next := ps ! Suc i\<rparr>,
          ps ! Suc i \<mapsto> e\<lparr>p_prev := ps ! (i - 1)\<rparr>)\<rparr>) (drop_at i ps)"
        using linked_without_inner [OF assms(1) pos inner(1,2,3)] f0 by (intro pl) simp_all
      ultimately show ?thesis using inner r i(2) pq by (auto simp: same_but_links_def)
    qed
  qed
qed

section \<open>Ownership of memory and the table's invariant\<close>

text \<open>
  What a process owns: its control block and, when they are set, its stack and its program. The
  first process is the idle task, whose stack and program are recorded with size 0 and which is
  never destroyed, so only its control block is counted.
\<close>

definition resources :: "kernel \<Rightarrow> ptr \<Rightarrow> (ptr \<times> u32) list" where
  "resources k p = (case pcbs k p of None \<Rightarrow> []
     | Some b \<Rightarrow> (p, PCB_SIZE) # (if p_stack b \<noteq> NULL then [(p_stack b, stacksize b)] else []) @
         (if p_text b \<noteq> NULL then [(p_text b, textsize b)] else []))"

definition holdings :: "kernel \<Rightarrow> ptr list \<Rightarrow> (ptr \<times> u32) list" where
  "holdings k ps = (case ps of [] \<Rightarrow> [] | p # qs \<Rightarrow> (p, PCB_SIZE) # concat (map (resources k) qs))"

text \<open>
  \<open>base\<close> are the chunks of the kernel, \<open>extra\<close> the blocks that no process accounts for.
\<close>

definition ktab :: "nat set \<Rightarrow> (ptr \<times> u32) list \<Rightarrow> kernel \<Rightarrow> ptr list \<Rightarrow> bool" where
  "ktab base extra k ps \<longleftrightarrow> proc_list k ps \<and> dom (pcbs k) = set ps \<and>
     mm.accounts base (holdings k ps @ extra) (mem k) \<and>
     distinct (map (pid_of k) ps) \<and>
     (\<forall>p\<in>set ps. 0 \<le> sint (pid_of k p) \<and> sint (pid_of k p) < sint (avail_pid k))"

text \<open>
  A block of size 0 takes a chunk but cannot be released, so what has to be released must not be empty.
\<close>

definition kinv :: "nat set \<Rightarrow> (ptr \<times> u32) list \<Rightarrow> kernel \<Rightarrow> ptr list \<Rightarrow> bool" where
  "kinv base extra k ps \<longleftrightarrow> ktab base extra k ps \<and> (\<forall>(q, n)\<in>set (holdings k ps). n \<noteq> 0)"

lemmas kinv_defs = kinv_def ktab_def

lemma PCB_SIZE_chunks: "chunks_of PCB_SIZE = 2" "PCB_SIZE \<noteq> 0"
  by (simp_all add: PCB_SIZE_def chunks_of_def)

lemma unlinked_same_of:
  assumes "map_option unlinked (pcbs k' p) = map_option unlinked (pcbs k p)"
  shows "pid_of k' p = pid_of k p" "status_of k' p = status_of k p" "parent_of k' p = parent_of k p"
    "resources k' p = resources k p"
proof -
  have "pid_of k' p = pid_of k p \<and> status_of k' p = status_of k p \<and> parent_of k' p = parent_of k p \<and>
      resources k' p = resources k p"
  proof (cases "pcbs k p")
    case None
    with assms show ?thesis by (simp add: pid_of_def status_of_def parent_of_def resources_def)
  next
    case (Some b)
    with assms obtain c where c: "pcbs k' p = Some c" "unlinked c = unlinked b" by auto
    note u = unlinked_fields [OF c(2)]
    show ?thesis
      by (simp add: pid_of_def status_of_def parent_of_def resources_def c(1) Some u)
  qed
  then show "pid_of k' p = pid_of k p" "status_of k' p = status_of k p"
    "parent_of k' p = parent_of k p" "resources k' p = resources k p" by blast+
qed

lemma same_but_links_of:
  assumes "same_but_links k k'"
  shows "pid_of k' p = pid_of k p" "status_of k' p = status_of k p" "parent_of k' p = parent_of k p"
    "resources k' p = resources k p" "mem k' = mem k" "avail_pid k' = avail_pid k"
    "current_process k' = current_process k" "tick_counter k' = tick_counter k"
proof -
  have *: "map_option unlinked (pcbs k' p) = map_option unlinked (pcbs k p)"
    and k': "k' = k\<lparr>pcbs := pcbs k', proc_first := proc_first k'\<rparr>"
    using assms by (auto simp: same_but_links_def)
  from unlinked_same_of [OF *] show "pid_of k' p = pid_of k p" "status_of k' p = status_of k p"
    "parent_of k' p = parent_of k p" "resources k' p = resources k p" .
  show "mem k' = mem k" by (subst k') simp
  show "avail_pid k' = avail_pid k" by (subst k') simp
  show "current_process k' = current_process k" by (subst k') simp
  show "tick_counter k' = tick_counter k" by (subst k') simp
qed

lemma resources_cong: "pcbs k p = pcbs k' p \<Longrightarrow> resources k p = resources k' p"
  by (simp add: resources_def)

lemma holdings_cong:
  "(\<And>p. p \<in> set ps \<Longrightarrow> resources k p = resources k' p) \<Longrightarrow> holdings k ps = holdings k' ps"
  by (auto simp: holdings_def split: list.splits intro!: arg_cong [where f = concat])

lemma resources_pcb: "pcbs k p = Some b \<Longrightarrow> (p, PCB_SIZE) \<in> set (resources k p)"
  by (simp add: resources_def)

lemma holdings_pcb:
  assumes "p \<in> set ps" and "dom (pcbs k) = set ps"
  shows "(p, PCB_SIZE) \<in> set (holdings k ps)"
proof -
  from assms obtain b where "pcbs k p = Some b" by blast
  from resources_pcb [OF this] assms(1) show ?thesis by (cases ps) (auto simp: holdings_def)
qed

lemma sint_inc: "sint (a :: i32) < 2147483647 \<Longrightarrow> sint (a + 1) = sint a + 1"
  using sint_ge [of a] by (subst sint_word_ariths) (simp add: signed_take_bit_int_eq_self_iff)

lemma ktab_parts:
  assumes "ktab base extra k ps"
  shows "proc_list k ps" "dom (pcbs k) = set ps" "distinct ps"
    "mm.accounts base (holdings k ps @ extra) (mem k)" "mem_inv (mem k)"
  using assms by (auto simp: ktab_def proc_list_def mm.accounts_def)

lemma ktab_create:
  assumes "ktab base extra k ps" and "0 \<le> sint (avail_pid k)" and "sint (avail_pid k) < 2147483647"
    and a: "memory_allocate PCB_SIZE (mem k) = Some (p, m)" and False: "p \<noteq> NULL"
  shows "\<exists>k'. process_create k = Some (p, k') \<and> p \<notin> set ps \<and> ktab base extra k' (ps @ [p]) \<and>
    holdings k' (ps @ [p]) = holdings k ps @ [(p, PCB_SIZE)] \<and> pid_of k' p = avail_pid k \<and>
    avail_pid k' = avail_pid k + 1 \<and> status_of k' p = PROCESS_STATUS_SLEEPING \<and>
    resources k' p = [(p, PCB_SIZE)] \<and>
    k' = k\<lparr>mem := mem k', pcbs := pcbs k', avail_pid := avail_pid k', proc_first := proc_first k'\<rparr> \<and>
    used (mem k') = used (mem k) \<union> block p PCB_SIZE \<and> max_chunk (mem k') = max_chunk (mem k) \<and>
    (\<forall>q\<in>set ps. map_option unlinked (pcbs k' q) = map_option unlinked (pcbs k q))"
proof -
  note kp = ktab_parts [OF assms(1)]
  note ac = mm.accounts_alloc [OF kp(4) a False]
  have fresh: "p \<notin> set ps"
  proof
    assume "p \<in> set ps"
    then have "(p, PCB_SIZE) \<in> set (holdings k ps @ extra)" using holdings_pcb [OF _ kp(2)] by simp
    with ac show False by (simp add: mm.accounts_def)
  qed
  obtain b k2 where k2: "k2 = k\<lparr>mem := m, pcbs := (pcbs k)(p \<mapsto> b), avail_pid := avail_pid k + 1\<rparr>"
    and cr: "process_create k = do { k3 \<leftarrow> process_insert p k2; Some (p, k3) }"
    and b: "p_pid b = avail_pid k" "p_status b = PROCESS_STATUS_SLEEPING" "p_stack b = NULL"
      "p_text b = NULL"
    using a False by (simp add: process_create_def Let_def zero_pcb_def)
  have "ps ! i \<noteq> p" if "i < length ps" for i using fresh that by auto
  then have "proc_list k2 ps" using kp(1) unfolding proc_list_def linked_def k2 by auto
  from process_insert_spec [OF this fresh False] obtain k' where
    k': "process_insert p k2 = Some k'" "proc_list k' (ps @ [p])" "same_but_links k2 k'"
    by (auto simp: k2)
  note s = same_but_links_of [OF k'(3)]
  have rs: "resources k2 q = resources k q" "pid_of k2 q = pid_of k q" if "q \<in> set ps" for q
    using fresh that by (auto simp: k2 resources_def pid_of_def)
  have "holdings k2 ps = holdings k ps" using rs(1) by (rule holdings_cong)
  moreover have "holdings k' (ps @ [p]) = holdings k2 (ps @ [p])" using s(4) by (rule holdings_cong)
  moreover have "holdings k2 (ps @ [p]) = holdings k2 ps @ [(p, PCB_SIZE)]"
    using b by (cases ps) (simp_all add: holdings_def resources_def k2)
  ultimately have h: "holdings k' (ps @ [p]) = holdings k ps @ [(p, PCB_SIZE)]" by simp
  have "mset ((p, PCB_SIZE) # holdings k ps @ extra) = mset (holdings k' (ps @ [p]) @ extra)"
    by (simp add: h)
  from mm.accounts_cong [OF this] ac
  have "mm.accounts base (holdings k' (ps @ [p]) @ extra) m" by blast
  moreover have "dom (pcbs k') = set (ps @ [p])"
    using same_but_links_dom [OF k'(3)] kp(2) by (auto simp: k2)
  moreover have "avail_pid k \<notin> pid_of k ` set ps" using assms(1) by (auto simp: ktab_def)
  moreover have pid: "pid_of k' p = avail_pid k" using s(1) b(1) by (simp add: k2 pid_of_def)
  moreover have pids: "pid_of k' q = pid_of k q" if "q \<in> set ps" for q using s(1) rs(2) that by simp
  then have "distinct (map (pid_of k') ps)" using assms(1) by (simp add: ktab_def cong: map_cong)
  moreover have "mem k' = m" "avail_pid k' = avail_pid k + 1" using s(5,6) by (simp_all add: k2)
  ultimately have "ktab base extra k' (ps @ [p])"
    using assms(1-3) k'(2) pids sint_inc [of "avail_pid k"] by (auto simp: ktab_def)
  moreover have "status_of k' p = PROCESS_STATUS_SLEEPING"
    using s(2) b(2) by (simp add: k2 status_of_def)
  moreover have "used (mem k') = used (mem k) \<union> block p PCB_SIZE"
    "max_chunk (mem k') = max_chunk (mem k)"
    using mm.alloc_used [OF kp(5) a False] allocate_inv(2) [OF a kp(5)] s(5) by (simp_all add: k2)
  moreover have "\<forall>q\<in>set ps. map_option unlinked (pcbs k' q) = map_option unlinked (pcbs k q)"
    using k'(3) fresh by (auto simp: same_but_links_def k2)
  moreover have "resources k' p = [(p, PCB_SIZE)]" using s(4) b by (simp add: resources_def k2)
  moreover have "k' = k\<lparr>mem := mem k', pcbs := pcbs k', avail_pid := avail_pid k', proc_first := proc_first k'\<rparr>"
  proof -
    have "k' = k2\<lparr>pcbs := pcbs k', proc_first := proc_first k'\<rparr>"
      using k'(3) by (simp add: same_but_links_def)
    then show ?thesis by (cases k; cases k') (simp add: k2)
  qed
  ultimately show ?thesis
    using cr k'(1) fresh pid s(6) h by (simp add: k2)
qed

lemma process_create_spec:
  assumes "kinv base extra k ps" and "max_chunk (mem k) + 2 \<le> 32 * MAP_WORDS"
    and "0 \<le> sint (avail_pid k)" and "sint (avail_pid k) < 2147483647"
  shows "\<exists>p k'. process_create k = Some (p, k') \<and>
    (if p = NULL then k' = k \<and> (\<forall>i < max_chunk (mem k). \<not> free_run (mem k) 2 i)
     else p \<notin> set ps \<and> kinv base extra k' (ps @ [p]) \<and> pid_of k' p = avail_pid k \<and>
       avail_pid k' = avail_pid k + 1 \<and> status_of k' p = PROCESS_STATUS_SLEEPING \<and>
       resources k' p = [(p, PCB_SIZE)] \<and>
       k' = k\<lparr>mem := mem k', pcbs := pcbs k', avail_pid := avail_pid k', proc_first := proc_first k'\<rparr> \<and>
       used (mem k') = used (mem k) \<union> block p PCB_SIZE \<and> max_chunk (mem k') = max_chunk (mem k) \<and>
       (\<forall>q\<in>set ps. map_option unlinked (pcbs k' q) = map_option unlinked (pcbs k q)))"
proof -
  have kt: "ktab base extra k ps" using assms(1) by (simp add: kinv_def)
  note mi = ktab_parts(5) [OF kt]
  obtain p m where a: "memory_allocate PCB_SIZE (mem k) = Some (p, m)"
    using allocate_total [OF mi, of PCB_SIZE] assms(2) by (auto simp: PCB_SIZE_chunks)
  show ?thesis
  proof (cases "p = NULL")
    case True
    with a have "m = mem k" "\<forall>i < max_chunk (mem k). \<not> free_run (mem k) 2 i"
      using allocate_null [OF _ mi, of PCB_SIZE m] assms(2) by (auto simp: PCB_SIZE_chunks)
    with a True show ?thesis by (simp add: process_create_def Let_def)
  next
    case False
    from ktab_create [OF kt assms(3,4) a False] assms(1) False show ?thesis
      by (intro exI [of _ p]) (auto simp: kinv_def PCB_SIZE_chunks)
  qed
qed

lemma kfree_accounts:
  assumes "mm.accounts base live (mem k)" and "(q, n) \<in> set live" and "n \<noteq> 0"
  shows "\<exists>m. kfree q n k = Some (k\<lparr>mem := m\<rparr>) \<and> mm.accounts base (remove1 (q, n) live) m \<and>
    used m = used (mem k) - block q n"
  using mm.accounts_release [OF assms] by (auto simp: kfree_def)

lemma mset_concat_remove1:
  "p \<in> set qs \<Longrightarrow> mset (concat (map f qs)) = mset (f p) + mset (concat (map f (remove1 p qs)))"
  by (induction qs) auto

lemma holdings_remove:
  assumes "p \<in> set (tl ps)" and "distinct ps"
  shows "mset (holdings k ps) = mset (resources k p) + mset (holdings k (remove1 p ps))"
proof (cases ps)
  case (Cons a qs)
  with assms have "p \<noteq> a" "p \<in> set qs" by auto
  with Cons show ?thesis by (simp add: holdings_def mset_concat_remove1)
qed (use assms in simp)

text \<open>The part of \<^verbatim>\<open>process_destroy\<close> that releases the memory.\<close>

lemma destroy_releases:
  assumes "mm.accounts base (resources k proc @ rest) (mem k)" and "pcbs k proc = Some b"
    and "\<forall>(q, n)\<in>set (resources k proc). n \<noteq> 0"
  shows "\<exists>m. do { k3 \<leftarrow> (if p_stack b \<noteq> NULL then kfree (p_stack b) (stacksize b) k else Some k);
          k4 \<leftarrow> (if p_text b \<noteq> NULL then kfree (p_text b) (textsize b) k3 else Some k3);
          kfree proc PCB_SIZE k4 } = Some (k\<lparr>mem := m\<rparr>) \<and>
     mm.accounts base rest m \<and> used m = used (mem k) - (\<Union>(q, n)\<in>set (resources k proc). block q n)"
proof -
  let ?S = "if p_stack b \<noteq> NULL then [(p_stack b, stacksize b)] else []"
  let ?T = "if p_text b \<noteq> NULL then [(p_text b, textsize b)] else []"
  have r: "resources k proc = (proc, PCB_SIZE) # ?S @ ?T" using assms(2) by (simp add: resources_def)
  have "\<exists>m. (if p_stack b \<noteq> NULL then kfree (p_stack b) (stacksize b) k else Some k) = Some (k\<lparr>mem := m\<rparr>) \<and>
      mm.accounts base ((proc, PCB_SIZE) # ?T @ rest) m \<and> used m = used (mem k) - (\<Union>(q, n)\<in>set ?S. block q n)"
  proof (cases "p_stack b = NULL")
    case False
    then have "mm.accounts base ((p_stack b, stacksize b) # (proc, PCB_SIZE) # ?T @ rest) (mem k)"
      using assms(1) mm.accounts_cong [of "resources k proc @ rest"
          "(p_stack b, stacksize b) # (proc, PCB_SIZE) # ?T @ rest"] by (simp add: r)
    from kfree_accounts [OF this, of "p_stack b" "stacksize b"] False assms(3) show ?thesis
      by (auto simp: r)
  qed (use assms(1) in \<open>auto simp: r intro: exI [of _ "mem k"]\<close>)
  then obtain m1 where 1: "(if p_stack b \<noteq> NULL then kfree (p_stack b) (stacksize b) k else Some k) =
      Some (k\<lparr>mem := m1\<rparr>)" "mm.accounts base ((proc, PCB_SIZE) # ?T @ rest) m1"
    "used m1 = used (mem k) - (\<Union>(q, n)\<in>set ?S. block q n)" by blast
  have "\<exists>m. (if p_text b \<noteq> NULL then kfree (p_text b) (textsize b) (k\<lparr>mem := m1\<rparr>) else Some (k\<lparr>mem := m1\<rparr>)) =
      Some (k\<lparr>mem := m\<rparr>) \<and> mm.accounts base ((proc, PCB_SIZE) # rest) m \<and>
      used m = used m1 - (\<Union>(q, n)\<in>set ?T. block q n)"
  proof (cases "p_text b = NULL")
    case False
    then have "mm.accounts base ((p_text b, textsize b) # (proc, PCB_SIZE) # rest) m1"
      using 1(2) mm.accounts_cong [of "(proc, PCB_SIZE) # ?T @ rest"
          "(p_text b, textsize b) # (proc, PCB_SIZE) # rest"] by simp
    from kfree_accounts [of base _ "k\<lparr>mem := m1\<rparr>" "p_text b" "textsize b"] this False assms(3)
    show ?thesis by (fastforce simp: r)
  qed (use 1(2) in auto)
  then obtain m2 where 2: "(if p_text b \<noteq> NULL then kfree (p_text b) (textsize b) (k\<lparr>mem := m1\<rparr>)
      else Some (k\<lparr>mem := m1\<rparr>)) = Some (k\<lparr>mem := m2\<rparr>)"
    "mm.accounts base ((proc, PCB_SIZE) # rest) m2"
    "used m2 = used m1 - (\<Union>(q, n)\<in>set ?T. block q n)" by blast
  obtain m3 where 3: "kfree proc PCB_SIZE (k\<lparr>mem := m2\<rparr>) = Some (k\<lparr>mem := m3\<rparr>)"
    "mm.accounts base rest m3" "used m3 = used m2 - block proc PCB_SIZE"
    using kfree_accounts [of base _ "k\<lparr>mem := m2\<rparr>" proc PCB_SIZE] 2(2) PCB_SIZE_chunks(2) by fastforce
  have "used m3 = used (mem k) - (\<Union>(q, n)\<in>set (resources k proc). block q n)"
    unfolding r 3(3) 2(3) 1(3) by auto
  with 1(1) 2(1) 3 show ?thesis by (intro exI [of _ m3]) simp
qed

lemma proc_list_cong:
  assumes "proc_first k' = proc_first k"
    and "\<And>p. p \<in> set ps \<Longrightarrow> map_option (\<lambda>b. (p_next b, p_prev b)) (pcbs k' p) =
      map_option (\<lambda>b. (p_next b, p_prev b)) (pcbs k p)"
  shows "proc_list k' ps = proc_list k ps"
proof -
  have "linked k' ps i = linked k ps i" if "i < length ps" for i
    using assms(2) [OF nth_mem [OF that]]
    by (cases "pcbs k (ps ! i)"; cases "pcbs k' (ps ! i)") (auto simp: linked_def)
  with assms(1) show ?thesis by (simp add: proc_list_def)
qed

lemma kinv_parts:
  assumes "kinv base extra k ps"
  shows "proc_list k ps" "dom (pcbs k) = set ps" "distinct ps"
    "mm.accounts base (holdings k ps @ extra) (mem k)" "\<forall>(q, n)\<in>set (holdings k ps). n \<noteq> 0"
  using assms by (auto simp: kinv_defs proc_list_def)

lemma process_destroy_run:
  assumes "ktab base extra k ps" and "p \<in> set (tl ps)" and "pcbs k p = Some b"
    and "\<forall>(q, n)\<in>set (resources k p). n \<noteq> 0"
  shows "\<exists>k2 m. process_destroy p k = Some (k2\<lparr>mem := m, pcbs := (pcbs k2)(p := None)\<rparr>) \<and>
    proc_list k2 (remove1 p ps) \<and>
    same_but_links (k\<lparr>pcbs := (pcbs k)(p \<mapsto> b\<lparr>p_valid := 0\<rparr>)\<rparr>) k2 \<and>
    mm.accounts base (holdings k (remove1 p ps) @ extra) m \<and>
    used m = used (mem k) - (\<Union>(q, n)\<in>set (resources k p). block q n)"
proof -
  note kp = ktab_parts [OF assms(1)]
  have p: "p \<in> set ps" using assms(2) by (cases ps) auto
  let ?b = "b\<lparr>p_valid := 0\<rparr>"
  let ?k1 = "k\<lparr>pcbs := (pcbs k)(p \<mapsto> ?b)\<rparr>"
  have k1: "pcb_upd p (\<lambda>b. b\<lparr>p_valid := 0\<rparr>) k = Some ?k1" using assms(3) by (simp add: pcb_upd_def)
  have "proc_list ?k1 ps" using kp(1) assms(3) by (subst proc_list_cong [of _ k]) auto
  from process_remove_spec [OF this p] obtain k2 where
    k2: "process_remove p ?k1 = Some (0, k2)" "proc_list k2 (remove1 p ps)" "same_but_links ?k1 k2"
      "pcbs k2 p = Some ?b" by auto
  note s = same_but_links_of [OF k2(3)]
  have rs: "resources k2 q = resources k q" for q
    using s(4) [of q] assms(3) by (auto simp: resources_def)
  note hr = holdings_remove [OF assms(2) kp(3), of k]
  have "mm.accounts base (resources k p @ holdings k (remove1 p ps) @ extra) (mem k)"
    using kp(4) mm.accounts_cong [of "holdings k ps @ extra"
        "resources k p @ holdings k (remove1 p ps) @ extra"] hr by simp
  then have acc2: "mm.accounts base (resources k2 p @ holdings k (remove1 p ps) @ extra) (mem k2)"
    by (simp add: rs s(5))
  have "\<forall>(q, n)\<in>set (resources k2 p). n \<noteq> 0" using assms(4) by (simp add: rs)
  from destroy_releases [OF acc2 k2(4) this] obtain m where
    m: "do { k3 \<leftarrow> (if p_stack ?b \<noteq> NULL then kfree (p_stack ?b) (stacksize ?b) k2 else Some k2);
          k4 \<leftarrow> (if p_text ?b \<noteq> NULL then kfree (p_text ?b) (textsize ?b) k3 else Some k3);
          kfree p PCB_SIZE k4 } = Some (k2\<lparr>mem := m\<rparr>)"
      "mm.accounts base (holdings k (remove1 p ps) @ extra) m"
      "used m = used (mem k) - (\<Union>(q, n)\<in>set (resources k p). block q n)"
    unfolding rs s(5) by auto
  have "process_destroy p k = Some (k2\<lparr>mem := m, pcbs := (pcbs k2)(p := None)\<rparr>)"
    unfolding process_destroy_def k1 bind.bind_lunit k2(1) k2(4) case_prod_conv
    using m(1) by (auto simp: option_bind_eq_Some)
  with k2 m show ?thesis by blast
qed

lemma ktab_destroy:
  assumes "ktab base extra k ps" and "p \<in> set (tl ps)" and "\<forall>(q, n)\<in>set (resources k p). n \<noteq> 0"
  shows "\<exists>k'. process_destroy p k = Some k' \<and> ktab base extra k' (remove1 p ps) \<and>
    holdings k' (remove1 p ps) = holdings k (remove1 p ps) \<and>
    used (mem k') = used (mem k) - (\<Union>(q, n)\<in>set (resources k p). block q n) \<and>
    current_process k' = current_process k \<and>
    (\<forall>q. q \<noteq> p \<longrightarrow> map_option unlinked (pcbs k' q) = map_option unlinked (pcbs k q))"
proof -
  note kp = ktab_parts [OF assms(1)]
  have "p \<in> set ps" using assms(2) by (cases ps) auto
  with kp(2) obtain b where b: "pcbs k p = Some b" by blast
  obtain k2 m where r: "process_destroy p k = Some (k2\<lparr>mem := m, pcbs := (pcbs k2)(p := None)\<rparr>)"
    and pl2: "proc_list k2 (remove1 p ps)"
    and sl: "same_but_links (k\<lparr>pcbs := (pcbs k)(p \<mapsto> b\<lparr>p_valid := 0\<rparr>)\<rparr>) k2"
    and acc: "mm.accounts base (holdings k (remove1 p ps) @ extra) m"
    and u: "used m = used (mem k) - (\<Union>(q, n)\<in>set (resources k p). block q n)"
    using process_destroy_run [OF assms(1,2) b assms(3)] by blast
  note s = same_but_links_of [OF sl]
  let ?k' = "k2\<lparr>mem := m, pcbs := (pcbs k2)(p := None)\<rparr>"
  have np: "p \<notin> set (remove1 p ps)" and sr: "set (remove1 p ps) = set ps - {p}" using kp(3) by simp_all
  have h: "holdings ?k' (remove1 p ps) = holdings k (remove1 p ps)"
  proof (rule holdings_cong)
    fix q assume "q \<in> set (remove1 p ps)"
    with np have "q \<noteq> p" by auto
    then show "resources ?k' q = resources k q" using s(4) [of q] by (simp add: resources_def)
  qed
  have pid: "pid_of ?k' q = pid_of k q" if "q \<in> set (remove1 p ps)" for q
    using that np s(1) [of q] by (auto simp: pid_of_def)
  have "map (pid_of ?k') (remove1 p ps) = map (pid_of k) (remove1 p ps)"
    by (rule map_cong [OF refl pid])
  moreover have "distinct (map (pid_of k) (remove1 p ps))"
    using assms(1) kp(3) by (auto simp: ktab_def distinct_map intro: inj_on_subset)
  ultimately have "distinct (map (pid_of ?k') (remove1 p ps))" by (simp only:)
  moreover have "proc_list ?k' (remove1 p ps)" using pl2 np by (subst proc_list_cong [of _ k2]) auto
  moreover have "dom (pcbs ?k') = set (remove1 p ps)"
    using same_but_links_dom [OF sl] kp(2) b by (auto simp: sr)
  ultimately have "ktab base extra ?k' (remove1 p ps)"
    using acc assms(1) s(6) pid unfolding ktab_def h by (auto simp: sr)
  moreover have "map_option unlinked (pcbs ?k' q) = map_option unlinked (pcbs k q)" if "q \<noteq> p" for q
    using sl that by (auto simp: same_but_links_def)
  ultimately show ?thesis using r u s(7) h by auto
qed

lemma process_destroy_spec:
  assumes "kinv base extra k ps" and "p \<in> set (tl ps)"
  shows "\<exists>k'. process_destroy p k = Some k' \<and> kinv base extra k' (remove1 p ps) \<and>
    used (mem k') = used (mem k) - (\<Union>(q, n)\<in>set (resources k p). block q n) \<and>
    current_process k' = current_process k \<and>
    (\<forall>q. q \<noteq> p \<longrightarrow> map_option unlinked (pcbs k' q) = map_option unlinked (pcbs k q))"
proof -
  have kt: "ktab base extra k ps" and nz: "\<forall>(q, n)\<in>set (holdings k ps). n \<noteq> 0"
    using assms(1) by (simp_all add: kinv_def)
  have "set (holdings k ps) = set (resources k p) \<union> set (holdings k (remove1 p ps))"
    using arg_cong [OF holdings_remove [OF assms(2) ktab_parts(3) [OF kt], of k], of set_mset] by simp
  with nz have "\<forall>(q, n)\<in>set (resources k p). n \<noteq> 0" "\<forall>(q, n)\<in>set (holdings k (remove1 p ps)). n \<noteq> 0"
    by auto
  with ktab_destroy [OF kt assms(2)] show ?thesis by (auto simp: kinv_def)
qed

section \<open>The process list as an ordered table\<close>

definition remove_entry :: "ptr \<Rightarrow> kernel \<Rightarrow> kernel option" where
  "remove_entry p k = do { (r, k') \<leftarrow> process_remove p k; Some k' }"

definition has_pcb :: "ptr \<Rightarrow> kernel \<Rightarrow> bool" where
  "has_pcb p k \<longleftrightarrow> p \<noteq> NULL \<and> pcbs k p \<noteq> None"

interpretation pt: ordered_table proc_list has_pcb process_insert remove_entry
proof
  show "proc_list s xs \<Longrightarrow> distinct xs" for s xs by (simp add: proc_list_def)
  show "proc_list s xs \<Longrightarrow> proc_list s ys \<Longrightarrow> xs = ys" for s xs ys
    using chain_unique proc_list_chain by blast
  show "proc_list s xs \<Longrightarrow> has_pcb x s \<Longrightarrow> x \<notin> set xs \<Longrightarrow>
      \<exists>s'. process_insert x s = Some s' \<and> proc_list s' (xs @ [x])" for s xs x
    using process_insert_spec [of s xs x] by (auto simp: has_pcb_def)
  show "has_pcb y s'" if "proc_list s xs" "has_pcb x s" "x \<notin> set xs" "process_insert x s = Some s'"
    "has_pcb y s" for s xs x s' y
  proof -
    have "same_but_links s s'" using process_insert_spec [of s xs x] that by (auto simp: has_pcb_def)
    from same_but_links_dom [OF this] that(5) show ?thesis by (auto simp: has_pcb_def dom_def)
  qed
  show "proc_list s xs \<Longrightarrow> x \<in> set xs \<Longrightarrow>
      \<exists>s'. remove_entry x s = Some s' \<and> proc_list s' (remove1 x xs)" for s xs x
    using process_remove_spec [of s xs x] by (auto simp: remove_entry_def)
qed

section \<open>Properties\<close>

text \<open>
  C8: The doubly linked list is a faithful list: inserting appends at the end, removing any entry
  of the list deletes exactly that entry, and apart from the link fields of the control blocks
  nothing changes.
\<close>

theorem process_list_refines:
  assumes "proc_list k ps"
  shows "(p \<noteq> NULL \<and> pcbs k p \<noteq> None \<and> p \<notin> set ps \<longrightarrow>
      (\<exists>k'. process_insert p k = Some k' \<and> proc_list k' (ps @ [p]) \<and> same_but_links k k')) \<and>
    (q \<in> set ps \<longrightarrow>
      (\<exists>k'. process_remove q k = Some (0, k') \<and> proc_list k' (remove1 q ps) \<and> same_but_links k k'))"
  using process_insert_spec [OF assms, of p] process_remove_spec [OF assms, of q] by auto

text \<open>A small system: sixteen chunks of memory, five of them the kernel's, and no process.\<close>

definition boot_kernel :: "mem_state \<Rightarrow> kernel" where
  "boot_kernel m = \<lparr>pcbs = Map.empty, proc_first = NULL, current_process = NULL, avail_pid = 0,
     mem = m, tick_counter = 0, wait_first = (\<lambda>q. NULL), cpu_r = replicate 15 0, cpu_spsr = 0\<rparr>"

lemma boot_kernel_simps [simp]:
  "pcbs (boot_kernel m) = Map.empty" "mem (boot_kernel m) = m" "avail_pid (boot_kernel m) = 0"
  by (simp_all add: boot_kernel_def)

lemma kinv_boot:
  assumes "mem_inv m"
  shows "kinv (used m) [] (boot_kernel m) []"
  using assms mm.reserved_used [OF assms]
  by (simp add: kinv_defs proc_list_def nth_ptr_def boot_kernel_def holdings_def mm.accounts_def)

lemma create_small:
  assumes "kinv {0..4} [] k ps" and "max_chunk (mem k) = 16" and "used (mem k) \<subseteq> {0..4} \<union> B"
    and "finite B" and "card B \<le> 2" and "0 \<le> sint (avail_pid k)" "sint (avail_pid k) < 100"
  shows "\<exists>p k'. process_create k = Some (p, k') \<and> p \<noteq> NULL \<and> kinv {0..4} [] k' (ps @ [p]) \<and>
    max_chunk (mem k') = 16 \<and> avail_pid k' = avail_pid k + 1 \<and> pid_of k' p = avail_pid k \<and>
    used (mem k') = used (mem k) \<union> block p PCB_SIZE \<and> (\<forall>q\<in>set ps. pid_of k' q = pid_of k q)"
proof -
  have "\<exists>i\<in>{5, 7, 9 :: nat}. {i..<i + 2} \<inter> B = {}"
  proof (rule ccontr)
    assume "\<not> ?thesis"
    then obtain x y z where *: "x \<in> {5..<7 :: nat}" "y \<in> {7..<9 :: nat}" "z \<in> {9..<11 :: nat}"
      "{x, y, z} \<subseteq> B" by (auto simp: disjoint_iff)
    then have "card {x, y, z} = 3" by auto
    with *(4) assms(4,5) card_mono [of B "{x, y, z}"] show False by simp
  qed
  then obtain i where i: "i \<in> {5, 7, 9 :: nat}" "{i..<i + 2} \<inter> B = {}" by blast
  have "{i..<i + 2} \<inter> {0..4} = {}" using i(1) by auto
  with i assms(3) have "free_run (mem k) 2 i" unfolding free_run_def by blast
  moreover have "i < max_chunk (mem k)" using i(1) assms(2) by auto
  moreover obtain p k' where pk: "process_create k = Some (p, k')"
    "if p = NULL then k' = k \<and> (\<forall>i < max_chunk (mem k). \<not> free_run (mem k) 2 i)
     else p \<notin> set ps \<and> kinv {0..4} [] k' (ps @ [p]) \<and> pid_of k' p = avail_pid k \<and>
       avail_pid k' = avail_pid k + 1 \<and> status_of k' p = PROCESS_STATUS_SLEEPING \<and>
       resources k' p = [(p, PCB_SIZE)] \<and>
       k' = k\<lparr>mem := mem k', pcbs := pcbs k', avail_pid := avail_pid k', proc_first := proc_first k'\<rparr> \<and>
       used (mem k') = used (mem k) \<union> block p PCB_SIZE \<and> max_chunk (mem k') = max_chunk (mem k) \<and>
       (\<forall>q\<in>set ps. map_option unlinked (pcbs k' q) = map_option unlinked (pcbs k q))"
    using process_create_spec [OF assms(1)] assms(2,6,7) by auto
  ultimately have np: "p \<noteq> NULL" by (metis (full_types))
  have "pid_of k' q = pid_of k q" if "q \<in> set ps" for q
    by (rule unlinked_same_of(1)) (use pk(2) np that in simp)
  with pk np assms(2) show ?thesis by simp
qed

lemma small_kernel:
  "\<exists>k p q. kinv {0..4} [] k [p, q] \<and> max_chunk (mem k) = 16 \<and> avail_pid k = 2 \<and> p \<noteq> NULL \<and> q \<noteq> NULL \<and>
    pid_of k p = 0 \<and> pid_of k q = 1"
proof -
  obtain m where m: "mem_inv m" "max_chunk m = 16" "used m = {0..4}" using boot_64k by blast
  have "kinv {0..4} [] (boot_kernel m) []" using kinv_boot [OF m(1)] m(3) by simp
  from create_small [OF this, of "{}"] m(2,3) obtain p k1 where
    k1: "p \<noteq> NULL" "kinv {0..4} [] k1 [p]" "max_chunk (mem k1) = 16" "avail_pid k1 = 1" "pid_of k1 p = 0"
      "used (mem k1) = {0..4} \<union> block p PCB_SIZE"
    by auto
  have "card (block p PCB_SIZE) \<le> 2" "finite (block p PCB_SIZE)"
    by (simp_all add: block_def PCB_SIZE_chunks)
  with create_small [OF k1(2,3), of "block p PCB_SIZE"] k1 show ?thesis by fastforce
qed

theorem process_list_refines_witness:
  "\<exists>k p q k'. proc_list k [p, q] \<and> process_remove p k = Some (0, k') \<and> proc_list k' [q]"
proof -
  obtain k p q where k: "kinv {0..4} [] k [p, q]" using small_kernel by blast
  then have "proc_list k [p, q]" by (simp add: kinv_defs)
  from process_list_refines [OF this, of NULL p] this show ?thesis by fastforce
qed




text \<open>
  C7: \<^verbatim>\<open>process_destroy\<close> of any process but the idle task returns, takes the process off the table,
  keeps the table's invariant and gives back exactly the chunks of its stack, its program and its
  control block: nothing the process owned stays allocated and nothing of another process is
  released.
\<close>

theorem process_destroy_correct:
  assumes "kinv base extra k ps" and "p \<in> set (tl ps)"
  shows "\<exists>k'. process_destroy p k = Some k' \<and> kinv base extra k' (remove1 p ps) \<and> pcbs k' p = None \<and>
    used (mem k') = used (mem k) - (\<Union>(q, n)\<in>set (resources k p). block q n) \<and>
    (\<forall>q. q \<noteq> p \<longrightarrow> map_option unlinked (pcbs k' q) = map_option unlinked (pcbs k q))"
proof -
  obtain k' where k': "process_destroy p k = Some k'" "kinv base extra k' (remove1 p ps)"
    "used (mem k') = used (mem k) - (\<Union>(q, n)\<in>set (resources k p). block q n)"
    "\<forall>q. q \<noteq> p \<longrightarrow> map_option unlinked (pcbs k' q) = map_option unlinked (pcbs k q)"
    using process_destroy_spec [OF assms] by blast
  have "p \<notin> dom (pcbs k')" using kinv_parts(2) [OF k'(2)] kinv_parts(3) [OF assms(1)] by simp
  then have "pcbs k' p = None" by blast
  with k' show ?thesis by (intro exI [of _ k'] conjI)
qed

theorem process_destroy_correct_witness:
  "\<exists>k p q k'. kinv {0..4} [] k [p, q] \<and> process_destroy q k = Some k' \<and> kinv {0..4} [] k' [p]"
proof -
  obtain k p q where k: "kinv {0..4} [] k [p, q]" using small_kernel by blast
  then have "remove1 q [p, q] = [p]" by (simp add: kinv_defs proc_list_def)
  moreover obtain k' where "process_destroy q k = Some k'" "kinv {0..4} [] k' (remove1 q [p, q])"
    using process_destroy_correct [OF k, of q] by auto
  ultimately have "kinv {0..4} [] k [p, q] \<and> process_destroy q k = Some k' \<and> kinv {0..4} [] k' [p]"
    using k by simp
  then show ?thesis by blast
qed

text \<open>
  \<^verbatim>\<open>process_lookup\<close> finds exactly the process with the given number: it returns the null pointer
  when no process has it, and otherwise the unique control block that carries it.
\<close>

lemma process_lookup_correct:
  assumes "kinv base extra k ps"
  shows "\<exists>r. process_lookup k pid = Some r \<and> (r = NULL \<longleftrightarrow> (\<forall>p\<in>set ps. pid_of k p \<noteq> pid)) \<and>
    (r \<noteq> NULL \<longrightarrow> r \<in> set ps \<and> (\<forall>p\<in>set ps. pid_of k p = pid \<longleftrightarrow> p = r))"
proof -
  have pl: "proc_list k ps" and inj: "inj_on (pid_of k) (set ps)"
    using assms by (auto simp: kinv_defs distinct_map)
  have r: "process_lookup k pid = Some (ptr_or_null (find (\<lambda>p. pid_of k p = pid) ps))"
    unfolding process_lookup_def by (rule lookup_from_chain [OF proc_list_chain [OF pl]])
  show ?thesis
  proof (cases "find (\<lambda>p. pid_of k p = pid) ps")
    case None
    with r show ?thesis by (simp add: ptr_or_null_def find_None_iff)
  next
    case (Some p)
    then have "p \<in> set ps" "pid_of k p = pid" by (auto simp: find_Some_iff)
    moreover from this have "p \<noteq> NULL" using pl by (auto simp: proc_list_def)
    moreover have "\<forall>q\<in>set ps. pid_of k q = pid \<longleftrightarrow> q = p"
      using inj calculation by (auto dest: inj_onD)
    ultimately show ?thesis using r Some by (auto simp: ptr_or_null_def)
  qed
qed

theorem process_lookup_correct_witness:
  "\<exists>k p q. kinv {0..4} [] k [p, q] \<and> process_lookup k 1 = Some q \<and> process_lookup k 7 = Some NULL"
proof -
  obtain k p q where k: "kinv {0..4} [] k [p, q]" "pid_of k p = 0" "pid_of k q = 1" "q \<noteq> NULL"
    using small_kernel by blast
  have "process_lookup k 1 = Some q" using process_lookup_correct [OF k(1), of 1] k(2,3,4) by auto
  moreover have "process_lookup k 7 = Some NULL"
    using process_lookup_correct [OF k(1), of 7] k(2,3) by auto
  ultimately show ?thesis using k(1) by blast
qed

text \<open>
  C27: Switching away from a process and back restores its registers: after a switch from \<open>a\<close> to \<open>b\<close>
  and a later switch back to \<open>a\<close>, the processor has the registers and the saved status that it had,
  except for \<^verbatim>\<open>r2\<close>, which the save code uses itself, and \<open>a\<close> is the current process.
\<close>

theorem process_switch_restores:
  assumes "pcbs k a = Some x" and "pcbs k b = Some y" and "a \<noteq> b"
  shows "\<exists>k1. process_switch a b k = Some k1 \<and> current_process k1 = b \<and>
    cpu_r k1 = k_r (kernel_state y) \<and> cpu_spsr k1 = k_spsr (kernel_state y) \<and>
    (\<exists>k2. process_switch b a (k1\<lparr>cpu_r := regs, cpu_spsr := st\<rparr>) = Some k2 \<and>
       current_process k2 = a \<and> cpu_r k2 = (cpu_r k)[2 := a + 68] \<and> cpu_spsr k2 = cpu_spsr k)"
  using assms by (simp add: process_switch_def pcb_upd_def Let_def)

theorem process_switch_restores_witness:
  "\<exists>k1. process_switch 4096 16384
     ((boot_kernel (boot_mem (\<lambda>a. 0)))\<lparr>pcbs := [4096 \<mapsto> zero_pcb, 16384 \<mapsto> zero_pcb]\<rparr>) = Some k1 \<and>
     current_process k1 = 16384"
  using process_switch_restores [of "(boot_kernel (boot_mem (\<lambda>a. 0)))\<lparr>pcbs :=
    [4096 \<mapsto> zero_pcb, 16384 \<mapsto> zero_pcb]\<rparr>" 4096 zero_pcb 16384 zero_pcb] by auto

end
