(* ===== verification/Scheduler.thy ===== *)
theory Scheduler
  imports Process
begin

text \<open>
  The scheduler of \<^verbatim>\<open>kernel/processes/scheduler.c\<close>. The first process of the list is the idle
  task; \<^verbatim>\<open>schedule\<close> looks for the next ready process in the rest of the list, which it treats as
  a ring, and falls back to the idle task. The state that \<^verbatim>\<open>schedule\<close> returns is the one right
  after the switch, in which \<^verbatim>\<open>current_process\<close> is the process that runs next.
\<close>

section \<open>Definitions\<close>

text \<open>The \<^verbatim>\<open>while(1)\<close> loop; the result is the value of \<^verbatim>\<open>proc\<close> after it.\<close>

partial_function (option) sched_loop :: "kernel \<Rightarrow> ptr \<Rightarrow> ptr \<Rightarrow> ptr option" where
  [code]: "sched_loop k orig_proc proc =
     do { b \<leftarrow> pcbs k proc;
          f \<leftarrow> (if p_next b = NULL
                then do { c \<leftarrow> pcbs k (proc_first k); Some (p_next c) }
                else Some (p_next b));
          if f = NULL then Some (proc_first k)
          else
            do { c \<leftarrow> pcbs k f;
                 if p_status c = PROCESS_STATUS_READY then Some f
                 else if f = orig_proc then Some (proc_first k)
                 else sched_loop k orig_proc f } }"

text \<open>Accounting and the switch. The two reads of the tick counter give the same value.\<close>

definition sched_switch :: "ptr \<Rightarrow> kernel \<Rightarrow> kernel option" where
  "sched_switch proc k =
     do { k1 \<leftarrow> pcb_upd (current_process k)
            (\<lambda>b. b\<lparr>total_time := total_time b + (ticks_since_boot k - last_scheduled b)\<rparr>) k;
          k2 \<leftarrow> pcb_upd proc (\<lambda>b. b\<lparr>last_scheduled := ticks_since_boot k1\<rparr>) k1;
          if proc \<noteq> current_process k2 then process_switch (current_process k2) proc k2
          else Some k2 }"

definition schedule :: "kernel \<Rightarrow> kernel option" where
  "schedule k =
     (let proc = current_process k in
      if proc = proc_first k then
        do { b \<leftarrow> pcbs k proc;
             if p_next b = NULL then Some k
             else do { r \<leftarrow> sched_loop k (p_next b) (p_next b); sched_switch r k } }
      else do { r \<leftarrow> sched_loop k proc proc; sched_switch r k })"

definition sched_yield :: "kernel \<Rightarrow> (i32 \<times> kernel) option" where
  "sched_yield k = do { k' \<leftarrow> schedule k; Some (0, k') }"

section \<open>The choice of the next process\<close>

definition is_ready :: "kernel \<Rightarrow> ptr \<Rightarrow> bool" where
  "is_ready k p \<longleftrightarrow> status_of k p = PROCESS_STATUS_READY"

text \<open>The first ready process of the ring after position \<open>s\<close>, or the idle task.\<close>

definition pick_next :: "kernel \<Rightarrow> ptr \<Rightarrow> ptr list \<Rightarrow> nat \<Rightarrow> ptr" where
  "pick_next k idle qs s = (case find (is_ready k) (rotate (Suc s) qs) of None \<Rightarrow> idle | Some q \<Rightarrow> q)"

text \<open>The step of the loop from one ring position to the next.\<close>

lemma ring_step:
  assumes "proc_list k (f # qs)" and "i < length qs"
  shows "\<exists>b. pcbs k (qs ! i) = Some b \<and>
    (if p_next b = NULL then do { c \<leftarrow> pcbs k (proc_first k); Some (p_next c) } else Some (p_next b)) =
    Some (qs ! (Suc i mod length qs))"
proof -
  have li: "linked k (f # qs) (Suc i)" and l0: "linked k (f # qs) 0"
    and pf: "proc_first k = f"
    using assms by (auto simp: proc_list_def nth_ptr_def)
  have nz: "qs ! j \<noteq> NULL" if "j < length qs" for j
    using proc_list_nth(1) [OF assms(1), of "Suc j"] that by simp
  have q0: "qs ! 0 \<noteq> NULL" by (rule nz) (use assms(2) in linarith)
  obtain b where b: "pcbs k (qs ! i) = Some b" "p_next b = nth_ptr (f # qs) (Suc (Suc i))"
    using li by (auto simp: linked_def)
  obtain c where c: "pcbs k f = Some c" "p_next c = nth_ptr (f # qs) 1"
    using l0 by (auto simp: linked_def)
  show ?thesis
  proof (cases "Suc i < length qs")
    case True
    with b nz [OF True] show ?thesis by (auto simp: nth_ptr_def)
  next
    case False
    then have "Suc i = length qs" using assms(2) by simp
    with b c q0 pf assms(2) show ?thesis by (auto simp: nth_ptr_def)
  qed
qed

lemma sched_loop_from:
  assumes "proc_list k (f # qs)" and "s < length qs" and "m < length qs"
  shows "sched_loop k (qs ! s) (qs ! ((s + m) mod length qs)) =
    Some (case find (is_ready k) (drop m (rotate (Suc s) qs)) of None \<Rightarrow> f | Some q \<Rightarrow> q)"
  using assms(3)
proof (induction "length qs - m" arbitrary: m)
  case 0
  then show ?case by simp
next
  case (Suc d)
  let ?n = "length qs" and ?i = "(s + m) mod length qs"
  let ?g = "qs ! (Suc ?i mod ?n)"
  have i: "?i < ?n" using assms(2) by (intro mod_less_divisor) linarith
  obtain b where b: "pcbs k (qs ! ?i) = Some b"
    "(if p_next b = NULL then do { c \<leftarrow> pcbs k (proc_first k); Some (p_next c) } else Some (p_next b)) =
      Some ?g" using ring_step [OF assms(1) i] by blast
  have gi: "Suc ?i mod ?n < ?n" using assms(2) by (intro mod_less_divisor) linarith
  obtain c where c: "pcbs k ?g = Some c" "is_ready k ?g \<longleftrightarrow> p_status c = PROCESS_STATUS_READY"
    using proc_list_dom [OF assms(1), of ?g] gi by (auto simp: is_ready_def status_of_def)
  have gn: "?g \<noteq> NULL" using proc_list_nth(1) [OF assms(1), of "Suc (Suc ?i mod ?n)"] gi by simp
  have gm: "Suc ?i mod ?n = (s + Suc m) mod ?n" by (simp add: mod_Suc_eq)
  have dr: "drop m (rotate (Suc s) qs) = ?g # drop (Suc m) (rotate (Suc s) qs)"
    using Suc.prems gm nth_rotate [of m qs "Suc s"] by (simp add: Cons_nth_drop_Suc [symmetric])
  have last: "?g = qs ! s \<longleftrightarrow> Suc m = ?n"
  proof -
    have "distinct qs" using assms(1) by (simp add: proc_list_def)
    then have "?g = qs ! s \<longleftrightarrow> (s + Suc m) mod ?n = s"
      using gi assms(2) unfolding gm by (simp add: nth_eq_iff_index_eq)
    also have "\<dots> \<longleftrightarrow> Suc m = ?n"
      using Suc.prems assms(2) by (cases "s + Suc m < ?n") (auto simp: mod_if)
    finally show ?thesis .
  qed
  have pf: "proc_first k = f" using assms(1) by (simp add: proc_list_def nth_ptr_def)
  show ?case
  proof (cases "is_ready k ?g \<or> Suc m = ?n")
    case True
    then show ?thesis
      using b c gn dr last pf by (subst sched_loop.simps) (auto simp: pf)
  next
    case False
    then have "Suc m < ?n" using Suc.prems by simp
    with Suc(1) [of "Suc m"] Suc(2) have IH: "sched_loop k (qs ! s) (qs ! ((s + Suc m) mod ?n)) =
      Some (case find (is_ready k) (drop (Suc m) (rotate (Suc s) qs)) of None \<Rightarrow> f | Some q \<Rightarrow> q)" by simp
    show ?thesis
      using b c gn dr last pf False IH by (subst sched_loop.simps) (simp add: gm)
  qed
qed

lemma sched_loop_pick:
  assumes "proc_list k (f # qs)" and "s < length qs"
  shows "sched_loop k (qs ! s) (qs ! s) = Some (pick_next k f qs s)"
  using sched_loop_from [OF assms, of 0] assms(2) by (cases qs) (auto simp: pick_next_def)

lemma pick_next_in:
  "pick_next k f qs s = f \<and> (\<forall>q\<in>set qs. \<not> is_ready k q) \<or>
   pick_next k f qs s \<in> set qs \<and> is_ready k (pick_next k f qs s)"
proof (cases "find (is_ready k) (rotate (Suc s) qs)")
  case None
  then have "pick_next k f qs s = f" by (simp add: pick_next_def)
  moreover have "\<forall>q\<in>set qs. \<not> is_ready k q" using None by (simp add: find_None_iff)
  ultimately show ?thesis by blast
next
  case (Some q)
  then have "q \<in> set (rotate (Suc s) qs)" "is_ready k q" by (metis find_Some_iff nth_mem)+
  with Some show ?thesis by (simp add: pick_next_def)
qed

text \<open>The first ready entry of the ring after \<open>s\<close>, by its distance from \<open>s\<close>.\<close>

lemma pick_next_first:
  assumes "s < length qs" and "q \<in> set qs" and "is_ready k q"
  shows "\<exists>m. 0 < m \<and> m \<le> length qs \<and> pick_next k f qs s = qs ! ((s + m) mod length qs) \<and>
    is_ready k (pick_next k f qs s) \<and>
    (\<forall>i. 0 < i \<and> i < m \<longrightarrow> \<not> is_ready k (qs ! ((s + i) mod length qs)))"
proof -
  let ?r = "rotate (Suc s) qs"
  have "q \<in> set ?r" using assms(2) by simp
  then have "find (is_ready k) ?r \<noteq> None" using assms(3) by (metis find_None_iff)
  then obtain x where x: "find (is_ready k) ?r = Some x" by blast
  then obtain j where j: "j < length qs" "x = ?r ! j" "is_ready k x" "\<forall>i<j. \<not> is_ready k (?r ! i)"
    by (auto simp: find_Some_iff)
  have nr: "?r ! i = qs ! ((s + Suc i) mod length qs)" if "i < length qs" for i
    using nth_rotate [OF that, of "Suc s"] by (simp add: add.commute)
  have "\<not> is_ready k (qs ! ((s + i) mod length qs))" if "0 < i" "i < Suc j" for i
    using j(1,4) nr [of "i - 1"] that by (cases i) auto
  with j x nr [OF j(1)] show ?thesis
    by (intro exI [of _ "Suc j"]) (auto simp: pick_next_def)
qed

section \<open>The effect of the switch\<close>

text \<open>Two control blocks that differ only in accounting and saved kernel registers.\<close>

definition unaccounted :: "pcb \<Rightarrow> pcb" where
  "unaccounted b = b\<lparr>total_time := 0, last_scheduled := 0,
     kernel_state := \<lparr>k_r = [], k_spsr = 0\<rparr>\<rparr>"

lemma unaccounted_simps [simp]:
  "unaccounted (b\<lparr>total_time := x\<rparr>) = unaccounted b"
  "unaccounted (b\<lparr>last_scheduled := x\<rparr>) = unaccounted b"
  "unaccounted (b\<lparr>kernel_state := y\<rparr>) = unaccounted b"
  by (simp_all add: unaccounted_def)

lemma unaccounted_fields:
  assumes "unaccounted b = unaccounted c"
  shows "p_next b = p_next c" "p_prev b = p_prev c" "p_status b = p_status c" "p_pid b = p_pid c"
    "wait_queue_next b = wait_queue_next c" "exit_value b = exit_value c" "p_parent b = p_parent c"
    "p_stack b = p_stack c" "stacksize b = stacksize c" "p_text b = p_text c" "textsize b = textsize c"
    "user_state b = user_state c" "current_dir b = current_dir c"
  using assms by (cases b; cases c; simp add: unaccounted_def)+

text \<open>What a call of \<^verbatim>\<open>schedule\<close> leaves alone.\<close>

definition same_but_accounts :: "kernel \<Rightarrow> kernel \<Rightarrow> bool" where
  "same_but_accounts k k' \<longleftrightarrow>
     (\<forall>q. map_option unaccounted (pcbs k' q) = map_option unaccounted (pcbs k q)) \<and>
     proc_first k' = proc_first k \<and> avail_pid k' = avail_pid k \<and> mem k' = mem k \<and>
     tick_counter k' = tick_counter k \<and> wait_first k' = wait_first k"

lemma same_but_accounts_refl [simp]: "same_but_accounts k k"
  by (simp add: same_but_accounts_def)

lemma same_but_accounts_field:
  assumes "same_but_accounts k k'" and "\<And>b c. unaccounted b = unaccounted c \<Longrightarrow> f b = f c"
  shows "map_option f (pcbs k' q) = map_option f (pcbs k q)"
proof -
  have *: "map_option unaccounted (pcbs k' q) = map_option unaccounted (pcbs k q)"
    using assms(1) by (simp add: same_but_accounts_def)
  show ?thesis
  proof (cases "pcbs k q")
    case (Some b)
    then obtain c where "pcbs k' q = Some c" "unaccounted c = unaccounted b"
      using * by (metis map_option_eq_Some option.simps(9))
    with Some assms(2) [of c b] show ?thesis by simp
  qed (use * in simp)
qed

lemma same_but_accounts_list:
  assumes "same_but_accounts k k'"
  shows "proc_list k' ps = proc_list k ps" and "status_of k' q = status_of k q"
    and "is_ready k' q = is_ready k q" and "dom (pcbs k') = dom (pcbs k)"
proof -
  have "map_option (\<lambda>b. (p_next b, p_prev b)) (pcbs k' p) = map_option (\<lambda>b. (p_next b, p_prev b)) (pcbs k p)" for p
    by (rule same_but_accounts_field [OF assms]) (metis unaccounted_fields(1,2))
  moreover have "proc_first k' = proc_first k" using assms by (simp add: same_but_accounts_def)
  ultimately show "proc_list k' ps = proc_list k ps" by (intro proc_list_cong)
  have "map_option p_status (pcbs k' q) = map_option p_status (pcbs k q)"
    by (rule same_but_accounts_field [OF assms]) (rule unaccounted_fields)
  then show st: "status_of k' q = status_of k q"
    by (cases "pcbs k q"; cases "pcbs k' q"; simp add: status_of_def)
  then show "is_ready k' q = is_ready k q" by (simp add: is_ready_def)
  have "pcbs k' p = None \<longleftrightarrow> pcbs k p = None" for p
    using assms unfolding same_but_accounts_def by (metis option.map_disc_iff)
  then show "dom (pcbs k') = dom (pcbs k)" by (simp add: dom_def)
qed

lemma sched_switch_spec:
  assumes "pcbs k (current_process k) = Some b" and "pcbs k p = Some c"
  shows "\<exists>k'. sched_switch p k = Some k' \<and> current_process k' = p \<and> same_but_accounts k k'"
  using assms
  by (auto simp: sched_switch_def pcb_upd_def process_switch_def Let_def same_but_accounts_def
      unaccounted_def)

text \<open>A process that is switched to continues with the registers that were saved for it.\<close>

lemma sched_switch_regs:
  assumes "sched_switch p k = Some k'" and "pcbs k p = Some c" and "p \<noteq> current_process k"
  shows "cpu_r k' = k_r (kernel_state c)" and "cpu_spsr k' = k_spsr (kernel_state c)"
  using assms by (auto simp: sched_switch_def pcb_upd_def process_switch_def Let_def option_bind_eq_Some)

section \<open>The scheduler as a round-robin scheduler\<close>

text \<open>
  The ring is the list without the idle task; when the idle task runs, the search starts from the
  first process after it.
\<close>

definition ring_at :: "kernel \<Rightarrow> ptr list \<Rightarrow> nat \<Rightarrow> bool" where
  "ring_at k qs s \<longleftrightarrow> s < length qs \<and> proc_list k (proc_first k # qs) \<and>
     (current_process k = qs ! s \<or> current_process k = proc_first k \<and> s = 0)"

lemma ring_at_current:
  assumes "ring_at k qs s"
  shows "\<exists>b. pcbs k (current_process k) = Some b"
proof -
  have "current_process k \<in> set (proc_first k # qs)" using assms by (auto simp: ring_at_def)
  with assms show ?thesis using proc_list_dom unfolding ring_at_def by blast
qed

lemma schedule_ring:
  assumes "ring_at k qs s"
  shows "schedule k = sched_switch (pick_next k (proc_first k) qs s) k"
proof -
  let ?f = "proc_first k"
  have pl: "proc_list k (?f # qs)" and s: "s < length qs" using assms by (auto simp: ring_at_def)
  note lp = sched_loop_pick [OF pl s]
  show ?thesis
  proof (cases "current_process k = ?f")
    case True
    have "s = 0" using assms True s pl by (auto simp: ring_at_def proc_list_def)
    obtain b where b: "pcbs k ?f = Some b" "p_next b = nth_ptr (?f # qs) 1"
      using proc_list_nth(3) [OF pl, of 0] by (auto simp: linked_def)
    have "p_next b = qs ! s" using b(2) s \<open>s = 0\<close> by (simp add: nth_ptr_def)
    moreover have "qs ! s \<noteq> NULL" using proc_list_nth(1) [OF pl, of "Suc s"] s by simp
    ultimately show ?thesis using True b lp by (simp add: schedule_def)
  next
    case False
    then have "current_process k = qs ! s" using assms by (auto simp: ring_at_def)
    with False lp show ?thesis by (simp add: schedule_def)
  qed
qed

lemma schedule_spec:
  assumes "ring_at k qs s"
  shows "\<exists>k'. schedule k = Some k' \<and> current_process k' = pick_next k (proc_first k) qs s \<and>
    same_but_accounts k k'"
proof -
  have pl: "proc_list k (proc_first k # qs)" using assms by (auto simp: ring_at_def)
  obtain b where b: "pcbs k (current_process k) = Some b" using ring_at_current [OF assms] by blast
  have "pick_next k (proc_first k) qs s \<in> set (proc_first k # qs)"
    using pick_next_in [of k "proc_first k" qs s] by auto
  with proc_list_dom [OF pl] obtain c where "pcbs k (pick_next k (proc_first k) qs s) = Some c" by blast
  from sched_switch_spec [OF b this] schedule_ring [OF assms] show ?thesis by simp
qed

interpretation rr: round_robin ring_at is_ready schedule current_process
proof
  show "ring_at s R p \<Longrightarrow> p < length R" for s R p by (simp add: ring_at_def)
  show "p = p'" if "ring_at s R p" "ring_at s R p'" for s R p p'
    using that by (auto simp: ring_at_def proc_list_def nth_eq_iff_index_eq dest: nth_mem)
  fix s R p q
  assume r: "ring_at s R p" and q: "q \<in> set R" "is_ready s q"
  have p: "p < length R" using r by (simp add: ring_at_def)
  obtain s' where s': "schedule s = Some s'" "current_process s' = pick_next s (proc_first s) R p"
    "same_but_accounts s s'" using schedule_spec [OF r] by blast
  obtain m where m: "0 < m" "m \<le> length R"
    "pick_next s (proc_first s) R p = R ! ((p + m) mod length R)"
    "is_ready s (pick_next s (proc_first s) R p)"
    "\<forall>i. 0 < i \<and> i < m \<longrightarrow> \<not> is_ready s (R ! ((p + i) mod length R))"
    using pick_next_first [OF p q] by blast
  have "ring_at s' R ((p + m) mod length R)"
    using r s'(2,3) m(3) p same_but_accounts_list(1) [OF s'(3)]
    by (auto simp: ring_at_def same_but_accounts_def intro: mod_less_divisor)
  with s' m show "\<exists>s' m. schedule s = Some s' \<and> 0 < m \<and> m \<le> length R \<and>
      ring_at s' R ((p + m) mod length R) \<and> current_process s' = R ! ((p + m) mod length R) \<and>
      is_ready s (current_process s') \<and>
      (\<forall>i. 0 < i \<and> i < m \<longrightarrow> \<not> is_ready s (R ! ((p + i) mod length R)))"
    by (intro exI [of _ s'] exI [of _ m]) simp
qed

section \<open>Properties\<close>


text \<open>A system with an idle task and two ready processes, of which the first runs.\<close>

definition three_procs :: kernel where
  "three_procs = (boot_kernel (boot_mem (\<lambda>a. 0)))
     \<lparr>pcbs := [4096 \<mapsto> zero_pcb\<lparr>p_next := 16384, p_status := PROCESS_STATUS_READY\<rparr>,
        16384 \<mapsto> zero_pcb\<lparr>p_next := 32768, p_prev := 4096, p_status := PROCESS_STATUS_READY, p_pid := 1\<rparr>,
        32768 \<mapsto> zero_pcb\<lparr>p_prev := 16384, p_status := PROCESS_STATUS_READY, p_pid := 2\<rparr>],
      proc_first := 4096, current_process := 16384, avail_pid := 3\<rparr>"

lemma three_procs_list: "proc_list three_procs [4096, 16384, 32768]"
  by (simp add: three_procs_def proc_list_def nth_ptr_def linked_def All_less_Suc)

lemma three_procs_status [simp]:
  "status_of three_procs 16384 = PROCESS_STATUS_READY" "status_of three_procs 32768 = PROCESS_STATUS_READY"
  "current_process three_procs = 16384"
  by (simp_all add: three_procs_def status_of_def)


text \<open>
  C10: Scheduling is fair. Take any sequence of calls of \<^verbatim>\<open>schedule\<close> between which other parts of
  the kernel may put processes to sleep, wake them or let them exit, as long as they leave the
  list and the choice of the last call alone. A process that stays ready gets the processor
  within as many calls as there are processes.
\<close>

theorem schedule_fair:
  assumes "\<And>i. ring_at (S i) qs (P i)" and "\<And>i. is_ready (S i) q" and "q \<in> set qs"
    and "\<And>i k'. schedule (S i) = Some k' \<Longrightarrow> ring_at k' qs (P (Suc i))"
  shows "\<exists>i<length qs. \<exists>k'. schedule (S i) = Some k' \<and> current_process k' = q"
  by (rule rr.fair [where S = S and P = P]) (fact assms)+


lemma two_procs_ring:
  "ring_at (three_procs\<lparr>pcbs := (pcbs three_procs)(16384 \<mapsto> zero_pcb\<lparr>p_prev := 4096,
     p_status := PROCESS_STATUS_READY, p_pid := 1\<rparr>)\<rparr>) [16384] 0"
  by (simp add: three_procs_def ring_at_def proc_list_def nth_ptr_def linked_def All_less_Suc)

theorem schedule_fair_witness:
  "\<exists>k k'. ring_at k [16384] 0 \<and> is_ready k 16384 \<and> schedule k = Some k' \<and> current_process k' = 16384"
proof -
  let ?k = "three_procs\<lparr>pcbs := (pcbs three_procs)(16384 \<mapsto> zero_pcb\<lparr>p_prev := 4096,
     p_status := PROCESS_STATUS_READY, p_pid := 1\<rparr>)\<rparr>"
  have r: "is_ready ?k 16384" by (simp add: is_ready_def status_of_def)
  have "ring_at k' [16384] 0" if k': "schedule ?k = Some k'" for k'
  proof -
    have sba: "same_but_accounts ?k k'" and "current_process k' = 16384"
      using schedule_spec [OF two_procs_ring] k' r by (auto simp: pick_next_def)
    then show ?thesis
      using two_procs_ring same_but_accounts_list(1) [OF sba]
      by (simp add: ring_at_def same_but_accounts_def)
  qed
  then have "\<exists>i<length [16384 :: ptr]. \<exists>k'. schedule ?k = Some k' \<and> current_process k' = 16384"
    by (intro schedule_fair [where S = "\<lambda>i. ?k" and P = "\<lambda>i. 0"]) (use two_procs_ring r in simp_all)
  with two_procs_ring r show ?thesis by blast
qed

end
