(* ===== verification/WaitQueue.thy ===== *)
theory WaitQueue
  imports Scheduler
begin

text \<open>
  Wait queues, \<^verbatim>\<open>kernel/processes/waitqueue.c\<close>: singly linked lists of sleeping processes, linked
  through \<^verbatim>\<open>wait_queue_next\<close> of the control blocks. The \<^verbatim>\<open>first\<close> pointer of each queue is
  \<open>wait_first\<close> of the kernel state.
\<close>

section \<open>Definitions\<close>

text \<open>The loop of \<^verbatim>\<open>wait_queue_add\<close> over a non-empty queue.\<close>

partial_function (option) wait_append :: "ptr \<Rightarrow> ptr \<Rightarrow> kernel \<Rightarrow> kernel option" where
  [code]: "wait_append proc nxt k =
     (if nxt = proc then Some k
      else do { b \<leftarrow> pcbs k nxt;
                if wait_queue_next b = NULL
                then pcb_upd nxt (\<lambda>b. b\<lparr>wait_queue_next := proc\<rparr>) k
                else wait_append proc (wait_queue_next b) k })"

text \<open>\<^verbatim>\<open>wait_queue_add\<close> up to the call of \<^verbatim>\<open>schedule\<close>.\<close>

definition wait_enqueue :: "queue_id \<Rightarrow> ptr \<Rightarrow> kernel \<Rightarrow> kernel option" where
  "wait_enqueue queue proc k =
     do { k1 \<leftarrow> (if wait_first k queue = NULL
                 then Some (k\<lparr>wait_first := (wait_first k)(queue := proc)\<rparr>)
                 else wait_append proc (wait_first k queue) k);
          pcb_upd proc (\<lambda>b. b\<lparr>p_status := PROCESS_STATUS_SLEEPING\<rparr>) k1 }"

definition wait_queue_add :: "queue_id \<Rightarrow> ptr \<Rightarrow> kernel \<Rightarrow> kernel option" where
  "wait_queue_add queue proc k = do { k1 \<leftarrow> wait_enqueue queue proc k; schedule k1 }"

partial_function (option) wake_from :: "ptr \<Rightarrow> kernel \<Rightarrow> kernel option" where
  [code]: "wake_from proc k =
     (if proc = NULL then Some k
      else do { b \<leftarrow> pcbs k proc;
                k1 \<leftarrow> pcb_upd proc
                  (\<lambda>b. b\<lparr>p_status := PROCESS_STATUS_READY, wait_queue_next := NULL\<rparr>) k;
                wake_from (wait_queue_next b) k1 })"

definition wait_queue_wake :: "queue_id \<Rightarrow> kernel \<Rightarrow> kernel option" where
  "wait_queue_wake queue k =
     do { k1 \<leftarrow> wake_from (wait_first k queue) k;
          Some (k1\<lparr>wait_first := (wait_first k1)(queue := NULL)\<rparr>) }"

section \<open>The list in a queue\<close>

fun wchain :: "kernel \<Rightarrow> ptr \<Rightarrow> ptr list \<Rightarrow> bool" where
  "wchain k a [] \<longleftrightarrow> a = NULL"
| "wchain k a (p # ps) \<longleftrightarrow> a = p \<and> p \<noteq> NULL \<and>
     (\<exists>b. pcbs k p = Some b \<and> wchain k (wait_queue_next b) ps)"

definition sleeping :: "kernel \<Rightarrow> ptr \<Rightarrow> bool" where
  "sleeping k p \<longleftrightarrow> status_of k p = PROCESS_STATUS_SLEEPING"

text \<open>
  All queues together: \<open>W q\<close> is the list of processes waiting in queue \<open>q\<close>. No process waits twice,
  who waits sleeps, and a process that does not wait has no successor in a queue.
\<close>

definition waiting :: "kernel \<Rightarrow> (queue_id \<Rightarrow> ptr list) \<Rightarrow> bool" where
  "waiting k W \<longleftrightarrow> (\<forall>q. wchain k (wait_first k q) (W q) \<and> distinct (W q)) \<and>
     (\<forall>q r. q \<noteq> r \<longrightarrow> set (W q) \<inter> set (W r) = {}) \<and>
     (\<forall>q. \<forall>p\<in>set (W q). sleeping k p) \<and>
     (\<forall>p b. pcbs k p = Some b \<longrightarrow> (\<forall>q. p \<notin> set (W q)) \<longrightarrow> wait_queue_next b = NULL)"

lemma wchain_cong:
  "(\<And>p. p \<in> set ps \<Longrightarrow> map_option wait_queue_next (pcbs k' p) = map_option wait_queue_next (pcbs k p)) \<Longrightarrow>
   wchain k' a ps = wchain k a ps"
proof (induction ps arbitrary: a)
  case (Cons p ps)
  then have "map_option wait_queue_next (pcbs k' p) = map_option wait_queue_next (pcbs k p)" by simp
  with Cons show ?case by (cases "pcbs k p"; cases "pcbs k' p") auto
qed simp

lemma wchain_dom: "wchain k a ps \<Longrightarrow> p \<in> set ps \<Longrightarrow> p \<noteq> NULL \<and> (\<exists>b. pcbs k p = Some b)"
  by (induction ps arbitrary: a) auto

lemma wchain_null: "wchain k a ps \<Longrightarrow> a = NULL \<longleftrightarrow> ps = []"
  by (cases ps) auto

lemma butlast_not_last: "distinct xs \<Longrightarrow> x \<in> set (butlast xs) \<Longrightarrow> x \<noteq> last xs"
  by (cases xs rule: rev_cases) auto

text \<open>Appending to a chain rewrites the link of its last element only.\<close>

lemma wait_append_chain:
  assumes "wchain k a ps" and "ps \<noteq> []" and "p \<notin> set ps" and "distinct ps"
  shows "\<exists>b. pcbs k (last ps) = Some b \<and>
    wait_append p a k = Some (k\<lparr>pcbs := (pcbs k)(last ps \<mapsto> b\<lparr>wait_queue_next := p\<rparr>)\<rparr>)"
  using assms
proof (induction ps arbitrary: a)
  case (Cons x ps)
  then obtain b where b: "a = x" "pcbs k x = Some b" "wchain k (wait_queue_next b) ps" "x \<noteq> p" by auto
  show ?case
  proof (cases ps)
    case Nil
    with b show ?thesis by (simp add: wait_append.simps [of p x] pcb_upd_def fun_upd_def)
  next
    case (Cons y ys)
    with b have "wait_queue_next b \<noteq> NULL" by auto
    with b Cons.IH [OF b(3)] Cons.prems Cons show ?thesis
      by (simp add: wait_append.simps [of p x])
  qed
qed simp

lemma wait_append_present: "wchain k a ps \<Longrightarrow> p \<in> set ps \<Longrightarrow> wait_append p a k = Some k"
proof (induction ps arbitrary: a)
  case (Cons x ps)
  then obtain b where b: "a = x" "pcbs k x = Some b" "wchain k (wait_queue_next b) ps" by auto
  show ?case
  proof (cases "x = p")
    case True
    with b(1) show ?thesis by (simp add: wait_append.simps [of p p])
  next
    case False
    with Cons.prems have "p \<in> set ps" by simp
    moreover from this b(3) have "wait_queue_next b \<noteq> NULL" using wchain_null by fastforce
    ultimately show ?thesis using b False Cons.IH [OF b(3)] by (simp add: wait_append.simps [of p x])
  qed
qed simp

lemma wchain_append:
  assumes "wchain k a ps" and "distinct ps" and "p \<notin> set ps" and "p \<noteq> NULL"
    and "\<And>x. x \<in> set (butlast ps) \<Longrightarrow> map_option wait_queue_next (pcbs k' x) = map_option wait_queue_next (pcbs k x)"
    and "ps \<noteq> [] \<Longrightarrow> map_option wait_queue_next (pcbs k' (last ps)) = Some p"
    and "map_option wait_queue_next (pcbs k' p) = Some NULL"
  shows "wchain k' (if ps = [] then p else a) (ps @ [p])"
  using assms(1,2,3,5,6)
proof (induction ps arbitrary: a)
  case Nil
  with assms(4,7) show ?case by auto
next
  case (Cons x ps)
  then obtain b where b: "a = x" "x \<noteq> NULL" "pcbs k x = Some b" "wchain k (wait_queue_next b) ps" by auto
  show ?case
  proof (cases "ps = []")
    case True
    with Cons.prems(5) b assms(4,7) show ?thesis by auto
  next
    case False
    have "wchain k' (if ps = [] then p else wait_queue_next b) (ps @ [p])"
      using Cons.IH [OF b(4)] Cons.prems False by simp
    moreover have "map_option wait_queue_next (pcbs k' x) = Some (wait_queue_next b)"
      using Cons.prems(4) [of x] False b by simp
    ultimately show ?thesis using False b by auto
  qed
qed


section \<open>Adding and waking\<close>

lemma waiting_next_null:
  "waiting k W \<Longrightarrow> pcbs k p = Some b \<Longrightarrow> \<forall>q. p \<notin> set (W q) \<Longrightarrow> wait_queue_next b = NULL"
  by (auto simp: waiting_def)

lemma waiting_sleeps: "waiting k W \<Longrightarrow> p \<in> set (W q) \<Longrightarrow> sleeping k p"
  by (auto simp: waiting_def)

lemma waiting_dom: "waiting k W \<Longrightarrow> p \<in> set (W q) \<Longrightarrow> p \<noteq> NULL \<and> (\<exists>b. pcbs k p = Some b)"
  unfolding waiting_def using wchain_dom by blast

text \<open>The links that \<^verbatim>\<open>wait_queue_add\<close> leaves behind.\<close>

lemma wait_enqueue_run:
  assumes "waiting k W" and "pcbs k p = Some b" and "\<forall>q. p \<notin> set (W q)"
  shows "\<exists>k'. wait_enqueue q p k = Some k' \<and>
    wait_first k' = (wait_first k)(q := if W q = [] then p else wait_first k q) \<and>
    pcbs k' p = Some (b\<lparr>p_status := PROCESS_STATUS_SLEEPING\<rparr>) \<and>
    (\<forall>x. x \<noteq> p \<longrightarrow> pcbs k' x = (if W q \<noteq> [] \<and> x = last (W q)
       then map_option (\<lambda>c. c\<lparr>wait_queue_next := p\<rparr>) (pcbs k x) else pcbs k x)) \<and>
    k' = k\<lparr>pcbs := pcbs k', wait_first := wait_first k'\<rparr>"
proof (cases "W q = []")
  case True
  then have "wait_first k q = NULL" using assms(1) by (auto simp: waiting_def dest: wchain_null)
  with True assms(2) show ?thesis by (simp add: wait_enqueue_def pcb_upd_def)
next
  case False
  have ch: "wchain k (wait_first k q) (W q)" "distinct (W q)" using assms(1) by (auto simp: waiting_def)
  then have n: "wait_first k q \<noteq> NULL" using wchain_null False by blast
  have pn: "p \<notin> set (W q)" using assms(3) by simp
  then have pl: "p \<noteq> last (W q)" using False by auto
  obtain c where "pcbs k (last (W q)) = Some c" "wait_append p (wait_first k q) k =
      Some (k\<lparr>pcbs := (pcbs k)(last (W q) \<mapsto> c\<lparr>wait_queue_next := p\<rparr>)\<rparr>)"
    using wait_append_chain [OF ch(1) False pn ch(2)] by blast
  with n False assms(2) pl show ?thesis by (simp add: wait_enqueue_def pcb_upd_def)
qed

lemma wait_enqueue_spec:
  assumes "waiting k W" and "pcbs k p = Some b" and "p \<noteq> NULL" and "\<forall>q. p \<notin> set (W q)"
  shows "\<exists>k'. wait_enqueue q p k = Some k' \<and> waiting k' (W(q := W q @ [p])) \<and>
    (\<forall>x. x \<noteq> p \<longrightarrow> status_of k' x = status_of k x) \<and>
    (\<forall>x. map_option (\<lambda>b. (p_next b, p_prev b)) (pcbs k' x) = map_option (\<lambda>b. (p_next b, p_prev b)) (pcbs k x)) \<and>
    k' = k\<lparr>pcbs := pcbs k', wait_first := wait_first k'\<rparr>"
proof -
  obtain k' where k': "wait_enqueue q p k = Some k'"
    and wf: "wait_first k' = (wait_first k)(q := if W q = [] then p else wait_first k q)"
    and pp: "pcbs k' p = Some (b\<lparr>p_status := PROCESS_STATUS_SLEEPING\<rparr>)"
    and px: "\<And>x. x \<noteq> p \<Longrightarrow> pcbs k' x = (if W q \<noteq> [] \<and> x = last (W q)
       then map_option (\<lambda>c. c\<lparr>wait_queue_next := p\<rparr>) (pcbs k x) else pcbs k x)"
    and eq: "k' = k\<lparr>pcbs := pcbs k', wait_first := wait_first k'\<rparr>"
    using wait_enqueue_run [OF assms(1,2,4), of q] by blast
  have W: "wchain k (wait_first k r) (W r)" "distinct (W r)" "\<And>x. x \<in> set (W r) \<Longrightarrow> sleeping k x" for r
    using assms(1) by (auto simp: waiting_def)
  have disj: "set (W q) \<inter> set (W r) = {}" if "q \<noteq> r" for q r using assms(1) that by (simp add: waiting_def)
  have bn: "wait_queue_next b = NULL" using waiting_next_null [OF assms(1,2,4)] .
  have st: "status_of k' x = status_of k x" if "x \<noteq> p" for x
    using px [OF that] by (cases "pcbs k x") (auto simp: status_of_def)
  have lk: "map_option (\<lambda>b. (p_next b, p_prev b)) (pcbs k' x) = map_option (\<lambda>b. (p_next b, p_prev b)) (pcbs k x)" for x
    using px [of x] pp assms(2) by (cases "x = p"; cases "pcbs k x") auto
  have sp: "sleeping k' p" using pp by (simp add: sleeping_def status_of_def)
  have other: "wchain k' (wait_first k' r) (W r)" if "r \<noteq> q" for r
  proof -
    have "pcbs k' x = pcbs k x" if x: "x \<in> set (W r)" for x
    proof -
      have "x \<noteq> p" using x assms(4) by blast
      moreover have "W q \<noteq> [] \<Longrightarrow> x \<noteq> last (W q)" using x disj [OF \<open>r \<noteq> q\<close>] last_in_set by blast
      ultimately show ?thesis using px by auto
    qed
    then show ?thesis using W(1) [of r] that wf by (subst wchain_cong [of _ k' k]) auto
  qed
  have chq: "wchain k' (wait_first k' q) (W q @ [p])"
  proof -
    have "wchain k' (if W q = [] then p else wait_first k q) (W q @ [p])"
    proof (rule wchain_append [OF W(1,2)])
      show "p \<notin> set (W q)" "p \<noteq> NULL" using assms by auto
      show "map_option wait_queue_next (pcbs k' p) = Some NULL" using pp bn by simp
      show "map_option wait_queue_next (pcbs k' (last (W q))) = Some p" if "W q \<noteq> []"
        using px [of "last (W q)"] wchain_dom [OF W(1)] last_in_set [OF that] assms(4) that by fastforce
      show "map_option wait_queue_next (pcbs k' x) = map_option wait_queue_next (pcbs k x)"
        if "x \<in> set (butlast (W q))" for x
      proof -
        have "x \<noteq> last (W q)" using butlast_not_last [OF W(2) that] .
        moreover have "x \<noteq> p" using assms(4) in_set_butlastD [OF that] by blast
        ultimately show ?thesis using px by simp
      qed
    qed
    then show ?thesis by (simp add: wf)
  qed
  have nxt: "wait_queue_next c = NULL" if "pcbs k' x = Some c" "\<forall>r. x \<notin> set ((W(q := W q @ [p])) r)" for x c
  proof -
    have x: "x \<noteq> p" "\<forall>r. x \<notin> set (W r)" using that(2) by (auto split: if_splits)
    then have "W q \<noteq> [] \<Longrightarrow> x \<noteq> last (W q)" using last_in_set by blast
    then have "pcbs k' x = pcbs k x" using px [OF x(1)] by (cases "W q = []") simp_all
    with x that(1) waiting_next_null [OF assms(1)] show ?thesis by simp
  qed
  have "sleeping k' x" if "x \<in> set ((W(q := W q @ [p])) r)" for x r
  proof (cases "x = p")
    case False
    with that have "x \<in> set (W r)" by (auto split: if_splits)
    with W(3) st [OF False] show ?thesis by (simp add: sleeping_def)
  qed (use sp in simp)
  moreover have "wchain k' (wait_first k' r) ((W(q := W q @ [p])) r) \<and> distinct ((W(q := W q @ [p])) r)" for r
    using other [of r] chq W(2) assms(4) by (cases "r = q") auto
  moreover have "set ((W(q := W q @ [p])) r) \<inter> set ((W(q := W q @ [p])) t) = {}" if "r \<noteq> t" for r t
    using disj [OF that] assms(4) that by auto
  ultimately have "waiting k' (W(q := W q @ [p]))"
    using nxt unfolding waiting_def by blast
  with k' st lk eq show ?thesis by blast
qed


text \<open>Adding a process that is already in the queue only puts it to sleep again.\<close>

lemma wait_enqueue_present:
  assumes "waiting k W" and "p \<in> set (W q)" and "pcbs k p = Some b"
  shows "wait_enqueue q p k =
    Some (k\<lparr>pcbs := (pcbs k)(p \<mapsto> b\<lparr>p_status := PROCESS_STATUS_SLEEPING\<rparr>)\<rparr>)"
proof -
  have ch: "wchain k (wait_first k q) (W q)" using assms(1) by (auto simp: waiting_def)
  then have "wait_first k q \<noteq> NULL" using wchain_null assms(2) by fastforce
  with wait_append_present [OF ch assms(2)] assms(3) show ?thesis
    by (simp add: wait_enqueue_def pcb_upd_def)
qed

definition woken :: "pcb \<Rightarrow> pcb" where
  "woken b = b\<lparr>p_status := PROCESS_STATUS_READY, wait_queue_next := NULL\<rparr>"

lemma wake_from_chain:
  "wchain k a ps \<Longrightarrow> distinct ps \<Longrightarrow>
   wake_from a k = Some (k\<lparr>pcbs := (\<lambda>x. if x \<in> set ps then map_option woken (pcbs k x) else pcbs k x)\<rparr>)"
proof (induction ps arbitrary: a k)
  case Nil
  then show ?case by (simp add: wake_from.simps [of NULL])
next
  case (Cons p ps)
  then obtain b where b: "a = p" "p \<noteq> NULL" "pcbs k p = Some b" "wchain k (wait_queue_next b) ps" by auto
  let ?k1 = "k\<lparr>pcbs := (pcbs k)(p \<mapsto> woken b)\<rparr>"
  have "wchain ?k1 (wait_queue_next b) ps"
    using b(4) Cons.prems(2) by (subst wchain_cong [of _ ?k1 k]) auto
  from Cons.IH [OF this] Cons.prems(2)
  have "wake_from (wait_queue_next b) ?k1 = Some (k\<lparr>pcbs := (\<lambda>x. if x \<in> set ps
      then map_option woken (pcbs ?k1 x) else pcbs ?k1 x)\<rparr>)" by simp
  moreover have "(\<lambda>x. if x \<in> set ps then map_option woken (pcbs ?k1 x) else pcbs ?k1 x) =
      (\<lambda>x. if x \<in> set (p # ps) then map_option woken (pcbs k x) else pcbs k x)"
    using Cons.prems(2) b(3) by (auto simp: fun_eq_iff)
  ultimately show ?case
    using b by (simp add: wake_from.simps [of p] pcb_upd_def woken_def)
qed

lemma wait_queue_wake_run:
  assumes "waiting k W"
  shows "wait_queue_wake q k = Some (k\<lparr>pcbs := (\<lambda>x. if x \<in> set (W q)
      then map_option woken (pcbs k x) else pcbs k x), wait_first := (wait_first k)(q := NULL)\<rparr>)"
proof -
  have "wchain k (wait_first k q) (W q)" "distinct (W q)" using assms by (auto simp: waiting_def)
  from wake_from_chain [OF this] show ?thesis by (simp add: wait_queue_wake_def)
qed

lemma wait_queue_wake_spec:
  assumes "waiting k W"
  shows "\<exists>k'. wait_queue_wake q k = Some k' \<and> waiting k' (W(q := [])) \<and>
    (\<forall>x\<in>set (W q). status_of k' x = PROCESS_STATUS_READY) \<and>
    (\<forall>x. x \<notin> set (W q) \<longrightarrow> pcbs k' x = pcbs k x) \<and>
    (\<forall>x. map_option (\<lambda>b. (p_next b, p_prev b)) (pcbs k' x) = map_option (\<lambda>b. (p_next b, p_prev b)) (pcbs k x)) \<and>
    k' = k\<lparr>pcbs := pcbs k', wait_first := wait_first k'\<rparr>"
proof -
  let ?k' = "k\<lparr>pcbs := (\<lambda>x. if x \<in> set (W q) then map_option woken (pcbs k x) else pcbs k x),
    wait_first := (wait_first k)(q := NULL)\<rparr>"
  have disj: "set (W r) \<inter> set (W q) = {}" if "r \<noteq> q" for r using assms that by (simp add: waiting_def)
  have ready: "status_of ?k' x = PROCESS_STATUS_READY" if "x \<in> set (W q)" for x
    using waiting_dom [OF assms that] that by (auto simp: status_of_def woken_def)
  have "wchain ?k' (wait_first ?k' r) ((W(q := [])) r)" for r
  proof (cases "r = q")
    case False
    then have "pcbs ?k' x = pcbs k x" if "x \<in> set (W r)" for x using disj that by auto
    then have "wchain ?k' (wait_first k r) (W r) = wchain k (wait_first k r) (W r)"
      by (intro wchain_cong) simp
    with False assms show ?thesis by (simp add: waiting_def)
  qed simp
  moreover have "sleeping ?k' x" if "x \<in> set ((W(q := [])) r)" for x r
    using that disj [of r] assms by (cases "r = q") (auto simp: waiting_def sleeping_def status_of_def)
  moreover have "wait_queue_next c = NULL"
    if "pcbs ?k' x = Some c" "\<forall>r. x \<notin> set ((W(q := [])) r)" for x c
  proof (cases "x \<in> set (W q)")
    case True
    with that(1) show ?thesis by (auto simp: woken_def)
  next
    case False
    then have "\<forall>r. x \<notin> set (W r)" using that(2) by (metis fun_upd_apply)
    with that(1) False waiting_next_null [OF assms] show ?thesis by auto
  qed
  ultimately have "waiting ?k' (W(q := []))"
    using assms unfolding waiting_def by (auto simp: disjoint_iff)
  moreover have "map_option (\<lambda>b. (p_next b, p_prev b)) (pcbs ?k' x) =
      map_option (\<lambda>b. (p_next b, p_prev b)) (pcbs k x)" for x
    by (cases "pcbs k x") (auto simp: woken_def)
  ultimately show ?thesis
    using wait_queue_wake_run [OF assms] ready by (intro exI [of _ ?k']) auto
qed


lemma waiting_accounts:
  assumes "same_but_accounts k k'" and "waiting k W"
  shows "waiting k' W"
proof -
  have n: "map_option wait_queue_next (pcbs k' x) = map_option wait_queue_next (pcbs k x)" for x
    by (rule same_but_accounts_field [OF assms(1)]) (rule unaccounted_fields)
  have wf: "wait_first k' = wait_first k" using assms(1) by (simp add: same_but_accounts_def)
  have ch: "wchain k' a ps = wchain k a ps" for a ps using n by (intro wchain_cong)
  have sl: "sleeping k' x = sleeping k x" for x
    using same_but_accounts_list(2) [OF assms(1)] by (simp add: sleeping_def)
  have "wait_queue_next c = NULL" if "pcbs k' x = Some c" "\<forall>q. x \<notin> set (W q)" for x c
  proof -
    have "map_option wait_queue_next (pcbs k x) = Some (wait_queue_next c)" using n [of x] that(1) by simp
    then obtain b where "pcbs k x = Some b" "wait_queue_next b = wait_queue_next c"
      by (auto simp: map_option_eq_Some)
    with waiting_next_null [OF assms(2) _ that(2), of b] show ?thesis by simp
  qed
  then show ?thesis using assms(2) unfolding waiting_def wf ch sl by simp
qed

interpretation wq: sleep_queues waiting "\<lambda>p k. p \<noteq> NULL \<and> pcbs k p \<noteq> None" is_ready wait_enqueue wait_queue_wake
proof
  fix s W p q
  assume w: "waiting s W" and p: "p \<noteq> NULL \<and> pcbs s p \<noteq> None" and n: "\<forall>r. p \<notin> set (W r)"
  then obtain b where b: "pcbs s p = Some b" by auto
  obtain k' where k': "wait_enqueue q p s = Some k'" "waiting k' (W(q := W q @ [p]))"
    "\<forall>x. map_option (\<lambda>b. (p_next b, p_prev b)) (pcbs k' x) = map_option (\<lambda>b. (p_next b, p_prev b)) (pcbs s x)"
    using wait_enqueue_spec [OF w b _ n, of q] p by blast
  have "pcbs k' x \<noteq> None" if "pcbs s x \<noteq> None" for x
    using k'(3) [rule_format, of x] that by (cases "pcbs k' x") simp_all
  with k'(1,2) show "\<exists>s'. wait_enqueue q p s = Some s' \<and> waiting s' (W(q := W q @ [p])) \<and>
      (\<forall>x. x \<noteq> NULL \<and> pcbs s x \<noteq> None \<longrightarrow> x \<noteq> NULL \<and> pcbs s' x \<noteq> None)"
    by blast
next
  fix s W q
  assume w: "waiting s W"
  then obtain k' where k': "wait_queue_wake q s = Some k'" "waiting k' (W(q := []))"
    "\<forall>x\<in>set (W q). status_of k' x = PROCESS_STATUS_READY"
    "\<forall>x. x \<notin> set (W q) \<longrightarrow> pcbs k' x = pcbs s x"
    using wait_queue_wake_spec by blast
  then show "\<exists>s'. wait_queue_wake q s = Some s' \<and> waiting s' (W(q := [])) \<and>
      (\<forall>x\<in>set (W q). is_ready s' x) \<and> (\<forall>x. x \<notin> set (W q) \<longrightarrow> is_ready s' x = is_ready s x)"
    by (auto simp: is_ready_def status_of_def)
qed (auto simp: waiting_def is_ready_def sleeping_def status_defs)

section \<open>Properties\<close>

text \<open>
  A process that enters a wait queue gives up the processor: \<^verbatim>\<open>wait_queue_add\<close> for the running
  process appends it to the queue, puts it to sleep and returns in the context of another process.
  The other queues and the process list stay as they are.
\<close>

lemma wait_queue_add_blocks_spec:
  assumes "ring_at k qs s" and "current_process k = qs ! s" and "waiting k W"
    and "\<forall>q. current_process k \<notin> set (W q)"
  shows "\<exists>k'. wait_queue_add q (current_process k) k = Some k' \<and>
    waiting k' (W(q := W q @ [current_process k])) \<and> current_process k' \<noteq> current_process k \<and>
    sleeping k' (current_process k) \<and> proc_list k' (proc_first k # qs) \<and> tick_counter k' = tick_counter k \<and>
    (\<exists>t. ring_at k' qs t)"
proof -
  let ?p = "current_process k"
  have s: "s < length qs" and pl: "proc_list k (proc_first k # qs)" using assms(1) by (auto simp: ring_at_def)
  obtain b where b: "pcbs k ?p = Some b" using ring_at_current [OF assms(1)] by blast
  have pn: "?p \<noteq> NULL" using assms(2) s proc_list_nth(1) [OF pl, of "Suc s"] by simp
  obtain k1 where k1: "wait_enqueue q ?p k = Some k1" "waiting k1 (W(q := W q @ [?p]))"
    and lk: "\<forall>x. map_option (\<lambda>b. (p_next b, p_prev b)) (pcbs k1 x) = map_option (\<lambda>b. (p_next b, p_prev b)) (pcbs k x)"
    and eq: "k1 = k\<lparr>pcbs := pcbs k1, wait_first := wait_first k1\<rparr>"
    using wait_enqueue_spec [OF assms(3) b pn assms(4), of q] by blast
  have same: "proc_first k1 = proc_first k" "current_process k1 = ?p" "tick_counter k1 = tick_counter k"
    by (subst eq, simp)+
  have pl1: "proc_list k1 (proc_first k # qs)" using pl lk same(1) by (subst proc_list_cong) auto
  then have r1: "ring_at k1 qs s" using s assms(2) same by (simp add: ring_at_def)
  have sl: "sleeping k1 ?p" by (rule waiting_sleeps [OF k1(2), of _ q]) simp
  obtain k' where k': "schedule k1 = Some k'" "current_process k' = pick_next k1 (proc_first k) qs s"
    "same_but_accounts k1 k'" using schedule_spec [OF r1] same(1) by auto
  have "?p \<noteq> proc_first k" using assms(2) s proc_list_nth(2) [OF pl, of "Suc s" 0] by simp
  then have "current_process k' \<noteq> ?p"
    using pick_next_in [of k1 "proc_first k" qs s] sl k'(2)
    by (auto simp: is_ready_def sleeping_def status_defs)
  moreover have "waiting k' (W(q := W q @ [?p]))" using waiting_accounts [OF k'(3) k1(2)] .
  moreover have "sleeping k' ?p" using sl same_but_accounts_list(2) [OF k'(3)] by (simp add: sleeping_def)
  moreover have "proc_list k' (proc_first k # qs)" using pl1 same_but_accounts_list(1) [OF k'(3)] by simp
  moreover have "tick_counter k' = tick_counter k"
    using k'(3) same(3) by (simp add: same_but_accounts_def)
  moreover have "\<exists>t. ring_at k' qs t"
    using pl1 same_but_accounts_list(1) [OF k'(3)] k'(2,3) same(1) s pick_next_in [of k1 "proc_first k" qs s]
    by (auto simp: ring_at_def same_but_accounts_def in_set_conv_nth intro: exI [of _ 0])
  ultimately show ?thesis using k1(1) k'(1) by (simp add: wait_queue_add_def)
qed

lemma three_procs_waiting: "waiting three_procs (\<lambda>q. [])"
  by (auto simp: waiting_def three_procs_def boot_kernel_def split: if_splits)

lemma three_procs_ring: "ring_at three_procs [16384, 32768] 0"
proof -
  have "proc_first three_procs = 4096" by (simp add: three_procs_def)
  with three_procs_list show ?thesis by (simp add: ring_at_def)
qed



end
