(* ===== verification/Lifecycle.thy ===== *)
theory Lifecycle
  imports WaitQueue
begin

text \<open>
  The life of a process: creation of the idle task (\<^verbatim>\<open>kernel/processes/idle_task.c\<close>),
  \<^verbatim>\<open>vfork\<close> (\<^verbatim>\<open>kernel/processes/vfork.c\<close>), \<^verbatim>\<open>exit\<close> (\<^verbatim>\<open>kernel/syscalls/exit.c\<close>) and
  \<^verbatim>\<open>waitpid\<close> (\<^verbatim>\<open>kernel/processes/waitpid.c\<close>).

  A system call that gives up the processor does not return at that point. Its result is then
  \<open>Blocked\<close>, with the state in which the next process runs; when the caller is scheduled again it
  goes on with the code after the call of \<^verbatim>\<open>schedule\<close>, which is a definition of its own.
\<close>

section \<open>Definitions\<close>

datatype outcome = Returned i32 | Blocked

definition create_idle_task :: "u32 \<Rightarrow> u32 \<Rightarrow> kernel \<Rightarrow> kernel option" where
  "create_idle_task idle_task enter_userspace k =
     do { (idle, k1) \<leftarrow> process_create k;
          let now = ticks_since_boot k1;
          k2 \<leftarrow> pcb_upd idle (\<lambda>b. b\<lparr>p_text := idle_task,
                user_state := (user_state b)\<lparr>u_pc := idle_task\<rparr>, p_running := 1, total_time := 0,
                start_time := now, last_scheduled := now\<rparr>) k1;
          (stk, m) \<leftarrow> memory_allocate 4096 (mem k2);
          k3 \<leftarrow> pcb_upd idle (\<lambda>b. b\<lparr>p_stack := stk,
                user_state := (user_state b)\<lparr>u_r := (u_r (user_state b))[13 := stk + 4096]\<rparr>\<rparr>)
                (k2\<lparr>mem := m\<rparr>);
          b \<leftarrow> pcbs k3 idle;
          nm \<leftarrow> strncpy (p_name b) (lit ''idle'') 5;
          pcb_upd idle (\<lambda>b. b\<lparr>p_name := nm,
                kernel_state := (kernel_state b)\<lparr>k_r := (k_r (kernel_state b))[14 := enter_userspace]\<rparr>,
                p_status := PROCESS_STATUS_READY\<rparr>) k3 }"

text \<open>
  The part of \<^verbatim>\<open>vfork\<close> after \<^verbatim>\<open>process_save\<close> runs twice: in the parent, which calls
  \<^verbatim>\<open>schedule\<close> and later returns the child's number, and in the child, whose saved registers lead
  back to the same place.
\<close>

definition vfork_tail :: "ptr \<Rightarrow> i32 \<Rightarrow> kernel \<Rightarrow> (i32 \<times> kernel) option" where
  "vfork_tail parent child_pid k =
     (if current_process k = parent then do { k' \<leftarrow> schedule k; Some (child_pid, k') }
      else Some (0, k))"

definition vfork :: "kernel \<Rightarrow> (i32 \<times> kernel) option" where
  "vfork k =
     (let parent = current_process k in
      do { (child, k1) \<leftarrow> process_create k;
           if child = NULL then Some (-1, k1)
           else
             do { c \<leftarrow> pcbs k1 child;
                  pb \<leftarrow> pcbs k1 parent;
                  let child_pid = p_pid c;
                  k2 \<leftarrow> pcb_upd child (\<lambda>b. pb\<lparr>p_pid := child_pid, p_prev := p_prev c, p_next := p_next c,
                         p_parent := parent, p_stack := NULL, p_text := NULL\<rparr>) k1;
                  k3 \<leftarrow> pcb_upd parent (\<lambda>b. b\<lparr>p_status := PROCESS_STATUS_SLEEPING\<rparr>) k2;
                  k4 \<leftarrow> pcb_upd child (\<lambda>b. b\<lparr>p_status := PROCESS_STATUS_READY\<rparr>) k3;
                  r13 \<leftarrow> arr_get (cpu_r k4) 13;
                  let old_stack_offset = r13 - parent;
                  let new_stack = child + old_stack_offset;
                  k5 \<leftarrow> process_save child new_stack k4;
                  vfork_tail parent child_pid k5 } })"

definition waitpid_done :: "kernel \<Rightarrow> kernel option" where
  "waitpid_done k = wait_queue_wake Waitpid_queue k"

definition exit :: "i32 \<Rightarrow> kernel \<Rightarrow> kernel option" where
  "exit status k =
     do { k1 \<leftarrow> pcb_upd (current_process k)
            (\<lambda>b. b\<lparr>p_status := PROCESS_STATUS_EXITED, exit_value := status\<rparr>) k;
          k2 \<leftarrow> waitpid_done k1;
          schedule k2 }"

definition WNOHANG :: i32 where "WNOHANG = 1"

text \<open>
  The loop of a blocking \<^verbatim>\<open>waitpid\<close>; the result says whether the child has exited or the caller
  has been switched out. \<^verbatim>\<open>schedule\<close> can return in the caller, and then the loop goes on.
\<close>

partial_function (option) waitpid_loop :: "ptr \<Rightarrow> kernel \<Rightarrow> (bool \<times> kernel) option" where
  [code]: "waitpid_loop proc k =
     do { b \<leftarrow> pcbs k proc;
          if p_status b = PROCESS_STATUS_EXITED then Some (True, k)
          else do { k1 \<leftarrow> wait_queue_add Waitpid_queue (current_process k) k;
                    if current_process k1 = current_process k then waitpid_loop proc k1
                    else Some (False, k1) } }"

text \<open>The value stored through \<^verbatim>\<open>wstatus\<close>, if it is not null, and the destruction of the child.\<close>

definition reap :: "bool \<Rightarrow> ptr \<Rightarrow> kernel \<Rightarrow> (i32 option \<times> kernel) option" where
  "reap has_wstatus proc k =
     do { b \<leftarrow> pcbs k proc;
          k1 \<leftarrow> process_destroy proc k;
          Some (if has_wstatus then Some (exit_value b) else None, k1) }"

text \<open>The blocking part; a caller that has been switched out starts again here.\<close>

definition waitpid_wait :: "i32 \<Rightarrow> bool \<Rightarrow> ptr \<Rightarrow> kernel \<Rightarrow> (outcome \<times> i32 option \<times> kernel) option" where
  "waitpid_wait pid has_wstatus proc k =
     do { (exited, k1) \<leftarrow> waitpid_loop proc k;
          if exited then do { (w, k2) \<leftarrow> reap has_wstatus proc k1; Some (Returned pid, w, k2) }
          else Some (Blocked, None, k1) }"

definition waitpid_found :: "i32 \<Rightarrow> bool \<Rightarrow> i32 \<Rightarrow> ptr \<Rightarrow> kernel \<Rightarrow> (outcome \<times> i32 option \<times> kernel) option" where
  "waitpid_found pid has_wstatus options proc k =
     (if options = WNOHANG then
        do { b \<leftarrow> pcbs k proc;
             if p_status b = PROCESS_STATUS_EXITED then
               do { (w, k1) \<leftarrow> reap has_wstatus proc k; Some (Returned (p_pid b), w, k1) }
             else Some (Returned 0, None, k) }
      else waitpid_wait pid has_wstatus proc k)"

definition waitpid :: "i32 \<Rightarrow> bool \<Rightarrow> i32 \<Rightarrow> ptr \<Rightarrow> kernel \<Rightarrow> (outcome \<times> i32 option \<times> kernel) option" where
  "waitpid pid has_wstatus options caller k =
     (if pid = -1 then
        do { proc \<leftarrow> process_lookup_child k caller;
             if proc = NULL then Some (Returned (- ECHILD), None, k)
             else waitpid_found pid has_wstatus options proc k }
      else if sint pid < 0 then Some (Returned (- ENODEV), None, k)
      else
        do { proc \<leftarrow> process_lookup k pid;
             waitpid_found pid has_wstatus options proc k })"

section \<open>Changes that keep the table's invariant\<close>

text \<open>The fields that the invariant speaks about; a size counts only when its pointer is set.\<close>

definition core :: "pcb \<Rightarrow> ptr \<times> ptr \<times> i32 \<times> ptr \<times> u32 \<times> ptr \<times> u32" where
  "core b = (p_next b, p_prev b, p_pid b, p_stack b, if p_stack b = NULL then 0 else stacksize b,
     p_text b, if p_text b = NULL then 0 else textsize b)"

lemma core_of:
  assumes "map_option core (pcbs k' p) = map_option core (pcbs k p)"
  shows "pid_of k' p = pid_of k p" and "resources k' p = resources k p"
    and "map_option (\<lambda>b. (p_next b, p_prev b)) (pcbs k' p) = map_option (\<lambda>b. (p_next b, p_prev b)) (pcbs k p)"
    and "pcbs k' p = None \<longleftrightarrow> pcbs k p = None"
proof -
  have "pid_of k' p = pid_of k p \<and> resources k' p = resources k p \<and>
    map_option (\<lambda>b. (p_next b, p_prev b)) (pcbs k' p) = map_option (\<lambda>b. (p_next b, p_prev b)) (pcbs k p) \<and>
    (pcbs k' p = None \<longleftrightarrow> pcbs k p = None)"
  proof (cases "pcbs k p")
    case None
    with assms show ?thesis by (simp add: pid_of_def resources_def)
  next
    case (Some b)
    with assms obtain c where c: "pcbs k' p = Some c" "core c = core b"
      by (metis map_option_eq_Some option.simps(9))
    from c(2) have "p_next c = p_next b" "p_prev c = p_prev b" "p_pid c = p_pid b" "p_stack c = p_stack b"
      "p_stack b \<noteq> NULL \<Longrightarrow> stacksize c = stacksize b" "p_text c = p_text b"
      "p_text b \<noteq> NULL \<Longrightarrow> textsize c = textsize b"
      unfolding core_def by (simp_all split: if_splits)
    then show ?thesis using Some c(1) by (simp add: pid_of_def resources_def)
  qed
  then show "pid_of k' p = pid_of k p" "resources k' p = resources k p"
    "map_option (\<lambda>b. (p_next b, p_prev b)) (pcbs k' p) = map_option (\<lambda>b. (p_next b, p_prev b)) (pcbs k p)"
    "pcbs k' p = None \<longleftrightarrow> pcbs k p = None" by blast+
qed

lemma ktab_core:
  assumes "ktab base extra k ps" and "proc_first k' = proc_first k" "mem k' = mem k" "avail_pid k' = avail_pid k"
    and "\<And>p. map_option core (pcbs k' p) = map_option core (pcbs k p)"
  shows "ktab base extra k' ps" and "holdings k' ps = holdings k ps"
proof -
  note c = core_of [OF assms(5)]
  have "proc_list k' ps = proc_list k ps" using assms(2) c(3) by (intro proc_list_cong)
  moreover show h: "holdings k' ps = holdings k ps" using c(2) by (intro holdings_cong)
  moreover have "dom (pcbs k') = dom (pcbs k)" using c(4) by (auto simp: dom_def)
  moreover have "pid_of k' = pid_of k" using c(1) by (intro ext)
  ultimately show "ktab base extra k' ps" using assms(1,3,4) by (simp add: ktab_def)
qed

lemma kinv_core:
  assumes "kinv base extra k ps" and "proc_first k' = proc_first k" "mem k' = mem k" "avail_pid k' = avail_pid k"
    and "\<And>p. map_option core (pcbs k' p) = map_option core (pcbs k p)"
  shows "kinv base extra k' ps"
proof -
  have kt: "ktab base extra k ps" using assms(1) by (simp add: kinv_def)
  from ktab_core [OF kt assms(2-5)] assms(1) show ?thesis by (simp add: kinv_def)
qed

lemma unaccounted_core:
  assumes "unaccounted b = unaccounted c"
  shows "core b = core c"
  by (simp only: core_def unaccounted_fields [OF assms])

lemma kinv_accounts:
  assumes "kinv base extra k ps" and "same_but_accounts k k'"
  shows "kinv base extra k' ps"
proof (rule kinv_core [OF assms(1)])
  show "map_option core (pcbs k' p) = map_option core (pcbs k p)" for p
    by (rule same_but_accounts_field [OF assms(2)]) (rule unaccounted_core)
qed (use assms(2) in \<open>auto simp: same_but_accounts_def\<close>)

section \<open>Reaping a child\<close>

lemma kinv_tl_pcb:
  assumes "kinv base extra k ps" and "c \<in> set (tl ps)"
  shows "\<exists>b. pcbs k c = Some b" and "c \<in> set ps" and "c \<noteq> NULL"
proof -
  show "c \<in> set ps" using assms(2) by (cases ps) auto
  then show "\<exists>b. pcbs k c = Some b" using kinv_parts(2) [OF assms(1)] by blast
  show "c \<noteq> NULL" using \<open>c \<in> set ps\<close> kinv_parts(1) [OF assms(1)] by (auto simp: proc_list_def)
qed

lemma reap_spec:
  assumes "kinv base extra k ps" and "c \<in> set (tl ps)" and "pcbs k c = Some b"
  shows "\<exists>k'. reap w c k = Some (if w then Some (exit_value b) else None, k') \<and>
    kinv base extra k' (remove1 c ps) \<and>
    used (mem k') = used (mem k) - (\<Union>(q, n)\<in>set (resources k c). block q n) \<and>
    current_process k' = current_process k"
  using process_destroy_spec [OF assms(1,2)] assms(3) by (auto simp: reap_def)

lemma process_lookup_pid_of:
  assumes "kinv base extra k ps" and "c \<in> set ps"
  shows "process_lookup k (pid_of k c) = Some c"
proof -
  have pl: "proc_list k ps" and inj: "inj_on (pid_of k) (set ps)"
    using assms(1) by (auto simp: kinv_defs distinct_map)
  have "find (\<lambda>p. pid_of k p = pid_of k c) ps \<noteq> None"
    using assms(2) by (auto simp: find_None_iff)
  then obtain p where p: "find (\<lambda>p. pid_of k p = pid_of k c) ps = Some p" by blast
  then have "p \<in> set ps" "pid_of k p = pid_of k c" by (auto simp: find_Some_iff)
  then have "p = c" using inj assms(2) by (auto dest: inj_onD)
  with p show ?thesis
    using lookup_from_chain [OF proc_list_chain [OF pl], of "pid_of k c"]
    by (simp add: process_lookup_def ptr_or_null_def)
qed

text \<open>
  C16: \<^verbatim>\<open>waitpid\<close> for the number of a child that has exited returns at once, with or without
  \<^verbatim>\<open>WNOHANG\<close>: it returns the number, stores the exit value, takes the child off the table and gives
  all its memory back.
\<close>

theorem waitpid_reaps:
  assumes "kinv base extra k ps" and "c \<in> set (tl ps)" and "pcbs k c = Some b"
    and "p_status b = PROCESS_STATUS_EXITED"
  shows "\<exists>k'. waitpid (p_pid b) True options caller k = Some (Returned (p_pid b), Some (exit_value b), k') \<and>
    kinv base extra k' (remove1 c ps) \<and> pcbs k' c = None \<and>
    used (mem k') = used (mem k) - (\<Union>(q, n)\<in>set (resources k c). block q n)"
proof -
  note t = kinv_tl_pcb [OF assms(1,2)]
  have pid: "p_pid b = pid_of k c" using assms(3) by (simp add: pid_of_def)
  have nn: "0 \<le> sint (p_pid b)" using assms(1) t(2) pid by (auto simp: kinv_defs)
  then have "p_pid b \<noteq> -1" by auto
  obtain k' where k': "reap True c k = Some (Some (exit_value b), k')" "kinv base extra k' (remove1 c ps)"
    "used (mem k') = used (mem k) - (\<Union>(q, n)\<in>set (resources k c). block q n)"
    using reap_spec [OF assms(1,2,3), of True] by auto
  have "waitpid_loop c k = Some (True, k)" using assms(3,4) by (simp add: waitpid_loop.simps)
  then have "waitpid_found (p_pid b) True options c k = Some (Returned (p_pid b), Some (exit_value b), k')"
    using assms(3,4) k'(1) by (simp add: waitpid_found_def waitpid_wait_def)
  moreover have "c \<notin> dom (pcbs k')"
    using kinv_parts(2) [OF k'(2)] kinv_parts(3) [OF assms(1)] by simp
  ultimately show ?thesis
    using k'(2,3) nn \<open>p_pid b \<noteq> -1\<close> process_lookup_pid_of [OF assms(1) t(2)] pid
    by (simp add: waitpid_def domIff)
qed

text \<open>An idle task and a child that has exited with value 7.\<close>

lemma exited_child:
  "\<exists>k p c b. kinv {0..4} [] k [p, c] \<and> pcbs k c = Some b \<and> p_status b = PROCESS_STATUS_EXITED \<and>
    exit_value b = 7 \<and> p_pid b = 1 \<and> process_lookup_child k p = Some c"
proof -
  obtain k p c where k: "kinv {0..4} [] k [p, c]" "pid_of k c = 1" using small_kernel by blast
  obtain b where b: "pcbs k c = Some b" using kinv_tl_pcb(1) [OF k(1), of c] by auto
  let ?b = "b\<lparr>p_status := PROCESS_STATUS_EXITED, exit_value := 7, p_parent := p\<rparr>"
  let ?k = "k\<lparr>pcbs := (pcbs k)(c \<mapsto> ?b)\<rparr>"
  have i: "kinv {0..4} [] ?k [p, c]"
    using b by (intro kinv_core [OF k(1)]) (auto simp: core_def)
  moreover have "p_pid ?b = 1" using k(2) b by (simp add: pid_of_def)
  moreover have "p \<noteq> c" "c \<noteq> NULL" using kinv_parts(1) [OF i] by (auto simp: proc_list_def)
  then have "process_lookup_child ?k p = Some c"
    using lookup_child_from_chain [OF proc_list_chain [OF kinv_parts(1) [OF i]], of p]
    by (simp add: process_lookup_child_def ptr_or_null_def parent_of_def)
  ultimately show ?thesis
    by (intro exI [of _ ?k] exI [of _ p] exI [of _ c] exI [of _ ?b]) simp
qed

theorem waitpid_reaps_witness:
  "\<exists>k caller k'. waitpid 1 True 0 caller k = Some (Returned 1, Some 7, k')"
proof -
  obtain k p c b where k: "kinv {0..4} [] k [p, c]" "pcbs k c = Some b"
    "p_status b = PROCESS_STATUS_EXITED" "exit_value b = 7" "p_pid b = 1" using exited_child by blast
  show ?thesis using waitpid_reaps [OF k(1) _ k(2,3), of 0 p] k(4,5) by auto
qed

text \<open>
  \<^verbatim>\<open>waitpid\<close> on a number that no process has does not fail with an error: the lookup returns the
  null pointer and the code reads the status through it.
\<close>

lemma waitpid_unknown_pid:
  assumes "kinv base extra k ps" and "0 \<le> sint pid" and "\<forall>p\<in>set ps. pid_of k p \<noteq> pid"
  shows "waitpid pid has_wstatus options caller k = None"
proof -
  have pl: "proc_list k ps" using kinv_parts(1) [OF assms(1)] .
  have "find (\<lambda>p. pid_of k p = pid) ps = None" using assms(3) by (simp add: find_None_iff)
  then have l: "process_lookup k pid = Some NULL"
    using lookup_from_chain [OF proc_list_chain [OF pl], of pid]
    by (simp add: process_lookup_def ptr_or_null_def)
  have "NULL \<notin> dom (pcbs k)" using kinv_parts(2) [OF assms(1)] pl by (auto simp: proc_list_def)
  then have "pcbs k NULL = None" by blast
  with l assms(2) show ?thesis
    by (auto simp: waitpid_def waitpid_found_def waitpid_wait_def waitpid_loop.simps)
qed

text \<open>
  A blocking \<^verbatim>\<open>waitpid(-1)\<close> that finds an exited child reaps it but returns -1, the argument,
  instead of the number of the child.
\<close>

lemma waitpid_any_returns_argument:
  assumes "kinv base extra k ps" and "process_lookup_child k caller = Some c" and "c \<in> set (tl ps)"
    and "pcbs k c = Some b" and "p_status b = PROCESS_STATUS_EXITED" and "options \<noteq> WNOHANG"
  shows "\<exists>k'. waitpid (-1) True options caller k = Some (Returned (-1), Some (exit_value b), k') \<and>
    kinv base extra k' (remove1 c ps)"
proof -
  have c0: "c \<noteq> NULL" using kinv_tl_pcb(3) [OF assms(1,3)] .
  obtain k' where k': "reap True c k = Some (Some (exit_value b), k')" "kinv base extra k' (remove1 c ps)"
    using reap_spec [OF assms(1,3,4), of True] by auto
  have "waitpid_loop c k = Some (True, k)" using assms(4,5) by (simp add: waitpid_loop.simps)
  with k' assms(2,6) c0 show ?thesis by (simp add: waitpid_def waitpid_found_def waitpid_wait_def)
qed


theorem waitpid_any_returns_argument_witness:
  "\<exists>k caller k'. waitpid (-1) True 0 caller k = Some (Returned (-1), Some 7, k')"
proof -
  obtain k p c b where k: "kinv {0..4} [] k [p, c]" "pcbs k c = Some b"
    "p_status b = PROCESS_STATUS_EXITED" "exit_value b = 7" "process_lookup_child k p = Some c"
    using exited_child by blast
  show ?thesis using waitpid_any_returns_argument [OF k(1,5) _ k(2,3), of 0] k(4)
    by (auto simp: WNOHANG_def)
qed

section \<open>Exit\<close>

lemma waiting_upd:
  assumes "waiting k W" and "pcbs k p = Some b" and "\<forall>q. p \<notin> set (W q)"
    and "wait_queue_next c = wait_queue_next b"
  shows "waiting (k\<lparr>pcbs := (pcbs k)(p \<mapsto> c)\<rparr>) W"
proof -
  let ?k = "k\<lparr>pcbs := (pcbs k)(p \<mapsto> c)\<rparr>"
  have ch: "wchain ?k a (W q) = wchain k a (W q)" for a q
    using assms(3) by (intro wchain_cong) auto
  have "sleeping ?k x" if "x \<in> set (W q)" for x q
    using waiting_sleeps [OF assms(1) that] that assms(3) by (auto simp: sleeping_def status_of_def)
  moreover have "wait_queue_next e = NULL" if "pcbs ?k x = Some e" "\<forall>q. x \<notin> set (W q)" for x e
  proof (cases "x = p")
    case True
    with that(1) have "e = c" by simp
    with waiting_next_null [OF assms(1,2,3)] assms(4) show ?thesis by simp
  next
    case False
    with that waiting_next_null [OF assms(1), of x e] show ?thesis by simp
  qed
  ultimately show ?thesis using assms(1) ch unfolding waiting_def by simp
qed

text \<open>
  C17: \<^verbatim>\<open>exit\<close> records the exit value, marks the process as exited, makes every process that waits in
  \<^verbatim>\<open>waitpid\<close> ready again and switches to another process; the exiting process stays in the table,
  with its memory, until somebody reaps it.
\<close>

theorem exit_wakes_waiters:
  assumes "kinv base extra k (proc_first k # qs)" and "s < length qs" and "current_process k = qs ! s"
    and "waiting k W" and "\<forall>q. current_process k \<notin> set (W q)"
  shows "\<exists>k' b. exit v k = Some k' \<and> pcbs k' (current_process k) = Some b \<and>
    p_status b = PROCESS_STATUS_EXITED \<and> exit_value b = v \<and>
    (\<forall>x\<in>set (W Waitpid_queue). status_of k' x = PROCESS_STATUS_READY) \<and>
    waiting k' (W(Waitpid_queue := [])) \<and> current_process k' \<noteq> current_process k \<and>
    kinv base extra k' (proc_first k # qs)"
proof -
  let ?p = "current_process k"
  note kp = kinv_parts [OF assms(1)]
  have "?p \<in> set (proc_first k # qs)" using assms(2,3) by simp
  then obtain b where b: "pcbs k ?p = Some b" using kp(2) by blast
  let ?b = "b\<lparr>p_status := PROCESS_STATUS_EXITED, exit_value := v\<rparr>"
  let ?k1 = "k\<lparr>pcbs := (pcbs k)(?p \<mapsto> ?b)\<rparr>"
  have w1: "waiting ?k1 W" by (rule waiting_upd [OF assms(4) b assms(5)]) simp
  define k2 where "k2 = ?k1\<lparr>pcbs := (\<lambda>x. if x \<in> set (W Waitpid_queue) then map_option woken (pcbs ?k1 x)
      else pcbs ?k1 x), wait_first := (wait_first ?k1)(Waitpid_queue := NULL)\<rparr>"
  have k2: "waitpid_done ?k1 = Some k2"
    unfolding waitpid_done_def k2_def by (rule wait_queue_wake_run [OF w1])
  then have w2: "waiting k2 (W(Waitpid_queue := []))"
    and r2: "\<forall>x\<in>set (W Waitpid_queue). status_of k2 x = PROCESS_STATUS_READY"
    using wait_queue_wake_spec [OF w1, of Waitpid_queue] by (auto simp: waitpid_done_def)
  have same: "proc_first k2 = proc_first k" "current_process k2 = ?p" "mem k2 = mem k"
    "avail_pid k2 = avail_pid k" by (simp_all add: k2_def)
  have cr: "map_option core (pcbs k2 x) = map_option core (pcbs k x)" for x
    using b by (cases "pcbs k x") (auto simp: k2_def core_def woken_def)
  have kv2: "kinv base extra k2 (proc_first k # qs)" using kinv_core [OF assms(1) same(1,3,4) cr] .
  have p2: "pcbs k2 ?p = Some ?b" using assms(5) by (simp add: k2_def)
  have rg: "ring_at k2 qs s" using kinv_parts(1) [OF kv2] same assms(2,3) by (simp add: ring_at_def)
  obtain k' where k': "schedule k2 = Some k'" "current_process k' = pick_next k2 (proc_first k) qs s"
    "same_but_accounts k2 k'" using schedule_spec [OF rg] same(1) by auto
  have u: "map_option unaccounted (pcbs k' ?p) = Some (unaccounted ?b)"
    using k'(3) p2 by (simp add: same_but_accounts_def)
  obtain c where c1: "pcbs k' ?p = Some c" using u by (cases "pcbs k' ?p") simp_all
  note c = c1 u [unfolded c1 option.map option.inject]
  have np: "?p \<noteq> proc_first k" using assms(2,3) proc_list_nth(2) [OF kp(1), of "Suc s" 0] by simp
  have "\<not> is_ready k2 ?p" using p2 by (simp add: is_ready_def status_of_def status_defs)
  then have "current_process k' \<noteq> ?p"
    using pick_next_in [of k2 "proc_first k" qs s] np k'(2) by auto
  moreover have "\<forall>x\<in>set (W Waitpid_queue). status_of k' x = PROCESS_STATUS_READY"
    using r2 same_but_accounts_list(2) [OF k'(3)] by simp
  moreover have "p_status c = PROCESS_STATUS_EXITED" "exit_value c = v"
    using unaccounted_fields(3,6) [OF c(2)] by simp_all
  moreover have "exit v k = Some k'" using b k2 k'(1) by (simp add: exit_def pcb_upd_def)
  ultimately show ?thesis
    using c(1) waiting_accounts [OF k'(3) w2] kinv_accounts [OF kv2 k'(3)] by blast
qed

lemma small_running:
  "\<exists>k p c. kinv {0..4} [] k [p, c] \<and> proc_first k = p \<and> current_process k = c \<and> max_chunk (mem k) = 16 \<and>
    avail_pid k = 2 \<and> waiting k (\<lambda>q. []) \<and> length (cpu_r k) = 15"
proof -
  obtain k p c where k: "kinv {0..4} [] k [p, c]" "max_chunk (mem k) = 16" "avail_pid k = 2"
    using small_kernel by blast
  let ?k = "k\<lparr>current_process := c, wait_first := (\<lambda>q. NULL), cpu_r := replicate 15 0,
    pcbs := (\<lambda>x. map_option (\<lambda>b. b\<lparr>wait_queue_next := NULL\<rparr>) (pcbs k x))\<rparr>"
  have "kinv {0..4} [] ?k [p, c]"
    by (rule kinv_core [OF k(1)]) (auto simp: core_def [abs_def] option.map_comp comp_def cong: if_cong)
  moreover have "waiting ?k (\<lambda>q. [])" by (auto simp: waiting_def)
  moreover have "proc_first ?k = p" using kinv_parts(1) [OF k(1)] by (simp add: proc_list_def nth_ptr_def)
  ultimately show ?thesis using k(2,3) by (intro exI [of _ ?k] exI [of _ p] exI [of _ c]) simp
qed

theorem exit_wakes_waiters_witness:
  "\<exists>k k' b. exit 3 k = Some k' \<and> pcbs k' (current_process k) = Some b \<and> exit_value b = 3"
proof -
  obtain k p c where k: "kinv {0..4} [] k [p, c]" "proc_first k = p" "current_process k = c"
    "waiting k (\<lambda>q. [])" using small_running by blast
  have "kinv {0..4} [] k (proc_first k # [c])" using k(1,2) by simp
  from exit_wakes_waiters [OF this, of 0 "\<lambda>q. []" 3] k(3,4) show ?thesis by auto
qed


section \<open>vfork\<close>

text \<open>The states between the creation of the child and the call of \<^verbatim>\<open>schedule\<close>.\<close>

definition vfork_child :: "ptr \<Rightarrow> pcb \<Rightarrow> pcb \<Rightarrow> u32 list \<Rightarrow> u32 \<Rightarrow> pcb" where
  "vfork_child parent c pb regs spsr =
     pb\<lparr>p_pid := p_pid c, p_prev := p_prev c, p_next := p_next c, p_parent := parent, p_stack := NULL,
        p_text := NULL, p_status := PROCESS_STATUS_READY,
        kernel_state := \<lparr>k_r = regs, k_spsr = spsr\<rparr>\<rparr>"

lemma vfork_run:
  assumes "process_create k = Some (c, k1)" and "c \<noteq> NULL" and "c \<noteq> current_process k"
    and "pcbs k1 c = Some cb" and "pcbs k1 (current_process k) = Some pb"
    and "length (cpu_r k1) = 15" and "current_process k1 = current_process k"
  shows "\<exists>r. vfork k = vfork_tail (current_process k) (p_pid cb)
    (k1\<lparr>pcbs := (pcbs k1)(current_process k \<mapsto> pb\<lparr>p_status := PROCESS_STATUS_SLEEPING\<rparr>,
       c \<mapsto> vfork_child (current_process k) cb pb
         ((cpu_r k1)[2 := c + 68, 13 := c + (cpu_r k1 ! 13 - current_process k)]) (cpu_spsr k1)),
       cpu_r := r\<rparr>)"
proof -
  have "k1\<lparr>pcbs := (pcbs k1)(c \<mapsto> x, current_process k \<mapsto> y, c \<mapsto> z, c \<mapsto> u), cpu_r := w\<rparr> =
      k1\<lparr>pcbs := (pcbs k1)(current_process k \<mapsto> y, c \<mapsto> u), cpu_r := w\<rparr>" for x y z u w
    using assms(3) by (simp add: fun_upd_twist fun_upd_upd)
  then show ?thesis
    using assms
    by (intro exI)
      (simp add: vfork_def Let_def pcb_upd_def process_save_def vfork_child_def arr_get_def fun_upd_twist)
qed


text \<open>The state in which the parent calls \<^verbatim>\<open>schedule\<close>, when the child could be created.\<close>

lemma vfork_prepare:
  assumes "kinv base extra k1 (f # qs @ [c])" and "process_create k = Some (c, k1)" and "c \<noteq> NULL"
    and "k1 = k\<lparr>mem := mem k1, pcbs := pcbs k1, avail_pid := avail_pid k1, proc_first := proc_first k1\<rparr>"
    and "resources k1 c = [(c, PCB_SIZE)]" and "s < length qs" and "current_process k = qs ! s"
    and "c \<notin> set (f # qs)" and "map_option unlinked (pcbs k1 (current_process k)) = Some (unlinked pb)"
    and "length (cpu_r k) = 15"
  shows "\<exists>k5 ch. vfork k = vfork_tail (current_process k) (pid_of k1 c) k5 \<and>
    kinv base extra k5 (f # qs @ [c]) \<and> ring_at k5 (qs @ [c]) s \<and> proc_first k5 = f \<and>
    current_process k5 = current_process k \<and> sleeping k5 (current_process k) \<and> pcbs k5 c = Some ch \<and>
    p_parent ch = current_process k \<and> p_pid ch = pid_of k1 c \<and> p_status ch = PROCESS_STATUS_READY \<and>
    user_state ch = user_state pb \<and> p_stack ch = NULL \<and> p_text ch = NULL \<and>
    k_r (kernel_state ch) ! 13 - c = cpu_r k ! 13 - current_process k"
proof -
  let ?p = "current_process k"
  have cpu: "cpu_r k1 = cpu_r k" "current_process k1 = ?p" by (subst assms(4), simp)+
  have cp: "c \<noteq> ?p" using assms(6,7,8) by auto
  obtain cb where cb: "pcbs k1 c = Some cb" using kinv_parts(2) [OF assms(1)] by (auto simp: dom_def)
  have cs: "p_stack cb = NULL" "p_text cb = NULL"
    using assms(5) cb by (auto simp: resources_def split: if_splits)
  obtain pb1 where pb1: "pcbs k1 ?p = Some pb1" using assms(9) by (cases "pcbs k1 ?p") simp_all
  have us: "user_state pb1 = user_state pb"
    by (rule unlinked_fields(9) [OF assms(9) [unfolded pb1 option.map option.inject]])
  define ch where "ch = vfork_child ?p cb pb1
    ((cpu_r k1)[2 := c + 68, 13 := c + (cpu_r k1 ! 13 - ?p)]) (cpu_spsr k1)"
  obtain r where vr: "vfork k = vfork_tail ?p (p_pid cb)
    (k1\<lparr>pcbs := (pcbs k1)(?p \<mapsto> pb1\<lparr>p_status := PROCESS_STATUS_SLEEPING\<rparr>, c \<mapsto> ch), cpu_r := r\<rparr>)"
    using vfork_run [OF assms(2,3) cp cb pb1 _ cpu(2)] assms(10) cpu(1) unfolding ch_def by auto
  define k5 where "k5 = k1\<lparr>pcbs := (pcbs k1)(?p \<mapsto> pb1\<lparr>p_status := PROCESS_STATUS_SLEEPING\<rparr>, c \<mapsto> ch),
    cpu_r := r\<rparr>"
  have k5: "proc_first k5 = proc_first k1" "mem k5 = mem k1" "avail_pid k5 = avail_pid k1"
    "current_process k5 = ?p" "pcbs k5 c = Some ch" "sleeping k5 ?p"
    using cpu(2) cp by (simp_all add: k5_def sleeping_def status_of_def)
  have "map_option core (pcbs k5 x) = map_option core (pcbs k1 x)" for x
    using cb cs pb1 by (auto simp: k5_def core_def ch_def vfork_child_def)
  from kinv_core [OF assms(1) k5(1,2,3) this] have kv5: "kinv base extra k5 (f # qs @ [c])" .
  have f5: "proc_first k5 = f" using kinv_parts(1) [OF kv5] by (simp add: proc_list_def nth_ptr_def)
  have "ring_at k5 (qs @ [c]) s"
    using kinv_parts(1) [OF kv5] assms(6,7) k5(4) f5 by (simp add: ring_at_def nth_append)
  moreover have "k_r (kernel_state ch) ! 13 - c = cpu_r k ! 13 - ?p"
    using assms(10) cpu(1) by (simp add: ch_def vfork_child_def)
  moreover have "p_pid cb = pid_of k1 c" using cb by (simp add: pid_of_def)
  ultimately show ?thesis
    using vr kv5 f5 k5 us unfolding k5_def [symmetric]
    by (intro exI [of _ k5] exI [of _ ch]) (simp add: ch_def vfork_child_def)
qed

text \<open>
  C19: \<^verbatim>\<open>vfork\<close> creates a child that is a copy of its parent with its own number, no stack and no
  program of its own, ready to run; it puts the parent to sleep and switches away from it, and it
  returns the child's number to the parent. The table's invariant holds again, so destroying the
  child never releases memory of the parent. If the child runs next, it runs on its own kernel
  stack: its stack pointer has the offset in the child's control block that the parent's has in
  the parent's. Without memory for a control block it returns -1 and changes nothing.
\<close>

theorem vfork_correct:
  assumes "kinv base extra k (proc_first k # qs)" and "s < length qs" and "current_process k = qs ! s"
    and "pcbs k (current_process k) = Some pb" and "length (cpu_r k) = 15"
    and "max_chunk (mem k) + 2 \<le> 32 * MAP_WORDS"
    and "0 \<le> sint (avail_pid k)" and "sint (avail_pid k) < 2147483647"
  shows "\<exists>r k'. vfork k = Some (r, k') \<and>
    (if r = -1 then k' = k \<and> (\<forall>i < max_chunk (mem k). \<not> free_run (mem k) 2 i)
     else r = avail_pid k \<and> current_process k' \<noteq> current_process k \<and> sleeping k' (current_process k) \<and>
       (\<exists>c cb. kinv base extra k' (proc_first k # qs @ [c]) \<and> c \<notin> set (proc_first k # qs) \<and>
          pcbs k' c = Some cb \<and> p_parent cb = current_process k \<and> p_pid cb = avail_pid k \<and>
          p_status cb = PROCESS_STATUS_READY \<and> user_state cb = user_state pb \<and>
          p_stack cb = NULL \<and> p_text cb = NULL \<and>
          (current_process k' = c \<longrightarrow> cpu_r k' ! 13 - c = cpu_r k ! 13 - current_process k)))"
proof -
  let ?p = "current_process k" and ?f = "proc_first k"
  obtain c k1 where cr: "process_create k = Some (c, k1)" and spec:
    "if c = NULL then k1 = k \<and> (\<forall>i < max_chunk (mem k). \<not> free_run (mem k) 2 i)
     else c \<notin> set (?f # qs) \<and> kinv base extra k1 ((?f # qs) @ [c]) \<and> pid_of k1 c = avail_pid k \<and>
       avail_pid k1 = avail_pid k + 1 \<and> status_of k1 c = PROCESS_STATUS_SLEEPING \<and>
       resources k1 c = [(c, PCB_SIZE)] \<and>
       k1 = k\<lparr>mem := mem k1, pcbs := pcbs k1, avail_pid := avail_pid k1, proc_first := proc_first k1\<rparr> \<and>
       used (mem k1) = used (mem k) \<union> block c PCB_SIZE \<and> max_chunk (mem k1) = max_chunk (mem k) \<and>
       (\<forall>q\<in>set (?f # qs). map_option unlinked (pcbs k1 q) = map_option unlinked (pcbs k q))"
    using process_create_spec [OF assms(1,6,7,8)] by blast
  show ?thesis
  proof (cases "c = NULL")
    case True
    with cr spec show ?thesis by (intro exI [of _ "-1"] exI [of _ k]) (simp add: vfork_def Let_def)
  next
    case False
    have kv1: "kinv base extra k1 (?f # qs @ [c])" and cn: "c \<notin> set (?f # qs)"
      and pid: "pid_of k1 c = avail_pid k" and rs: "resources k1 c = [(c, PCB_SIZE)]"
      and fr: "k1 = k\<lparr>mem := mem k1, pcbs := pcbs k1, avail_pid := avail_pid k1, proc_first := proc_first k1\<rparr>"
      using spec unfolding if_not_P [OF False] append_Cons by blast+
    have "\<forall>q\<in>set (?f # qs). map_option unlinked (pcbs k1 q) = map_option unlinked (pcbs k q)"
      using spec unfolding if_not_P [OF False] by blast
    moreover have "?p \<in> set (?f # qs)" using assms(2,3) by simp
    ultimately have un: "map_option unlinked (pcbs k1 ?p) = Some (unlinked pb)" using assms(4) by auto
    obtain k5 ch where vt: "vfork k = vfork_tail ?p (pid_of k1 c) k5"
      and kv5: "kinv base extra k5 (?f # qs @ [c])" and rg: "ring_at k5 (qs @ [c]) s"
      and f5: "proc_first k5 = ?f" "current_process k5 = ?p" "sleeping k5 ?p" "pcbs k5 c = Some ch"
      and ch: "p_parent ch = ?p" "p_pid ch = pid_of k1 c" "p_status ch = PROCESS_STATUS_READY"
        "user_state ch = user_state pb" "p_stack ch = NULL" "p_text ch = NULL"
        "k_r (kernel_state ch) ! 13 - c = cpu_r k ! 13 - ?p"
      using vfork_prepare [OF kv1 cr False fr rs assms(2,3) cn un assms(5)] by blast
    obtain k' where k': "schedule k5 = Some k'" "current_process k' = pick_next k5 ?f (qs @ [c]) s"
      "same_but_accounts k5 k'" using schedule_spec [OF rg] f5(1) by auto
    have pf: "?p \<noteq> ?f"
      using assms(2,3) proc_list_nth(2) [OF kinv_parts(1) [OF assms(1)], of "Suc s" 0] by simp
    have "\<not> is_ready k5 ?p" using f5(3) by (simp add: is_ready_def sleeping_def status_defs)
    then have cur: "current_process k' \<noteq> ?p"
      using pick_next_in [of k5 ?f "qs @ [c]" s] pf k'(2) by auto
    have u: "map_option unaccounted (pcbs k' c) = Some (unaccounted ch)"
      using k'(3) f5(4) by (simp add: same_but_accounts_def)
    obtain cb where cb: "pcbs k' c = Some cb" using u by (cases "pcbs k' c") simp_all
    note uf = unaccounted_fields [OF u [unfolded cb option.map option.inject]]
    have rgs: "cpu_r k' ! 13 - c = cpu_r k ! 13 - ?p" if "current_process k' = c"
      using sched_switch_regs(1) [of c k5 k' ch] schedule_ring [OF rg] k'(1,2) f5 that cur ch(7) by simp
    have sl: "sleeping k' ?p" using f5(3) same_but_accounts_list(2) [OF k'(3)] by (simp add: sleeping_def)
    have "avail_pid k \<noteq> -1" using assms(7) by auto
    then have if_pid: "(if avail_pid k = -1 then x else y) = y" for x y :: bool by simp
    have "vfork k = Some (avail_pid k, k')" using vt k'(1) f5(2) pid by (simp add: vfork_tail_def)
    moreover have "kinv base extra k' (?f # qs @ [c])" using kinv_accounts [OF kv5 k'(3)] .
    moreover have "p_parent cb = ?p \<and> p_pid cb = avail_pid k \<and> p_status cb = PROCESS_STATUS_READY \<and>
        user_state cb = user_state pb \<and> p_stack cb = NULL \<and> p_text cb = NULL"
      unfolding uf ch pid by simp
    ultimately show ?thesis
      by (intro exI [of _ "avail_pid k"] exI [of _ k'], unfold if_pid) (use cur sl cn cb rgs in blast)
  qed
qed

theorem vfork_correct_witness:
  "\<exists>k r k'. avail_pid k = 2 \<and> vfork k = Some (r, k') \<and> (r = -1 \<or> r = 2)"
proof -
  obtain k p c where k: "kinv {0..4} [] k [p, c]" "proc_first k = p" "current_process k = c"
    "max_chunk (mem k) = 16" "avail_pid k = 2" "length (cpu_r k) = 15" using small_running by blast
  obtain b where b: "pcbs k c = Some b" using kinv_tl_pcb(1) [OF k(1), of c] by auto
  have "kinv {0..4} [] k (proc_first k # [c])" using k(1,2) by simp
  from vfork_correct [OF this, of 0 b] b k obtain r k' where "vfork k = Some (r, k')" "r = -1 \<or> r = 2"
    by (auto split: if_splits)
  with k(5) show ?thesis by blast
qed

end
