(* ===== verification/Console.thy ===== *)
theory Console
  imports Lifecycle
begin

text \<open>
  The console, \<^verbatim>\<open>kernel/drivers/console/console_io.c\<close>, and the generic serial driver
  \<^verbatim>\<open>kernel/drivers/serial/serial.c\<close> below it.

  Characters arrive one by one in interrupts and wait in a ring of 256 bytes until a process reads
  them; a process that reads from an empty ring sleeps in the queue of the console. The driver of
  the serial chip is the function pointer \<^verbatim>\<open>uart_putc\<close> of \<^verbatim>\<open>struct serial_type\<close>: a parameter
  \<open>putc\<close> on the state \<open>'d\<close> of the device.
\<close>

section \<open>kernel/drivers/console/console_io.c\<close>

definition INPUT_BUFFER_SIZE :: u32 where "INPUT_BUFFER_SIZE = 256"

text \<open>\<^verbatim>\<open>scheduling_enabled\<close> is a variable of \<^verbatim>\<open>scheduler.c\<close> that only the console changes.\<close>

record console =
  input_buffer :: buf
  input_buffer_head :: u32
  input_buffer_tail :: u32
  scheduling_enabled :: i32

text \<open>The part of \<^verbatim>\<open>console_insert_char\<close> that stores the character; False when the ring is full.\<close>

definition buffer_insert :: "i32 \<Rightarrow> console \<Rightarrow> (bool \<times> console) option" where
  "buffer_insert ch c =
     (let new_head = (if input_buffer_head c + 1 \<ge> INPUT_BUFFER_SIZE then 0 else input_buffer_head c + 1) in
      if new_head = input_buffer_tail c then Some (False, c)
      else do { b \<leftarrow> arr_set (input_buffer c) (unat (input_buffer_head c)) (ucast ch);
                Some (True, c\<lparr>input_buffer := b, input_buffer_head := new_head\<rparr>) })"

text \<open>\<^verbatim>\<open>dump_saved_user_state\<close> only prints, but reads the control block of the running process.\<close>

definition console_insert_char :: "i32 \<Rightarrow> console \<Rightarrow> kernel \<Rightarrow> (i32 \<times> console \<times> kernel) option" where
  "console_insert_char ch c k =
     do { (stored, c1) \<leftarrow> buffer_insert ch c;
          if \<not> stored then Some (-1, c1, k)
          else
            do { dump \<leftarrow> (if ch = 2 then map_option (\<lambda>b. ()) (pcbs k (current_process k)) else Some ());
                 let c2 = (if ch = 26 then c1\<lparr>scheduling_enabled := (if scheduling_enabled c1 = 0 then 1 else 0)\<rparr>
                           else c1);
                 k1 \<leftarrow> wait_queue_wake Console_queue k;
                 Some (0, c2, k1) } }"

definition console_get_char :: "console \<Rightarrow> (u32 \<times> console) option" where
  "console_get_char c =
     (if input_buffer_head c = input_buffer_tail c then Some (0, c)
      else do { result \<leftarrow> arr_get (input_buffer c) (unat (input_buffer_tail c));
                let t = input_buffer_tail c + 1;
                Some (ucast result, c\<lparr>input_buffer_tail := (if t \<ge> INPUT_BUFFER_SIZE then 0 else t)\<rparr>) })"

text \<open>
  The loop that waits for input: True when there is input, False when the caller has been switched
  out; it then goes on here when it runs again.
\<close>

partial_function (option) console_wait :: "console \<Rightarrow> kernel \<Rightarrow> (bool \<times> kernel) option" where
  [code]: "console_wait c k =
     (if input_buffer_head c = input_buffer_tail c then
        do { k1 \<leftarrow> wait_queue_add Console_queue (current_process k) k;
             if current_process k1 = current_process k then console_wait c k1 else Some (False, k1) }
      else Some (True, k))"

fun read_chars :: "buf \<Rightarrow> nat \<Rightarrow> nat \<Rightarrow> console \<Rightarrow> (buf \<times> console) option" where
  "read_chars buffer i 0 c = Some (buffer, c)"
| "read_chars buffer i (Suc n) c =
     do { (ch, c1) \<leftarrow> console_get_char c;
          b \<leftarrow> arr_set buffer i (ucast ch);
          read_chars b (Suc i) n c1 }"

definition console_read :: "buf \<Rightarrow> u32 \<Rightarrow> console \<Rightarrow> kernel \<Rightarrow> (outcome \<times> buf \<times> console \<times> kernel) option" where
  "console_read b cnt c k =
     do { (available, k1) \<leftarrow> console_wait c k;
          if available then
            do { (b1, c1) \<leftarrow> read_chars b 0 (unat cnt) c; Some (Returned cnt, b1, c1, k1) }
          else Some (Blocked, b, c, k1) }"

section \<open>kernel/drivers/serial/serial.c\<close>

fun serial_write_loop :: "(u8 \<Rightarrow> 'd \<Rightarrow> 'd) \<Rightarrow> buf \<Rightarrow> nat \<Rightarrow> nat \<Rightarrow> 'd \<Rightarrow> 'd option" where
  "serial_write_loop putc buffer i 0 d = Some d"
| "serial_write_loop putc buffer i (Suc n) d =
     do { ch \<leftarrow> arr_get buffer i;
          serial_write_loop putc buffer (Suc i) n (putc ch (if ch = 10 then putc 13 d else d)) }"

text \<open>\<open>ready\<close> is the field \<^verbatim>\<open>initialized\<close> of the driver.\<close>

definition serial_write :: "(u8 \<Rightarrow> 'd \<Rightarrow> 'd) \<Rightarrow> bool \<Rightarrow> buf \<Rightarrow> u32 \<Rightarrow> 'd \<Rightarrow> (u32 \<times> 'd) option" where
  "serial_write putc ready buffer sz d =
     (if \<not> ready then Some (0, d)
      else do { d1 \<leftarrow> serial_write_loop putc buffer 0 (unat sz) d; Some (sz, d1) })"

definition console_write :: "(u8 \<Rightarrow> 'd \<Rightarrow> 'd) \<Rightarrow> bool \<Rightarrow> buf \<Rightarrow> u32 \<Rightarrow> 'd \<Rightarrow> (i32 \<times> 'd) option" where
  "console_write putc ready b cnt d = serial_write putc ready b cnt d"

text \<open>Bytes with a carriage return in front of every line feed.\<close>

fun crlf :: "buf \<Rightarrow> buf" where
  "crlf [] = []"
| "crlf (b # bs) = (if b = 10 then 13 # b # crlf bs else b # crlf bs)"

lemma serial_write_loop_spec:
  "i + n \<le> length b \<Longrightarrow> serial_write_loop putc b i n d = Some (fold putc (crlf (take n (drop i b))) d)"
proof (induction n arbitrary: i d)
  case (Suc n)
  then have "drop i b = b ! i # drop (Suc i) b" by (simp add: Cons_nth_drop_Suc)
  with Suc show ?case by simp
qed simp

section \<open>The ring refines a bounded queue\<close>

definition ring_len :: "nat \<Rightarrow> nat \<Rightarrow> nat" where
  "ring_len h t = (h + 256 - t) mod 256"

definition ring_wf :: "console \<Rightarrow> bool" where
  "ring_wf c \<longleftrightarrow> length (input_buffer c) = 256 \<and> input_buffer_head c < 256 \<and> input_buffer_tail c < 256"

text \<open>The characters in the ring, the oldest first.\<close>

definition ring_items :: "console \<Rightarrow> buf" where
  "ring_items c = map (\<lambda>i. input_buffer c ! ((unat (input_buffer_tail c) + i) mod 256))
     [0..<ring_len (unat (input_buffer_head c)) (unat (input_buffer_tail c))]"

lemma ring_arith:
  assumes "h < 256" and "t < 256"
  shows "ring_len h t < 256" "(t + ring_len h t) mod 256 = h" "i < ring_len h t \<Longrightarrow> (t + i) mod 256 \<noteq> h"
    "Suc h mod 256 = t \<longleftrightarrow> ring_len h t = 255"
    "ring_len h t < 255 \<Longrightarrow> ring_len (Suc h mod 256) t = Suc (ring_len h t)"
    "h = t \<longleftrightarrow> ring_len h t = 0" "h \<noteq> t \<Longrightarrow> ring_len h t = Suc (ring_len h (Suc t mod 256))"
proof -
  have l: "ring_len a b = (if b \<le> a then a - b else a + 256 - b)" if "a < 256" "b < 256" for a b
  proof (cases "b \<le> a")
    case True
    then have "a + 256 - b = (a - b) + 256" by simp
    then have "ring_len a b = (a - b) mod 256" by (simp only: ring_len_def mod_add_self2)
    with that True show ?thesis by simp
  qed (use that in \<open>simp add: ring_len_def\<close>)
  have s: "Suc a mod 256 = (if a = 255 then 0 else Suc a)" if "a < 256" for a :: nat using that by auto
  have m: "(a + b) mod 256 = (if a + b < 256 then a + b else a + b - 256)" if "a < 256" "b < 256" for a b :: nat
    using that by (auto simp: mod_if)
  show r: "ring_len h t < 256" by (simp add: ring_len_def)
  then show "(t + ring_len h t) mod 256 = h" using assms m [OF assms(2) r] by (simp add: l)
  show "(t + i) mod 256 \<noteq> h" if "i < ring_len h t"
    using assms that r m [of t i] by (auto simp: l split: if_splits)
  show "Suc h mod 256 = t \<longleftrightarrow> ring_len h t = 255" using assms by (auto simp: l s)
  show "ring_len (Suc h mod 256) t = Suc (ring_len h t)" if "ring_len h t < 255"
    using assms that by (auto simp: l s split: if_splits)
  show "h = t \<longleftrightarrow> ring_len h t = 0" using assms by (auto simp: l)
  show "ring_len h t = Suc (ring_len h (Suc t mod 256))" if "h \<noteq> t"
    using assms that by (auto simp: l s split: if_splits)
qed

lemma advance_index:
  assumes "(w :: u32) < 256"
  shows "unat (if w + 1 \<ge> INPUT_BUFFER_SIZE then 0 else w + 1) = Suc (unat w) mod 256"
    and "(if w + 1 \<ge> INPUT_BUFFER_SIZE then 0 else w + 1) < 256"
proof -
  have w: "unat w < 256" using assms by (simp add: word_less_nat_alt)
  then have u: "unat (w + 1) = Suc (unat w)" using unat_add_small [of w 1] by simp
  show n: "unat (if w + 1 \<ge> INPUT_BUFFER_SIZE then 0 else w + 1) = Suc (unat w) mod 256"
    using w u by (cases "unat w = 255") (auto simp: INPUT_BUFFER_SIZE_def word_le_nat_alt)
  then show "(if w + 1 \<ge> INPUT_BUFFER_SIZE then 0 else w + 1) < 256" by (simp add: word_less_nat_alt)
qed

lemma ring_wf_unat:
  "ring_wf c \<Longrightarrow> unat (input_buffer_head c) < 256 \<and> unat (input_buffer_tail c) < 256"
  by (simp add: ring_wf_def word_less_nat_alt)

lemma ucast_u8_u32: "ucast (ucast (x :: u8) :: u32) = x"
  by (rule bit_word_eqI) (auto simp: bit_ucast_iff dest: bit_imp_le_length)

lemma buffer_insert_room:
  assumes "ring_wf c" and "length (ring_items c) < 255"
  shows "\<exists>c'. buffer_insert ch c = Some (True, c') \<and> ring_wf c' \<and> ring_items c' = ring_items c @ [ucast ch] \<and>
    scheduling_enabled c' = scheduling_enabled c"
proof -
  let ?h = "unat (input_buffer_head c)" and ?t = "unat (input_buffer_tail c)"
  define nh where "nh = (if input_buffer_head c + 1 \<ge> INPUT_BUFFER_SIZE then 0 else input_buffer_head c + 1)"
  have w: "?h < 256" "?t < 256" "length (input_buffer c) = 256" using assms(1) ring_wf_unat
    by (auto simp: ring_wf_def)
  have nh: "unat nh = Suc ?h mod 256" "nh < 256"
    using advance_index [of "input_buffer_head c"] assms(1) by (simp_all add: nh_def ring_wf_def)
  note ra = ring_arith [OF w(1,2)]
  have l: "ring_len ?h ?t < 255" using assms(2) by (simp add: ring_items_def)
  then have ne: "nh \<noteq> input_buffer_tail c" using ra(4) nh(1) by (metis less_irrefl)
  define c' where "c' = c\<lparr>input_buffer := (input_buffer c)[?h := ucast ch], input_buffer_head := nh\<rparr>"
  have "buffer_insert ch c = Some (True, c')"
    using ne w by (simp add: buffer_insert_def nh_def [symmetric] c'_def)
  moreover have "ring_items c' = ring_items c @ [ucast ch]"
  proof -
    have "?h \<noteq> (?t + i) mod 256" if "i < ring_len ?h ?t" for i using ra(3) [OF that] by simp
    with ra(2,5) l w show ?thesis by (simp add: ring_items_def c'_def nh)
  qed
  moreover have "ring_wf c'" using assms(1) nh by (simp add: ring_wf_def c'_def)
  ultimately show ?thesis by (simp add: c'_def)
qed

lemma buffer_insert_full:
  assumes "ring_wf c" and "length (ring_items c) = 255"
  shows "buffer_insert ch c = Some (False, c)"
proof -
  let ?h = "unat (input_buffer_head c)" and ?t = "unat (input_buffer_tail c)"
  have "Suc ?h mod 256 = ?t" using ring_arith(4) ring_wf_unat [OF assms(1)] assms(2) by (simp add: ring_items_def)
  then have "(if input_buffer_head c + 1 \<ge> INPUT_BUFFER_SIZE then 0 else input_buffer_head c + 1) =
      input_buffer_tail c"
    using advance_index(1) [of "input_buffer_head c"] assms(1) by (simp add: ring_wf_def word_unat_eq_iff)
  then show ?thesis by (simp add: buffer_insert_def Let_def)
qed

lemma console_get_char_empty:
  "ring_wf c \<Longrightarrow> ring_items c = [] \<Longrightarrow> console_get_char c = Some (0, c)"
  using ring_arith(6) ring_wf_unat by (simp add: ring_items_def console_get_char_def word_unat_eq_iff)

lemma console_get_char_first:
  assumes "ring_wf c" and "ring_items c = x # q"
  shows "\<exists>c'. console_get_char c = Some (ucast x, c') \<and> ring_wf c' \<and> ring_items c' = q \<and>
    scheduling_enabled c' = scheduling_enabled c"
proof -
  let ?h = "unat (input_buffer_head c)" and ?t = "unat (input_buffer_tail c)"
  have w: "?h < 256" "?t < 256" "length (input_buffer c) = 256" using assms(1) ring_wf_unat
    by (auto simp: ring_wf_def)
  note ra = ring_arith [OF w(1,2)]
  define nt where "nt = (if input_buffer_tail c + 1 \<ge> INPUT_BUFFER_SIZE then 0 else input_buffer_tail c + 1)"
  have nt: "unat nt = Suc ?t mod 256" "nt < 256"
    using advance_index [of "input_buffer_tail c"] assms(1) by (simp_all add: nt_def ring_wf_def)
  have hn: "?h \<noteq> ?t" using ra(6) assms(2) by (auto simp: ring_items_def)
  have e: "ring_items c = input_buffer c ! ?t # map (\<lambda>i. input_buffer c ! ((Suc ?t mod 256 + i) mod 256))
      [0..<ring_len ?h (Suc ?t mod 256)]"
    unfolding ring_items_def ra(7) [OF hn] using w(2)
    by (simp add: upt_conv_Cons map_Suc_upt [symmetric] mod_simps comp_def del: upt_Suc)
  have hn': "input_buffer_head c \<noteq> input_buffer_tail c" using hn by auto
  define c' where "c' = c\<lparr>input_buffer_tail := nt\<rparr>"
  have "console_get_char c = Some (ucast x, c')"
    using hn' w e assms(2) by (simp add: console_get_char_def c'_def nt_def Let_def)
  moreover have "ring_items c' = q" using e assms(2) by (simp add: ring_items_def c'_def nt)
  moreover have "ring_wf c'" using assms(1) nt by (simp add: ring_wf_def c'_def)
  ultimately show ?thesis by (simp add: c'_def)
qed

definition ring_get :: "console \<Rightarrow> (u8 \<times> console) option" where
  "ring_get c = map_option (\<lambda>(r, c'). (ucast r, c')) (console_get_char c)"

interpretation cq: bounded_fifo ring_wf ring_items 255 0 "\<lambda>x. buffer_insert (ucast x)" ring_get
proof
  show "length (ring_items c) \<le> 255" if "ring_wf c" for c
    using ring_arith(1) [of "unat (input_buffer_head c)" "unat (input_buffer_tail c)"] ring_wf_unat [OF that]
    by (simp add: ring_items_def)
  show "\<exists>s'. buffer_insert (ucast x) c = Some (True, s') \<and> ring_wf s' \<and> ring_items s' = ring_items c @ [x]"
    if "ring_wf c" "length (ring_items c) < 255" for c and x :: u8
    using buffer_insert_room [OF that, of "ucast x"] by (auto simp: ucast_u8_u32 simp del: unsigned_ucast_eq)
  show "ring_get c = Some (0, c)" if "ring_wf c" "ring_items c = []" for c
    using console_get_char_empty [OF that] by (simp add: ring_get_def)
  show "\<exists>s'. ring_get c = Some (x, s') \<and> ring_wf s' \<and> ring_items s' = q"
    if "ring_wf c" "ring_items c = x # q" for c x q
    using console_get_char_first [OF that] by (auto simp: ring_get_def ucast_u8_u32 simp del: unsigned_ucast_eq)
qed (simp add: buffer_insert_full)

section \<open>Properties\<close>

text \<open>
  C12: The input ring is a queue of 255 characters: whatever characters arrive and are taken, in
  whatever order, every insertion and every removal has the result of a first-in first-out list
  that drops what arrives while it holds 255 characters and returns 0 when it is empty; no access
  leaves the array and the indices stay in range.
\<close>

theorem console_ring_refines_fifo:
  assumes "ring_wf c"
  shows "\<exists>c'. cq.op_run as c = Some (fst (fifo_run 255 0 as (ring_items c)), c') \<and> ring_wf c' \<and>
    ring_items c' = snd (fifo_run 255 0 as (ring_items c))"
  using cq.op_run_refines [OF assms] .

definition empty_console :: console where
  "empty_console = \<lparr>input_buffer = replicate 256 0, input_buffer_head = 255, input_buffer_tail = 255,
     scheduling_enabled = 1\<rparr>"

lemma empty_console_ring: "ring_wf empty_console" "ring_items empty_console = []"
  by (simp_all add: empty_console_def ring_wf_def ring_items_def ring_len_def)

theorem console_ring_refines_fifo_witness:
  "\<exists>c'. cq.op_run [Put 97, Put 98, Get, Get, Get] empty_console =
      Some ([Stored, Stored, Got 97, Got 98, Got 0], c') \<and> ring_items c' = []"
  using console_ring_refines_fifo [OF empty_console_ring(1), of "[Put 97, Put 98, Get, Get, Get]"]
  by (auto simp: empty_console_ring(2))

text \<open>Reading takes what is there and fills the rest of the request with zeros.\<close>

lemma read_chars_spec:
  "ring_wf c \<Longrightarrow> i + n \<le> length b \<Longrightarrow>
   \<exists>c'. read_chars b i n c = Some (take i b @ take n (ring_items c) @ replicate (n - length (ring_items c)) 0 @
       drop (i + n) b, c') \<and> ring_wf c' \<and> ring_items c' = drop n (ring_items c)"
proof (induction n arbitrary: b i c)
  case (Suc n)
  show ?case
  proof (cases "ring_items c")
    case Nil
    then have "console_get_char c = Some (0, c)" using console_get_char_empty [OF Suc.prems(1)] by blast
    then show ?thesis
      using Suc.IH [OF Suc.prems(1), of "Suc i" "b[i := 0]"] Suc.prems(2) Nil
      by (auto simp: take_list_update_Suc)
  next
    case (Cons x q)
    then obtain c' where c': "console_get_char c = Some (ucast x, c')" "ring_wf c'" "ring_items c' = q"
      using console_get_char_first [OF Suc.prems(1)] by blast
    then show ?thesis
      using Suc.IH [OF c'(2), of "Suc i" "b[i := x]"] Suc.prems(2) Cons
      by (auto simp: take_list_update_Suc ucast_u8_u32 simp del: unsigned_ucast_eq)
  qed
qed auto

text \<open>
  A read from the console with characters waiting returns at once without touching the
  processes: it delivers the oldest waiting characters, removes exactly those from the ring, fills
  the rest of the request with zero bytes and returns the requested count, even when fewer
  characters were there.
\<close>

lemma console_read_delivers:
  assumes "ring_wf c" and "ring_items c \<noteq> []" and "unat cnt \<le> length b"
  shows "\<exists>c'. console_read b cnt c k = Some (Returned cnt,
      take (unat cnt) (ring_items c) @ replicate (unat cnt - length (ring_items c)) 0 @ drop (unat cnt) b, c', k) \<and>
    ring_wf c' \<and> ring_items c' = drop (unat cnt) (ring_items c)"
proof -
  have "input_buffer_head c \<noteq> input_buffer_tail c"
    using assms(2) by (auto simp: ring_items_def ring_len_def)
  then have "console_wait c k = Some (True, k)" by (simp add: console_wait.simps)
  moreover obtain c' where "read_chars b 0 (unat cnt) c =
      Some (take (unat cnt) (ring_items c) @ replicate (unat cnt - length (ring_items c)) 0 @ drop (unat cnt) b, c')"
      "ring_wf c'" "ring_items c' = drop (unat cnt) (ring_items c)"
    using read_chars_spec [OF assms(1), of 0 "unat cnt" b] assms(3) by auto
  ultimately show ?thesis by (simp add: console_read_def)
qed

lemma one_char: "\<exists>c. ring_wf c \<and> ring_items c = [104]"
  using buffer_insert_room [OF empty_console_ring(1), of 104] by (auto simp: empty_console_ring(2))

text \<open>
  C13: A process that reads from the empty console sleeps until a character arrives: the read gives
  up the processor with the process in the queue of the console, and the next character that
  arrives in an interrupt is stored and makes the process ready again.
\<close>

theorem console_read_sleeps_until_input:
  assumes "ring_at k qs s" and "current_process k = qs ! s" and "waiting k W"
    and "\<forall>q. current_process k \<notin> set (W q)" and "ring_wf c" and "ring_items c = []" and "ch \<noteq> 2"
  shows "\<exists>k1 c2 k2. console_read b cnt c k = Some (Blocked, b, c, k1) \<and>
    current_process k1 \<noteq> current_process k \<and> sleeping k1 (current_process k) \<and>
    console_insert_char ch c k1 = Some (0, c2, k2) \<and> ring_items c2 = [ucast ch] \<and>
    status_of k2 (current_process k) = PROCESS_STATUS_READY"
proof -
  let ?p = "current_process k"
  obtain k1 where k1: "wait_queue_add Console_queue ?p k = Some k1"
    "waiting k1 (W(Console_queue := W Console_queue @ [?p]))" "current_process k1 \<noteq> ?p" "sleeping k1 ?p"
    using wait_queue_add_blocks_spec [OF assms(1-4)] by blast
  have "input_buffer_head c = input_buffer_tail c"
    using ring_arith(6) ring_wf_unat [OF assms(5)] assms(6) by (simp add: ring_items_def word_unat_eq_iff)
  then have "console_wait c k = Some (False, k1)" using k1 by (simp add: console_wait.simps)
  then have r: "console_read b cnt c k = Some (Blocked, b, c, k1)" by (simp add: console_read_def)
  obtain c1 where c1: "buffer_insert ch c = Some (True, c1)" "ring_items c1 = [ucast ch]"
    using buffer_insert_room [OF assms(5), of ch] assms(6) by auto
  obtain k2 where k2: "wait_queue_wake Console_queue k1 = Some k2"
    "\<forall>x\<in>set (W Console_queue @ [?p]). status_of k2 x = PROCESS_STATUS_READY"
    using wait_queue_wake_spec [OF k1(2), of Console_queue] by auto
  define c2 where "c2 = (if ch = 26 then c1\<lparr>scheduling_enabled := (if scheduling_enabled c1 = 0 then 1 else 0)\<rparr>
    else c1)"
  have "ring_items c2 = [ucast ch]" using c1(2) by (simp add: c2_def ring_items_def)
  moreover have "console_insert_char ch c k1 = Some (0, c2, k2)"
    using c1 k2(1) assms(7) by (simp add: console_insert_char_def c2_def)
  ultimately show ?thesis using r k1 k2(2) by auto
qed

theorem console_read_sleeps_until_input_witness:
  "\<exists>k1 c2 k2. console_read [0] 1 empty_console three_procs = Some (Blocked, [0], empty_console, k1) \<and>
    console_insert_char 97 empty_console k1 = Some (0, c2, k2) \<and> ring_items c2 = [97] \<and>
    status_of k2 16384 = PROCESS_STATUS_READY"
proof -
  have "current_process three_procs = 16384" by (simp add: three_procs_def)
  then show ?thesis
    using console_read_sleeps_until_input [OF three_procs_ring _ three_procs_waiting _ empty_console_ring,
      of 97 "[0]" 1] by auto
qed

text \<open>
  Writing to an initialised console sends exactly the given bytes to the serial device, in order,
  with a carriage return before every line feed, and returns the number of given bytes.
\<close>

lemma console_write_sends:
  assumes "unat cnt \<le> length b"
  shows "console_write putc True b cnt d = Some (cnt, fold putc (crlf (take (unat cnt) b)) d)"
  using serial_write_loop_spec [of 0 "unat cnt" b putc d] assms
  by (simp add: console_write_def serial_write_def)

end
