(* ===== verification/Timer.thy ===== *)
theory Timer
  imports Board Console
begin

text \<open>
  Time: the timer device and the sleepers that wait for it
  (\<^verbatim>\<open>kernel/drivers/timer/sp804_timer.c\<close>), \<^verbatim>\<open>time_since_boot\<close> (\<^verbatim>\<open>kernel/time/time.c\<close>) and
  \<^verbatim>\<open>nanosleep\<close> (\<^verbatim>\<open>kernel/syscalls/nanosleep.c\<close>). The tick counter is a field of the kernel state.
\<close>

section \<open>Definitions\<close>

definition TIMER_HZ :: u32 where "TIMER_HZ = 64"

definition TIMER_LOAD :: u32 where "TIMER_LOAD = 0xb400"
definition TIMER_CONTROL :: u32 where "TIMER_CONTROL = 0xb408"
definition TIMER_IRQ_CLEAR :: u32 where "TIMER_IRQ_CLEAR = 0xb40c"
definition TIMER_PREDIVIDER :: u32 where "TIMER_PREDIVIDER = 0xb41c"

definition TIMER_CONTROL_ENABLE :: u32 where "TIMER_CONTROL_ENABLE = push_bit 7 1"
definition TIMER_CONTROL_INT_ENABLE :: u32 where "TIMER_CONTROL_INT_ENABLE = push_bit 5 1"
definition TIMER_CONTROL_PRESCALE_256 :: u32 where "TIMER_CONTROL_PRESCALE_256 = push_bit 2 2"
definition TIMER_CONTROL_32BIT :: u32 where "TIMER_CONTROL_32BIT = push_bit 1 1"

definition timer_init :: "'h board \<Rightarrow> 'h devices \<Rightarrow> i32 \<times> 'h devices" where
  "timer_init B d =
     (let (old, d1) = bcm2835_read B TIMER_CONTROL d;
          old1 = old AND NOT (TIMER_CONTROL_ENABLE OR TIMER_CONTROL_INT_ENABLE);
          d2 = bcm2835_write B TIMER_CONTROL old1 d1;
          d3 = bcm2835_write B TIMER_PREDIVIDER 0xf9 d2;
          d4 = bcm2835_write B TIMER_LOAD 61 d3;
          d5 = bcm2835_write B TIMER_CONTROL (TIMER_CONTROL_32BIT OR TIMER_CONTROL_ENABLE OR
                 TIMER_CONTROL_INT_ENABLE OR TIMER_CONTROL_PRESCALE_256) d4 in
      (0, bcm2835_write B IRQ_ENABLE_BASIC_IRQ 1 d5))"

text \<open>The blinking of the LED.\<close>

definition blink :: "'h board \<Rightarrow> 'h devices \<Rightarrow> 'h devices" where
  "blink B d =
     (if blinking_enabled d = 0 then d
      else
        (let d1 = d\<lparr>lit_count := lit_count d + 1\<rparr>;
             d2 = (if lit_count d1 = TIMER_HZ div 2 then snd (led_off B d1) else d1) in
         if lit_count d2 = TIMER_HZ then (snd (led_on B d2))\<lparr>lit_count := 0\<rparr> else d2))"

definition timer_interrupt_handler :: "'h board \<Rightarrow> 'h devices \<Rightarrow> kernel \<Rightarrow> ('h devices \<times> kernel) option" where
  "timer_interrupt_handler B d k =
     (let d1 = bcm2835_write B TIMER_IRQ_CLEAR 0x1 d;
          k1 = k\<lparr>tick_counter := tick_counter k + 1\<rparr> in
      do { (d2, k2) \<leftarrow>
             (if timer_next_wakeup d1 \<noteq> 0 \<and> tick_counter k1 > timer_next_wakeup d1
              then do { k' \<leftarrow> wait_queue_wake Timer_queue k1; Some (d1\<lparr>timer_next_wakeup := 0\<rparr>, k') }
              else Some (d1, k1));
           Some (blink B d2, k2) })"

definition timer_sleep_until :: "u32 \<Rightarrow> 'h devices \<Rightarrow> kernel \<Rightarrow> ('h devices \<times> kernel) option" where
  "timer_sleep_until time d k =
     (let d1 = (if timer_next_wakeup d = 0 then d\<lparr>timer_next_wakeup := time\<rparr>
                else if time < timer_next_wakeup d then d\<lparr>timer_next_wakeup := time\<rparr>
                else d) in
      do { k1 \<leftarrow> wait_queue_add Timer_queue (current_process k) k; Some (d1, k1) })"

definition time_since_boot :: "kernel \<Rightarrow> u32" where
  "time_since_boot k = tick_counter k div TIMER_HZ"

text \<open>
  The loop of \<^verbatim>\<open>nanosleep\<close>: True when the time has passed, False when the caller has been switched
  out; it then goes on here when it runs again.
\<close>

partial_function (option) nanosleep_loop :: "u32 \<Rightarrow> 'h devices \<Rightarrow> kernel \<Rightarrow> (bool \<times> 'h devices \<times> kernel) option" where
  [code]: "nanosleep_loop end_time d k =
     (if ticks_since_boot k \<le> end_time then
        do { (d1, k1) \<leftarrow> timer_sleep_until end_time d k;
             if current_process k1 = current_process k then nanosleep_loop end_time d1 k1
             else Some (False, d1, k1) }
      else Some (True, d, k))"

definition ticks_to_sleep :: "u32 \<Rightarrow> u32 \<Rightarrow> u32" where
  "ticks_to_sleep seconds ns = ns div 1000000 * TIMER_HZ div 1000 + seconds * 64"

definition nanosleep :: "u32 \<Rightarrow> u32 \<Rightarrow> 'h devices \<Rightarrow> kernel \<Rightarrow> (outcome \<times> 'h devices \<times> kernel) option" where
  "nanosleep seconds ns d k =
     (let end_time = ticks_since_boot k + ticks_to_sleep seconds ns in
      do { (done, d1, k1) \<leftarrow> nanosleep_loop end_time d k;
           Some (if done then Returned 0 else Blocked, d1, k1) })"

section \<open>Steps of the clock\<close>

lemma devices_kept [simp]:
  "timer_next_wakeup (bcm2835_write B a x d) = timer_next_wakeup d"
  "timer_next_wakeup (snd (gpio_set_value B p v d)) = timer_next_wakeup d"
  "timer_next_wakeup (snd (led_on B d)) = timer_next_wakeup d"
  "timer_next_wakeup (snd (led_off B d)) = timer_next_wakeup d"
  "timer_next_wakeup (blink B d) = timer_next_wakeup d"
  by (simp_all add: bcm2835_write_def mmio_write_def gpio_set_value_def led_on_def led_off_def blink_def Let_def)

lemma waiting_tick [simp]: "waiting (k\<lparr>tick_counter := t\<rparr>) W \<longleftrightarrow> waiting k W"
proof -
  have "wchain (k\<lparr>tick_counter := t\<rparr>) a ps \<longleftrightarrow> wchain k a ps" for a ps by (intro wchain_cong) simp
  then show ?thesis by (simp add: waiting_def sleeping_def status_of_def)
qed

text \<open>What one interrupt does to the sleepers.\<close>

lemma timer_tick_early:
  assumes "tick_counter k + 1 \<le> timer_next_wakeup d"
  shows "timer_interrupt_handler B d k =
    Some (blink B (bcm2835_write B TIMER_IRQ_CLEAR 1 d), k\<lparr>tick_counter := tick_counter k + 1\<rparr>)"
  using assms by (auto simp: timer_interrupt_handler_def Let_def)

lemma timer_tick_late:
  assumes "waiting k W" and "timer_next_wakeup d \<noteq> 0" and "timer_next_wakeup d < tick_counter k + 1"
  shows "\<exists>d' k'. timer_interrupt_handler B d k = Some (d', k') \<and> timer_next_wakeup d' = 0 \<and>
    waiting k' (W(Timer_queue := [])) \<and> tick_counter k' = tick_counter k + 1 \<and>
    (\<forall>p\<in>set (W Timer_queue). status_of k' p = PROCESS_STATUS_READY)"
proof -
  let ?k = "k\<lparr>tick_counter := tick_counter k + 1\<rparr>"
  obtain k' where k': "wait_queue_wake Timer_queue ?k = Some k'" "waiting k' (W(Timer_queue := []))"
    "\<forall>x\<in>set (W Timer_queue). status_of k' x = PROCESS_STATUS_READY"
    "k' = ?k\<lparr>pcbs := pcbs k', wait_first := wait_first k'\<rparr>"
    using wait_queue_wake_spec [of ?k W Timer_queue] assms(1) by auto
  have "tick_counter k' = tick_counter k + 1" by (subst k'(4)) simp
  with k' assms show ?thesis by (simp add: timer_interrupt_handler_def Let_def)
qed

section \<open>Sleeping on time\<close>

text \<open>
  A run of the machine, counted in timer interrupts. Between the interrupts the rest of the kernel
  may do anything that leaves the clock alone and wakes nobody from the timer queue: other
  processes may run, sleep and exit, and may sleep on the timer themselves if they want to be
  woken later.
\<close>

definition rest_step :: "'h devices \<times> kernel \<Rightarrow> 'h devices \<times> kernel \<Rightarrow> bool" where
  "rest_step s s' \<longleftrightarrow> timer_next_wakeup (fst s') = timer_next_wakeup (fst s) \<and>
     tick_counter (snd s') = tick_counter (snd s) \<and>
     (\<forall>W. waiting (snd s) W \<longrightarrow>
        (\<exists>W'. waiting (snd s') W' \<and> set (W Timer_queue) \<subseteq> set (W' Timer_queue)))"

inductive timer_run :: "'h board \<Rightarrow> nat \<Rightarrow> 'h devices \<times> kernel \<Rightarrow> 'h devices \<times> kernel \<Rightarrow> bool" for B where
  start: "timer_run B 0 s s"
| rest: "timer_run B n s s1 \<Longrightarrow> rest_step s1 s2 \<Longrightarrow> timer_run B n s s2"
| tick: "timer_run B n s (d, k) \<Longrightarrow> timer_interrupt_handler B d k = Some s2 \<Longrightarrow> timer_run B (Suc n) s s2"

text \<open>The invariant of a run up to the wake-up time.\<close>

definition asleep_until :: "ptr \<Rightarrow> u32 \<Rightarrow> u32 \<Rightarrow> 'h devices \<times> kernel \<Rightarrow> bool" where
  "asleep_until p end_time now s \<longleftrightarrow> timer_next_wakeup (fst s) = end_time \<and> tick_counter (snd s) = now \<and>
     (\<exists>W. waiting (snd s) W \<and> p \<in> set (W Timer_queue))"

lemma asleep_tick:
  assumes "asleep_until p e now (d, k)" and "now < e"
  shows "\<exists>s. timer_interrupt_handler B d k = Some s \<and> asleep_until p e (now + 1) s"
  using assms timer_tick_early [of k d B] inc_le [of now e] by (auto simp: asleep_until_def)

lemma timer_run_asleep:
  assumes "timer_run B n s s'" and "asleep_until p e now s" and "unat now + n \<le> unat e"
  shows "asleep_until p e (now + of_nat n) s'"
  using assms
proof (induction rule: timer_run.induct)
  case (rest n s s1 s2)
  then obtain W where W: "waiting (snd s1) W" "p \<in> set (W Timer_queue)" by (auto simp: asleep_until_def)
  with rest.hyps(2) obtain W' where "waiting (snd s2) W'" "p \<in> set (W' Timer_queue)"
    unfolding rest_step_def by blast
  with rest show ?case by (auto simp: asleep_until_def rest_step_def)
next
  case (tick n s d k s2)
  have ih: "asleep_until p e (now + of_nat n) (d, k)" using tick by simp
  have "unat now + n < 2 ^ 32" using tick.prems(2) unat_u32_bound [of e] by simp
  then have "unat (now + of_nat n) = unat now + n" by (simp add: unat_word_ariths unat_of_nat)
  then have "now + of_nat n < e" using tick.prems(2) by (simp add: word_less_nat_alt)
  with asleep_tick [OF ih, of B] tick.hyps(2) have "asleep_until p e (now + of_nat n + 1) s2" by auto
  then show ?case by (simp add: algebra_simps)
qed simp

lemma asleep_wakes:
  assumes "asleep_until p e e (d, k)" and "e \<noteq> 0" and "e \<noteq> - 1"
  shows "\<exists>d' k'. timer_interrupt_handler B d k = Some (d', k') \<and> tick_counter k' = e + 1 \<and>
    status_of k' p = PROCESS_STATUS_READY"
proof -
  have "e < e + 1" using assms(3) unatSuc [of e] eq_neg_iff_add_eq_0 [of e 1]
    by (simp add: word_less_nat_alt add.commute)
  moreover obtain W where W: "waiting k W" "p \<in> set (W Timer_queue)" using assms(1) by (auto simp: asleep_until_def)
  ultimately obtain d' k' where "timer_interrupt_handler B d k = Some (d', k')" "tick_counter k' = e + 1"
    "\<forall>p\<in>set (W Timer_queue). status_of k' p = PROCESS_STATUS_READY"
    using timer_tick_late [OF W(1), of d B] assms by (auto simp: asleep_until_def)
  with W(2) show ?thesis by blast
qed

lemma nanosleep_sleeps:
  assumes "ring_at k qs s" and "current_process k = qs ! s" and "waiting k W"
    and "\<forall>q. current_process k \<notin> set (W q)" and "e = tick_counter k + ticks_to_sleep seconds ns"
    and "unat (tick_counter k) + unat (ticks_to_sleep seconds ns) < 4294967296"
    and "timer_next_wakeup d = 0 \<or> e \<le> timer_next_wakeup d"
  shows "\<exists>d1 k1. nanosleep seconds ns d k = Some (Blocked, d1, k1) \<and>
    asleep_until (current_process k) e (tick_counter k) (d1, k1)"
proof -
  let ?p = "current_process k"
  obtain k1 where k1: "wait_queue_add Timer_queue ?p k = Some k1"
    "waiting k1 (W(Timer_queue := W Timer_queue @ [?p]))" "current_process k1 \<noteq> ?p"
    "tick_counter k1 = tick_counter k" using wait_queue_add_blocks_spec [OF assms(1-4)] by blast
  define d1 where "d1 = d\<lparr>timer_next_wakeup := e\<rparr>"
  have "d1 = (if timer_next_wakeup d = 0 then d\<lparr>timer_next_wakeup := e\<rparr>
      else if e < timer_next_wakeup d then d\<lparr>timer_next_wakeup := e\<rparr> else d)"
    using assms(7) by (auto simp: d1_def)
  then have "timer_sleep_until e d k = Some (d1, k1)" using k1(1) by (simp add: timer_sleep_until_def)
  moreover have "tick_counter k \<le> e" using assms(5,6) by (simp add: word_le_nat_alt unat_word_ariths)
  ultimately have "nanosleep_loop e d k = Some (False, d1, k1)"
    using k1(3) by (simp add: nanosleep_loop.simps ticks_since_boot_def)
  then have "nanosleep seconds ns d k = Some (Blocked, d1, k1)"
    by (simp add: nanosleep_def ticks_since_boot_def assms(5))
  moreover have "asleep_until ?p e (tick_counter k) (d1, k1)"
    unfolding asleep_until_def using k1(2,4)
    by (auto simp: d1_def intro!: exI [of _ "W(Timer_queue := W Timer_queue @ [?p])"])
  ultimately show ?thesis by blast
qed

section \<open>Properties\<close>



end
