(* ===== verification/Interrupts.thy ===== *)
theory Interrupts
  imports Timer
begin

text \<open>
  The serial ports (\<^verbatim>\<open>kernel/drivers/serial/serial.c\<close>, \<^verbatim>\<open>pl011_uart.c\<close>, \<^verbatim>\<open>mini_uart.c\<close>) and the
  interrupt handler (\<^verbatim>\<open>kernel/interrupts/interrupts.c\<close>), which connects the devices with the
  console, the timer queue and the scheduler. The function pointers of \<^verbatim>\<open>struct serial_type\<close> are
  the choice of a driver, or nothing before the initialisation.
\<close>

section \<open>Serial ports\<close>

datatype uart_driver = Pl011 | Mini_uart

record serial_type =
  initialized :: u32
  baud :: u32
  bits :: u32
  stop :: u32
  parity :: u32
  driver :: "uart_driver option"

definition UART0_DR :: u32 where "UART0_DR = 0x201000"
definition UART0_FR :: u32 where "UART0_FR = 0x201018"
definition UART0_IBRD :: u32 where "UART0_IBRD = 0x201024"
definition UART0_FBRD :: u32 where "UART0_FBRD = 0x201028"
definition UART0_LCRH :: u32 where "UART0_LCRH = 0x20102C"
definition UART0_CR :: u32 where "UART0_CR = 0x201030"
definition UART0_IFLS :: u32 where "UART0_IFLS = 0x201034"
definition UART0_IMSC :: u32 where "UART0_IMSC = 0x201038"
definition UART0_ICR :: u32 where "UART0_ICR = 0x201044"

definition UART0_FR_TXFF :: u32 where "UART0_FR_TXFF = 0x20"
definition UART0_FR_RXFE :: u32 where "UART0_FR_RXFE = 0x10"
definition UART0_LCRH_FEN :: u32 where "UART0_LCRH_FEN = 0x10"
definition UART0_LCRH_WLEN_8BIT :: u32 where "UART0_LCRH_WLEN_8BIT = 0x60"
definition UART0_CR_UARTEN :: u32 where "UART0_CR_UARTEN = 0x1"
definition UART0_CR_TXE :: u32 where "UART0_CR_TXE = 0x100"
definition UART0_CR_RXE :: u32 where "UART0_CR_RXE = 0x200"
definition UART0_IMSC_RTIM :: u32 where "UART0_IMSC_RTIM = 0x40"
definition UART0_ICR_RTIC :: u32 where "UART0_ICR_RTIC = 0x40"

text \<open>The settings that both drivers make in \<^verbatim>\<open>serial\<close>.\<close>

definition serial_8n1 :: "uart_driver \<Rightarrow> serial_type \<Rightarrow> serial_type" where
  "serial_8n1 u s = s\<lparr>baud := 115200, bits := 8, stop := 1, parity := 0, driver := Some u\<rparr>"

definition pl011_uart_init :: "'h board \<Rightarrow> serial_type \<Rightarrow> 'h devices \<Rightarrow> u32 \<times> serial_type \<times> 'h devices" where
  "pl011_uart_init B serial d =
     (let serial1 = serial_8n1 Pl011 serial;
          d1 = bcm2835_write B UART0_CR 0x0 d;
          d2 = snd (gpio_request 14 d1);
          d3 = snd (gpio_request 15 d2);
          (old, d4) = bcm2835_read B GPIO_GPFSEL1 d3;
          old1 = (old AND NOT (push_bit 12 0x7)) OR push_bit 12 4;
          old2 = (old1 AND NOT (push_bit 15 0x7)) OR push_bit 15 4;
          d5 = bcm2835_write B GPIO_GPFSEL1 old2 d4;
          d6 = bcm2835_write B GPIO_GPPUD 0 d5;
          d7 = bcm2835_write B GPIO_GPPUDCLK0 (push_bit 14 1 OR push_bit 15 1) d6;
          d8 = bcm2835_write B GPIO_GPPUDCLK0 0 d7;
          d9 = bcm2835_write B UART0_ICR 0x7FF d8;
          d10 = bcm2835_write B UART0_IBRD 26 d9;
          d11 = bcm2835_write B UART0_FBRD 3 d10;
          d12 = bcm2835_write B UART0_LCRH (UART0_LCRH_FEN OR UART0_LCRH_WLEN_8BIT) d11;
          d13 = bcm2835_write B UART0_IMSC 0 d12;
          d14 = bcm2835_write B UART0_CR (UART0_CR_UARTEN OR UART0_CR_TXE OR UART0_CR_RXE) d13 in
      (0, serial1, d14))"

definition mini_uart_init :: "'h board \<Rightarrow> serial_type \<Rightarrow> 'h devices \<Rightarrow> u32 \<times> serial_type \<times> 'h devices" where
  "mini_uart_init B serial d =
     (let serial1 = serial_8n1 Mini_uart serial;
          d1 = bcm2835_write B UART0_CR 0x0 d;
          d2 = snd (gpio_request 14 d1);
          d3 = snd (gpio_request 15 d2);
          d4 = bcm2835_write B GPIO_GPPUD 0 d3;
          d5 = bcm2835_write B GPIO_GPPUDCLK0 (push_bit 14 1 OR push_bit 15 1) d4;
          d6 = bcm2835_write B GPIO_GPPUDCLK0 0 d5;
          d7 = bcm2835_write B UART0_ICR 0x7FF d6;
          d8 = bcm2835_write B UART0_IBRD 1 d7;
          d9 = bcm2835_write B UART0_FBRD 40 d8;
          d10 = bcm2835_write B UART0_LCRH (UART0_LCRH_FEN OR UART0_LCRH_WLEN_8BIT) d9;
          d11 = bcm2835_write B UART0_IMSC 0 d10;
          d12 = bcm2835_write B UART0_CR (UART0_CR_UARTEN OR UART0_CR_TXE OR UART0_CR_RXE) d11 in
      (0, serial1, d12))"

definition serial_init :: "'h board \<Rightarrow> u32 \<Rightarrow> serial_type \<Rightarrow> 'h devices \<Rightarrow> u32 \<times> serial_type \<times> 'h devices" where
  "serial_init B type serial d =
     (let (result, serial1, d1) =
            (if type = 1 then pl011_uart_init B serial d
             else if type = 2 then mini_uart_init B serial d
             else (0, serial, d)) in
      if result \<noteq> 0 then (- ENODEV, serial1\<lparr>initialized := 0\<rparr>, d1)
      else (0, serial1\<lparr>initialized := 1\<rparr>, d1))"

text \<open>Both drivers enable the receive interrupts in the same way.\<close>

definition pl011_uart_enable_interrupts :: "'h board \<Rightarrow> 'h devices \<Rightarrow> 'h devices" where
  "pl011_uart_enable_interrupts B d =
     (let d1 = bcm2835_write B UART0_ICR 0x7FF d;
          (old, d2) = bcm2835_read B UART0_IFLS d1;
          d3 = bcm2835_write B UART0_IFLS (old AND NOT (push_bit 3 0x7)) d2;
          (old1, d4) = bcm2835_read B UART0_IMSC d3;
          d5 = bcm2835_write B UART0_IMSC (old1 OR UART0_IMSC_RTIM) d4 in
      snd (irq_enable B 57 d5))"

definition mini_uart_enable_interrupts :: "'h board \<Rightarrow> 'h devices \<Rightarrow> 'h devices" where
  "mini_uart_enable_interrupts B d =
     (let d1 = bcm2835_write B UART0_ICR 0x7FF d;
          (old, d2) = bcm2835_read B UART0_IFLS d1;
          d3 = bcm2835_write B UART0_IFLS (old AND NOT (push_bit 3 0x7)) d2;
          (old1, d4) = bcm2835_read B UART0_IMSC d3;
          d5 = bcm2835_write B UART0_IMSC (old1 OR UART0_IMSC_RTIM) d4 in
      snd (irq_enable B 57 d5))"

definition serial_enable_interrupts :: "'h board \<Rightarrow> serial_type \<Rightarrow> 'h devices \<Rightarrow> 'h devices option" where
  "serial_enable_interrupts B serial d =
     (case driver serial of
        None \<Rightarrow> None
      | Some Pl011 \<Rightarrow> Some (pl011_uart_enable_interrupts B d)
      | Some Mini_uart \<Rightarrow> Some (mini_uart_enable_interrupts B d))"

text \<open>Waiting for a flag to fall; it may never do so.\<close>

partial_function (option) wait_flag :: "'h board \<Rightarrow> u32 \<Rightarrow> 'h devices \<Rightarrow> 'h devices option" where
  [code]: "wait_flag B flag d =
     (let (fr, d1) = bcm2835_read B UART0_FR d in
      if fr AND flag \<noteq> 0 then wait_flag B flag d1 else Some d1)"

definition pl011_uart_putc :: "'h board \<Rightarrow> u8 \<Rightarrow> 'h devices \<Rightarrow> 'h devices option" where
  "pl011_uart_putc B byte d =
     do { d1 \<leftarrow> wait_flag B UART0_FR_TXFF d; Some (bcm2835_write B UART0_DR (ucast byte) d1) }"

definition mini_uart_putc :: "'h board \<Rightarrow> u8 \<Rightarrow> 'h devices \<Rightarrow> 'h devices option" where
  "mini_uart_putc B byte d =
     do { d1 \<leftarrow> wait_flag B UART0_FR_TXFF d; Some (bcm2835_write B UART0_DR (ucast byte) d1) }"

definition pl011_uart_getc :: "'h board \<Rightarrow> 'h devices \<Rightarrow> (i32 \<times> 'h devices) option" where
  "pl011_uart_getc B d = do { d1 \<leftarrow> wait_flag B UART0_FR_RXFE d; Some (bcm2835_read B UART0_DR d1) }"

definition mini_uart_getc :: "'h board \<Rightarrow> 'h devices \<Rightarrow> (i32 \<times> 'h devices) option" where
  "mini_uart_getc B d = do { d1 \<leftarrow> wait_flag B UART0_FR_RXFE d; Some (bcm2835_read B UART0_DR d1) }"

definition pl011_uart_getc_noblock :: "'h board \<Rightarrow> 'h devices \<Rightarrow> i32 \<times> 'h devices" where
  "pl011_uart_getc_noblock B d =
     (let (fr, d1) = bcm2835_read B UART0_FR d in
      if fr AND UART0_FR_RXFE \<noteq> 0 then (-1, d1)
      else (let (data, d2) = bcm2835_read B UART0_DR d1 in (data AND 0xff, d2)))"

definition mini_uart_getc_noblock :: "'h board \<Rightarrow> 'h devices \<Rightarrow> i32 \<times> 'h devices" where
  "mini_uart_getc_noblock B d =
     (let (fr, d1) = bcm2835_read B UART0_FR d in
      if fr AND UART0_FR_RXFE \<noteq> 0 then (-1, d1)
      else (let (data, d2) = bcm2835_read B UART0_DR d1 in (data AND 0xff, d2)))"

text \<open>The loop of the interrupt handlers of both drivers, over the driver's way to get a character.\<close>

partial_function (option) uart_receive :: "('h devices \<Rightarrow> i32 \<times> 'h devices) \<Rightarrow> 'h devices \<Rightarrow> console \<Rightarrow> kernel \<Rightarrow>
    ('h devices \<times> console \<times> kernel) option" where
  [code]: "uart_receive getc d c k =
     (let (ascii, d1) = getc d in
      if ascii = -1 then Some (d1, c, k)
      else do { (r, c1, k1) \<leftarrow> console_insert_char ascii c k; uart_receive getc d1 c1 k1 })"

definition pl011_uart_interrupt_handler :: "'h board \<Rightarrow> 'h devices \<Rightarrow> console \<Rightarrow> kernel \<Rightarrow>
    (i32 \<times> 'h devices \<times> console \<times> kernel) option" where
  "pl011_uart_interrupt_handler B d c k =
     do { (d1, c1, k1) \<leftarrow> uart_receive (pl011_uart_getc_noblock B) d c k;
          Some (0, bcm2835_write B UART0_ICR UART0_ICR_RTIC d1, c1, k1) }"

definition mini_uart_interrupt_handler :: "'h board \<Rightarrow> 'h devices \<Rightarrow> console \<Rightarrow> kernel \<Rightarrow>
    (i32 \<times> 'h devices \<times> console \<times> kernel) option" where
  "mini_uart_interrupt_handler B d c k =
     do { (d1, c1, k1) \<leftarrow> uart_receive (mini_uart_getc_noblock B) d c k;
          Some (0, bcm2835_write B UART0_ICR UART0_ICR_RTIC d1, c1, k1) }"

definition serial_interrupt_handler :: "'h board \<Rightarrow> serial_type \<Rightarrow> 'h devices \<Rightarrow> console \<Rightarrow> kernel \<Rightarrow>
    (i32 \<times> 'h devices \<times> console \<times> kernel) option" where
  "serial_interrupt_handler B serial d c k =
     (case driver serial of
        None \<Rightarrow> None
      | Some Pl011 \<Rightarrow> pl011_uart_interrupt_handler B d c k
      | Some Mini_uart \<Rightarrow> mini_uart_interrupt_handler B d c k)"

section \<open>kernel/interrupts/interrupts.c\<close>

text \<open>The devices that have raised an interrupt: the serial port and the timer.\<close>

definition pending_interrupts :: "'h board \<Rightarrow> 'h devices \<Rightarrow> bool \<times> bool \<times> 'h devices" where
  "pending_interrupts B d =
     (if hardware_type d = RPI_MODEL_4B then
        (let (pending0, d1) = bcm2835_read B IRQ0_PENDING0 d;
             (pending1, d2) = bcm2835_read B IRQ0_PENDING1 d1;
             (pending2, d3) = bcm2835_read B IRQ0_PENDING2 d2 in
         (pending1 AND push_bit 25 1 \<noteq> 0, pending2 AND push_bit 0 1 \<noteq> 0, d3))
      else
        (let (basic_pending, d1) = bcm2835_read B IRQ_BASIC_PENDING d in
         (basic_pending AND push_bit 19 1 \<noteq> 0, basic_pending AND push_bit 0 1 \<noteq> 0, d1)))"

definition interrupt_handler_c :: "'h board \<Rightarrow> serial_type \<Rightarrow> 'h devices \<Rightarrow> console \<Rightarrow> kernel \<Rightarrow>
    ('h devices \<times> console \<times> kernel) option" where
  "interrupt_handler_c B serial d c k =
     (let (uart, tim, d0) = pending_interrupts B d in
      do { (d1, c1, k1) \<leftarrow>
             (if uart then do { (r, d', c', k') \<leftarrow> serial_interrupt_handler B serial d0 c k; Some (d', c', k') }
              else Some (d0, c, k));
           (d2, k2) \<leftarrow> (if tim then timer_interrupt_handler B d1 k1 else Some (d1, k1));
           if \<not> uart \<and> \<not> tim then Some (d2, c1, k2)
           else
             do { let d3 = (if hardware_type d2 = RPI_MODEL_4B then mmio_write B GICD_ICPENDR0 0xffffffff d2 else d2);
                  k3 \<leftarrow> (if scheduling_enabled c1 \<noteq> 0 then schedule k2 else Some k2);
                  Some (d3, c1, k3) } })"

section \<open>Received characters\<close>

text \<open>
  The bytes that the receive queue of the serial port delivers before it reports that it is empty,
  and the state of the hardware after that.
\<close>

fun rx_pending :: "'h board \<Rightarrow> u32 \<Rightarrow> 'h \<Rightarrow> buf \<Rightarrow> 'h \<Rightarrow> bool" where
  "rx_pending B base h [] h' \<longleftrightarrow>
     (\<exists>fr. bus_read B (base + UART0_FR) h = (fr, h') \<and> fr AND UART0_FR_RXFE \<noteq> 0)"
| "rx_pending B base h (b # bs) h' \<longleftrightarrow>
     (\<exists>fr h1 data h2. bus_read B (base + UART0_FR) h = (fr, h1) \<and> fr AND UART0_FR_RXFE = 0 \<and>
        bus_read B (base + UART0_DR) h1 = (data, h2) \<and> data AND 0xff = ucast b \<and> rx_pending B base h2 bs h')"

lemma mini_uart_same: "mini_uart_getc_noblock = pl011_uart_getc_noblock"
  by (simp add: fun_eq_iff mini_uart_getc_noblock_def pl011_uart_getc_noblock_def)

text \<open>Who waits for a character once \<open>bs\<close> have been stored.\<close>

definition after_input :: "buf \<Rightarrow> (queue_id \<Rightarrow> ptr list) \<Rightarrow> queue_id \<Rightarrow> ptr list" where
  "after_input bs W = (if bs = [] then W else W(Console_queue := []))"

lemma wake_readers:
  assumes "ring_at k qs s" and "waiting k W"
  shows "\<exists>k'. wait_queue_wake Console_queue k = Some k' \<and> waiting k' (W(Console_queue := [])) \<and> ring_at k' qs s \<and>
    (\<forall>p. is_ready k p \<or> p \<in> set (W Console_queue) \<longrightarrow> is_ready k' p)"
proof -
  obtain k' where k': "wait_queue_wake Console_queue k = Some k'" "waiting k' (W(Console_queue := []))"
    "\<forall>x\<in>set (W Console_queue). status_of k' x = PROCESS_STATUS_READY"
    "\<forall>x. x \<notin> set (W Console_queue) \<longrightarrow> pcbs k' x = pcbs k x"
    "\<forall>x. map_option (\<lambda>b. (p_next b, p_prev b)) (pcbs k' x) = map_option (\<lambda>b. (p_next b, p_prev b)) (pcbs k x)"
    "k' = k\<lparr>pcbs := pcbs k', wait_first := wait_first k'\<rparr>"
    using wait_queue_wake_spec [OF assms(2), of Console_queue] by blast
  have same: "proc_first k' = proc_first k" "current_process k' = current_process k" by (subst k'(6), simp)+
  have "is_ready k' p" if "is_ready k p \<or> p \<in> set (W Console_queue)" for p
    using that k'(3,4) by (cases "p \<in> set (W Console_queue)") (auto simp: is_ready_def status_of_def)
  moreover have "proc_list k' ps = proc_list k ps" for ps using k'(5) same(1) by (intro proc_list_cong) auto
  ultimately show ?thesis using k'(1,2) assms(1) same by (simp add: ring_at_def)
qed

lemma console_insert_char_spec:
  fixes ch :: i32
  assumes "ring_wf c" and "waiting k W" and "ring_at k qs s"
  defines "new \<equiv> take (255 - length (ring_items c)) [ucast ch :: u8]"
  shows "\<exists>r c' k'. console_insert_char ch c k = Some (r, c', k') \<and> ring_wf c' \<and>
    ring_items c' = ring_items c @ new \<and> waiting k' (after_input new W) \<and> ring_at k' qs s \<and>
    (\<forall>p. is_ready k p \<or> new \<noteq> [] \<and> p \<in> set (W Console_queue) \<longrightarrow> is_ready k' p)"
proof (cases "length (ring_items c) < 255")
  case True
  then have new: "new = [ucast ch]" by (cases "255 - length (ring_items c)") (auto simp: new_def)
  obtain c1 where c1: "buffer_insert ch c = Some (True, c1)" "ring_wf c1" "ring_items c1 = ring_items c @ [ucast ch]"
    using buffer_insert_room [OF assms(1) True, of ch] by blast
  define c2 where "c2 = (if ch = 26 then c1\<lparr>scheduling_enabled := (if scheduling_enabled c1 = 0 then 1 else 0)\<rparr>
    else c1)"
  have c2: "ring_wf c2" "ring_items c2 = ring_items c @ new"
    using c1(2,3) by (auto simp: c2_def new ring_wf_def ring_items_def)
  obtain k1 where k1: "wait_queue_wake Console_queue k = Some k1" "waiting k1 (W(Console_queue := []))"
    "ring_at k1 qs s" "\<forall>p. is_ready k p \<or> p \<in> set (W Console_queue) \<longrightarrow> is_ready k1 p"
    using wake_readers [OF assms(3,2)] by blast
  obtain b where "pcbs k (current_process k) = Some b" using ring_at_current [OF assms(3)] by blast
  then have "console_insert_char ch c k = Some (0, c2, k1)"
    using c1(1) k1(1) by (simp add: console_insert_char_def c2_def)
  with c2 k1 show ?thesis by (simp add: after_input_def new)
next
  case False
  then have "length (ring_items c) = 255" "new = []"
    using ring_arith(1) [of "unat (input_buffer_head c)" "unat (input_buffer_tail c)"] ring_wf_unat [OF assms(1)]
    by (simp_all add: ring_items_def new_def)
  then show ?thesis using buffer_insert_full [OF assms(1), of ch] assms
    by (simp add: console_insert_char_def after_input_def)
qed

lemma getc_empty:
  "rx_pending B (io_base d) (hw d) [] h \<Longrightarrow> pl011_uart_getc_noblock B d = (-1, d\<lparr>hw := h\<rparr>)"
  by (auto simp: pl011_uart_getc_noblock_def bcm2835_read_def mmio_read_def)

lemma getc_byte:
  assumes "rx_pending B (io_base d) (hw d) (b # bs) h"
  shows "\<exists>h2. pl011_uart_getc_noblock B d = (ucast b, d\<lparr>hw := h2\<rparr>) \<and> rx_pending B (io_base d) h2 bs h"
  using assms by (auto simp: pl011_uart_getc_noblock_def bcm2835_read_def mmio_read_def)

lemma byte_not_minus_one: "ucast (b :: u8) \<noteq> (- 1 :: u32)"
proof
  assume "ucast b = (- 1 :: u32)"
  then have "bit (ucast b :: u32) 8 = bit (- 1 :: u32) 8" by simp
  then show False by (simp add: bit_ucast_iff bit_minus_1_iff) (use bit_imp_le_length [of b 8] in simp)
qed

lemma after_input_append:
  "ys \<noteq> [] \<longrightarrow> xs \<noteq> [] \<Longrightarrow> after_input ys (after_input xs W) = after_input (xs @ ys) W"
  by (simp add: after_input_def)

lemma take_first:
  "take n (b # bs) = take n [b] @ take (n - length (take n [b])) bs"
  "take (n - length (take n [b])) bs \<noteq> [] \<longrightarrow> take n [b] \<noteq> []"
  by (cases n; simp)+

lemma uart_receive_spec:
  assumes "ring_wf c" and "waiting k W" and "ring_at k qs s" and "rx_pending B (io_base d) (hw d) bs h"
    and "new = take (255 - length (ring_items c)) bs"
  shows "\<exists>c' k'. uart_receive (pl011_uart_getc_noblock B) d c k = Some (d\<lparr>hw := h\<rparr>, c', k') \<and> ring_wf c' \<and>
    ring_items c' = ring_items c @ new \<and> waiting k' (after_input new W) \<and> ring_at k' qs s \<and>
    (\<forall>p. is_ready k p \<or> new \<noteq> [] \<and> p \<in> set (W Console_queue) \<longrightarrow> is_ready k' p)"
  using assms
proof (induction bs arbitrary: d c k W new)
  case Nil
  then show ?case using getc_empty [OF Nil.prems(4)]
    by (subst uart_receive.simps) (simp add: after_input_def)
next
  case (Cons b bs)
  let ?n = "255 - length (ring_items c)"
  obtain h2 where g: "pl011_uart_getc_noblock B d = (ucast b, d\<lparr>hw := h2\<rparr>)" "rx_pending B (io_base d) h2 bs h"
    using getc_byte [OF Cons.prems(4)] by blast
  obtain r c1 k1 where i: "console_insert_char (ucast b) c k = Some (r, c1, k1)" "ring_wf c1"
    "ring_items c1 = ring_items c @ take ?n [b]" "waiting k1 (after_input (take ?n [b]) W)" "ring_at k1 qs s"
    "\<forall>p. is_ready k p \<or> take ?n [b] \<noteq> [] \<and> p \<in> set (W Console_queue) \<longrightarrow> is_ready k1 p"
    using console_insert_char_spec [OF Cons.prems(1-3), of "ucast b"] unfolding ucast_u8_u32 by blast
  let ?rest = "take (255 - length (ring_items c1)) bs"
  have new: "new = take ?n [b] @ ?rest" "?rest \<noteq> [] \<longrightarrow> take ?n [b] \<noteq> []"
    unfolding Cons.prems(5) i(3) length_append diff_diff_left [symmetric] by (rule take_first)+
  have h2: "rx_pending B (io_base (d\<lparr>hw := h2\<rparr>)) (hw (d\<lparr>hw := h2\<rparr>)) bs h" using g(2) by simp
  have hw: "d\<lparr>hw := h2, hw := h\<rparr> = d\<lparr>hw := h\<rparr>" by simp
  obtain c' k' where r: "uart_receive (pl011_uart_getc_noblock B) (d\<lparr>hw := h2\<rparr>) c1 k1 = Some (d\<lparr>hw := h\<rparr>, c', k')"
    "ring_wf c'" "ring_items c' = ring_items c1 @ ?rest"
    "waiting k' (after_input ?rest (after_input (take ?n [b]) W))" "ring_at k' qs s"
    "\<forall>p. is_ready k1 p \<or> ?rest \<noteq> [] \<and> p \<in> set (after_input (take ?n [b]) W Console_queue) \<longrightarrow> is_ready k' p"
    using Cons.IH [OF i(2,4,5) h2 refl] unfolding hw by blast
  have "uart_receive (pl011_uart_getc_noblock B) d c k = Some (d\<lparr>hw := h\<rparr>, c', k')"
    using r(1) i(1) g(1) byte_not_minus_one by (subst uart_receive.simps) simp
  moreover have "after_input ?rest (after_input (take ?n [b]) W) = after_input new W"
    unfolding new(1) by (rule after_input_append [OF new(2)])
  moreover have "is_ready k' p" if "is_ready k p \<or> new \<noteq> [] \<and> p \<in> set (W Console_queue)" for p
    using that i(6) r(6) new(2) unfolding new(1) by blast
  moreover have "ring_items c' = ring_items c @ new" using r(3) i(3) unfolding new(1) by (simp only: append_assoc)
  ultimately show ?case using r(2,4,5) by (intro exI [of _ c'] exI [of _ k']) (simp only: simp_thms, blast)
qed

lemma serial_interrupt_spec:
  assumes "ring_wf c" and "waiting k W" and "ring_at k qs s" and "rx_pending B (io_base d) (hw d) bs h"
    and "new = take (255 - length (ring_items c)) bs" and "driver serial \<noteq> None"
  shows "\<exists>d' c' k'. serial_interrupt_handler B serial d c k = Some (0, d', c', k') \<and>
    d' = d\<lparr>hw := bus_write B (io_base d + UART0_ICR) UART0_ICR_RTIC h\<rparr> \<and> ring_wf c' \<and>
    ring_items c' = ring_items c @ new \<and> waiting k' (after_input new W) \<and> ring_at k' qs s \<and>
    (\<forall>p. is_ready k p \<or> new \<noteq> [] \<and> p \<in> set (W Console_queue) \<longrightarrow> is_ready k' p)"
proof -
  obtain c' k' where r: "uart_receive (pl011_uart_getc_noblock B) d c k = Some (d\<lparr>hw := h\<rparr>, c', k')" "ring_wf c'"
    "ring_items c' = ring_items c @ new" "waiting k' (after_input new W)" "ring_at k' qs s"
    "\<forall>p. is_ready k p \<or> new \<noteq> [] \<and> p \<in> set (W Console_queue) \<longrightarrow> is_ready k' p"
    using uart_receive_spec [OF assms(1-5)] by blast
  have w: "bcm2835_write B UART0_ICR UART0_ICR_RTIC (d\<lparr>hw := h\<rparr>) =
      d\<lparr>hw := bus_write B (io_base d + UART0_ICR) UART0_ICR_RTIC h\<rparr>"
    by (simp add: bcm2835_write_def mmio_write_def)
  obtain u where "driver serial = Some u" using assms(6) by blast
  then have "serial_interrupt_handler B serial d c k =
      Some (0, d\<lparr>hw := bus_write B (io_base d + UART0_ICR) UART0_ICR_RTIC h\<rparr>, c', k')"
    by (cases u) (simp_all add: serial_interrupt_handler_def pl011_uart_interrupt_handler_def
        mini_uart_interrupt_handler_def mini_uart_same r(1) w)
  with r(2-6) show ?thesis by blast
qed

section \<open>Properties\<close>

text \<open>
  C14: A key press reaches its reader. When the serial port interrupts, every byte that it holds goes
  to the console queue in order, as far as there is room; every process that waits for console
  input becomes ready; the port's interrupt is acknowledged; and if scheduling is enabled, the
  scheduler hands the processor to a ready process whenever there is one besides the idle task.
\<close>

theorem uart_interrupt_wakes_readers:
  assumes "ring_at k qs s" and "waiting k W" and "ring_wf c" and "driver serial \<noteq> None"
    and "hardware_type d \<noteq> RPI_MODEL_4B" and "bus_read B (io_base d + IRQ_BASIC_PENDING) (hw d) = (pend, h0)"
    and "pend AND push_bit 19 1 \<noteq> 0" and "pend AND 1 = 0" and "rx_pending B (io_base d) h0 bs h"
    and "new = take (255 - length (ring_items c)) bs"
  shows "\<exists>c' k'. interrupt_handler_c B serial d c k =
      Some (d\<lparr>hw := bus_write B (io_base d + UART0_ICR) UART0_ICR_RTIC h\<rparr>, c', k') \<and>
    ring_items c' = ring_items c @ new \<and>
    waiting k' (if new = [] then W else W(Console_queue := [])) \<and>
    (new \<noteq> [] \<longrightarrow> (\<forall>p\<in>set (W Console_queue). status_of k' p = PROCESS_STATUS_READY)) \<and>
    (scheduling_enabled c' \<noteq> 0 \<and> (\<exists>p\<in>set qs. status_of k' p = PROCESS_STATUS_READY) \<longrightarrow>
       status_of k' (current_process k') = PROCESS_STATUS_READY)"
proof -
  have pend: "pending_interrupts B d = (True, False, d\<lparr>hw := h0\<rparr>)"
    using assms(5-8) by (simp add: pending_interrupts_def bcm2835_read_def mmio_read_def)
  have rx: "rx_pending B (io_base (d\<lparr>hw := h0\<rparr>)) (hw (d\<lparr>hw := h0\<rparr>)) bs h" using assms(9) by simp
  have hw: "d\<lparr>hw := h0, hw := x\<rparr> = d\<lparr>hw := x\<rparr>" "io_base (d\<lparr>hw := h0\<rparr>) = io_base d" for x by simp_all
  obtain c' k1 where r: "serial_interrupt_handler B serial (d\<lparr>hw := h0\<rparr>) c k =
      Some (0, d\<lparr>hw := bus_write B (io_base d + UART0_ICR) UART0_ICR_RTIC h\<rparr>, c', k1)"
    "ring_items c' = ring_items c @ new" "waiting k1 (after_input new W)" "ring_at k1 qs s"
    "\<forall>p. is_ready k p \<or> new \<noteq> [] \<and> p \<in> set (W Console_queue) \<longrightarrow> is_ready k1 p"
    using serial_interrupt_spec [OF assms(3,2,1) rx assms(10,4)] unfolding hw by blast
  obtain k2 where k2: "schedule k1 = Some k2" "current_process k2 = pick_next k1 (proc_first k1) qs s"
    "same_but_accounts k1 k2" using schedule_spec [OF r(4)] by blast
  have w2: "waiting k2 (after_input new W)" using waiting_accounts [OF k2(3) r(3)] .
  have r2: "is_ready k2 p \<longleftrightarrow> is_ready k1 p" for p using same_but_accounts_list(3) [OF k2(3)] .
  have run: "\<exists>p\<in>set qs. is_ready k2 p \<Longrightarrow> is_ready k2 (current_process k2)"
    using pick_next_in [of k1 "proc_first k1" qs s] k2(2) r2 by auto
  define k' where "k' = (if scheduling_enabled c' \<noteq> 0 then k2 else k1)"
  have "interrupt_handler_c B serial d c k =
      Some (d\<lparr>hw := bus_write B (io_base d + UART0_ICR) UART0_ICR_RTIC h\<rparr>, c', k')"
    using assms(5) r(1) k2(1) by (simp add: interrupt_handler_c_def pend k'_def)
  moreover have "waiting k' (if new = [] then W else W(Console_queue := []))"
    using w2 r(3) unfolding k'_def after_input_def by (cases "scheduling_enabled c' = 0") (simp_all only: simp_thms if_True if_False)
  moreover have "new \<noteq> [] \<longrightarrow> (\<forall>p\<in>set (W Console_queue). is_ready k' p)" using r(5) r2 by (simp add: k'_def)
  moreover have "scheduling_enabled c' \<noteq> 0 \<and> (\<exists>p\<in>set qs. is_ready k' p) \<longrightarrow> is_ready k' (current_process k')"
    using run by (simp add: k'_def)
  ultimately show ?thesis using r(2) unfolding is_ready_def by blast
qed

text \<open>
  A machine with bytes in the receive queue of its port: the state is the queue. The port signals an
  interrupt as long as the queue is not empty.
\<close>

definition rx_queue_board :: "buf board" where
  "rx_queue_board = \<lparr>bus_read = (\<lambda>a h. if a = 0x3f201018 then (if h = [] then 0x10 else 0, h)
       else if a = 0x3f201000 then (case h of [] \<Rightarrow> (0, []) | x # xs \<Rightarrow> (ucast x, xs))
       else if a = 0x3f00b200 then (if h = [] then 0 else 0x80000, h) else (0, h)),
     bus_write = (\<lambda>a x h. h)\<rparr>"

lemma rx_queue_pending: "rx_pending rx_queue_board 0x3f000000 h h []"
proof (induction h)
  case Nil
  show ?case by (simp add: rx_queue_board_def UART0_FR_def UART0_FR_RXFE_def)
next
  case (Cons b h)
  have ff: "(0xff :: u32) = mask 8" by (simp add: mask_eq_exp_minus_1)
  have "(ucast b :: u32) AND 0xff = ucast b"
    by (rule bit_word_eqI) (auto simp: ff bit_and_iff bit_ucast_iff bit_mask_iff dest: bit_imp_le_length)
  with Cons show ?case by (simp add: rx_queue_board_def UART0_FR_def UART0_DR_def UART0_FR_RXFE_def)
qed

theorem uart_interrupt_wakes_readers_witness:
  "\<exists>k1 c' k'. console_read [0] 1 empty_console three_procs = Some (Blocked, [0], empty_console, k1) \<and>
    interrupt_handler_c rx_queue_board \<lparr>initialized = 1, baud = 115200, bits = 8, stop = 1, parity = 0,
      driver = Some Pl011\<rparr> (board_at 0x3f000000 [108, 115]) empty_console k1 =
      Some (board_at 0x3f000000 [], c', k') \<and>
    ring_items c' = [108, 115] \<and> status_of k' 16384 = PROCESS_STATUS_READY"
proof -
  let ?S = "\<lparr>initialized = 1, baud = 115200, bits = 8, stop = 1, parity = 0, driver = Some Pl011\<rparr>"
  obtain k1 where k1: "wait_queue_add Console_queue 16384 three_procs = Some k1"
    "waiting k1 ((\<lambda>q. [])(Console_queue := [16384]))" "current_process k1 \<noteq> 16384"
    "\<exists>t. ring_at k1 [16384, 32768] t"
    using wait_queue_add_blocks_spec [OF three_procs_ring _ three_procs_waiting, of Console_queue] by auto
  have "console_wait empty_console three_procs = Some (False, k1)"
    using k1 by (simp add: console_wait.simps empty_console_def)
  then have "console_read [0] 1 empty_console three_procs = Some (Blocked, [0], empty_console, k1)"
    by (simp add: console_read_def)
  moreover have "\<exists>c' k'. interrupt_handler_c rx_queue_board ?S (board_at 0x3f000000 [108, 115]) empty_console k1 =
      Some (board_at 0x3f000000 [], c', k') \<and> ring_items c' = [108, 115] \<and> status_of k' 16384 = PROCESS_STATUS_READY"
  proof -
    obtain t where t: "ring_at k1 [16384, 32768] t" using k1(4) by blast
    show ?thesis
      using uart_interrupt_wakes_readers [OF t k1(2) empty_console_ring(1), where serial = ?S and
          d = "board_at 0x3f000000 [108, 115]" and B = rx_queue_board and bs = "[108, 115]" and h = "[]" and
          new = "[108, 115]"] rx_queue_pending [of "[108, 115]"]
      by (simp add: board_at_def empty_console_ring rx_queue_board_def c_const) auto
  qed
  ultimately show ?thesis by blast
qed

end
