(* ===== verification/I2c.thy ===== *)
theory I2c
  imports Board CString
begin

text \<open>
  The I2C bus: the generic layer \<^verbatim>\<open>kernel/drivers/i2c/i2c.c\<close> and the driver
  \<^verbatim>\<open>kernel/drivers/i2c/bcm2835_i2c.c\<close>. The driver polls the status register; what it reads there is
  up to the hardware, so the transfers may never end, and every statement holds for any hardware.
\<close>

section \<open>Definitions\<close>

definition I2C1_C :: u32 where "I2C1_C = 0x804000"
definition I2C1_S :: u32 where "I2C1_S = 0x804004"
definition I2C1_DLEN :: u32 where "I2C1_DLEN = 0x804008"
definition I2C1_A :: u32 where "I2C1_A = 0x80400C"
definition I2C1_FIFO :: u32 where "I2C1_FIFO = 0x804010"
definition I2C1_CLKT :: u32 where "I2C1_CLKT = 0x80401c"

definition I2C_C_I2CEN :: u32 where "I2C_C_I2CEN = 0x8000"
definition I2C_C_INTR :: u32 where "I2C_C_INTR = 0x400"
definition I2C_C_INTT :: u32 where "I2C_C_INTT = 0x200"
definition I2C_C_INTD :: u32 where "I2C_C_INTD = 0x100"
definition I2C_C_ST :: u32 where "I2C_C_ST = 0x80"
definition I2C_C_CLEAR :: u32 where "I2C_C_CLEAR = 0x30"
definition I2C_C_READ :: u32 where "I2C_C_READ = 0x1"

definition I2C_S_CLKT :: u32 where "I2C_S_CLKT = 0x200"
definition I2C_S_ERR :: u32 where "I2C_S_ERR = 0x100"
definition I2C_S_RXD :: u32 where "I2C_S_RXD = 0x20"
definition I2C_S_TXW :: u32 where "I2C_S_TXW = 0x4"
definition I2C_S_DONE :: u32 where "I2C_S_DONE = 0x2"

lemmas i2c_defs [c_const] = I2C1_C_def I2C1_S_def I2C1_DLEN_def I2C1_A_def I2C1_FIFO_def I2C1_CLKT_def
  I2C_C_I2CEN_def I2C_C_INTR_def I2C_C_INTT_def I2C_C_INTD_def I2C_C_ST_def I2C_C_CLEAR_def I2C_C_READ_def
  I2C_S_CLKT_def I2C_S_ERR_def I2C_S_RXD_def I2C_S_TXW_def I2C_S_DONE_def

text \<open>The delays of the setup have no effect on the state.\<close>

definition bcm2835_i2c1_gpio_setup :: "'h board \<Rightarrow> 'h devices \<Rightarrow> 'h devices" where
  "bcm2835_i2c1_gpio_setup B d =
     (let d1 = snd (gpio_request 2 d);
          d2 = snd (gpio_request 3 d1);
          (old, d3) = bcm2835_read B GPIO_GPFSEL0 d2;
          old1 = old AND NOT (push_bit 6 0x3f);
          old2 = old1 OR (push_bit 6 4 OR push_bit 9 4);
          d4 = bcm2835_write B GPIO_GPFSEL0 old2 d3;
          d5 = bcm2835_write B GPIO_GPPUD 2 d4;
          d6 = bcm2835_write B GPIO_GPPUDCLK0 (push_bit 2 1 OR push_bit 3 1) d5;
          d7 = bcm2835_write B GPIO_GPPUD 0 d6 in
      bcm2835_write B GPIO_GPPUDCLK0 0 d7)"

definition i2c1_setup_xfer :: "'h board \<Rightarrow> u32 \<Rightarrow> u32 \<Rightarrow> 'h devices \<Rightarrow> 'h devices" where
  "i2c1_setup_xfer B addr cnt d =
     (let d1 = bcm2835_write B I2C1_A (addr AND 0x7F) d;
          d2 = bcm2835_write B I2C1_S (I2C_S_ERR OR I2C_S_CLKT OR I2C_S_DONE) d1;
          d3 = bcm2835_write B I2C1_DLEN cnt d2;
          (old, d4) = bcm2835_read B I2C1_C d3;
          old1 = (old AND NOT I2C_C_READ) OR I2C_C_CLEAR in
      bcm2835_write B I2C1_C old1 d4)"

text \<open>The inner loop of a read: the bytes in the queue, as long as there is room for them.\<close>

fun i2c_drain :: "'h board \<Rightarrow> nat \<Rightarrow> buf \<Rightarrow> nat \<Rightarrow> 'h devices \<Rightarrow> (nat \<times> buf \<times> 'h devices) option" where
  "i2c_drain B 0 b received d = Some (received, b, d)"
| "i2c_drain B (Suc room) b received d =
     (let (s, d1) = bcm2835_read B I2C1_S d in
      if s AND I2C_S_RXD = 0 then Some (received, b, d1)
      else
        (let (x, d2) = bcm2835_read B I2C1_FIFO d1 in
         do { b1 \<leftarrow> arr_set b received (ucast (x AND 0xff)); i2c_drain B room b1 (Suc received) d2 }))"

partial_function (option) i2c_read_loop :: "'h board \<Rightarrow> nat \<Rightarrow> buf \<Rightarrow> nat \<Rightarrow> 'h devices \<Rightarrow>
    (nat \<times> buf \<times> 'h devices) option" where
  [code]: "i2c_read_loop B cnt b received d =
     (let (s, d1) = bcm2835_read B I2C1_S d in
      if s AND I2C_S_DONE \<noteq> 0 then Some (received, b, d1)
      else do { (received1, b1, d2) \<leftarrow> i2c_drain B (cnt - received) b received d1;
                i2c_read_loop B cnt b1 received1 d2 })"

text \<open>Acknowledging the transfer and its status.\<close>

definition i2c_finish :: "'h board \<Rightarrow> 'h devices \<Rightarrow> u32 \<times> 'h devices" where
  "i2c_finish B d =
     (let (old, d1) = bcm2835_read B I2C1_S d; old1 = old OR I2C_S_DONE in
      (old1, bcm2835_write B I2C1_S old1 d1))"

definition bcm2835_i2c1_read :: "'h board \<Rightarrow> u16 \<Rightarrow> buf \<Rightarrow> u32 \<Rightarrow> 'h devices \<Rightarrow> (i32 \<times> buf \<times> 'h devices) option" where
  "bcm2835_i2c1_read B address b cnt d =
     (let d1 = i2c1_setup_xfer B (ucast address) cnt d;
          (old, d2) = bcm2835_read B I2C1_C d1;
          d3 = bcm2835_write B I2C1_C (old OR (I2C_C_ST OR I2C_C_READ)) d2 in
      do { (received, b1, d4) \<leftarrow> i2c_read_loop B (unat cnt) b 0 d3;
           (received1, b2, d5) \<leftarrow> i2c_drain B (unat cnt - received) b1 received d4;
           let (status, d6) = i2c_finish B d5 in
           Some (if status AND I2C_S_ERR \<noteq> 0 then -1 else if status AND I2C_S_CLKT \<noteq> 0 then -2
                 else of_nat received1, b2, d6) })"

text \<open>The inner loop of a write does not look at the number of bytes it is asked to send.\<close>

partial_function (option) i2c_fill :: "'h board \<Rightarrow> buf \<Rightarrow> nat \<Rightarrow> 'h devices \<Rightarrow> (nat \<times> 'h devices) option" where
  [code]: "i2c_fill B b sent d =
     (let (s, d1) = bcm2835_read B I2C1_S d in
      if s AND I2C_S_TXW = 0 then Some (sent, d1)
      else do { x \<leftarrow> arr_get b sent; i2c_fill B b (Suc sent) (bcm2835_write B I2C1_FIFO (ucast x) d1) })"

partial_function (option) i2c_write_loop :: "'h board \<Rightarrow> buf \<Rightarrow> nat \<Rightarrow> 'h devices \<Rightarrow> (nat \<times> 'h devices) option" where
  [code]: "i2c_write_loop B b sent d =
     (let (s, d1) = bcm2835_read B I2C1_S d in
      if s AND I2C_S_DONE \<noteq> 0 then Some (sent, d1)
      else do { (sent1, d2) \<leftarrow> i2c_fill B b sent d1; i2c_write_loop B b sent1 d2 })"

definition bcm2835_i2c1_write :: "'h board \<Rightarrow> u16 \<Rightarrow> buf \<Rightarrow> u32 \<Rightarrow> 'h devices \<Rightarrow> (i32 \<times> 'h devices) option" where
  "bcm2835_i2c1_write B address b cnt d =
     (let d1 = i2c1_setup_xfer B (ucast address) cnt d;
          (old, d2) = bcm2835_read B I2C1_C d1;
          d3 = bcm2835_write B I2C1_C (old OR I2C_C_ST) d2 in
      do { (sent, d4) \<leftarrow> i2c_write_loop B b 0 d3;
           let (status, d5) = i2c_finish B d4 in
           Some (if status AND I2C_S_ERR \<noteq> 0 then -1 else if status AND I2C_S_CLKT \<noteq> 0 then -1
                 else of_nat sent, d5) })"

definition bcm2835_i2c1_init :: "'h board \<Rightarrow> 'h devices \<Rightarrow> i32 \<times> 'h devices" where
  "bcm2835_i2c1_init B d =
     (let (old, d1) = bcm2835_read B I2C1_C d;
          old1 = old AND NOT I2C_C_I2CEN;
          d2 = bcm2835_write B I2C1_C old1 d1;
          old2 = old1 AND NOT (I2C_C_INTD OR I2C_C_INTR OR I2C_C_INTT);
          d3 = bcm2835_write B I2C1_C old2 d2;
          d4 = bcm2835_write B I2C1_CLKT 0 d3;
          d5 = bcm2835_write B I2C1_C (old2 OR I2C_C_I2CEN) d4 in
      (0, bcm2835_i2c1_gpio_setup B d5))"

text \<open>
  The generic layer. \<open>up\<close> says whether the driver has been set up; before that the function
  pointers of \<^verbatim>\<open>struct i2c_core\<close> are null. The field \<^verbatim>\<open>initialized\<close> is never read.
\<close>

definition i2c_init :: "'h board \<Rightarrow> i32 \<Rightarrow> bool \<Rightarrow> 'h devices \<Rightarrow> i32 \<times> bool \<times> 'h devices" where
  "i2c_init B type up d =
     (let (result, up1, d1) =
            (if type = 0 then (let (r, d') = bcm2835_i2c1_init B d in (r, True, d')) else (1, up, d)) in
      if result \<noteq> 0 then (- ENODEV, up1, d1) else (0, up1, d1))"

definition i2c_read :: "'h board \<Rightarrow> bool \<Rightarrow> u16 \<Rightarrow> buf \<Rightarrow> u32 \<Rightarrow> 'h devices \<Rightarrow> (i32 \<times> buf \<times> 'h devices) option" where
  "i2c_read B up address b cnt d = (if up then bcm2835_i2c1_read B address b cnt d else None)"

definition i2c_write :: "'h board \<Rightarrow> bool \<Rightarrow> u16 \<Rightarrow> buf \<Rightarrow> u32 \<Rightarrow> 'h devices \<Rightarrow> (i32 \<times> 'h devices) option" where
  "i2c_write B up address b cnt d = (if up then bcm2835_i2c1_write B address b cnt d else None)"

section \<open>Bounds of the transfers\<close>

text \<open>
  Draining the queue always ends, stores at most as many bytes as there is room for, and leaves
  the rest of the buffer alone.
\<close>

lemma i2c_drain_bounded:
  assumes "received + room \<le> length b"
  shows "\<exists>n bs d'. i2c_drain B room b received d =
      Some (received + n, take received b @ bs @ drop (received + n) b, d') \<and> n \<le> room \<and> length bs = n"
  using assms
proof (induction B room b received d rule: i2c_drain.induct)
  case (1 B b received d)
  show ?case by (intro exI [of _ 0] exI [of _ "[]"] exI [of _ d]) simp
next
  case (2 B room b received d)
  obtain s d1 where s: "bcm2835_read B I2C1_S d = (s, d1)" by fastforce
  obtain x d2 where x: "bcm2835_read B I2C1_FIFO d1 = (x, d2)" by fastforce
  let ?b = "b[received := ucast (x AND 0xff)]"
  show ?case
  proof (cases "s AND I2C_S_RXD = 0")
    case True
    then show ?thesis by (intro exI [of _ 0] exI [of _ "[]"] exI [of _ d1]) (simp add: s)
  next
    case False
    have st: "arr_set b received (ucast (x AND 0xff)) = Some ?b" using "2.prems" by simp
    obtain n bs d' where ih: "i2c_drain B room ?b (Suc received) d2 =
        Some (Suc received + n, take (Suc received) ?b @ bs @ drop (Suc received + n) ?b, d')" "n \<le> room" "length bs = n"
      using "2.IH" [OF s [symmetric] refl False x [symmetric] refl st] "2.prems" by auto
    have "take (Suc received) ?b = take received b @ [ucast (x AND 0xff)]" using "2.prems" by (simp add: take_Suc_conv_app_nth)
    then show ?thesis using False ih "2.prems"
      by (intro exI [of _ "Suc n"] exI [of _ "ucast (x AND 0xff) # bs"] exI [of _ d']) (simp add: s x st)
  qed
qed

text \<open>
  A write does not stop at the end of its buffer: on hardware that keeps asking for data it runs
  past the end, whatever the number of bytes it was asked to send.
\<close>

lemma i2c_fill_overruns:
  assumes "\<And>h. bus_read B (io_base d + I2C1_S) h = (I2C_S_TXW, h)"
  shows "i2c_fill B b sent d = None"
  using assms
proof (induction "length b - sent" arbitrary: sent d)
  case 0
  then show ?case by (subst i2c_fill.simps) (simp add: bcm2835_read_def mmio_read_def c_const)
next
  case (Suc n)
  have "io_base (bcm2835_write B a x d) = io_base d" for a x by (simp add: bcm2835_write_def mmio_write_def)
  with Suc show ?case by (subst i2c_fill.simps) (simp add: bcm2835_read_def mmio_read_def I2C_S_TXW_def)
qed

lemma i2c_write_overruns:
  assumes "\<And>h. bus_read B (io_base d + I2C1_S) h = (I2C_S_TXW, h)"
  shows "bcm2835_i2c1_write B address b cnt d = None"
proof -
  have io: "io_base (bcm2835_write B a x e) = io_base e" "io_base (snd (bcm2835_read B a e)) = io_base e" for a x e
    by (simp_all add: bcm2835_write_def bcm2835_read_def mmio_write_def mmio_read_def split: prod.splits)
  have loop: "i2c_write_loop B b 0 e = None" if "io_base e = io_base d" for e
    using assms i2c_fill_overruns [of B e b 0] that
    by (subst i2c_write_loop.simps) (simp add: bcm2835_read_def mmio_read_def c_const)
  obtain old d2 where r: "bcm2835_read B I2C1_C (i2c1_setup_xfer B (ucast address) cnt d) = (old, d2)" by fastforce
  have "io_base (i2c1_setup_xfer B (ucast address) cnt d) = io_base d"
    using io by (simp add: i2c1_setup_xfer_def Let_def split: prod.splits) (metis io snd_conv)
  then have "io_base d2 = io_base d" using r io(2) by (metis snd_conv)
  then show ?thesis by (simp add: bcm2835_i2c1_write_def r loop io)
qed

end
