(* ===== verification/Romfs.thy ===== *)
theory Romfs
  imports CString
begin

text \<open>
  The ramdisk driver \<^verbatim>\<open>kernel/drivers/block/ramdisk.c\<close> and the read-only file system
  \<^verbatim>\<open>kernel/fs/romfs/romfs.c\<close> on top of it.

  \<open>rd_data\<close> are the bytes from \<^verbatim>\<open>ramdisk_info.start\<close> to the end of the memory that belongs to
  the disk; a read that passes the range check of the driver but leaves this memory is
  \<^term>\<open>None\<close>. The drivers's error code is ignored by \<^verbatim>\<open>romfs_read_noinc\<close>, so a failing read leaves
  the local variable that it should fill as it was: such a variable is a \<^typ>\<open>buf option\<close>, with
  \<^term>\<open>None\<close> while it is uninitialised. Offsets are 32-bit words that wrap around.
\<close>

section \<open>kernel/drivers/block/ramdisk.c\<close>

record ramdisk =
  rd_data :: buf
  rd_length :: u32

definition ramdisk_read :: "ramdisk \<Rightarrow> u32 \<Rightarrow> u32 \<Rightarrow> buf \<Rightarrow> (i32 \<times> buf) option" where
  "ramdisk_read rd offset len dest =
     (if offset + len > rd_length rd then Some (- ERANGE, dest)
      else do { d \<leftarrow> memcpy dest (drop (unat offset) (rd_data rd)) (unat len); Some (len, d) })"

definition ramdisk_init :: "buf \<Rightarrow> u32 \<Rightarrow> ramdisk" where
  "ramdisk_init start len = \<lparr>rd_data = start, rd_length = len\<rparr>"

section \<open>Reading numbers and strings\<close>

text \<open>\<^verbatim>\<open>romfs_read_noinc\<close> into a local variable of \<open>n\<close> bytes.\<close>

definition romfs_read_noinc :: "ramdisk \<Rightarrow> buf option \<Rightarrow> u32 \<Rightarrow> nat \<Rightarrow> buf option option" where
  "romfs_read_noinc rd tmp offset n =
     (if offset + of_nat n > rd_length rd then Some tmp
      else if unat offset + n \<le> length (rd_data rd)
      then Some (Some (take n (drop (unat offset) (rd_data rd))))
      else None)"

text \<open>The processor is little endian; \<^verbatim>\<open>ntohl\<close> is the instruction \<^verbatim>\<open>rev\<close>.\<close>

definition le_word :: "buf \<Rightarrow> u32" where
  "le_word bs = ucast (bs ! 0) OR push_bit 8 (ucast (bs ! 1)) OR push_bit 16 (ucast (bs ! 2)) OR
     push_bit 24 (ucast (bs ! 3))"

definition ntohl :: "u32 \<Rightarrow> u32" where
  "ntohl x = push_bit 24 (x AND 255) OR push_bit 8 (x AND 65280) OR
     (drop_bit 8 x AND 65280) OR (drop_bit 24 x AND 255)"

definition int_of_tmp :: "buf option \<Rightarrow> u32 option" where
  "int_of_tmp tmp = (case tmp of None \<Rightarrow> None | Some bs \<Rightarrow> Some (ntohl (le_word bs)))"

text \<open>
  The loop of \<^verbatim>\<open>romfs_read_string\<close>. \<open>tmp\<close> is \<^verbatim>\<open>temp_buffer\<close>; its last byte decides whether the
  string goes on.
\<close>

partial_function (option) read_string_loop ::
  "ramdisk \<Rightarrow> buf option \<Rightarrow> u32 \<Rightarrow> i32 \<Rightarrow> buf \<Rightarrow> (u32 \<times> buf) option" where
  [code]: "read_string_loop rd tmp our_offset max_stringsize buffer =
     do { tmp1 \<leftarrow> romfs_read_noinc rd tmp our_offset 16;
          t \<leftarrow> tmp1;
          let off1 = our_offset + 16;
          buffer1 \<leftarrow> (if 0 < sint max_stringsize then
                        strncat buffer t (if 16 < sint max_stringsize then 16 else unat max_stringsize)
                      else Some buffer);
          if t ! 15 = 0 then Some (off1, buffer1)
          else read_string_loop rd tmp1 off1 (max_stringsize - 16) buffer1 }"

definition romfs_read_string :: "ramdisk \<Rightarrow> u32 \<Rightarrow> buf \<Rightarrow> i32 \<Rightarrow> (i32 \<times> buf) option" where
  "romfs_read_string rd offset buffer sz =
     do { b0 \<leftarrow> arr_set buffer 0 0;
          (off, b) \<leftarrow> read_string_loop rd None offset sz b0;
          Some (off - offset, b) }"

partial_function (option) string_length_loop ::
  "ramdisk \<Rightarrow> buf option \<Rightarrow> u32 \<Rightarrow> i32 \<Rightarrow> i32 option" where
  [code]: "string_length_loop rd tmp our_offset max_length =
     do { tmp1 \<leftarrow> romfs_read_noinc rd tmp our_offset 16;
          t \<leftarrow> tmp1;
          if t ! 15 = 0 then do { n \<leftarrow> strlen t; Some (max_length + of_nat n) }
          else string_length_loop rd tmp1 (our_offset + 16) (max_length + 16) }"

definition romfs_string_length :: "ramdisk \<Rightarrow> u32 \<Rightarrow> i32 option" where
  "romfs_string_length rd offset = string_length_loop rd None offset 0"

partial_function (option) string_chunks_loop ::
  "ramdisk \<Rightarrow> buf option \<Rightarrow> u32 \<Rightarrow> i32 \<Rightarrow> i32 option" where
  [code]: "string_chunks_loop rd tmp our_offset max_length =
     do { tmp1 \<leftarrow> romfs_read_noinc rd tmp our_offset 16;
          t \<leftarrow> tmp1;
          if t ! 15 = 0 then Some (max_length + 16)
          else string_chunks_loop rd tmp1 (our_offset + 16) (max_length + 16) }"

definition romfs_string_length_chunks :: "ramdisk \<Rightarrow> u32 \<Rightarrow> i32 option" where
  "romfs_string_length_chunks rd offset = string_chunks_loop rd None offset 0"

section \<open>Inodes\<close>

partial_function (option) follow_links_loop :: "ramdisk \<Rightarrow> buf option \<Rightarrow> u32 \<Rightarrow> u32 option" where
  [code]: "follow_links_loop rd tmp inode =
     do { tmp1 \<leftarrow> romfs_read_noinc rd tmp inode 4;
          type \<leftarrow> int_of_tmp tmp1;
          tmp2 \<leftarrow> romfs_read_noinc rd tmp1 (inode + 4) 4;
          spec_info \<leftarrow> int_of_tmp tmp2;
          if type AND 7 = 0 then follow_links_loop rd tmp2 spec_info else Some inode }"

definition romfs_inode_follow_links :: "ramdisk \<Rightarrow> u32 \<Rightarrow> u32 option" where
  "romfs_inode_follow_links rd inode = follow_links_loop rd None inode"

record stat_t =
  st_dev :: u32
  st_ino :: i32
  st_mode :: i32
  st_nlink :: i32
  st_uid :: i32
  st_gid :: i32
  st_rdev :: i32
  st_size :: u32
  st_blksize :: u32
  st_blocks :: u32
  st_atime :: u32
  st_mtime :: u32
  st_ctime :: u32

definition zero_stat :: stat_t where
  "zero_stat = \<lparr>st_dev = 0, st_ino = 0, st_mode = 0, st_nlink = 0, st_uid = 0, st_gid = 0, st_rdev = 0,
     st_size = 0, st_blksize = 0, st_blocks = 0, st_atime = 0, st_mtime = 0, st_ctime = 0\<rparr>"

definition S_IFMT :: i32 where "S_IFMT = 0xf000"

definition S_IFSOCK :: i32 where "S_IFSOCK = 0xc000"

definition S_IFLNK :: i32 where "S_IFLNK = 0xa000"

definition S_IFREG :: i32 where "S_IFREG = 0x8000"

definition S_IFBLK :: i32 where "S_IFBLK = 0x6000"

definition S_IFDIR :: i32 where "S_IFDIR = 0x4000"

definition S_IFCHR :: i32 where "S_IFCHR = 0x2000"

definition S_IFIFO :: i32 where "S_IFIFO = 0x1000"

lemmas mode_defs [c_const] = S_IFMT_def S_IFSOCK_def S_IFLNK_def S_IFREG_def S_IFBLK_def S_IFDIR_def
  S_IFCHR_def S_IFIFO_def

text \<open>The \<^verbatim>\<open>switch\<close> over the file type.\<close>

definition stat_type :: "u32 \<Rightarrow> u32 \<Rightarrow> stat_t \<Rightarrow> stat_t" where
  "stat_type type spec_info st =
     (if type = 1 then st\<lparr>st_mode := st_mode st OR S_IFDIR\<rparr>
      else if type = 2 then st\<lparr>st_mode := st_mode st OR S_IFREG\<rparr>
      else if type = 3 then st\<lparr>st_mode := st_mode st OR S_IFLNK\<rparr>
      else if type = 4 then st\<lparr>st_mode := st_mode st OR S_IFBLK, st_rdev := spec_info\<rparr>
      else if type = 5 then st\<lparr>st_mode := st_mode st OR S_IFCHR, st_rdev := spec_info\<rparr>
      else if type = 6 then st\<lparr>st_mode := st_mode st OR S_IFSOCK\<rparr>
      else if type = 7 then st\<lparr>st_mode := st_mode st OR S_IFIFO\<rparr>
      else st)"

partial_function (option) stat_loop :: "ramdisk \<Rightarrow> buf option \<Rightarrow> u32 \<Rightarrow> stat_t option" where
  [code]: "stat_loop rd tmp inode =
     do { tmp1 \<leftarrow> romfs_read_noinc rd tmp inode 4;
          t \<leftarrow> int_of_tmp tmp1;
          let st = zero_stat\<lparr>st_ino := inode, st_mode := (if t AND 8 \<noteq> 0 then 0x1b6 OR 0x49 else 0x1b6)\<rparr>;
          tmp2 \<leftarrow> romfs_read_noinc rd tmp1 (inode + 4) 4;
          spec_info \<leftarrow> int_of_tmp tmp2;
          if t AND 7 = 0 then stat_loop rd tmp2 spec_info
          else
            do { tmp3 \<leftarrow> romfs_read_noinc rd tmp2 (inode + 8) 4;
                 size_v \<leftarrow> int_of_tmp tmp3;
                 Some ((stat_type (t AND 7) spec_info st)\<lparr>st_size := size_v\<rparr>) } }"

text \<open>\<^verbatim>\<open>romfs_stat\<close> always returns 0; the result here is the structure that it fills.\<close>

definition romfs_stat :: "ramdisk \<Rightarrow> u32 \<Rightarrow> (i32 \<times> stat_t) option" where
  "romfs_stat rd inode = do { st \<leftarrow> stat_loop rd None inode; Some (0, st) }"

section \<open>Directories\<close>

definition MAX_FILENAME_SIZE :: nat where "MAX_FILENAME_SIZE = 256"

text \<open>
  The search loop over the entries of a directory. \<^verbatim>\<open>filename\<close> is overwritten from its first byte
  in every round; what it holds after the terminating nul is never read.
\<close>

partial_function (option) get_inode_loop :: "ramdisk \<Rightarrow> buf \<Rightarrow> buf option \<Rightarrow> u32 \<Rightarrow> i32 option" where
  [code]: "get_inode_loop rd nm tmp offset =
     do { tmp1 \<leftarrow> romfs_read_noinc rd tmp offset 4;
          n \<leftarrow> int_of_tmp tmp1;
          let nxt = n AND NOT 15;
          (len, filename) \<leftarrow> romfs_read_string rd (offset + 16) (replicate MAX_FILENAME_SIZE 0)
             (of_nat MAX_FILENAME_SIZE);
          c \<leftarrow> strncmp nm filename MAX_FILENAME_SIZE;
          if c = 0 then romfs_inode_follow_links rd offset
          else if nxt = 0 then Some (-1)
          else get_inode_loop rd nm tmp1 nxt }"

definition romfs_get_inode :: "ramdisk \<Rightarrow> i32 \<Rightarrow> buf \<Rightarrow> i32 option" where
  "romfs_get_inode rd dir_inode nm =
     do { tmp1 \<leftarrow> romfs_read_noinc rd None dir_inode 4;
          nxt \<leftarrow> int_of_tmp tmp1;
          tmp2 \<leftarrow> romfs_read_noinc rd tmp1 (dir_inode + 4) 4;
          spec \<leftarrow> int_of_tmp tmp2;
          if nxt AND 7 \<noteq> 1 then Some (- ENOTDIR)
          else get_inode_loop rd nm tmp2 spec }"

text \<open>
  \<^verbatim>\<open>romfs_mount\<close> returns the offset of the first file header; a wrong magic number gives -1.
\<close>

definition romfs_mount :: "ramdisk \<Rightarrow> i32 option" where
  "romfs_mount rd =
     do { tmp \<leftarrow> romfs_read_noinc rd None 0 8;
          magic \<leftarrow> tmp;
          c \<leftarrow> memcmp magic (lit ''-rom1fs-'') 8;
          if c \<noteq> 0 then Some (-1)
          else
            do { tmp1 \<leftarrow> romfs_read_noinc rd None 8 4;
                 header_size \<leftarrow> int_of_tmp tmp1;
                 tmp2 \<leftarrow> romfs_read_noinc rd tmp1 12 4;
                 header_checksum \<leftarrow> int_of_tmp tmp2;
                 (result, volume_name) \<leftarrow> romfs_read_string rd 16 (replicate 17 0) 16;
                 Some (16 + result) } }"

definition romfs_statfs :: "i32" where
  "romfs_statfs = 0"

section \<open>File contents and directory listings\<close>

text \<open>\<^verbatim>\<open>size-file_offset\<close> is an unsigned subtraction and \<^verbatim>\<open>max_count\<close> is compared unsigned.\<close>

definition romfs_read_file :: "ramdisk \<Rightarrow> u32 \<Rightarrow> u32 \<Rightarrow> buf \<Rightarrow> u32 \<Rightarrow> (i32 \<times> buf) option" where
  "romfs_read_file rd inode file_offset b cnt =
     do { tmp \<leftarrow> romfs_read_noinc rd None (inode + 8) 4;
          size_v \<leftarrow> int_of_tmp tmp;
          name_length \<leftarrow> romfs_string_length_chunks rd (inode + 16);
          let header_offset = inode + 16 + name_length;
          let max_count = (if cnt > size_v - file_offset then size_v - file_offset else cnt);
          ramdisk_read rd (header_offset + file_offset) max_count b }"

text \<open>A 32-bit store into a buffer.\<close>

definition store_word :: "buf \<Rightarrow> nat \<Rightarrow> u32 \<Rightarrow> buf option" where
  "store_word b i w =
     do { b1 \<leftarrow> arr_set b i (ucast w);
          b2 \<leftarrow> arr_set b1 (i + 1) (ucast (drop_bit 8 w));
          b3 \<leftarrow> arr_set b2 (i + 2) (ucast (drop_bit 16 w));
          arr_set b3 (i + 3) (ucast (drop_bit 24 w)) }"

text \<open>The length of a directory record, padded to a word boundary.\<close>

definition dirent_length :: "i32 \<Rightarrow> i32" where
  "dirent_length name_length =
     (let current_length = 12 + name_length + 1 in
      if current_length AND 3 \<noteq> 0 then current_length + (4 - (current_length AND 3)) else current_length)"

text \<open>The stores that fill one record of a listing at \<^verbatim>\<open>dirent_ptr\<close>, here the index \<open>pos\<close>.\<close>

definition write_record :: "ramdisk \<Rightarrow> u32 \<Rightarrow> nat \<Rightarrow> buf \<Rightarrow> i32 \<Rightarrow> i32 \<Rightarrow> buf option" where
  "write_record rd inode pos b name_length current_length =
     do { b1 \<leftarrow> store_word b pos inode;
          b2 \<leftarrow> store_word b1 (pos + 4) current_length;
          b3 \<leftarrow> store_word b2 (pos + 8) current_length;
          (r, d_name) \<leftarrow> romfs_read_string rd (inode + 16) (drop (pos + 12) b3) name_length;
          d_name1 \<leftarrow> arr_set d_name (unat name_length) 0;
          Some (take (pos + 12) b3 @ d_name1) }"

partial_function (option) getdents_loop ::
  "ramdisk \<Rightarrow> u32 \<Rightarrow> buf option \<Rightarrow> u32 \<Rightarrow> buf \<Rightarrow> u32 \<Rightarrow> (u32 \<times> u32 \<times> buf) option" where
  [code]: "getdents_loop rd sz tmp inode b total_length =
     do { tmp1 \<leftarrow> romfs_read_noinc rd tmp inode 4;
          n \<leftarrow> int_of_tmp tmp1;
          let next_header = n AND NOT 15;
          let header_offset = inode + 16;
          name_length \<leftarrow> romfs_string_length rd header_offset;
          let current_length = dirent_length name_length;
          if current_length + total_length > sz then Some (total_length, inode, b)
          else if inode = 0 then Some (total_length, 0xffffffff, b)
          else
            do { b1 \<leftarrow> write_record rd inode (unat total_length) b name_length current_length;
                 getdents_loop rd sz tmp1 next_header b1 (total_length + current_length) } }"

text \<open>The result is the returned value, the new \<^verbatim>\<open>*current_inode\<close> and the buffer.\<close>

definition romfs_getdents :: "ramdisk \<Rightarrow> u32 \<Rightarrow> u32 \<Rightarrow> buf \<Rightarrow> u32 \<Rightarrow> (i32 \<times> u32 \<times> buf) option" where
  "romfs_getdents rd dir_inode current_inode b sz =
     (if current_inode = 0xffffffff then Some (0, current_inode, b)
      else if current_inode = 0 then
        do { tmp1 \<leftarrow> romfs_read_noinc rd None dir_inode 4;
             n \<leftarrow> int_of_tmp tmp1;
             if n AND 7 \<noteq> 1 then Some (- ENOTDIR, current_inode, b)
             else
               do { tmp2 \<leftarrow> romfs_read_noinc rd tmp1 (dir_inode + 4) 4;
                    inode \<leftarrow> int_of_tmp tmp2;
                    getdents_loop rd sz tmp2 inode b 0 } }
      else getdents_loop rd sz None current_inode b 0)"

section \<open>What is on the disk\<close>

text \<open>A range of bytes that lies on the disk, without wrap-around.\<close>

definition on_disk :: "ramdisk \<Rightarrow> u32 \<Rightarrow> nat \<Rightarrow> bool" where
  "on_disk rd off n \<longleftrightarrow> unat off + n \<le> length (rd_data rd) \<and> unat off + n \<le> unat (rd_length rd)"

definition bytes_at :: "ramdisk \<Rightarrow> u32 \<Rightarrow> nat \<Rightarrow> buf" where
  "bytes_at rd off n = take n (drop (unat off) (rd_data rd))"

text \<open>The big-endian number at an offset.\<close>

definition be_word :: "buf \<Rightarrow> u32" where
  "be_word bs = push_bit 24 (ucast (bs ! 0)) OR push_bit 16 (ucast (bs ! 1)) OR
     push_bit 8 (ucast (bs ! 2)) OR ucast (bs ! 3)"

definition word_at :: "ramdisk \<Rightarrow> u32 \<Rightarrow> u32" where
  "word_at rd off = be_word (bytes_at rd off 4)"

lemma u8_bit_high: "8 \<le> n \<Longrightarrow> \<not> bit (b :: u8) n"
  using bit_imp_le_length [of b n] by auto

lemma ntohl_le_word: "ntohl (le_word bs) = be_word bs"
proof (rule bit_word_eqI)
  fix n assume n: "n < LENGTH(32)"
  have c: "bit (255 :: u32) i \<longleftrightarrow> i < 8" "bit (65280 :: u32) i \<longleftrightarrow> 8 \<le> i \<and> i < 16" for i
  proof -
    have m: "(255 :: u32) = mask 8" "(65280 :: u32) = push_bit 8 (mask 8)"
      by (simp_all add: mask_eq_exp_minus_1)
    show "bit (255 :: u32) i \<longleftrightarrow> i < 8" unfolding m(1) by (auto simp only: bit_mask_iff) simp
    show "bit (65280 :: u32) i \<longleftrightarrow> 8 \<le> i \<and> i < 16"
      unfolding m(2) by (auto simp only: bit_mask_iff bit_push_bit_iff) simp_all
  qed
  have n32: "n < 32" using n by simp
  consider "n < 8" | "8 \<le> n" "n < 16" | "16 \<le> n" "n < 24" | "24 \<le> n" by linarith
  then show "bit (ntohl (le_word bs)) n = bit (be_word bs) n"
    unfolding ntohl_def le_word_def be_word_def bit_or_iff bit_and_iff bit_push_bit_iff bit_drop_bit_eq
      o_apply c bit_ucast_iff
    by cases (use n32 in \<open>auto simp: u8_bit_high\<close>)
qed

lemma on_disk_mono: "on_disk rd off n \<Longrightarrow> k \<le> n \<Longrightarrow> on_disk rd off k"
  by (simp add: on_disk_def)

lemma on_disk_shift:
  assumes "on_disk rd off (unat k + n)"
  shows "unat (off + k) = unat off + unat k" and "on_disk rd (off + k) n"
proof -
  have "unat off + unat k < 4294967296" using assms unat_u32_bound [of "rd_length rd"] by (simp add: on_disk_def)
  then show "unat (off + k) = unat off + unat k" by (rule unat_add_small)
  with assms show "on_disk rd (off + k) n" by (simp add: on_disk_def)
qed

lemma memcpy_from_short: "length src < i + n \<Longrightarrow> i \<le> length src \<Longrightarrow> memcpy_from dest src i n = None"
proof (induction n arbitrary: dest i)
  case (Suc n)
  show ?case
  proof (cases "arr_get src i")
    case (Some c)
    then have "i < length src" by (auto simp: arr_get_def split: if_splits)
    with Suc.prems have "length src < Suc i + n" "Suc i \<le> length src" by linarith+
    from Suc.IH [OF this] show ?thesis using Some by (cases "arr_set dest i c") auto
  qed simp
qed simp

lemma memcpy_short: "length src < n \<Longrightarrow> memcpy dest src n = None"
  by (simp add: memcpy_def memcpy_from_short)

text \<open>This is \<^verbatim>\<open>ramdisk_read\<close> into the variable, with the result ignored.\<close>

lemma romfs_read_noinc_ramdisk:
  assumes "length t = n" and "n < 4294967296" and "0 < n"
  shows "romfs_read_noinc rd (Some t) off n = map_option (Some \<circ> snd) (ramdisk_read rd off (of_nat n) t)"
proof -
  have u: "unat (of_nat n :: u32) = n" using assms(2) by (rule unat_of_nat_small)
  show ?thesis
  proof (cases "off + of_nat n > rd_length rd \<or> unat off + n \<le> length (rd_data rd)")
    case True
    then show ?thesis
      using assms(1) memcpy_spec [of n "drop (unat off) (rd_data rd)" t]
      by (auto simp: romfs_read_noinc_def ramdisk_read_def u)
  next
    case False
    then have "memcpy t (drop (unat off) (rd_data rd)) n = None"
      using assms(3) by (intro memcpy_short) auto
    with False show ?thesis by (simp add: romfs_read_noinc_def ramdisk_read_def u)
  qed
qed

lemma romfs_read_noinc_ok:
  assumes "on_disk rd off n"
  shows "romfs_read_noinc rd tmp off n = Some (Some (bytes_at rd off n))"
proof -
  have b: "unat off + n < 4294967296" using assms unat_u32_bound [of "rd_length rd"] by (simp add: on_disk_def)
  then have "unat (of_nat n :: u32) = n" by (simp add: unat_of_nat_small)
  with b have "unat (off + of_nat n) = unat off + n" by (simp add: unat_add_small)
  with assms show ?thesis
    by (simp add: romfs_read_noinc_def on_disk_def bytes_at_def word_less_nat_alt)
qed

lemma int_of_tmp_word [simp]: "int_of_tmp (Some (bytes_at rd off 4)) = Some (word_at rd off)"
  by (simp add: int_of_tmp_def ntohl_le_word word_at_def)

text \<open>
  A file name on the disk: the bytes without nul, padded with nuls to a multiple of 16 with at
  least one.
\<close>

definition name_chunks :: "buf \<Rightarrow> nat" where
  "name_chunks nm = length nm div 16 + 1"

definition name_at :: "ramdisk \<Rightarrow> u32 \<Rightarrow> buf \<Rightarrow> bool" where
  "name_at rd off nm \<longleftrightarrow> 0 \<notin> set nm \<and> on_disk rd off (16 * name_chunks nm) \<and>
     bytes_at rd off (16 * name_chunks nm) = nm @ replicate (16 * name_chunks nm - length nm) 0"

lemma name_at_long:
  assumes "name_at rd off nm" and "16 \<le> length nm"
  shows "on_disk rd off 16" and "bytes_at rd off 16 = take 16 nm" and "name_at rd (off + 16) (drop 16 nm)"
    and "nm ! 15 \<noteq> 0" and "name_chunks nm = Suc (name_chunks (drop 16 nm))"
proof -
  show nc: "name_chunks nm = Suc (name_chunks (drop 16 nm))"
    using assms(2) by (simp add: name_chunks_def le_div_geq)
  have z: "0 \<notin> set nm" and d: "on_disk rd off (16 + 16 * name_chunks (drop 16 nm))"
    and b: "bytes_at rd off (16 + 16 * name_chunks (drop 16 nm)) =
      nm @ replicate (16 + 16 * name_chunks (drop 16 nm) - length nm) 0"
    using assms(1) by (auto simp: name_at_def nc algebra_simps)
  show "on_disk rd off 16" using d by (rule on_disk_mono) simp
  show "bytes_at rd off 16 = take 16 nm"
    using arg_cong [OF b, of "take 16"] assms(2) by (simp add: bytes_at_def)
  have "nm ! 15 \<in> set nm" by (rule nth_mem) (use assms(2) in linarith)
  with z show "nm ! 15 \<noteq> 0" by metis
  have o: "unat (off + 16) = unat off + 16" "on_disk rd (off + 16) (16 * name_chunks (drop 16 nm))"
    using on_disk_shift [of rd off 16 "16 * name_chunks (drop 16 nm)"] d by simp_all
  have "bytes_at rd (off + 16) (16 * name_chunks (drop 16 nm)) =
      drop 16 (bytes_at rd off (16 + 16 * name_chunks (drop 16 nm)))"
    by (simp add: bytes_at_def o(1) drop_take add.commute)
  also have "\<dots> = drop 16 nm @ replicate (16 * name_chunks (drop 16 nm) - length (drop 16 nm)) 0"
    unfolding b using assms(2) by simp
  finally show "name_at rd (off + 16) (drop 16 nm)"
    using z o(2) in_set_dropD by (fastforce simp: name_at_def)
qed

lemma name_at_short:
  assumes "name_at rd off nm" and "length nm < 16"
  shows "on_disk rd off 16" and "bytes_at rd off 16 = nm @ replicate (16 - length nm) 0"
    and "name_chunks nm = 1" and "bytes_at rd off 16 ! 15 = 0"
proof -
  show nc: "name_chunks nm = 1" using assms(2) by (simp add: name_chunks_def)
  then show "on_disk rd off 16" and b: "bytes_at rd off 16 = nm @ replicate (16 - length nm) 0"
    using assms(1) by (simp_all add: name_at_def)
  show "bytes_at rd off 16 ! 15 = 0" unfolding b using assms(2) by (simp add: nth_append)
qed

section \<open>Strings\<close>

lemma strncat_result:
  assumes "terminated dest" and "terminated src \<or> n \<le> length (cstr src)"
    and "length (cstr dest) + length (take n (cstr src)) < length dest"
  shows "\<exists>b. strncat dest src n = Some b \<and> cstr b = cstr dest @ take n (cstr src) \<and> terminated b \<and>
    length b = length dest"
proof -
  let ?t = "cstr dest @ take n (cstr src)"
  have z: "\<forall>c\<in>set ?t. c \<noteq> 0" by (auto simp: cstr_def dest: set_takeWhileD in_set_takeD)
  have "takeWhile (\<lambda>c. c \<noteq> 0) (u @ 0 # v) = u" if "\<forall>c\<in>set u. c \<noteq> 0" for u v :: buf
    using that by (subst takeWhile_append2) auto
  from this [OF z] have "cstr (?t @ 0 # drop (Suc (length ?t)) dest) = ?t" by (simp only: cstr_def)
  moreover have "length (?t @ 0 # drop (Suc (length ?t)) dest) = length dest"
    using assms(3) by simp
  moreover have "strncat dest src n = Some (?t @ 0 # drop (Suc (length ?t)) dest)"
    using strncat_appends [OF assms] by (simp only: Let_def)
  moreover have "terminated (?t @ 0 # drop (Suc (length ?t)) dest)" by (simp add: terminated_def)
  ultimately show ?thesis by blast
qed

lemma sint_sub_16:
  assumes "16 \<le> sint (r :: i32)"
  shows "sint (r - 16) = sint r - 16"
proof -
  have "sint r < 2 ^ 31" using sint_lt [of r] by simp
  with assms show ?thesis by (subst sint_word_ariths) (simp add: signed_take_bit_int_eq_self_iff)
qed

lemma cstr_no_zero: "0 \<notin> set nm \<Longrightarrow> cstr (nm @ replicate k 0) = nm"
  by (induction nm) (cases k; auto)+

lemma name_chunk:
  assumes "0 \<notin> set nm"
  shows "16 \<le> length nm \<Longrightarrow> cstr (take 16 nm) = take 16 nm"
    and "length nm < 16 \<Longrightarrow> cstr (nm @ replicate (16 - length nm) 0) = nm \<and>
      terminated (nm @ replicate (16 - length nm) 0)"
proof -
  have "0 \<notin> set (take 16 nm)" using assms in_set_takeD by fast
  then show "cstr (take 16 nm) = take 16 nm" using cstr_no_zero [of "take 16 nm" 0] by simp
  show "length nm < 16 \<Longrightarrow> cstr (nm @ replicate (16 - length nm) 0) = nm \<and>
      terminated (nm @ replicate (16 - length nm) 0)"
    using cstr_no_zero [OF assms] by (simp add: terminated_def)
qed

lemma read_string_loop_spec:
  assumes "name_at rd off nm" and "int (length nm) \<le> sint m" and "terminated b"
    and "length (cstr b) + length nm < length b"
  shows "\<exists>b'. read_string_loop rd tmp off m b = Some (off + of_nat (16 * name_chunks nm), b') \<and>
    cstr b' = cstr b @ nm \<and> terminated b' \<and> length b' = length b"
  using assms
proof (induction "length nm" arbitrary: nm off m b tmp rule: less_induct)
  case less
  have z: "0 \<notin> set nm" using less.prems(1) by (simp add: name_at_def)
  show ?case
  proof (cases "length nm < 16")
    case True
    note s = name_at_short [OF less.prems(1) True]
    note c = name_chunk(2) [OF z True]
    have rd: "romfs_read_noinc rd tmp off 16 = Some (Some (bytes_at rd off 16))"
      using s(1) by (rule romfs_read_noinc_ok)
    show ?thesis
    proof (cases "0 < sint m")
      case pos: True
      let ?n = "if 16 < sint m then 16 else unat m"
      have "int (unat m) = sint m" using unat_of_sint [of m] pos by simp
      then have "length nm \<le> unat m" using less.prems(2) by linarith
      then have n: "length nm \<le> ?n" using True by simp
      obtain b' where b': "strncat b (bytes_at rd off 16) ?n = Some b'" "cstr b' = cstr b @ nm"
        "terminated b'" "length b' = length b"
        using strncat_result [OF less.prems(3), of "bytes_at rd off 16" ?n] c n less.prems(4)
        unfolding s(2) by auto
      have "read_string_loop rd tmp off m b = Some (off + of_nat (16 * name_chunks nm), b')"
        by (subst read_string_loop.simps) (simp add: rd pos b'(1) s(3,4))
      with b' show ?thesis by blast
    next
      case False
      then have "length nm = 0" using less.prems(2) by linarith
      then have "nm = []" by simp
      moreover have "read_string_loop rd tmp off m b = Some (off + of_nat (16 * name_chunks nm), b)"
        by (subst read_string_loop.simps) (simp add: rd False s(3,4))
      ultimately show ?thesis using less.prems(3) by simp
    qed
  next
    case False
    then have l: "16 \<le> length nm" by simp
    note s = name_at_long [OF less.prems(1) l]
    have rd: "romfs_read_noinc rd tmp off 16 = Some (Some (take 16 nm))"
      using romfs_read_noinc_ok [OF s(1)] s(2) by simp
    have m16: "16 \<le> sint m" using l less.prems(2) by linarith
    moreover have "int (unat m) = sint m" using unat_of_sint [of m] m16 by simp
    then have "\<not> 16 < sint m \<Longrightarrow> unat m = 16" using m16 by linarith
    ultimately have n: "(if 16 < sint m then 16 else unat m) = 16" by simp
    obtain b1 where b1: "strncat b (take 16 nm) 16 = Some b1" "cstr b1 = cstr b @ take 16 nm"
      "terminated b1" "length b1 = length b"
      using strncat_result [OF less.prems(3), of "take 16 nm" 16] name_chunk(1) [OF z l] less.prems(4) l
      by auto
    have "length (drop 16 nm) < length nm" using l by simp
    moreover have "int (length (drop 16 nm)) \<le> sint (m - 16)"
      using less.prems(2) l sint_sub_16 [OF m16] by simp
    moreover have "length (cstr b1) + length (drop 16 nm) < length b1"
      using b1(2,4) less.prems(4) l by simp
    ultimately obtain b' where b': "read_string_loop rd (Some (take 16 nm)) (off + 16) (m - 16) b1 =
        Some (off + 16 + of_nat (16 * name_chunks (drop 16 nm)), b')"
      "cstr b' = cstr b1 @ drop 16 nm" "terminated b'" "length b' = length b1"
      using less.hyps [of "drop 16 nm" "off + 16" "m - 16" b1] s(3) b1(3) by blast
    have "read_string_loop rd tmp off m b = Some (off + of_nat (16 * name_chunks nm), b')"
      using b'(1) m16 l s(4) by (subst read_string_loop.simps) (simp add: rd n b1(1) s(5) algebra_simps)
    with b' b1 show ?thesis by simp
  qed
qed

lemma romfs_read_string_spec:
  assumes "name_at rd off nm" and "int (length nm) \<le> sint m" and "length nm < length b"
  shows "\<exists>b'. romfs_read_string rd off b m = Some (of_nat (16 * name_chunks nm), b') \<and>
    cstr b' = nm \<and> terminated b' \<and> length b' = length b"
proof -
  obtain x xs where b: "b = x # xs" using assms(3) by (cases b) auto
  have "\<exists>b'. read_string_loop rd None off m (0 # xs) = Some (off + of_nat (16 * name_chunks nm), b') \<and>
    cstr b' = nm \<and> terminated b' \<and> length b' = length b"
    using read_string_loop_spec [OF assms(1,2), of "0 # xs" None] assms(3) b by simp
  then show ?thesis by (auto simp: romfs_read_string_def b)
qed

lemma string_chunks_loop_spec:
  "name_at rd off nm \<Longrightarrow> string_chunks_loop rd tmp off m = Some (m + of_nat (16 * name_chunks nm))"
proof (induction "length nm" arbitrary: nm off m tmp rule: less_induct)
  case less
  show ?case
  proof (cases "length nm < 16")
    case True
    note s = name_at_short [OF less.prems True]
    show ?thesis
      by (subst string_chunks_loop.simps) (simp add: romfs_read_noinc_ok [OF s(1)] s(3,4))
  next
    case False
    then have l: "16 \<le> length nm" by simp
    note s = name_at_long [OF less.prems l]
    have "length (drop 16 nm) < length nm" using l by simp
    from less.hyps [OF this s(3)] l s(4) show ?thesis
      by (subst string_chunks_loop.simps) (simp add: romfs_read_noinc_ok [OF s(1)] s(2,5) algebra_simps)
  qed
qed

lemma string_length_loop_spec:
  "name_at rd off nm \<Longrightarrow> string_length_loop rd tmp off m = Some (m + of_nat (length nm))"
proof (induction "length nm" arbitrary: nm off m tmp rule: less_induct)
  case less
  have z: "0 \<notin> set nm" using less.prems(1) by (simp add: name_at_def)
  show ?case
  proof (cases "length nm < 16")
    case True
    note s = name_at_short [OF less.prems True]
    have "strlen (bytes_at rd off 16) = Some (length nm)"
      using name_chunk(2) [OF z True] s(2) by (simp add: strlen_cstr)
    then show ?thesis
      by (subst string_length_loop.simps) (simp add: romfs_read_noinc_ok [OF s(1)] s(4))
  next
    case False
    then have l: "16 \<le> length nm" by simp
    note s = name_at_long [OF less.prems l]
    have "length (drop 16 nm) < length nm" using l by simp
    from less.hyps [OF this s(3)] l s(4) show ?thesis
      by (subst string_length_loop.simps)
        (simp add: romfs_read_noinc_ok [OF s(1)] s(2) of_nat_diff algebra_simps)
  qed
qed

section \<open>Directories\<close>

text \<open>The header of a file or directory at offset \<open>i\<close>, with the name \<open>nm\<close>.\<close>

definition header_at :: "ramdisk \<Rightarrow> u32 \<Rightarrow> buf \<Rightarrow> bool" where
  "header_at rd i nm \<longleftrightarrow> on_disk rd i 16 \<and> name_at rd (i + 16) nm \<and> length nm < 256"

text \<open>The entries of a directory, linked by the next field; the low bits of that field are flags.\<close>

fun dir_chain :: "ramdisk \<Rightarrow> u32 \<Rightarrow> (u32 \<times> buf) list \<Rightarrow> bool" where
  "dir_chain rd i [] \<longleftrightarrow> i = 0"
| "dir_chain rd i ((j, nm) # es) \<longleftrightarrow> i = j \<and> j \<noteq> 0 \<and> header_at rd j nm \<and>
     dir_chain rd (word_at rd j AND NOT 15) es"

text \<open>Hard links lead from one header to another until a header of another type.\<close>

inductive resolves :: "ramdisk \<Rightarrow> u32 \<Rightarrow> u32 \<Rightarrow> bool" for rd where
  here: "on_disk rd i 8 \<Longrightarrow> word_at rd i AND 7 \<noteq> 0 \<Longrightarrow> resolves rd i i"
| link: "on_disk rd i 8 \<Longrightarrow> word_at rd i AND 7 = 0 \<Longrightarrow> resolves rd (word_at rd (i + 4)) j \<Longrightarrow> resolves rd i j"

lemma header_words:
  assumes "on_disk rd i 8"
  shows "romfs_read_noinc rd tmp i 4 = Some (Some (bytes_at rd i 4))"
    and "romfs_read_noinc rd tmp (i + 4) 4 = Some (Some (bytes_at rd (i + 4) 4))"
proof -
  show "romfs_read_noinc rd tmp i 4 = Some (Some (bytes_at rd i 4))"
    using on_disk_mono [OF assms, of 4] by (simp add: romfs_read_noinc_ok)
  show "romfs_read_noinc rd tmp (i + 4) 4 = Some (Some (bytes_at rd (i + 4) 4))"
    using on_disk_shift(2) [of rd i 4 4] assms by (simp add: romfs_read_noinc_ok)
qed

lemma follow_links_resolves: "resolves rd i j \<Longrightarrow> follow_links_loop rd tmp i = Some j"
proof (induction arbitrary: tmp rule: resolves.induct)
  case (here i)
  then show ?case by (subst follow_links_loop.simps) (simp add: header_words)
next
  case (link i j)
  then show ?case by (subst follow_links_loop.simps) (simp add: header_words)
qed

lemma strncmp_name:
  assumes "terminated s" and "terminated t" and "length (cstr t) < n"
  shows "\<exists>r. strncmp s t n = Some r \<and> (r = 0 \<longleftrightarrow> cstr t = cstr s)"
proof -
  obtain r where r: "strncmp s t n = Some r" "r = 0 \<longleftrightarrow> take n (cstr s) = take n (cstr t)"
    using strncmp_spec [OF assms(1,2)] by blast
  have "take n (cstr s) = take n (cstr t) \<longleftrightarrow> cstr s = cstr t"
  proof
    assume e: "take n (cstr s) = take n (cstr t)"
    then have "length (take n (cstr s)) < n" using assms(3) by simp
    then have "length (cstr s) < n" by simp
    with e assms(3) show "cstr s = cstr t" by simp
  qed simp
  with r show ?thesis by auto
qed

lemma get_inode_loop_spec:
  assumes "dir_chain rd i es" and "es \<noteq> []" and "terminated nm"
  shows "get_inode_loop rd nm tmp i = (case find (\<lambda>e. snd e = cstr nm) es of
      None \<Rightarrow> Some (-1) | Some e \<Rightarrow> romfs_inode_follow_links rd (fst e))"
  using assms(1,2)
proof (induction es arbitrary: i tmp)
  case Nil
  then show ?case by simp
next
  case (Cons e es)
  obtain n where e: "e = (i, n)" using Cons.prems(1) by (cases e) auto
  let ?nx = "word_at rd i AND NOT 15"
  have h: "on_disk rd i 16" "name_at rd (i + 16) n" "length n < 256" and ch: "dir_chain rd ?nx es"
    using Cons.prems(1) by (auto simp: e header_at_def)
  have rd: "romfs_read_noinc rd tmp i 4 = Some (Some (bytes_at rd i 4))"
    using on_disk_mono [OF h(1), of 4] by (simp add: romfs_read_noinc_ok)
  obtain b where b: "romfs_read_string rd (i + 16) (replicate 256 0) 256 =
      Some (of_nat (16 * name_chunks n), b)" "cstr b = n" "terminated b"
    using romfs_read_string_spec [OF h(2), of 256 "replicate 256 0"] h(3) by auto
  obtain r where r: "strncmp nm b 256 = Some r" "r = 0 \<longleftrightarrow> n = cstr nm"
    using strncmp_name [OF assms(3) b(3), of 256] b(2) h(3) by auto
  have step: "get_inode_loop rd nm tmp i = (if n = cstr nm then romfs_inode_follow_links rd i
      else if ?nx = 0 then Some (-1) else get_inode_loop rd nm (Some (bytes_at rd i 4)) ?nx)"
    by (subst get_inode_loop.simps) (simp add: rd b(1) r MAX_FILENAME_SIZE_def cong: if_cong)
  show ?case
  proof (cases "n = cstr nm")
    case True
    then show ?thesis unfolding step by (simp add: e)
  next
    case False
    show ?thesis
    proof (cases es)
      case Nil
      with ch False show ?thesis unfolding step by (simp add: e)
    next
      case (Cons e' es')
      then have "?nx \<noteq> 0" using ch by (cases e') auto
      with False Cons.IH [OF ch] Cons show ?thesis unfolding step by (simp add: e)
    qed
  qed
qed

lemma romfs_get_inode_spec:
  assumes "on_disk rd d 8" and "word_at rd d AND 7 = 1" and "dir_chain rd (word_at rd (d + 4)) es"
    and "es \<noteq> []" and "terminated nm" and "\<forall>e\<in>set es. resolves rd (fst e) (T (fst e))"
  shows "romfs_get_inode rd d nm = Some (case find (\<lambda>e. snd e = cstr nm) es of
      None \<Rightarrow> -1 | Some e \<Rightarrow> T (fst e))"
proof -
  have l: "romfs_get_inode rd d nm = get_inode_loop rd nm (Some (bytes_at rd (d + 4) 4)) (word_at rd (d + 4))"
    using header_words [OF assms(1)] assms(2) by (simp add: romfs_get_inode_def)
  show ?thesis
  proof (cases "find (\<lambda>e. snd e = cstr nm) es")
    case None
    then show ?thesis using l get_inode_loop_spec [OF assms(3,4,5)] by simp
  next
    case (Some e)
    then have "e \<in> set es" by (auto simp: find_Some_iff)
    then have "romfs_inode_follow_links rd (fst e) = Some (T (fst e))"
      using assms(6) follow_links_resolves by (simp add: romfs_inode_follow_links_def)
    with Some show ?thesis using l get_inode_loop_spec [OF assms(3,4,5)] by simp
  qed
qed

text \<open>
  Looking a name up in a directory of a well-formed disk always returns: the inode that the
  first entry with exactly that name leads to through its hard links, or -1 when no entry has the
  name.
\<close>

lemma romfs_get_inode_correct:
  assumes "on_disk rd d 8" and "word_at rd d AND 7 = 1" and "dir_chain rd (word_at rd (d + 4)) es"
    and "es \<noteq> []" and "terminated nm" and "\<forall>e\<in>set es. resolves rd (fst e) (T (fst e))"
  shows "romfs_get_inode rd d nm = Some (case find (\<lambda>e. snd e = cstr nm) es of
      None \<Rightarrow> -1 | Some e \<Rightarrow> T (fst e))"
  using romfs_get_inode_spec [OF assms] .

text \<open>
  A disk with a root directory that holds itself and one file \<^verbatim>\<open>hello\<close> with the contents
  \<^verbatim>\<open>world\<close>.
\<close>

definition demo_disk :: ramdisk where
  "demo_disk = \<lparr>rd_data = [45, 114, 111, 109, 49, 102, 115, 45, 0, 0, 0, 112, 0, 0, 0, 0,
     116, 101, 115, 116, 0, 0, 0, 0, 0, 0, 0, 0, 0, 0, 0, 0,
     0, 0, 0, 73, 0, 0, 0, 32, 0, 0, 0, 0, 0, 0, 0, 0,
     46, 0, 0, 0, 0, 0, 0, 0, 0, 0, 0, 0, 0, 0, 0, 0,
     0, 0, 0, 2, 0, 0, 0, 0, 0, 0, 0, 5, 0, 0, 0, 0,
     104, 101, 108, 108, 111, 0, 0, 0, 0, 0, 0, 0, 0, 0, 0, 0,
     119, 111, 114, 108, 100, 0, 0, 0, 0, 0, 0, 0, 0, 0, 0, 0], rd_length = 112\<rparr>"

definition demo_entries :: "(u32 \<times> buf) list" where
  "demo_entries = [(32, [46]), (64, [104, 101, 108, 108, 111])]"

lemma demo_words:
  "word_at demo_disk 32 = 73" "word_at demo_disk 36 = 32" "word_at demo_disk 64 = 2"
  "word_at demo_disk 72 = 5" "word_at demo_disk 68 = 0"
  by (simp_all add: word_at_def be_word_def bytes_at_def demo_disk_def)

lemma demo_on_disk: "unat off + n \<le> 112 \<Longrightarrow> on_disk demo_disk off n"
  by (simp add: on_disk_def demo_disk_def)

lemma demo_bytes:
  "bytes_at demo_disk 48 16 = [46] @ replicate 15 0"
  "bytes_at demo_disk 80 16 = [104, 101, 108, 108, 111] @ replicate 11 0"
  "bytes_at demo_disk 16 16 = [116, 101, 115, 116] @ replicate 12 0"
  by (simp_all add: bytes_at_def demo_disk_def, simp_all add: eval_nat_numeral)

lemma demo_names:
  "name_at demo_disk 48 [46]" "name_at demo_disk 80 [104, 101, 108, 108, 111]"
  "name_at demo_disk 16 [116, 101, 115, 116]"
  using demo_bytes by (simp_all add: name_at_def demo_on_disk name_chunks_def)

lemma demo_chain: "dir_chain demo_disk 32 demo_entries"
  by (simp add: demo_entries_def header_at_def demo_names demo_words demo_on_disk)

lemma demo_resolves: "\<forall>e\<in>set demo_entries. resolves demo_disk (fst e) (fst e)"
  by (auto simp: demo_entries_def demo_words demo_on_disk intro!: resolves.here)

section \<open>File contents\<close>

lemma ramdisk_read_ok:
  assumes "on_disk rd off (unat len)" and "unat len \<le> length dest"
  shows "ramdisk_read rd off len dest = Some (len, bytes_at rd off (unat len) @ drop (unat len) dest)"
proof -
  have "unat off + unat len < 4294967296"
    using assms(1) unat_u32_bound [of "rd_length rd"] by (simp add: on_disk_def)
  then have "unat (off + len) = unat off + unat len" by (rule unat_add_small)
  then have "\<not> off + len > rd_length rd" using assms(1) by (simp add: on_disk_def word_less_nat_alt)
  moreover have "memcpy dest (drop (unat off) (rd_data rd)) (unat len) =
      Some (take (unat len) (drop (unat off) (rd_data rd)) @ drop (unat len) dest)"
    using assms by (intro memcpy_spec) (auto simp: on_disk_def)
  ultimately show ?thesis by (simp add: ramdisk_read_def bytes_at_def)
qed

text \<open>Where the contents of a file begin.\<close>

definition data_start :: "u32 \<Rightarrow> buf \<Rightarrow> u32" where
  "data_start i nm = i + 16 + of_nat (16 * name_chunks nm)"

lemma romfs_read_file_spec:
  assumes "header_at rd i nm" and "on_disk rd (data_start i nm) (unat (word_at rd (i + 8)))"
    and "file_offset \<le> word_at rd (i + 8)" and "unat cnt \<le> length b"
  shows "romfs_read_file rd i file_offset b cnt =
    (let n = min (unat cnt) (unat (word_at rd (i + 8)) - unat file_offset) in
     Some (of_nat n, take n (drop (unat file_offset)
       (bytes_at rd (data_start i nm) (unat (word_at rd (i + 8))))) @ drop n b))"
proof -
  let ?sz = "word_at rd (i + 8)" and ?ds = "data_start i nm"
  let ?n = "min (unat cnt) (unat ?sz - unat file_offset)"
  have fo: "unat file_offset \<le> unat ?sz" using assms(3) by (simp add: word_le_nat_alt)
  have h: "on_disk rd i 16" "name_at rd (i + 16) nm" using assms(1) by (auto simp: header_at_def)
  have sz: "romfs_read_noinc rd None (i + 8) 4 = Some (Some (bytes_at rd (i + 8) 4))"
    using on_disk_shift(2) [of rd i 8 4] on_disk_mono [OF h(1), of 12] by (simp add: romfs_read_noinc_ok)
  have nl: "romfs_string_length_chunks rd (i + 16) = Some (of_nat (16 * name_chunks nm))"
    using string_chunks_loop_spec [OF h(2), of None 0] by (simp add: romfs_string_length_chunks_def)
  define mc where "mc = (if cnt > ?sz - file_offset then ?sz - file_offset else cnt)"
  have mc: "unat mc = ?n"
    using unat_sub_le [OF fo] by (auto simp: mc_def word_less_nat_alt not_less)
  have od: "on_disk rd ?ds (unat file_offset + unat mc)"
    using on_disk_mono [OF assms(2), of "unat file_offset + unat mc"] fo mc by simp
  note sh = on_disk_shift [OF od]
  have "romfs_read_file rd i file_offset b cnt = ramdisk_read rd (?ds + file_offset) mc b"
    by (simp add: romfs_read_file_def sz nl mc_def data_start_def Let_def)
  also have "\<dots> = Some (mc, bytes_at rd (?ds + file_offset) (unat mc) @ drop (unat mc) b)"
    using sh(2) mc assms(4) by (intro ramdisk_read_ok) simp_all
  also have "bytes_at rd (?ds + file_offset) (unat mc) =
      take (unat mc) (drop (unat file_offset) (bytes_at rd ?ds (unat ?sz)))"
    unfolding bytes_at_def sh(1) using fo mc
    by (simp add: drop_take min_def add.commute [of "unat ?ds" "unat file_offset"])
  finally have "romfs_read_file rd i file_offset b cnt = Some (mc, take (unat mc)
      (drop (unat file_offset) (bytes_at rd ?ds (unat ?sz))) @ drop (unat mc) b)" .
  moreover have "mc = of_nat ?n" by (simp add: mc [symmetric])
  ultimately show ?thesis unfolding mc Let_def by simp
qed

text \<open>
  \<^verbatim>\<open>romfs_read_file\<close> returns the bytes of the file from the given position on, as many as asked
  for and never more than the file has left; it fills the buffer with exactly these bytes and
  leaves the rest of the buffer alone. At the end of the file it returns 0.
\<close>

lemma romfs_read_file_correct:
  assumes "header_at rd i nm" and "on_disk rd (data_start i nm) (unat (word_at rd (i + 8)))"
    and "file_offset \<le> word_at rd (i + 8)" and "unat cnt \<le> length b"
  shows "romfs_read_file rd i file_offset b cnt =
    (let n = min (unat cnt) (unat (word_at rd (i + 8)) - unat file_offset) in
     Some (of_nat n, take n (drop (unat file_offset)
       (bytes_at rd (data_start i nm) (unat (word_at rd (i + 8))))) @ drop n b))"
  using romfs_read_file_spec [OF assms] .

section \<open>Mounting and file status\<close>

lemma memcmp_from_self: "n \<le> length s \<Longrightarrow> i \<le> n \<Longrightarrow> n \<le> length t \<Longrightarrow> take n s = take n t \<Longrightarrow>
    memcmp_from s t i n = Some 0"
proof (induction "n - i" arbitrary: i)
  case 0
  then show ?case by (simp add: memcmp_from.simps)
next
  case (Suc d)
  then have i: "i < n" by simp
  then have "s ! i = t ! i" using Suc.prems(4) by (metis nth_take)
  with Suc i show ?case by (subst memcmp_from.simps) (simp add: Let_def)
qed

text \<open>Mounting a disk with the right magic number gives the offset behind the volume name.\<close>

lemma romfs_mount_spec:
  assumes "on_disk rd 0 16" and "bytes_at rd 0 8 = butlast (lit ''-rom1fs-'')" and "name_at rd 16 vol"
    and "length vol \<le> 16"
  shows "romfs_mount rd = Some (16 + of_nat (16 * name_chunks vol))"
proof -
  have r: "romfs_read_noinc rd tmp off n = Some (Some (bytes_at rd off n))" if "unat off + n \<le> 16" for tmp off n
  proof (rule romfs_read_noinc_ok)
    show "on_disk rd off n" using assms(1) that by (simp add: on_disk_def)
  qed
  have l: "length (bytes_at rd 0 8) = 8" using assms(1) by (simp add: bytes_at_def on_disk_def)
  have "memcmp (bytes_at rd 0 8) (lit ''-rom1fs-'') 8 = Some 0"
    unfolding memcmp_def using assms(2) l by (intro memcmp_from_self) (simp_all add: lit_def)
  moreover obtain b where "romfs_read_string rd 16 (replicate 17 0) 16 = Some (of_nat (16 * name_chunks vol), b)"
    using romfs_read_string_spec [OF assms(3), of 16 "replicate 17 0"] assms(4) by auto
  ultimately show ?thesis by (simp add: romfs_mount_def r)
qed

lemma resolves_end: "resolves rd i j \<Longrightarrow> word_at rd j AND 7 \<noteq> 0"
  by (induction rule: resolves.induct)

lemma stat_loop_resolves: "resolves rd i j \<Longrightarrow> \<exists>t. stat_loop rd tmp i = stat_loop rd t j"
proof (induction arbitrary: tmp rule: resolves.induct)
  case (link i j)
  then have "stat_loop rd tmp i = stat_loop rd (Some (bytes_at rd (i + 4) 4)) (word_at rd (i + 4))"
    by (subst stat_loop.simps) (simp add: header_words Let_def)
  with link.IH show ?case by metis
qed blast

lemma and_7_cases: "(w :: u32) AND 7 \<in> {0, 1, 2, 3, 4, 5, 6, 7}"
proof -
  have "w AND 7 \<le> 7" by (rule word_and_le1)
  then have "unat (w AND 7) \<le> 7" by (simp add: word_le_nat_alt)
  then have "unat (w AND 7) \<in> {0, 1, 2, 3, 4, 5, 6, 7}" by auto
  then show ?thesis by (auto simp: word_unat_eq_iff)
qed

text \<open>\<^verbatim>\<open>romfs_stat\<close> follows hard links and reports the size and the type of what they lead to.\<close>

lemma romfs_stat_spec:
  assumes "resolves rd i j" and "on_disk rd j 12"
  shows "\<exists>st. romfs_stat rd i = Some (0, st) \<and> st_ino st = j \<and> st_size st = word_at rd (j + 8) \<and>
    (word_at rd j AND 7 = 1 \<longleftrightarrow> st_mode st AND S_IFMT = S_IFDIR) \<and>
    (word_at rd j AND 8 \<noteq> 0 \<longleftrightarrow> st_mode st AND 1 \<noteq> 0)"
proof -
  define md :: i32 where "md = (if word_at rd j AND 8 \<noteq> 0 then 0x1b6 OR 0x49 else 0x1b6)"
  define st where "st = (stat_type (word_at rd j AND 7) (word_at rd (j + 4))
    (zero_stat\<lparr>st_ino := j, st_mode := md\<rparr>))\<lparr>st_size := word_at rd (j + 8)\<rparr>"
  have r8: "romfs_read_noinc rd tmp (j + 8) 4 = Some (Some (bytes_at rd (j + 8) 4))" for tmp
    using on_disk_shift(2) [of rd j 8 4] assms(2) by (simp add: romfs_read_noinc_ok)
  have j8: "on_disk rd j 8" using assms(2) by (rule on_disk_mono) simp
  obtain t where "stat_loop rd None i = stat_loop rd t j" using stat_loop_resolves [OF assms(1)] by blast
  also have "\<dots> = Some st"
    using resolves_end [OF assms(1)]
    by (subst stat_loop.simps) (simp add: header_words [OF j8] r8 Let_def st_def md_def)
  finally have "romfs_stat rd i = Some (0, st)" by (simp add: romfs_stat_def)
  moreover have "st_ino st = j" "st_size st = word_at rd (j + 8)"
    by (auto simp: st_def stat_type_def zero_stat_def)
  moreover have "(word_at rd j AND 7 = 1 \<longleftrightarrow> st_mode st AND S_IFMT = S_IFDIR) \<and>
      (word_at rd j AND 8 \<noteq> 0 \<longleftrightarrow> st_mode st AND 1 \<noteq> 0)"
  proof (cases "word_at rd j AND 8 = 0")
    case True
    then have "md = 0x1b6" by (simp add: md_def)
    with True and_7_cases [of "word_at rd j"] show ?thesis by (auto simp: st_def stat_type_def mode_defs)
  next
    case False
    then have "md = 0x1ff" by (simp add: md_def)
    with False and_7_cases [of "word_at rd j"] show ?thesis by (auto simp: st_def stat_type_def mode_defs)
  qed
  ultimately show ?thesis by blast
qed

section \<open>Directory listings\<close>

text \<open>The length of the record for a name, and the records that a listing leaves in the buffer.\<close>

definition reclen :: "buf \<Rightarrow> nat" where
  "reclen nm = 4 * ((length nm + 16) div 4)"

fun records_at :: "buf \<Rightarrow> nat \<Rightarrow> (u32 \<times> buf) list \<Rightarrow> bool" where
  "records_at b pos [] \<longleftrightarrow> True"
| "records_at b pos ((j, nm) # es) \<longleftrightarrow> pos + reclen nm \<le> length b \<and>
     le_word (take 4 (drop pos b)) = j \<and>
     le_word (take 4 (drop (pos + 4) b)) = of_nat (reclen nm) \<and>
     le_word (take 4 (drop (pos + 8) b)) = of_nat (reclen nm) \<and>
     cstr (drop (pos + 12) b) = nm \<and> records_at b (pos + reclen nm) es"

definition total_reclen :: "(u32 \<times> buf) list \<Rightarrow> nat" where
  "total_reclen es = sum_list (map (reclen \<circ> snd) es)"

lemma reclen_bounds: "length nm + 13 \<le> reclen nm" "reclen nm \<le> length nm + 16"
  unfolding reclen_def by presburger+

lemma dirent_length_name:
  assumes "length nm < 256"
  shows "dirent_length (of_nat (length nm)) = of_nat (reclen nm)"
proof -
  let ?n = "length nm + 13"
  have e: "(12 :: i32) + of_nat (length nm) + 1 = of_nat ?n" by simp
  have m3: "(of_nat ?n :: i32) AND 3 = of_nat (?n mod 4)"
  proof -
    have "(3 :: i32) = mask 2" by (simp add: mask_eq_exp_minus_1)
    then have "(of_nat ?n :: i32) AND 3 = take_bit 2 (of_nat ?n)" by (simp only: take_bit_eq_mask)
    also have "\<dots> = of_nat (take_bit 2 ?n)" by (simp only: take_bit_of_nat)
    finally show ?thesis by (simp add: take_bit_eq_mod)
  qed
  have "?n mod 4 < 4" by simp
  then have "unat (of_nat (?n mod 4) :: i32) = ?n mod 4" by (intro unat_of_nat_small) linarith
  then have z: "(of_nat (?n mod 4) :: i32) = 0 \<longleftrightarrow> ?n mod 4 = 0" by (simp only: unat_eq_zero [symmetric])
  have r: "reclen nm = (if ?n mod 4 = 0 then ?n else ?n + (4 - ?n mod 4))"
    unfolding reclen_def by (cases "?n mod 4 = 0"; presburger)
  show ?thesis
    unfolding dirent_length_def Let_def e m3 z r by (simp add: of_nat_diff)
qed

lemma store_word_spec:
  assumes "i + 4 \<le> length b"
  shows "\<exists>b'. store_word b i w = Some b' \<and> length b' = length b \<and> take i b' = take i b \<and>
    drop (i + 4) b' = drop (i + 4) b \<and> le_word (take 4 (drop i b')) = w"
proof -
  let ?b = "b[i := ucast w, i + 1 := ucast (drop_bit 8 w), i + 2 := ucast (drop_bit 16 w),
    i + 3 := ucast (drop_bit 24 w)]"
  have s: "store_word b i w = Some ?b" using assms by (simp add: store_word_def)
  have "le_word (take 4 (drop i ?b)) = w"
  proof (rule bit_word_eqI)
    fix n assume "n < LENGTH(32)"
    then have n32: "n < 32" by simp
    consider "n < 8" | "8 \<le> n" "n < 16" | "16 \<le> n" "n < 24" | "24 \<le> n" by linarith
    then show "bit (le_word (take 4 (drop i ?b))) n = bit w n"
      unfolding le_word_def bit_or_iff bit_push_bit_iff bit_ucast_iff
      by cases (use n32 assms in \<open>auto simp: bit_ucast_iff bit_drop_bit_eq u8_bit_high\<close>)
  qed
  with s show ?thesis by (intro exI [of _ ?b]) (simp add: drop_update_cancel)
qed
lemma le_word_stable: "take k x = take k y \<Longrightarrow> i + 4 \<le> k \<Longrightarrow> take 4 (drop i x) = take 4 (drop i (y :: buf))"
proof -
  assume a: "take k x = take k y" "i + 4 \<le> k"
  have "take 4 (drop i z) = take 4 (drop i (take k z))" for z :: buf
    using a(2) by (simp add: drop_take min_def)
  then show ?thesis using a(1) by metis
qed

lemma cstr_terminator:
  "terminated x \<Longrightarrow> x = cstr x @ 0 # drop (Suc (length (cstr x))) x"
  by (induction x) (auto simp: terminated_def cstr_def)

lemma cstr_stable:
  assumes "terminated x" and "length (cstr x) < k" and "take k x = take k y"
  shows "cstr y = cstr x"
proof -
  let ?n = "length (cstr x)"
  have z: "0 \<notin> set (cstr x)" by (auto simp: cstr_def dest: set_takeWhileD)
  have "take (Suc ?n) x = cstr x @ [0]" by (subst cstr_terminator [OF assms(1)]) simp
  moreover have "take (Suc ?n) x = take (Suc ?n) y"
    using arg_cong [OF assms(3), of "take (Suc ?n)"] assms(2) by (simp add: min_def)
  ultimately have "y = cstr x @ 0 # drop (Suc ?n) y"
    by (metis append.assoc append_Cons append_Nil append_take_drop_id)
  moreover have "cstr (cstr x @ 0 # drop (Suc ?n) y) = cstr x"
    using z unfolding cstr_def by (subst takeWhile_append2) auto
  ultimately show ?thesis by simp
qed

lemma write_record_spec:
  assumes "name_at rd (i + 16) nm" and "length nm < 256" and "pos + reclen nm \<le> length b"
  shows "\<exists>b'. write_record rd i pos b (of_nat (length nm)) (of_nat (reclen nm)) = Some b' \<and>
    length b' = length b \<and> take pos b' = take pos b \<and> terminated (drop (pos + 12) b') \<and>
    records_at b' pos [(i, nm)]"
proof -
  note rb = reclen_bounds [of nm]
  let ?w = "of_nat (reclen nm) :: u32"
  obtain b1 where b1: "store_word b pos i = Some b1" "length b1 = length b" "take pos b1 = take pos b"
      "le_word (take 4 (drop pos b1)) = i"
    using store_word_spec [of pos b i] assms(3) rb by fastforce
  obtain b2 where b2: "store_word b1 (pos + 4) ?w = Some b2" "length b2 = length b"
      "take (pos + 4) b2 = take (pos + 4) b1" "le_word (take 4 (drop (pos + 4) b2)) = ?w"
    using store_word_spec [of "pos + 4" b1 ?w] assms(3) rb b1(2) by fastforce
  obtain b3 where b3: "store_word b2 (pos + 8) ?w = Some b3" "length b3 = length b"
      "take (pos + 8) b3 = take (pos + 8) b2" "le_word (take 4 (drop (pos + 8) b3)) = ?w"
    using store_word_spec [of "pos + 8" b2 ?w] assms(3) rb b2(2) by fastforce
  have u: "unat (of_nat (length nm) :: i32) = length nm"
    using assms(2) by (intro unat_of_nat_small) linarith
  have s: "sint (of_nat (length nm) :: i32) = int (length nm)"
    using assms(2) by (subst sint_uint) (simp add: uint_nat u signed_take_bit_int_eq_self_iff)
  obtain d where d: "romfs_read_string rd (i + 16) (drop (pos + 12) b3) (of_nat (length nm)) =
      Some (of_nat (16 * name_chunks nm), d)" "cstr d = nm" "terminated d"
      "length d = length b - (pos + 12)"
  proof -
    have "length nm < length (drop (pos + 12) b3)" using assms(3) rb b3(2) by simp
    then show thesis using romfs_read_string_spec [OF assms(1), of "of_nat (length nm)"] s that b3(2) by fastforce
  qed
  have dl: "length nm < length d" using d(4) assms(3) rb by simp
  have "d ! length nm = 0"
    using cstr_terminator [OF d(3)] d(2) by (metis nth_append_length)
  then have "d[length nm := 0] = d" by (metis list_update_id)
  with dl have "arr_set d (unat (of_nat (length nm) :: i32)) 0 = Some d" unfolding u by (simp add: arr_set_def)
  then have "write_record rd i pos b (of_nat (length nm)) ?w = Some (take (pos + 12) b3 @ d)"
    by (simp add: write_record_def b1(1) b2(1) b3(1) d(1))
  moreover have t: "take (pos + 12) (take (pos + 12) b3 @ d) = take (pos + 12) b3"
    using b3(2) assms(3) rb by simp
  moreover have tp: "take pos b3 = take pos b"
    using arg_cong [OF b3(3), of "take pos"] arg_cong [OF b2(3), of "take pos"] b1(3) by (simp add: min_def)
  moreover have "take 4 (drop pos b3) = take 4 (drop pos b1)"
    using le_word_stable [OF b3(3), of pos] le_word_stable [OF b2(3), of pos] by simp
  moreover have "take 4 (drop (pos + 4) b3) = take 4 (drop (pos + 4) b2)"
    using le_word_stable [OF b3(3), of "pos + 4"] by simp
  ultimately show ?thesis
    using b1(4) b2(4) b3(4) d assms(3) rb b3(2) le_word_stable [OF t, of pos]
      le_word_stable [OF t, of "pos + 4"] le_word_stable [OF t, of "pos + 8"]
    by (intro exI [of _ "take (pos + 12) b3 @ d"]) (simp add: min_def)
qed
lemma unat_small [simp]: "n < 4294967296 \<Longrightarrow> unat (of_nat n :: u32) = n"
  by (rule unat_of_nat_small) simp

lemma records_at_snoc_stable:
  assumes "records_at b pos [(i, nm)]" and "terminated (drop (pos + 12) b)"
    and "take (pos + reclen nm) b' = take (pos + reclen nm) b" and "length b' = length b"
  shows "records_at b' pos [(i, nm)]"
proof -
  note rb = reclen_bounds [of nm] and st = le_word_stable [OF assms(3)]
  have "take (reclen nm - 12) (drop (pos + 12) b) = take (reclen nm - 12) (drop (pos + 12) b')"
    using arg_cong [OF assms(3), of "drop (pos + 12)"] rb by (simp add: drop_take)
  then have "cstr (drop (pos + 12) b') = nm"
    using cstr_stable [OF assms(2), of "reclen nm - 12"] assms(1) rb by simp
  with assms(1,4) st [of pos] st [of "pos + 4"] st [of "pos + 8"] rb show ?thesis by simp
qed

lemma getdents_loop_spec:
  assumes "dir_chain rd i es" and "header_at rd 0 vol" and "pos + total_reclen es \<le> unat sz"
    and "unat sz \<le> length b" and "unat sz < 2147483648"
  shows "\<exists>b'. getdents_loop rd sz tmp i b (of_nat pos) = Some (of_nat (pos + total_reclen es),
      (if pos + total_reclen es + reclen vol \<le> unat sz then 0xffffffff else 0), b') \<and>
    length b' = length b \<and> take pos b' = take pos b \<and> records_at b' pos es"
  using assms(1,3,4)
proof (induction es arbitrary: i b pos tmp)
  case Nil
  have h: "on_disk rd 0 16" "name_at rd 16 vol" "length vol < 256"
    using assms(2) by (auto simp: header_at_def)
  have r: "romfs_read_noinc rd tmp 0 4 = Some (Some (bytes_at rd 0 4))"
    using on_disk_mono [OF h(1), of 4] by (simp add: romfs_read_noinc_ok)
  have n: "romfs_string_length rd 16 = Some (of_nat (length vol))"
    using string_length_loop_spec [OF h(2), of None 0] by (simp add: romfs_string_length_def)
  have "pos < 2147483648" using Nil.prems(2) assms(5) by (simp add: total_reclen_def)
  then have "unat (of_nat (reclen vol) + of_nat pos :: u32) = pos + reclen vol"
    using reclen_bounds [of vol] h(3) unat_small [of "pos + reclen vol"] by (simp add: add.commute)
  then have c: "of_nat (reclen vol) + of_nat pos > sz \<longleftrightarrow> \<not> pos + reclen vol \<le> unat sz"
    by (simp add: word_less_nat_alt not_le)
  have "i = 0" using Nil.prems(1) by simp
  then show ?case
    by (subst getdents_loop.simps)
      (simp add: r n dirent_length_name [OF h(3)] c total_reclen_def Let_def)
next
  case (Cons e es)
  obtain nm where e: "e = (i, nm)" using Cons.prems(1) by (cases e) auto
  let ?nx = "word_at rd i AND NOT 15"
  have h: "on_disk rd i 16" "name_at rd (i + 16) nm" "length nm < 256" "i \<noteq> 0" and ch: "dir_chain rd ?nx es"
    using Cons.prems(1) by (auto simp: e header_at_def)
  have t: "total_reclen (e # es) = reclen nm + total_reclen es" by (simp add: total_reclen_def e)
  have r: "romfs_read_noinc rd tmp i 4 = Some (Some (bytes_at rd i 4))"
    using on_disk_mono [OF h(1), of 4] by (simp add: romfs_read_noinc_ok)
  have n: "romfs_string_length rd (i + 16) = Some (of_nat (length nm))"
    using string_length_loop_spec [OF h(2), of None 0] by (simp add: romfs_string_length_def)
  have le: "pos + reclen nm \<le> unat sz" "pos + reclen nm \<le> length b"
    using Cons.prems(2,3) by (simp_all add: t)
  then have sm: "pos < 4294967296" "pos + reclen nm < 4294967296" using assms(5) by simp_all
  then have "unat (of_nat (reclen nm) + of_nat pos :: u32) = pos + reclen nm"
    using unat_small [of "pos + reclen nm"] by (simp add: add.commute)
  then have c: "\<not> of_nat (reclen nm) + of_nat pos > sz" using le by (simp add: word_less_nat_alt)
  obtain b1 where b1: "write_record rd i pos b (of_nat (length nm)) (of_nat (reclen nm)) = Some b1"
      "length b1 = length b" "take pos b1 = take pos b" "terminated (drop (pos + 12) b1)"
      "records_at b1 pos [(i, nm)]"
    using write_record_spec [OF h(2,3) le(2)] by blast
  have step: "getdents_loop rd sz tmp i b (of_nat pos) =
      getdents_loop rd sz (Some (bytes_at rd i 4)) ?nx b1 (of_nat (pos + reclen nm))"
    using c b1(1) sm(1) h(4)
    by (subst getdents_loop.simps) (simp add: r n dirent_length_name [OF h(3)] Let_def)
  obtain b' where b': "getdents_loop rd sz (Some (bytes_at rd i 4)) ?nx b1 (of_nat (pos + reclen nm)) =
      Some (of_nat (pos + reclen nm + total_reclen es),
        if pos + reclen nm + total_reclen es + reclen vol \<le> unat sz then 0xffffffff else 0, b')"
      "length b' = length b1" "take (pos + reclen nm) b' = take (pos + reclen nm) b1"
      "records_at b' (pos + reclen nm) es"
    using Cons.IH [OF ch, of "pos + reclen nm" b1] Cons.prems(2,3) t b1(2) by (auto simp: add.assoc)
  have "take pos b' = take pos b"
    using arg_cong [OF b'(3), of "take pos"] b1(3) by (simp add: min_def)
  moreover have "records_at b' pos [(i, nm)]"
    using records_at_snoc_stable [OF b1(5,4) b'(3,2)] .
  ultimately show ?case using b' b1(2) by (simp add: step t [unfolded e] e add.assoc)
qed
lemma romfs_getdents_first:
  assumes "on_disk rd d 8" and "word_at rd d AND 7 = 1" and "dir_chain rd (word_at rd (d + 4)) es"
    and "header_at rd 0 vol" and "total_reclen es \<le> unat sz" and "unat sz \<le> length b"
    and "unat sz < 2147483648"
  shows "\<exists>b'. romfs_getdents rd d 0 b sz = Some (of_nat (total_reclen es),
      (if total_reclen es + reclen vol \<le> unat sz then 0xffffffff else 0), b') \<and>
    length b' = length b \<and> records_at b' 0 es"
  using getdents_loop_spec [OF assms(3,4), of 0 sz b "Some (bytes_at rd (d + 4) 4)"] assms(5-7)
    header_words [OF assms(1)] assms(2)
  by (simp add: romfs_getdents_def)

text \<open>
  A directory listing with room for all records and for one more of the length of the volume
  name holds, in order, one record for every entry of the directory with its inode, length and
  name; the returned value is the length of the records and the next call reports the end.
\<close>

lemma romfs_getdents_complete:
  assumes "on_disk rd d 8" and "word_at rd d AND 7 = 1" and "dir_chain rd (word_at rd (d + 4)) es"
    and "header_at rd 0 vol" and "total_reclen es + reclen vol \<le> unat sz" and "unat sz \<le> length b"
    and "unat sz < 2147483648"
  shows "\<exists>b' cur. romfs_getdents rd d 0 b sz = Some (of_nat (total_reclen es), cur, b') \<and>
    length b' = length b \<and> records_at b' 0 es \<and>
    (\<forall>b2 sz2. romfs_getdents rd d cur b2 sz2 = Some (0, cur, b2))"
proof -
  have "total_reclen es \<le> unat sz" using assms(5) by simp
  from romfs_getdents_first [OF assms(1-4) this assms(6,7)] assms(5)
  obtain b' where "romfs_getdents rd d 0 b sz = Some (of_nat (total_reclen es), 0xffffffff, b')"
    "length b' = length b" "records_at b' 0 es" by auto
  moreover have "romfs_getdents rd d 0xffffffff b2 sz2 = Some (0, 0xffffffff, b2)" for b2 sz2
    by (simp add: romfs_getdents_def)
  ultimately show ?thesis by blast
qed

lemma demo_volume: "header_at demo_disk 0 [116, 101, 115, 116]"
  by (simp add: header_at_def demo_on_disk demo_names)

lemma demo_total: "total_reclen demo_entries = 36"
  by (simp add: total_reclen_def reclen_def demo_entries_def)

text \<open>
  When the records of a directory fit into the buffer but leave less room than a record for the
  volume name takes, the listing is complete but the stored position is 0, the position of a fresh
  descriptor: the next call starts again with the first entry and returns the whole directory once
  more, so a reader that waits for the end of the listing never sees it.
\<close>

lemma romfs_getdents_restarts:
  assumes "on_disk rd d 8" and "word_at rd d AND 7 = 1" and "dir_chain rd (word_at rd (d + 4)) es"
    and "header_at rd 0 vol" and "total_reclen es \<le> unat sz" and "unat sz < total_reclen es + reclen vol"
    and "unat sz \<le> length b" and "unat sz < 2147483648"
  shows "\<exists>b'. romfs_getdents rd d 0 b sz = Some (of_nat (total_reclen es), 0, b') \<and>
    length b' = length b \<and> records_at b' 0 es"
  using romfs_getdents_first [OF assms(1-5,7,8)] assms(6) by auto

theorem romfs_getdents_restarts_witness:
  "\<exists>b'. romfs_getdents demo_disk 32 0 (replicate 40 0) 40 = Some (36, 0, b') \<and>
    length b' = 40 \<and> records_at b' 0 demo_entries"
proof -
  have s: "total_reclen demo_entries \<le> unat (40 :: u32)"
    "unat (40 :: u32) < total_reclen demo_entries + reclen [116, 101, 115, 116]"
    unfolding demo_total by (simp_all add: reclen_def)
  show ?thesis
    using romfs_getdents_restarts [OF demo_on_disk _ _ demo_volume s, of 32 "replicate 40 0"] demo_chain
    by (simp add: demo_words demo_total)
qed

end
