(* ===== verification/Files.thy ===== *)
theory Files
  imports Console Romfs
begin

text \<open>
  The file layer \<^verbatim>\<open>kernel/fs/files.c\<close>: the table of open files, path names, and the system calls
  on files and directories. Files come from the file system of \<^verbatim>\<open>Romfs\<close>, descriptor 0 from the
  input ring and descriptors 1 and 2 from the serial output of \<^verbatim>\<open>Console\<close>; the working directory
  is a field of the running process.

  \<open>vfs\<close> holds the variables of the file. A path is a \<^typ>\<open>buf\<close> with an index for the pointer that
  walks over it.
\<close>

section \<open>Open files\<close>

record fd_info =
  fd_valid :: u32
  fd_inode :: u32
  fd_file_ptr :: u32

record vfs =
  fd_table :: "fd_info list"
  root_dir :: i32
  disk :: ramdisk

definition MAX_FD :: nat where "MAX_FD = 32"

definition fd_free :: "u32 \<Rightarrow> i32" where
  "fd_free fd = - EBADF"

text \<open>The search loop of \<^verbatim>\<open>fd_allocate\<close>.\<close>

function fd_allocate_from :: "u32 \<Rightarrow> nat \<Rightarrow> fd_info list \<Rightarrow> (i32 \<times> fd_info list) option" where
  "fd_allocate_from inode fd tab =
     do { e \<leftarrow> arr_get tab fd;
          if fd_valid e = 0 then
            Some (of_nat fd, tab[fd := \<lparr>fd_valid = 1, fd_inode = inode, fd_file_ptr = 0\<rparr>])
          else if fd + 1 \<ge> MAX_FD then Some (- ENFILE, tab)
          else fd_allocate_from inode (fd + 1) tab }"
  by pat_completeness auto
termination
  by (relation "measure (\<lambda>(i, fd, t). MAX_FD - fd)") auto

definition fd_allocate :: "u32 \<Rightarrow> vfs \<Rightarrow> (i32 \<times> vfs) option" where
  "fd_allocate inode v =
     do { (fd, tab) \<leftarrow> fd_allocate_from inode 0 (fd_table v); Some (fd, v\<lparr>fd_table := tab\<rparr>) }"

fun invalidate_from :: "nat \<Rightarrow> nat \<Rightarrow> fd_info list \<Rightarrow> fd_info list option" where
  "invalidate_from i 0 tab = Some tab"
| "invalidate_from i (Suc n) tab =
     do { e \<leftarrow> arr_get tab i; invalidate_from (Suc i) n (tab[i := e\<lparr>fd_valid := 0\<rparr>]) }"

definition validate :: "nat \<Rightarrow> fd_info list \<Rightarrow> fd_info list option" where
  "validate i tab = do { e \<leftarrow> arr_get tab i; Some (tab[i := e\<lparr>fd_valid := 1\<rparr>]) }"

definition fd_table_init :: "vfs \<Rightarrow> vfs option" where
  "fd_table_init v =
     do { t \<leftarrow> invalidate_from 0 MAX_FD (fd_table v);
          t0 \<leftarrow> validate 0 t;
          t1 \<leftarrow> validate 1 t0;
          t2 \<leftarrow> validate 2 t1;
          Some (v\<lparr>fd_table := t2\<rparr>) }"

section \<open>Path names\<close>

text \<open>
  \<^verbatim>\<open>split_filename\<close> copies one component of the path into \<^verbatim>\<open>name\<close>; \<^verbatim>\<open>out\<close> is always
  \<^verbatim>\<open>name+length\<close>. The first result is the index behind the slash, or nothing for \<^verbatim>\<open>NULL\<close>.
\<close>

function split_filename :: "buf \<Rightarrow> nat \<Rightarrow> buf \<Rightarrow> nat \<Rightarrow> nat \<Rightarrow> (nat option \<times> buf) option" where
  "split_filename path ptr name_buf l len =
     do { c \<leftarrow> arr_get path ptr;
          if c = 0 \<or> l \<ge> len - 1 then do { n \<leftarrow> arr_set name_buf l 0; Some (None, n) }
          else if c = 47 then do { n \<leftarrow> arr_set name_buf l 0; Some (Some (ptr + 1), n) }
          else do { n \<leftarrow> arr_set name_buf l c; split_filename path (ptr + 1) n (l + 1) len } }"
  by pat_completeness auto
termination
  by (relation "measure (\<lambda>(p, ptr, n, l, len). length p - ptr)") (auto simp: arr_get_eq_Some)

declare fd_allocate_from.simps [simp del] split_filename.simps [simp del]

lemma split_filename_progress:
  "split_filename path ptr nm l len = Some (Some ptr', nm') \<Longrightarrow> ptr < ptr' \<and> ptr' \<le> length path"
proof (induction path ptr nm l len rule: split_filename.induct)
  case (1 path ptr nm l len)
  note s = 1(2) [unfolded split_filename.simps [of path ptr]]
  from s obtain c where c: "arr_get path ptr = Some c" by (auto simp: option_bind_eq_Some)
  then have p: "ptr < length path" by (simp add: arr_get_eq_Some)
  show ?case
  proof (cases "c = 0 \<or> len - 1 \<le> l \<or> c = 47")
    case True
    with s c p show ?thesis by (auto simp: option_bind_eq_Some split: if_splits)
  next
    case False
    with s c obtain n where "arr_set nm l c = Some n" "split_filename path (ptr + 1) n (l + 1) len = Some (Some ptr', nm')"
      by (auto simp: option_bind_eq_Some split: if_splits)
    with 1(1) [OF c] False show ?thesis by auto
  qed
qed

text \<open>The walk over the components; the name buffer is reused.\<close>

function walk_path :: "ramdisk \<Rightarrow> buf \<Rightarrow> nat \<Rightarrow> buf \<Rightarrow> i32 \<Rightarrow> i32 option" where
  "walk_path rd path ptr name_buf dir_inode =
     do { r \<leftarrow> split_filename path ptr name_buf 0 MAX_FILENAME_SIZE;
          case r of
            (None, n) \<Rightarrow> romfs_get_inode rd dir_inode n
          | (Some ptr', n) \<Rightarrow> do { d \<leftarrow> romfs_get_inode rd dir_inode n; walk_path rd path ptr' n d } }"
  by pat_completeness auto
termination
  by (relation "measure (\<lambda>(rd, p, ptr, n, d). length p - ptr)") (auto dest: split_filename_progress)

definition get_inode :: "vfs \<Rightarrow> kernel \<Rightarrow> buf \<Rightarrow> i32 option" where
  "get_inode v k pathname =
     do { c0 \<leftarrow> arr_get pathname 0;
          (dir_inode, ptr) \<leftarrow> (if c0 = 47 then Some (root_dir v, 1)
             else do { b \<leftarrow> pcbs k (current_process k); Some (current_dir b, 0) });
          c \<leftarrow> arr_get pathname ptr;
          if c = 0 then Some dir_inode
          else walk_path (disk v) pathname ptr (replicate MAX_FILENAME_SIZE 0) dir_inode }"

section \<open>System calls\<close>

definition close :: "u32 \<Rightarrow> i32" where
  "close fd = fd_free fd"

definition open_file :: "buf \<Rightarrow> u32 \<Rightarrow> u32 \<Rightarrow> vfs \<Rightarrow> kernel \<Rightarrow> (i32 \<times> vfs) option" where
  "open_file pathname flags mode v k =
     do { inode \<leftarrow> get_inode v k pathname;
          if sint inode < 0 then Some (- ENOENT, v)
          else fd_allocate inode v }"

text \<open>\<^verbatim>\<open>read\<close> from a file: the part for a valid descriptor.\<close>

definition read_fd :: "u32 \<Rightarrow> buf \<Rightarrow> u32 \<Rightarrow> vfs \<Rightarrow> (i32 \<times> buf \<times> vfs) option" where
  "read_fd fd b cnt v =
     do { e \<leftarrow> arr_get (fd_table v) (unat fd);
          if fd_valid e = 0 then Some (- EBADF, b, v)
          else
            do { (result, b1) \<leftarrow> romfs_read_file (disk v) (fd_inode e) (fd_file_ptr e) b cnt;
                 Some (result, b1, if 0 < sint result
                   then v\<lparr>fd_table := (fd_table v)[unat fd := e\<lparr>fd_file_ptr := fd_file_ptr e + result\<rparr>]\<rparr>
                   else v) } }"

definition read :: "u32 \<Rightarrow> buf \<Rightarrow> u32 \<Rightarrow> vfs \<Rightarrow> console \<Rightarrow> kernel \<Rightarrow>
    (outcome \<times> buf \<times> vfs \<times> console \<times> kernel) option" where
  "read fd b cnt v c k =
     (if fd = 0 then
        do { (r, b1, c1, k1) \<leftarrow> console_read b cnt c k; Some (r, b1, v, c1, k1) }
      else if unat fd \<ge> MAX_FD then Some (Returned (- ENFILE), b, v, c, k)
      else do { (r, b1, v1) \<leftarrow> read_fd fd b cnt v; Some (Returned r, b1, v1, c, k) })"

definition write_fd :: "(u8 \<Rightarrow> 'd \<Rightarrow> 'd) \<Rightarrow> bool \<Rightarrow> u32 \<Rightarrow> buf \<Rightarrow> u32 \<Rightarrow> 'd \<Rightarrow> (i32 \<times> 'd) option" where
  "write_fd putc ready fd b cnt d =
     (if fd = 1 \<or> fd = 2 then console_write putc ready b cnt d else Some (- EBADF, d))"

definition stat :: "buf \<Rightarrow> stat_t \<Rightarrow> vfs \<Rightarrow> kernel \<Rightarrow> (i32 \<times> stat_t) option" where
  "stat pathname st v k =
     do { inode \<leftarrow> get_inode v k pathname;
          if sint inode < 0 then Some (- ENOENT, st) else romfs_stat (disk v) inode }"

definition mount :: "buf \<Rightarrow> vfs \<Rightarrow> (i32 \<times> vfs) option" where
  "mount filesystemtype v =
     do { c \<leftarrow> strncmp filesystemtype (lit ''romfs'') 5;
          if c = 0 then
            do { result \<leftarrow> romfs_mount (disk v);
                 if sint result \<ge> 0 then Some (0, v\<lparr>root_dir := result\<rparr>) else Some (result, v) }
          else Some (- ENODEV, v) }"

definition getdents :: "u32 \<Rightarrow> buf \<Rightarrow> u32 \<Rightarrow> vfs \<Rightarrow> (i32 \<times> buf \<times> vfs) option" where
  "getdents fd dirp cnt v =
     (if unat fd \<ge> MAX_FD then Some (- ENFILE, dirp, v)
      else
        do { e \<leftarrow> arr_get (fd_table v) (unat fd);
             if fd_valid e = 0 then Some (- EBADF, dirp, v)
             else
               do { (result, cur, b1) \<leftarrow> romfs_getdents (disk v) (fd_inode e) (fd_file_ptr e) dirp cnt;
                    Some (result, b1, v\<lparr>fd_table := (fd_table v)[unat fd := e\<lparr>fd_file_ptr := cur\<rparr>]\<rparr>) } })"

definition chdir :: "buf \<Rightarrow> vfs \<Rightarrow> kernel \<Rightarrow> (i32 \<times> kernel) option" where
  "chdir path v k =
     do { inode \<leftarrow> get_inode v k path;
          if sint inode < 0 then Some (- ENOENT, k)
          else
            do { (result, st) \<leftarrow> romfs_stat (disk v) inode;
                 if sint result < 0 then Some (result, k)
                 else if st_mode st AND S_IFMT \<noteq> S_IFDIR then Some (- ENOTDIR, k)
                 else do { k1 \<leftarrow> pcb_upd (current_process k) (\<lambda>b. b\<lparr>current_dir := inode\<rparr>) k;
                           Some (0, k1) } } }"

text \<open>The working directory is looked up but its name is never used.\<close>

definition getcwd :: "buf \<Rightarrow> u32 \<Rightarrow> vfs \<Rightarrow> kernel \<Rightarrow> buf option" where
  "getcwd b sz v k =
     do { p \<leftarrow> pcbs k (current_process k);
          (result, st) \<leftarrow> romfs_stat (disk v) (current_dir p);
          strncpy b (lit ''BROKEN'') (unat sz) }"

section \<open>Splitting paths\<close>

lemma split_filename_spec:
  assumes "drop ptr path = cm @ c # rest" and "c = 0 \<or> c = 47" and "\<forall>x\<in>set cm. x \<noteq> 0 \<and> x \<noteq> 47"
    and "l + length cm < len - 1" and "l + length cm < length nm"
  shows "split_filename path ptr nm l len =
    Some (if c = 47 then Some (ptr + length cm + 1) else None,
      take l nm @ cm @ 0 # drop (Suc (l + length cm)) nm)"
  using assms
proof (induction cm arbitrary: ptr nm l)
  case Nil
  then have "arr_get path ptr = Some c"
    by (metis append_Nil arr_get_eq_Some drop_eq_Nil leI list.distinct(1) nth_via_drop)
  with Nil show ?case
    by (subst split_filename.simps) (auto simp: upd_conv_take_nth_drop)
next
  case (Cons x cm)
  have g: "arr_get path ptr = Some x"
    using Cons.prems(1) by (metis append_Cons arr_get_eq_Some drop_eq_Nil leI list.distinct(1) nth_via_drop)
  have d: "drop (ptr + 1) path = cm @ c # rest"
    using Cons.prems(1) by (metis Suc_eq_plus1 append_Cons drop_Suc list.sel(3) tl_drop)
  have s: "arr_set nm l x = Some (nm[l := x])" using Cons.prems(5) by simp
  have ih: "split_filename path (ptr + 1) (nm[l := x]) (l + 1) len =
      Some (if c = 47 then Some (ptr + 1 + length cm + 1) else None,
        take (l + 1) (nm[l := x]) @ cm @ 0 # drop (Suc (l + 1 + length cm)) (nm[l := x]))"
    using Cons.prems by (intro Cons.IH [OF d]) auto
  have "split_filename path ptr nm l len = split_filename path (ptr + 1) (nm[l := x]) (l + 1) len"
    using Cons.prems by (subst split_filename.simps) (simp add: g s)
  then show ?case unfolding ih using Cons.prems(5) by (simp add: take_list_update_Suc)
qed

text \<open>The components of a path.\<close>

fun path_string :: "buf list \<Rightarrow> buf" where
  "path_string [] = []"
| "path_string [c] = c"
| "path_string (c # cs) = c @ 47 # path_string cs"

definition component :: "buf \<Rightarrow> bool" where
  "component c \<longleftrightarrow> c \<noteq> [] \<and> 0 \<notin> set c \<and> 47 \<notin> set c \<and> length c < 255"

text \<open>A well-formed directory with the entries \<open>es\<close>, whose hard links lead to \<open>T\<close>.\<close>

definition directory :: "ramdisk \<Rightarrow> i32 \<Rightarrow> (u32 \<times> buf) list \<Rightarrow> (u32 \<Rightarrow> u32) \<Rightarrow> bool" where
  "directory rd d es T \<longleftrightarrow> on_disk rd d 8 \<and> word_at rd d AND 7 = 1 \<and> dir_chain rd (word_at rd (d + 4)) es \<and>
     es \<noteq> [] \<and> (\<forall>e\<in>set es. resolves rd (fst e) (T (fst e)))"

definition entry_of :: "(u32 \<times> buf) list \<Rightarrow> (u32 \<Rightarrow> u32) \<Rightarrow> buf \<Rightarrow> i32 option" where
  "entry_of es T nm = map_option (\<lambda>e. T (fst e)) (find (\<lambda>e. snd e = nm) es)"

text \<open>
  What a path names: every component but the last is a directory entry that leads to a directory;
  the result for the last one is its inode, or -1 when the directory does not have it.
\<close>

inductive path_leads :: "ramdisk \<Rightarrow> i32 \<Rightarrow> buf list \<Rightarrow> i32 \<Rightarrow> bool" for rd where
  found: "directory rd d es T \<Longrightarrow> entry_of es T c = Some j \<Longrightarrow> path_leads rd d [c] j"
| missing: "directory rd d es T \<Longrightarrow> entry_of es T c = None \<Longrightarrow> path_leads rd d [c] (-1)"
| down: "directory rd d es T \<Longrightarrow> entry_of es T c = Some j \<Longrightarrow> path_leads rd j cs r \<Longrightarrow>
    path_leads rd d (c # cs) r"

lemma romfs_get_inode_entry:
  assumes "directory rd d es T" and "terminated nm"
  shows "romfs_get_inode rd d nm = Some (case entry_of es T (cstr nm) of None \<Rightarrow> -1 | Some j \<Rightarrow> j)"
  using romfs_get_inode_spec [of rd d es nm T] assms
  by (auto simp: directory_def entry_of_def split: option.splits)

lemma path_leads_nonempty: "path_leads rd d cs r \<Longrightarrow> cs \<noteq> []"
  by (cases rule: path_leads.cases) auto

lemma path_string_Cons: "cs \<noteq> [] \<Longrightarrow> path_string (c # cs) = c @ 47 # path_string cs"
  by (cases cs) auto

lemma component_cstr:
  "component c \<Longrightarrow> cstr (c @ 0 # xs) = c \<and> terminated (c @ 0 # xs)"
  by (auto simp: component_def cstr_append_zero terminated_def)

lemma split_component:
  assumes "drop ptr path = c @ x # rest" and "x = 0 \<or> x = 47" and "component c" and "length nm = 256"
  shows "split_filename path ptr nm 0 MAX_FILENAME_SIZE =
    Some (if x = 47 then Some (ptr + length c + 1) else None, c @ 0 # drop (Suc (length c)) nm)"
proof -
  have "\<forall>y\<in>set c. y \<noteq> 0 \<and> y \<noteq> 47" "length c < 255" using assms(3) by (auto simp: component_def)
  with split_filename_spec [OF assms(1,2), of 0 MAX_FILENAME_SIZE nm] assms(4) show ?thesis
    by (simp add: MAX_FILENAME_SIZE_def)
qed

declare walk_path.simps [simp del]

lemma walk_path_leads:
  assumes "path_leads rd d cs r" and "drop ptr path = path_string cs @ 0 # rest" and "\<forall>c\<in>set cs. component c"
    and "length nm = 256"
  shows "walk_path rd path ptr nm d = Some r"
  using assms
proof (induction arbitrary: ptr nm rule: path_leads.induct)
  case (found d es T c j)
  have "component c" using found.prems by simp
  with split_component [of ptr path c 0 rest nm] found romfs_get_inode_entry [OF found.hyps(1)] component_cstr [of c]
  show ?case by (subst walk_path.simps) simp
next
  case (missing d es T c)
  have "component c" using missing.prems by simp
  with split_component [of ptr path c 0 rest nm] missing romfs_get_inode_entry [OF missing.hyps(1)] component_cstr [of c]
  show ?case by (subst walk_path.simps) simp
next
  case (down d es T c j cs r)
  let ?n = "c @ 0 # drop (Suc (length c)) nm"
  have ok: "component c" "length ?n = 256" using down.prems by (auto simp: component_def)
  have p: "drop ptr path = c @ 47 # path_string cs @ 0 # rest"
    using down.prems(1) path_string_Cons [OF path_leads_nonempty [OF down.hyps(3)]] by simp
  have "drop (length c + 1) (drop ptr path) = path_string cs @ 0 # rest" unfolding p by simp
  then have "drop (ptr + length c + 1) path = path_string cs @ 0 # rest" by (simp add: ac_simps)
  then have "walk_path rd path (ptr + length c + 1) ?n j = Some r"
    using down.IH ok(2) down.prems(2) by simp
  with split_component [OF p _ ok(1) down.prems(3)] romfs_get_inode_entry [OF down.hyps(1)]
    component_cstr [OF ok(1)] down.hyps(2)
  show ?case by (subst walk_path.simps) simp
qed

text \<open>The directory where a path starts, and the text of an absolute or relative path.\<close>

definition start_dir :: "bool \<Rightarrow> vfs \<Rightarrow> kernel \<Rightarrow> i32 option" where
  "start_dir absolute v k =
     (if absolute then Some (root_dir v) else map_option current_dir (pcbs k (current_process k)))"

definition path_text :: "bool \<Rightarrow> buf list \<Rightarrow> buf" where
  "path_text absolute cs = (if absolute then [47] else []) @ path_string cs @ [0]"

lemma path_string_start:
  assumes "cs \<noteq> []" and "\<forall>c\<in>set cs. component c"
  obtains x xs where "path_string cs = x # xs" "x \<noteq> 0" "x \<noteq> 47"
proof -
  obtain c cs' where c: "cs = c # cs'" using assms(1) by (cases cs) auto
  with assms(2) obtain x xs where x: "c = x # xs" "x \<noteq> 0" "x \<noteq> 47"
    by (cases c) (auto simp: component_def)
  show thesis using that x c by (cases cs') auto
qed

lemma get_inode_start:
  assumes "start_dir absolute v k = Some d" and "cs \<noteq> []" and "\<forall>c\<in>set cs. component c"
  shows "get_inode v k (path_text absolute cs) =
    walk_path (disk v) (path_text absolute cs) (if absolute then 1 else 0) (replicate 256 0) d"
proof -
  obtain x xs where "path_string cs = x # xs" "x \<noteq> 0" "x \<noteq> 47" using path_string_start [OF assms(2,3)] .
  with assms(1) show ?thesis
    by (auto simp: get_inode_def path_text_def start_dir_def MAX_FILENAME_SIZE_def split: if_splits)
qed

text \<open>
  A path is resolved component by component: from the root directory if it begins with a slash,
  otherwise from the working directory of the running process, through every directory on the
  way. The result is the inode that the last component names, through hard links, or -1 if its
  directory does not have it; no component of less than 255 characters overruns a buffer.
\<close>

lemma get_inode_leads:
  assumes "start_dir absolute v k = Some d" and "path_leads (disk v) d cs r" and "\<forall>c\<in>set cs. component c"
  shows "get_inode v k (path_text absolute cs) = Some r"
  using get_inode_start [OF assms(1) path_leads_nonempty [OF assms(2)] assms(3)]
    walk_path_leads [OF assms(2) _ assms(3), of "if absolute then 1 else 0" "path_text absolute cs" "[]"]
  by (simp add: path_text_def)

section \<open>Properties of path names\<close>

definition demo_vfs :: vfs where
  "demo_vfs = \<lparr>fd_table = replicate 3 \<lparr>fd_valid = 1, fd_inode = 0, fd_file_ptr = 0\<rparr> @
     replicate 29 \<lparr>fd_valid = 0, fd_inode = 0, fd_file_ptr = 0\<rparr>, root_dir = 32, disk = demo_disk\<rparr>"

lemma demo_directory: "directory demo_disk 32 demo_entries id"
  using demo_chain demo_resolves by (simp add: directory_def demo_on_disk demo_words demo_entries_def)

lemma demo_entry:
  "entry_of demo_entries id [46] = Some 32" "entry_of demo_entries id [104, 101, 108, 108, 111] = Some 64"
  "entry_of demo_entries id [120] = None"
  by (simp_all add: entry_of_def demo_entries_def)

lemma demo_path: "path_leads demo_disk 32 [[46], [104, 101, 108, 108, 111]] 64"
  using demo_directory demo_entry by (intro path_leads.intros(3) path_leads.intros(1))

lemma romfs_get_inode_minus_one:
  assumes "3 \<le> unat (rd_length rd)" and "length (rd_data rd) \<le> 4294967296"
  shows "romfs_get_inode rd (-1) nm = None"
proof -
  have "(-1 :: u32) + of_nat 4 = 3" by simp
  moreover have "unat (-1 :: u32) = 4294967295" by (simp add: unsigned_minus_1_eq_mask mask_eq_exp_minus_1)
  ultimately have "romfs_read_noinc rd None (-1) 4 = None"
    using assms by (simp add: romfs_read_noinc_def word_less_nat_alt)
  then show ?thesis by (simp add: romfs_get_inode_def)
qed



section \<open>Opening and reading files\<close>

text \<open>\<^verbatim>\<open>fd_allocate\<close> takes the first free slot, or reports a full table.\<close>

lemma fd_allocate_from_spec:
  assumes "length tab = 32" and "fd < 32"
  shows "fd_allocate_from inode fd tab =
    (case find (\<lambda>i. fd_valid (tab ! i) = 0) [fd..<32] of
       None \<Rightarrow> Some (- ENFILE, tab)
     | Some f \<Rightarrow> Some (of_nat f, tab[f := \<lparr>fd_valid = 1, fd_inode = inode, fd_file_ptr = 0\<rparr>]))"
  using assms(2)
proof (induction "32 - fd" arbitrary: fd)
  case (Suc n)
  have u: "[fd..<32] = fd # [Suc fd..<32]" using Suc.prems by (simp add: upt_conv_Cons)
  show ?case
  proof (cases "fd = 31")
    case True
    with u assms(1) show ?thesis by (subst fd_allocate_from.simps) (simp add: MAX_FD_def)
  next
    case False
    then have "fd_allocate_from inode (Suc fd) tab =
        (case find (\<lambda>i. fd_valid (tab ! i) = 0) [Suc fd..<32] of None \<Rightarrow> Some (- ENFILE, tab)
         | Some f \<Rightarrow> Some (of_nat f, tab[f := \<lparr>fd_valid = 1, fd_inode = inode, fd_file_ptr = 0\<rparr>]))"
      using Suc by simp
    with False Suc.prems u assms(1) show ?thesis
      by (subst fd_allocate_from.simps) (simp add: MAX_FD_def)
  qed
qed simp

lemma fd_allocate_free:
  assumes "length (fd_table v) = 32" and "\<exists>f<32. fd_valid (fd_table v ! f) = 0"
  shows "\<exists>f<32. fd_allocate inode v = Some (of_nat f, v\<lparr>fd_table :=
      (fd_table v)[f := \<lparr>fd_valid = 1, fd_inode = inode, fd_file_ptr = 0\<rparr>]\<rparr>) \<and> fd_valid (fd_table v ! f) = 0"
proof -
  obtain f where f: "find (\<lambda>i. fd_valid (fd_table v ! i) = 0) [0..<32] = Some f"
    using assms(2) by (cases "find (\<lambda>i. fd_valid (fd_table v ! i) = 0) [0..<32]") (auto simp: find_None_iff)
  then have "f < 32 \<and> fd_valid (fd_table v ! f) = 0"
    by (auto simp: find_Some_iff)
  with f show ?thesis using fd_allocate_from_spec [OF assms(1), of 0 inode] by (auto simp: fd_allocate_def)
qed

text \<open>Reading a file with a sequence of calls; the result are the bytes that all calls return.\<close>

fun read_pieces :: "u32 \<Rightarrow> u32 list \<Rightarrow> vfs \<Rightarrow> (buf \<times> vfs) option" where
  "read_pieces fd [] v = Some ([], v)"
| "read_pieces fd (n # ns) v =
     do { (r, b, v1) \<leftarrow> read_fd fd (replicate (unat n) 0) n v;
          (bs, v2) \<leftarrow> read_pieces fd ns v1;
          Some (take (unat r) b @ bs, v2) }"

text \<open>A regular file on the disk with the given contents.\<close>

definition file_at :: "ramdisk \<Rightarrow> u32 \<Rightarrow> buf \<Rightarrow> bool" where
  "file_at rd i contents \<longleftrightarrow> (\<exists>nm. header_at rd i nm \<and>
     on_disk rd (data_start i nm) (unat (word_at rd (i + 8))) \<and> unat (word_at rd (i + 8)) < 2147483648 \<and>
     contents = bytes_at rd (data_start i nm) (unat (word_at rd (i + 8))))"

lemma file_at_length: "file_at rd i contents \<Longrightarrow> length contents = unat (word_at rd (i + 8))"
  by (auto simp: file_at_def bytes_at_def on_disk_def)

lemma file_at_read:
  assumes "file_at rd i contents" and "unat p \<le> length contents" and "unat cnt \<le> length b"
  shows "romfs_read_file rd i p b cnt = (let n = min (unat cnt) (length contents - unat p) in
    Some (of_nat n, take n (drop (unat p) contents) @ drop n b))"
proof -
  have l: "length contents = unat (word_at rd (i + 8))" using file_at_length [OF assms(1)] .
  obtain nm where "header_at rd i nm" "on_disk rd (data_start i nm) (unat (word_at rd (i + 8)))"
    "contents = bytes_at rd (data_start i nm) (unat (word_at rd (i + 8)))"
    using assms(1) by (auto simp: file_at_def)
  with romfs_read_file_spec [of rd i nm p cnt b] assms(2,3) l show ?thesis
    by (simp add: word_le_nat_alt Let_def)
qed

lemma read_fd_file:
  assumes "file_at (disk v) i contents" and "unat fd < length (fd_table v)"
    and "fd_table v ! unat fd = \<lparr>fd_valid = 1, fd_inode = i, fd_file_ptr = p\<rparr>" and "unat p \<le> length contents"
  shows "\<exists>v' q. read_fd fd (replicate (unat n) 0) n v =
      Some (of_nat (min (unat n) (length contents - unat p)),
        take (unat n) (drop (unat p) contents) @ drop (length contents - unat p) (replicate (unat n) 0), v') \<and>
    disk v' = disk v \<and> length (fd_table v') = length (fd_table v) \<and>
    fd_table v' ! unat fd = \<lparr>fd_valid = 1, fd_inode = i, fd_file_ptr = q\<rparr> \<and>
    unat q = min (unat p + unat n) (length contents)"
proof -
  define m where "m = min (unat n) (length contents - unat p)"
  have lc: "length contents < 2147483648" using assms(1) file_at_length by (auto simp: file_at_def)
  then have m: "m < 2147483648" by (auto simp: m_def)
  then have um: "unat (of_nat m :: u32) = m" by simp
  have sm: "0 < sint (of_nat m :: i32) \<longleftrightarrow> 0 < m"
    using sint_nonneg_iff [of "of_nat m"] unat_of_sint [of "of_nat m :: u32"] um m by auto
  have uq: "unat (p + of_nat m) = min (unat p + unat n) (length contents)"
    using unat_add_small [of p "of_nat m"] um lc assms(4) by (auto simp: m_def)
  have r: "romfs_read_file (disk v) i p (replicate (unat n) 0) n = Some (of_nat m,
      take (unat n) (drop (unat p) contents) @ drop (length contents - unat p) (replicate (unat n) 0))"
  proof -
    have "take m (drop (unat p) contents) = take (unat n) (drop (unat p) contents)" by (simp add: m_def min_def)
    moreover have "drop m (replicate (unat n) (0 :: u8)) = drop (length contents - unat p) (replicate (unat n) 0)"
      by (auto simp: m_def min_def)
    ultimately show ?thesis
      using file_at_read [OF assms(1,4), of n "replicate (unat n) 0"] by (simp add: Let_def m_def)
  qed
  show ?thesis
  proof (cases "m = 0")
    case True
    with r assms(2,3) um uq show ?thesis
      by (auto simp: read_fd_def m_def [symmetric])
  next
    case False
    with sm r assms(2,3) uq show ?thesis
      by (auto simp: read_fd_def m_def [symmetric])
  qed
qed

lemma read_pieces_file:
  assumes "file_at (disk v) i contents" and "unat fd < length (fd_table v)"
    and "fd_table v ! unat fd = \<lparr>fd_valid = 1, fd_inode = i, fd_file_ptr = p\<rparr>" and "unat p \<le> length contents"
  shows "\<exists>v'. read_pieces fd ns v = Some (take (sum_list (map unat ns)) (drop (unat p) contents), v')"
  using assms
proof (induction ns arbitrary: v p)
  case (Cons n ns)
  let ?m = "min (unat n) (length contents - unat p)"
  obtain v1 q where v1: "read_fd fd (replicate (unat n) 0) n v = Some (of_nat ?m,
        take (unat n) (drop (unat p) contents) @ drop (length contents - unat p) (replicate (unat n) 0), v1)"
    "disk v1 = disk v" "length (fd_table v1) = length (fd_table v)"
    "fd_table v1 ! unat fd = \<lparr>fd_valid = 1, fd_inode = i, fd_file_ptr = q\<rparr>"
    "unat q = min (unat p + unat n) (length contents)"
    using read_fd_file [OF Cons.prems, of n] by blast
  have "?m < 4294967296" using unat_u32_bound [of n] by simp
  then have um: "unat (of_nat ?m :: u32) = ?m" by simp
  obtain v2 where v2: "read_pieces fd ns v1 = Some (take (sum_list (map unat ns)) (drop (unat q) contents), v2)"
    using Cons.IH [of v1 q] Cons.prems v1 by auto
  have "take ?m (take (unat n) (drop (unat p) contents) @ xs) = take (unat n) (drop (unat p) contents)" for xs
    by (simp add: min_def)
  moreover have "drop (unat q) contents = drop (unat n) (drop (unat p) contents)"
    using v1(5) Cons.prems(4) by (auto simp: min_def add.commute)
  ultimately show ?case using v1(1) v2 um by (simp add: take_add del: of_nat_min)
qed simp

text \<open>
  C21: Opening a file and reading it with any sequence of calls returns its contents: the bytes that
  the calls deliver, put together, are exactly the beginning of the file, as long as was asked
  for, and every call goes on where the one before ended.
\<close>

theorem open_then_read:
  assumes "start_dir absolute v k = Some d" and "path_leads (disk v) d cs i" and "\<forall>c\<in>set cs. component c"
    and "0 \<le> sint i" and "file_at (disk v) i contents" and "length (fd_table v) = 32"
    and "\<exists>f<32. fd_valid (fd_table v ! f) = 0"
  shows "\<exists>fd v1 v2. open_file (path_text absolute cs) flags mode v k = Some (fd, v1) \<and> 0 \<le> sint fd \<and>
    read_pieces fd ns v1 = Some (take (sum_list (map unat ns)) contents, v2)"
proof -
  obtain f where f: "f < 32" "fd_allocate i v = Some (of_nat f, v\<lparr>fd_table :=
      (fd_table v)[f := \<lparr>fd_valid = 1, fd_inode = i, fd_file_ptr = 0\<rparr>]\<rparr>)"
    using fd_allocate_free [OF assms(6,7)] by blast
  define v1 where "v1 = v\<lparr>fd_table := (fd_table v)[f := \<lparr>fd_valid = 1, fd_inode = i, fd_file_ptr = 0\<rparr>]\<rparr>"
  have u: "unat (of_nat f :: u32) = f" using f(1) by simp
  then have "0 \<le> sint (of_nat f :: i32)" using f(1) by (simp add: sint_nonneg_iff)
  moreover have "open_file (path_text absolute cs) flags mode v k = Some (of_nat f, v1)"
    using get_inode_leads [OF assms(1-3)] assms(4) f(2) by (simp add: open_file_def v1_def)
  moreover have "\<exists>v2. read_pieces (of_nat f) ns v1 = Some (take (sum_list (map unat ns)) (drop (unat (0 :: u32)) contents), v2)"
    using assms(5,6) f(1) u by (intro read_pieces_file [of v1 i]) (simp_all add: v1_def)
  ultimately show ?thesis by auto
qed

lemma demo_file: "file_at demo_disk 64 [119, 111, 114, 108, 100]"
proof -
  have h: "header_at demo_disk 64 [104, 101, 108, 108, 111]"
    by (simp add: header_at_def demo_on_disk demo_names)
  have d: "data_start 64 [104, 101, 108, 108, 111] = 96" by (simp add: data_start_def name_chunks_def)
  have b: "bytes_at demo_disk 96 5 = [119, 111, 114, 108, 100]" by (simp add: bytes_at_def demo_disk_def)
  show ?thesis
    unfolding file_at_def using h by (intro exI [of _ "[104, 101, 108, 108, 111]"])
      (simp add: d b demo_words demo_on_disk)
qed

theorem open_then_read_witness:
  "\<forall>k. \<exists>fd v1 v2.
    open_file [47, 46, 47, 104, 101, 108, 108, 111, 0] 0 0 demo_vfs k = Some (fd, v1) \<and>
    read_pieces fd [2, 1, 7] v1 = Some ([119, 111, 114, 108, 100], v2)"
proof
  fix k
  have "\<exists>f<32. fd_valid (fd_table demo_vfs ! f) = 0"
    by (intro exI [of _ 3]) (simp add: demo_vfs_def nth_append)
  then show "\<exists>fd v1 v2.
    open_file [47, 46, 47, 104, 101, 108, 108, 111, 0] 0 0 demo_vfs k = Some (fd, v1) \<and>
    read_pieces fd [2, 1, 7] v1 = Some ([119, 111, 114, 108, 100], v2)"
    using open_then_read [of True demo_vfs k 32 "[[46], [104, 101, 108, 108, 111]]" 64
        "[119, 111, 114, 108, 100]" 0 0 "[2, 1, 7]"] demo_path demo_file
    by (auto simp: demo_vfs_def start_dir_def path_text_def component_def)
qed

end
