(* ===== verification/Exec.thy ===== *)
theory Exec
  imports Files
begin

text \<open>
  \<^verbatim>\<open>execve\<close> of \<^verbatim>\<open>kernel/processes/exec.c\<close>: loading a program from the file system into the
  running process and placing its arguments at the top of the new stack.

  The contents of the two new memory blocks are values of their own: \<open>old_text\<close> and \<open>old_stack\<close> are
  what the blocks hold before the call. An argument is the pair of its address and the bytes from
  there on; the array of arguments ends with a null pointer. The source applies \<^verbatim>\<open>strlen\<close> to that
  null pointer: \<open>low\<close> are the bytes at address 0, where the processor keeps its exception vectors.
\<close>

section \<open>Definitions\<close>

text \<open>Division of a signed number by 8, which truncates towards zero.\<close>

definition c_div8 :: "i32 \<Rightarrow> i32" where
  "c_div8 x = (if sint x < 0 then - word_of_int ((- sint x) div 8) else word_of_int (sint x div 8))"

text \<open>
  The loop that copies the arguments: \<open>off\<close> is the offset of \<^verbatim>\<open>stack_argv\<close> in the stack page and
  \<open>pos\<close> that of \<^verbatim>\<open>argv_ptr\<close>.
\<close>

fun copy_args :: "ptr \<Rightarrow> nat \<Rightarrow> nat \<Rightarrow> buf list \<Rightarrow> nat \<Rightarrow> buf \<Rightarrow> buf option" where
  "copy_args page off i [] pos stk = Some stk"
| "copy_args page off i (a # as) pos stk =
     do { s1 \<leftarrow> store_word stk (off + 4 * i) (page + of_nat pos);
          n \<leftarrow> strlen a;
          d \<leftarrow> strncpy (drop pos s1) a (n + 1);
          copy_args page off (Suc i) as (pos + n + 1) (take pos s1 @ d) }"

text \<open>The length that the source reserves for the arguments.\<close>

definition argv_space :: "nat \<Rightarrow> (ptr \<times> buf) list \<Rightarrow> i32" where
  "argv_space low_len args =
     (let argv_length = (of_nat (length args) + 1) * 4 + (fst (last args) - fst (hd args)) + of_nat low_len + 1 in
      (c_div8 argv_length + 1) * 8)"

definition exec_args :: "buf \<Rightarrow> ptr \<Rightarrow> buf \<Rightarrow> (ptr \<times> buf) list \<Rightarrow> (i32 \<times> ptr \<times> buf) option" where
  "exec_args low page stk args =
     (if args = [] then None
      else
        do { low_len \<leftarrow> strlen low;
             let argv_length = argv_space low_len args;
             let argv_location = page + DEFAULT_USER_STACK_SIZE - argv_length;
             let off = unat (argv_location - page);
             let pos = off + 4 * (length args + 2);
             s0 \<leftarrow> arr_set stk pos 0;
             s1 \<leftarrow> copy_args page off 0 (map snd args) pos s0;
             Some (of_nat (length args), argv_location, s1) })"

text \<open>
  The result: the returned value, the contents of the text and the stack block when the program has
  been loaded, and the kernel state.
\<close>

definition execve :: "buf \<Rightarrow> buf \<Rightarrow> buf \<Rightarrow> buf \<Rightarrow> (ptr \<times> buf) list option \<Rightarrow> vfs \<Rightarrow> kernel \<Rightarrow>
    (i32 \<times> (buf \<times> buf) option \<times> kernel) option" where
  "execve low old_text old_stack filename argv v k =
     do { inode \<leftarrow> get_inode v k filename;
          if sint inode < 0 then Some (inode, None, k)
          else
            do { (result, st) \<leftarrow> romfs_stat (disk v) inode;
                 if sint result < 0 then Some (result, None, k)
                 else
                   do { let sz = st_size st;
                        (binary_start, m1) \<leftarrow> memory_allocate sz (mem k);
                        (stack_page, m2) \<leftarrow> memory_allocate DEFAULT_USER_STACK_SIZE m1;
                        let k1 = k\<lparr>mem := m2\<rparr>;
                        if binary_start = NULL \<or> stack_page = NULL then Some (- ENOMEM, None, k1)
                        else
                          do { (r, txt) \<leftarrow> romfs_read_file (disk v) inode 0 old_text sz;
                               b \<leftarrow> pcbs k1 (current_process k1);
                               (nm, l) \<leftarrow> strlcpy (p_name b) filename 32;
                               (argc, argv_location, stk) \<leftarrow>
                                 (case argv of
                                    None \<Rightarrow> Some (0, stack_page + DEFAULT_USER_STACK_SIZE, old_stack)
                                  | Some args \<Rightarrow> exec_args low stack_page old_stack args);
                               k2 \<leftarrow> pcb_upd (current_process k1) (\<lambda>b. b\<lparr>p_name := nm,
                                  user_state := (user_state b)\<lparr>u_r := (u_r (user_state b))
                                     [13 := argv_location, 0 := argc, 1 := argv_location], u_pc := binary_start\<rparr>,
                                  p_stack := stack_page, stacksize := DEFAULT_USER_STACK_SIZE,
                                  p_text := binary_start, textsize := sz\<rparr>) k1;
                               Some (argc, Some (txt, stk), k2) } } } }"

section \<open>The argument vector\<close>

lemma strncpy_copies:
  assumes "terminated src" and "length (cstr src) < length dest"
  shows "strncpy dest src (length (cstr src) + 1) = Some (cstr src @ 0 # drop (Suc (length (cstr src))) dest)"
proof -
  let ?n = "length (cstr src)"
  have "copy_loop dest 0 src 0 (?n + 1) = Some (cstr src @ 0 # drop (Suc ?n) dest, ?n)"
    using copy_loop_short [OF assms(1), of "?n + 1" 0 dest] assms(2) by simp
  moreover have "zero_fill (cstr src @ 0 # drop (Suc ?n) dest) ?n (Suc 0) = Some (cstr src @ 0 # drop (Suc ?n) dest)"
    by (simp add: list_update_append)
  ultimately show ?thesis by (simp add: strncpy_def)
qed

text \<open>The space that the strings take, and where each of them goes.\<close>

definition strings_len :: "buf list \<Rightarrow> nat" where
  "strings_len as = sum_list (map (\<lambda>a. length (cstr a) + 1) as)"

definition arg_pos :: "nat \<Rightarrow> buf list \<Rightarrow> nat \<Rightarrow> nat" where
  "arg_pos pos as j = pos + strings_len (take j as)"

lemma arg_pos_simps [simp]:
  "arg_pos pos as 0 = pos" "arg_pos pos (a # as) (Suc j) = arg_pos (pos + length (cstr a) + 1) as j"
  by (simp_all add: arg_pos_def strings_len_def)

lemma strings_len_Cons [simp]: "strings_len (a # as) = length (cstr a) + 1 + strings_len as"
  by (simp add: strings_len_def)

lemma strings_len_append: "strings_len (xs @ ys) = strings_len xs + strings_len ys"
  by (simp add: strings_len_def)

lemma window_take: "m \<le> n \<Longrightarrow> drop a (take m x) = take (m - a) (drop a (take n x))"
  by (simp add: drop_take min_def)

lemma copy_args_spec:
  assumes "\<forall>a\<in>set as. terminated a" and "off + 4 * (i + length as) \<le> pos" and "pos + strings_len as \<le> length stk"
  shows "\<exists>s. copy_args page off i as pos stk = Some s \<and> length s = length stk \<and>
    take (off + 4 * i) s = take (off + 4 * i) stk \<and>
    drop (off + 4 * (i + length as)) (take pos s) = drop (off + 4 * (i + length as)) (take pos stk) \<and>
    (\<forall>j < length as. le_word (take 4 (drop (off + 4 * (i + j)) s)) = page + of_nat (arg_pos pos as j) \<and>
      cstr (drop (arg_pos pos as j) s) = cstr (as ! j))"
  using assms
proof (induction as arbitrary: i pos stk)
  case Nil
  then show ?case by simp
next
  case (Cons a as)
  let ?n = "length (cstr a)" and ?o = "off + 4 * i" and ?e = "off + 4 * (i + length (a # as))"
  have b: "?o + 4 \<le> pos" "pos + ?n + 1 \<le> length stk" using Cons.prems by auto
  obtain s1 where s1: "store_word stk ?o (page + of_nat pos) = Some s1" "length s1 = length stk"
    "take ?o s1 = take ?o stk" "drop (?o + 4) s1 = drop (?o + 4) stk"
    "le_word (take 4 (drop ?o s1)) = page + of_nat pos"
    using store_word_spec [of ?o stk] b by fastforce
  define s2 where "s2 = take pos s1 @ cstr a @ 0 # drop (Suc (pos + ?n)) s1"
  have ta: "terminated a" using Cons.prems(1) by simp
  have d: "strncpy (drop pos s1) a (?n + 1) = Some (cstr a @ 0 # drop (Suc (pos + ?n)) s1)"
    using strncpy_copies [OF ta, of "drop pos s1"] b s1(2) by (simp add: add.commute)
  have l2: "length s2 = length stk" "take pos s2 = take pos s1" using b s1(2) by (simp_all add: s2_def)
  obtain s where s: "copy_args page off (Suc i) as (pos + ?n + 1) s2 = Some s" "length s = length s2"
    "take (off + 4 * Suc i) s = take (off + 4 * Suc i) s2"
    "drop ?e (take (pos + ?n + 1) s) = drop ?e (take (pos + ?n + 1) s2)"
    "\<forall>j < length as. le_word (take 4 (drop (off + 4 * (Suc i + j)) s)) =
        page + of_nat (arg_pos (pos + ?n + 1) as j) \<and>
      cstr (drop (arg_pos (pos + ?n + 1) as j) s) = cstr (as ! j)"
    using Cons.IH [of "Suc i" "pos + ?n + 1" s2] Cons.prems l2 by auto
  have run: "copy_args page off i (a # as) pos stk = Some s"
    using s(1) d s1(1) ta by (simp add: strlen_cstr s2_def)
  have "take ?o s = take ?o stk"
    using arg_cong [OF s(3), of "take ?o"] arg_cong [OF l2(2), of "take ?o"] s1(3) b by (simp add: min_def)
  moreover have "drop ?e (take pos s) = drop ?e (take pos stk)"
  proof -
    have "drop ?e (take pos x) = take (pos - ?e) (drop ?e (take (pos + ?n + 1) x))" for x :: buf
      by (intro window_take) simp
    then have "drop ?e (take pos s) = drop ?e (take pos s2)" using s(4) by metis
    also have "\<dots> = drop ?e (take pos s1)" using l2(2) by simp
    also have "\<dots> = drop ?e (take pos stk)"
    proof -
      have "drop ?e (take pos x) = take (pos - ?e) (drop (?e - (?o + 4)) (drop (?o + 4) x))" for x :: buf
        by (simp add: drop_take ac_simps)
      then show ?thesis using s1(4) by metis
    qed
    finally show ?thesis .
  qed
  moreover have "le_word (take 4 (drop ?o s)) = page + of_nat pos"
    using le_word_stable [OF s(3), of ?o] le_word_stable [OF l2(2), of ?o] s1(5) b by simp
  moreover have "cstr (drop pos s) = cstr a"
  proof -
    have t: "drop pos s2 = cstr a @ 0 # drop (Suc (pos + ?n)) s1" using b s1(2) by (simp add: s2_def)
    have e: "?e \<le> pos" using Cons.prems(2) by simp
    have "take (?n + 1) (drop pos x) = drop (pos - ?e) (drop ?e (take (pos + ?n + 1) x))" for x :: buf
      using e by (simp add: drop_take)
    then have "take (?n + 1) (drop pos s2) = take (?n + 1) (drop pos s)" using s(4) by metis
    moreover have "terminated (drop pos s2)" "cstr (drop pos s2) = cstr a"
      unfolding t by (simp_all add: terminated_def cstr_append_zero zero_notin_cstr)
    ultimately show ?thesis using cstr_stable [of "drop pos s2" "?n + 1" "drop pos s"] by simp
  qed
  ultimately show ?case
    using run s(2,5) l2(1)
    by (intro exI [of _ s]) (auto simp: less_Suc_eq_0_disj ac_simps)
qed

text \<open>A string that does not fit makes the copy leave the stack page.\<close>

lemma copy_loop_overrun:
  "k + i + m > length dest \<Longrightarrow> k + i \<le> length dest \<Longrightarrow> m \<le> n \<Longrightarrow> \<forall>j<m - 1. i + j < length src \<longrightarrow> src ! (i + j) \<noteq> 0 \<Longrightarrow>
   copy_loop dest k src i n = None"
proof (induction n arbitrary: i m dest)
  case (Suc n)
  show ?case
  proof (cases "i < length src \<and> k + i < length dest")
    case False
    then show ?thesis by (cases "i < length src") auto
  next
    case True
    with Suc.prems have m: "m > 1" by auto
    then have nz: "src ! i \<noteq> 0" using Suc.prems(4) [rule_format, of 0] True by auto
    have "copy_loop (dest[k + i := src ! i]) k src (Suc i) n = None"
    proof (rule Suc.IH [where i = "Suc i" and m = "m - 1"])
      show "\<forall>j<m - 1 - 1. Suc i + j < length src \<longrightarrow> src ! (Suc i + j) \<noteq> 0"
        using Suc.prems(4) by (metis Suc_less_eq Suc_pred add_Suc_shift less_diff_conv m plus_1_eq_Suc add.commute)
    qed (use Suc.prems True m in auto)
    with True nz show ?thesis by simp
  qed
qed simp

lemma strncpy_overrun:
  assumes "length dest \<le> length (cstr src)"
  shows "strncpy dest src (length (cstr src) + 1) = None"
proof -
  have "copy_loop dest 0 src 0 (length (cstr src) + 1) = None"
    using assms cstr_nth_nonzero by (intro copy_loop_overrun [where m = "length (cstr src) + 1"]) auto
  then show ?thesis by (simp add: strncpy_def)
qed

lemma copy_args_overrun:
  "length stk < pos + strings_len as \<Longrightarrow> pos \<le> length stk \<Longrightarrow> \<forall>a\<in>set as. terminated a \<Longrightarrow>
   copy_args page off i as pos stk = None"
proof (induction as arbitrary: i pos stk)
  case (Cons a as)
  let ?n = "length (cstr a)"
  show ?case
  proof (cases "store_word stk (off + 4 * i) (page + of_nat pos)")
    case (Some s1)
    then have l: "length s1 = length stk" by (auto simp: store_word_def option_bind_eq_Some arr_set_eq_Some)
    show ?thesis
    proof (cases "pos + ?n + 1 \<le> length stk")
      case True
      then have "strncpy (drop pos s1) a (?n + 1) = Some (cstr a @ 0 # drop (Suc ?n) (drop pos s1))"
        using Cons.prems l by (intro strncpy_copies) auto
      moreover have "copy_args page off (Suc i) as (pos + ?n + 1)
          (take pos s1 @ cstr a @ 0 # drop (Suc ?n) (drop pos s1)) = None"
        using Cons.prems True l by (intro Cons.IH) auto
      ultimately show ?thesis using Some Cons.prems(3) by (simp add: strlen_cstr)
    next
      case False
      then have "strncpy (drop pos s1) a (?n + 1) = None" using l by (intro strncpy_overrun) auto
      then show ?thesis using Some Cons.prems(3) by (simp add: strlen_cstr)
    qed
  qed simp
qed (simp add: strings_len_def)

lemma argv_offset:
  assumes "unat (L :: u32) \<le> 8192"
  shows "unat (DEFAULT_USER_STACK_SIZE - L) = 8192 - unat L"
proof -
  have "unat (8192 - L) = unat (8192 :: u32) - unat L" using assms by (intro unat_sub_le) simp
  then show ?thesis by (simp add: DEFAULT_USER_STACK_SIZE_def)
qed

lemma exec_args_layout:
  assumes "args \<noteq> []" and "\<forall>a\<in>set args. terminated (snd a)" and "terminated low" and "length stk = 8192"
    and "L = unat (argv_space (length (cstr low)) args)" and "L \<le> 8192"
    and "4 * (length args + 2) + strings_len (map snd args) \<le> L"
  shows "\<exists>s. exec_args low page stk args = Some (of_nat (length args),
      page + DEFAULT_USER_STACK_SIZE - argv_space (length (cstr low)) args, s) \<and>
    (\<forall>j < length args. \<exists>p. le_word (take 4 (drop (8192 - L + 4 * j) s)) = page + of_nat p \<and> p < 8192 \<and>
      cstr (drop p s) = cstr (snd (args ! j)))"
proof -
  let ?o = "8192 - L" and ?p = "8192 - L + 4 * (length args + 2)"
  have o: "unat (DEFAULT_USER_STACK_SIZE - argv_space (length (cstr low)) args) = ?o"
    using argv_offset assms(5,6) by simp
  have sl: "0 < strings_len (map snd args)" using assms(1) by (cases args) auto
  then have p: "?p < 8192" "?p + strings_len (map snd args) \<le> 8192" using assms(6,7) by auto
  obtain s where s: "copy_args page ?o 0 (map snd args) ?p (stk[?p := 0]) = Some s"
    "\<forall>j < length args. le_word (take 4 (drop (?o + 4 * j) s)) = page + of_nat (arg_pos ?p (map snd args) j) \<and>
      cstr (drop (arg_pos ?p (map snd args) j) s) = cstr (snd (args ! j))"
    using copy_args_spec [of "map snd args" ?o 0 ?p "stk[?p := 0]" page] assms(2,4) p by auto
  have "arg_pos ?p (map snd args) j < 8192" if "j < length args" for j
  proof -
    have "strings_len (map snd args) = strings_len (take j (map snd args)) + strings_len (drop j (map snd args))"
      using strings_len_append [of "take j (map snd args)" "drop j (map snd args)"] by (simp only: append_take_drop_id)
    moreover have "0 < strings_len (drop j (map snd args))"
      using that by (cases "drop j (map snd args)") auto
    ultimately show ?thesis using p by (simp add: arg_pos_def)
  qed
  with s(2) have q: "\<forall>j < length args. \<exists>p. le_word (take 4 (drop (?o + 4 * j) s)) = page + of_nat p \<and> p < 8192 \<and>
      cstr (drop p s) = cstr (snd (args ! j))" by blast
  have "exec_args low page stk args = Some (of_nat (length args),
      page + DEFAULT_USER_STACK_SIZE - argv_space (length (cstr low)) args, s)"
    using s(1) p(1) assms(1,3,4) by (simp add: exec_args_def Let_def strlen_cstr o)
  with q show ?thesis by blast
qed

text \<open>
  The space for the arguments is computed from \<^verbatim>\<open>strlen(argv[argc])\<close>, a null pointer, instead
  of the last argument, and with room for one pointer less than is used: whenever the pointers
  and strings take more than the space computed this way, the copy runs out of the stack page
  into the memory behind it.
\<close>

lemma exec_args_overflow:
  assumes "\<forall>a\<in>set args. terminated (snd a)" and "length stk = 8192"
    and "unat (argv_space (length (cstr low)) args) \<le> 8192"
    and "unat (argv_space (length (cstr low)) args) < 4 * (length args + 2) + strings_len (map snd args)"
  shows "exec_args low page stk args = None"
proof (cases "args = [] \<or> strlen low = None")
  case False
  let ?L = "unat (argv_space (length (cstr low)) args)"
  let ?p = "8192 - ?L + 4 * (length args + 2)"
  have o: "unat (DEFAULT_USER_STACK_SIZE - argv_space (length (cstr low)) args) = 8192 - ?L"
    using argv_offset assms(3) by simp
  have "arr_set stk ?p 0 = None \<or> copy_args page (8192 - ?L) 0 (map snd args) ?p (stk[?p := 0]) = None"
  proof (cases "?p < 8192")
    case True
    then show ?thesis using assms by (intro disjI2 copy_args_overrun) auto
  qed (use assms(2) in simp)
  then show ?thesis using False o by (auto simp: exec_args_def strlen_cstr Let_def arr_set_def split: if_splits)
qed (auto simp: exec_args_def)

section \<open>Loading a program\<close>

text \<open>Exchanging the blocks that one process holds.\<close>

lemma holdings_change:
  assumes "p \<in> set (tl ps)" and "distinct ps" and "\<And>q. q \<noteq> p \<Longrightarrow> resources k' q = resources k q"
    and "resources k p = x # old" and "resources k' p = x # new"
  shows "mset (holdings k' ps @ old) = mset (holdings k ps @ new)"
proof -
  obtain h qs where ps: "ps = h # qs" "p \<in> set qs" using assms(1) by (cases ps) auto
  then obtain xs ys where qs: "qs = xs @ p # ys" by (meson split_list)
  have r: "map (resources k') zs = map (resources k) zs" if "p \<notin> set zs" for zs
  proof (rule map_cong)
    show "resources k' x = resources k x" if "x \<in> set zs" for x
      using that \<open>p \<notin> set zs\<close> by (intro assms(3)) auto
  qed simp
  have "p \<notin> set xs" "p \<notin> set ys" using assms(2) ps qs by auto
  then show ?thesis using assms(4,5) by (simp add: holdings_def ps(1) qs r del: map_eq_conv)
qed

text \<open>A process gets a new stack and a new text block; what it held before is lost.\<close>

lemma ktab_new_blocks:
  assumes "ktab base extra k ps" and "p \<in> set (tl ps)" and "pcbs k p = Some b"
    and "memory_allocate n (mem k) = Some (t, m1)" and "memory_allocate sn m1 = Some (s, m2)"
    and "t \<noteq> NULL" and "s \<noteq> NULL"
    and "p_next b' = p_next b" "p_prev b' = p_prev b" "p_pid b' = p_pid b" "p_stack b' = s" "stacksize b' = sn"
      "p_text b' = t" "textsize b' = n"
  shows "ktab base (tl (resources k p) @ extra) (k\<lparr>mem := m2, pcbs := (pcbs k)(p \<mapsto> b')\<rparr>) ps"
    and "set (holdings (k\<lparr>mem := m2, pcbs := (pcbs k)(p \<mapsto> b')\<rparr>) ps) \<subseteq> set (holdings k ps) \<union> {(s, sn), (t, n)}"
proof -
  let ?k = "k\<lparr>mem := m2, pcbs := (pcbs k)(p \<mapsto> b')\<rparr>"
  note kp = ktab_parts [OF assms(1)]
  have "mm.accounts base ((s, sn) # (t, n) # holdings k ps @ extra) m2"
    using mm.accounts_alloc [OF mm.accounts_alloc [OF kp(4) assms(4,6)] assms(5,7)] .
  moreover have r: "resources k p = (p, PCB_SIZE) # tl (resources k p)"
    "resources ?k p = (p, PCB_SIZE) # [(s, sn), (t, n)]" using assms by (simp_all add: resources_def)
  have m: "mset (holdings ?k ps @ tl (resources k p)) = mset (holdings k ps @ [(s, sn), (t, n)])"
    by (rule holdings_change [OF assms(2) kp(3) _ r]) (simp add: resources_def)
  then have "mset ((s, sn) # (t, n) # holdings k ps @ extra) = mset (holdings ?k ps @ tl (resources k p) @ extra)"
    by simp
  ultimately have "mm.accounts base (holdings ?k ps @ tl (resources k p) @ extra) m2" using mm.accounts_cong by blast
  moreover have "proc_list ?k ps"
  proof (subst proc_list_cong [of ?k k])
    show "map_option (\<lambda>b. (p_next b, p_prev b)) (pcbs ?k q) = map_option (\<lambda>b. (p_next b, p_prev b)) (pcbs k q)" for q
      using assms(3,8,9) by simp
  qed (use kp(1) in simp_all)
  moreover have "pid_of ?k = pid_of k" using assms(3,10) by (auto simp: pid_of_def fun_eq_iff)
  moreover have "dom (pcbs ?k) = set ps" using kp(2) assms(3) by auto
  ultimately show "ktab base (tl (resources k p) @ extra) ?k ps" using assms(1) by (simp add: ktab_def)
  have "set (holdings ?k ps) \<subseteq> set (holdings k ps @ [(s, sn), (t, n)])"
    unfolding mset_eq_setD [OF m, symmetric] by simp
  then show "set (holdings ?k ps) \<subseteq> set (holdings k ps) \<union> {(s, sn), (t, n)}" by auto
qed

lemma kinv_new_blocks:
  assumes "kinv base extra k ps" and "p \<in> set (tl ps)" and "pcbs k p = Some b"
    and "memory_allocate n (mem k) = Some (t, m1)" and "memory_allocate sn m1 = Some (s, m2)"
    and "t \<noteq> NULL" and "s \<noteq> NULL" and "n \<noteq> 0" and "sn \<noteq> 0"
    and "p_next b' = p_next b" "p_prev b' = p_prev b" "p_pid b' = p_pid b" "p_stack b' = s" "stacksize b' = sn"
      "p_text b' = t" "textsize b' = n"
  shows "kinv base (tl (resources k p) @ extra) (k\<lparr>mem := m2, pcbs := (pcbs k)(p \<mapsto> b')\<rparr>) ps"
  using ktab_new_blocks [OF _ assms(2-7) assms(10-16)] assms(1,8,9) unfolding kinv_def by fastforce

text \<open>The arguments fit into the space that the source computes.\<close>

definition args_fit :: "buf \<Rightarrow> buf \<Rightarrow> (ptr \<times> buf) list option \<Rightarrow> bool" where
  "args_fit low stk argv \<longleftrightarrow> (case argv of None \<Rightarrow> True
     | Some args \<Rightarrow> args \<noteq> [] \<and> (\<forall>a\<in>set args. terminated (snd a)) \<and> terminated low \<and> length stk = 8192 \<and>
         unat (argv_space (length (cstr low)) args) \<le> 8192 \<and>
         4 * (length args + 2) + strings_len (map snd args) \<le> unat (argv_space (length (cstr low)) args))"

lemma exec_args_fit:
  "args_fit low stk argv \<Longrightarrow> \<exists>argc loc s. (case argv of
      None \<Rightarrow> Some (0, page + DEFAULT_USER_STACK_SIZE, stk)
    | Some args \<Rightarrow> exec_args low page stk args) = Some (argc, loc, s)"
  using exec_args_layout [of _ low stk _ page] by (fastforce simp: args_fit_def split: option.splits)

lemma path_text_string:
  assumes "\<forall>c\<in>set cs. component c"
  shows "terminated (path_text absolute cs)" and "cstr (path_text absolute cs) = butlast (path_text absolute cs)"
proof -
  have "0 \<notin> set (path_string cs)" using assms
    by (induction cs rule: path_string.induct) (auto simp: component_def)
  then show "terminated (path_text absolute cs)" "cstr (path_text absolute cs) = butlast (path_text absolute cs)"
    using cstr_append_zero [of "(if absolute then [47] else []) @ path_string cs" "[]"]
    by (auto simp: path_text_def terminated_def butlast_append)
qed

lemma execve_loads_spec:
  assumes "kinv base extra k ps" and "p = current_process k" and "p \<in> set (tl ps)" and "pcbs k p = Some b"
    and "length (p_name b) = 32" and "start_dir absolute v k = Some d" and "path_leads (disk v) d cs i"
    and "\<forall>c\<in>set cs. component c" and "0 \<le> sint i" and "resolves (disk v) i i" and "file_at (disk v) i contents"
    and "contents \<noteq> []" and "length old_text = length contents" and "args_fit low old_stack argv"
    and "max_chunk (mem k) + chunks_of (of_nat (length contents)) \<le> 32 * MAP_WORDS"
    and "max_chunk (mem k) + 2 \<le> 32 * MAP_WORDS"
  shows "\<exists>r img k'. execve low old_text old_stack (path_text absolute cs) argv v k = Some (r, img, k') \<and>
    (case img of None \<Rightarrow> r = - ENOMEM \<and> pcbs k' = pcbs k \<and>
        (\<exists>t m1 s m2. memory_allocate (of_nat (length contents)) (mem k) = Some (t, m1) \<and>
           memory_allocate DEFAULT_USER_STACK_SIZE m1 = Some (s, m2) \<and> (t = NULL \<or> s = NULL))
     | Some (txt, stk) \<Rightarrow> txt = contents \<and> current_process k' = p \<and> (argv = None \<longrightarrow> r = 0) \<and>
         kinv base (tl (resources k p) @ extra) k' ps \<and> (\<forall>q. q \<noteq> p \<longrightarrow> pcbs k' q = pcbs k q) \<and>
         avail_pid k' = avail_pid k \<and>
         (\<exists>b'. pcbs k' p = Some b' \<and> p_pid b' = p_pid b \<and> p_parent b' = p_parent b \<and> current_dir b' = current_dir b \<and> u_pc (user_state b') = p_text b' \<and> p_text b' \<noteq> NULL \<and> p_stack b' \<noteq> NULL \<and>
           textsize b' = of_nat (length contents) \<and> cstr (p_name b') = take 31 (butlast (path_text absolute cs))))"
proof -
  have od: "on_disk (disk v) i 12"
    using assms(11) on_disk_mono [of "disk v" i 16 12] by (auto simp: file_at_def header_at_def)
  obtain st where st: "romfs_stat (disk v) i = Some (0, st)" "st_size st = word_at (disk v) (i + 8)"
    using romfs_stat_spec [OF assms(10) od] by blast
  have sz: "unat (st_size st) = length contents" using file_at_length [OF assms(11)] st(2) by simp
  then have szn: "st_size st = of_nat (length contents)" "st_size st \<noteq> 0"
    using assms(12) by (simp_all flip: sz) (use assms(12) sz in auto)
  have g: "get_inode v k (path_text absolute cs) = Some i" using get_inode_leads [OF assms(6-8)] .
  have mi: "mem_inv (mem k)" using kinv_parts(4) [OF assms(1)] by (simp add: mm.accounts_def)
  obtain t m1 where a1: "memory_allocate (st_size st) (mem k) = Some (t, m1)"
    using allocate_total [OF mi, of "st_size st"] assms(15) szn(1) by auto
  note ai = allocate_inv [OF a1 mi]
  have c2: "chunks_of DEFAULT_USER_STACK_SIZE = 2" by (simp add: chunks_of_def DEFAULT_USER_STACK_SIZE_def)
  obtain s m2 where a2: "memory_allocate DEFAULT_USER_STACK_SIZE m1 = Some (s, m2)"
    using allocate_total [OF ai(1), of DEFAULT_USER_STACK_SIZE] assms(16) ai(2) c2 by auto
  show ?thesis
  proof (cases "t = NULL \<or> s = NULL")
    case True
    then have "execve low old_text old_stack (path_text absolute cs) argv v k = Some (- ENOMEM, None, k\<lparr>mem := m2\<rparr>)"
      using g assms(9) st(1) a1 a2 by (simp add: execve_def Let_def)
    moreover have "memory_allocate (of_nat (length contents)) (mem k) = Some (t, m1)" using a1 szn(1) by simp
    ultimately show ?thesis using a2 True by auto
  next
    case False
    obtain argc loc stk where ar: "(case argv of None \<Rightarrow> Some (0, s + DEFAULT_USER_STACK_SIZE, old_stack)
        | Some args \<Rightarrow> exec_args low s old_stack args) = Some (argc, loc, stk)"
      using exec_args_fit [OF assms(14)] by blast
    let ?t = "take 31 (butlast (path_text absolute cs))"
    let ?nm = "?t @ 0 # drop (Suc (length ?t)) (p_name b)"
    have nm: "strlcpy (p_name b) (path_text absolute cs) 32 = Some (?nm, length ?t)"
      using strlcpy_copies [OF path_text_string(1) [OF assms(8)], of 32 "p_name b"] assms(5)
        path_text_string(2) [OF assms(8)] by (simp add: Let_def)
    have "0 \<notin> set ?t" using path_text_string(2) [OF assms(8), of absolute] zero_notin_cstr in_set_takeD by metis
    then have cn: "cstr ?nm = ?t" by (rule cstr_append_zero)
    have rf: "romfs_read_file (disk v) i 0 old_text (st_size st) = Some (st_size st, contents)"
      using file_at_read [OF assms(11), of 0 "st_size st" old_text] assms(13) sz szn(1) by simp
    define b' where "b' = b\<lparr>p_name := ?nm, user_state := (user_state b)\<lparr>u_r := (u_r (user_state b))
        [13 := loc, 0 := argc, 1 := loc], u_pc := t\<rparr>, p_stack := s, stacksize := DEFAULT_USER_STACK_SIZE,
        p_text := t, textsize := st_size st\<rparr>"
    have "execve low old_text old_stack (path_text absolute cs) argv v k =
        Some (argc, Some (contents, stk), k\<lparr>mem := m2, pcbs := (pcbs k)(p \<mapsto> b')\<rparr>)"
      using g assms(9) st(1) a1 a2 False rf assms(2,4) nm ar by (simp add: execve_def Let_def pcb_upd_def b'_def)
    moreover have "kinv base (tl (resources k p) @ extra) (k\<lparr>mem := m2, pcbs := (pcbs k)(p \<mapsto> b')\<rparr>) ps"
      using False szn(2)
      by (intro kinv_new_blocks [OF assms(1,3,4) a1 a2]) (simp_all add: b'_def DEFAULT_USER_STACK_SIZE_def)
    moreover have "argv = None \<longrightarrow> argc = 0" using ar by auto
    ultimately show ?thesis using False cn szn(1) assms(2) by (auto simp: b'_def)
  qed
qed


lemma named_running:
  "\<exists>k p c b. kinv {0..4} [] k [p, c] \<and> current_process k = c \<and> max_chunk (mem k) = 16 \<and> pcbs k c = Some b \<and>
    length (p_name b) = 32"
proof -
  obtain k p c where k: "kinv {0..4} [] k [p, c]" "current_process k = c" "max_chunk (mem k) = 16"
    using small_running by blast
  let ?k = "k\<lparr>pcbs := (\<lambda>x. map_option (\<lambda>b. b\<lparr>p_name := replicate 32 0\<rparr>) (pcbs k x))\<rparr>"
  have "kinv {0..4} [] ?k [p, c]"
    by (rule kinv_core [OF k(1)]) (auto simp: core_def [abs_def] option.map_comp comp_def cong: if_cong)
  moreover obtain b where "pcbs k c = Some b" using kinv_parts(2) [OF k(1)] by auto
  ultimately show ?thesis
    using k(2,3) by (intro exI [of _ ?k] exI [of _ p] exI [of _ c] exI [of _ "b\<lparr>p_name := replicate 32 0\<rparr>"]) simp
qed


end
