(* ===== verification/Syscalls.thy ===== *)
theory Syscalls
  imports Interrupts I2c Exec
begin

text \<open>
  The system call interface: the dispatcher \<^verbatim>\<open>swi_handler_c\<close> of \<^verbatim>\<open>kernel/syscalls/syscalls.c\<close> with the
  small calls of \<^verbatim>\<open>kernel/syscalls\<close>, and the user side of the calls,
  \<^verbatim>\<open>userspace/vlibc/syscalls.arm.c\<close>, \<^verbatim>\<open>vmwos.c\<close> and \<^verbatim>\<open>i2c-dev.c\<close>.

  The registers carry numbers and addresses. An address of the calling program is an address of
  the RAM of the allocator's state: the kernel has no address translation. A buffer argument is the
  bytes at its address, which the dispatcher hands to the model of the call and stores back after
  it; a string is the bytes up to the first zero. The structures of the kernel itself (control
  blocks, file table, console ring) are separate objects of the model, so a program that passes an
  address inside them is outside of the model.
\<close>

section \<open>The whole machine\<close>

record 'h system =
  kern :: kernel
  fs :: vfs
  con :: console
  dev :: "'h devices"
  ser :: serial_type
  i2c_up :: bool

abbreviation user_ram :: "'h system \<Rightarrow> ptr \<Rightarrow> u8" where
  "user_ram s \<equiv> ram (mem (kern s))"

definition set_ram :: "(ptr \<Rightarrow> u8) \<Rightarrow> kernel \<Rightarrow> kernel" where
  "set_ram r k = k\<lparr>mem := (mem k)\<lparr>ram := r\<rparr>\<rparr>"

definition load_bytes :: "(ptr \<Rightarrow> u8) \<Rightarrow> ptr \<Rightarrow> nat \<Rightarrow> buf" where
  "load_bytes r p n = map (\<lambda>i. r (p + of_nat i)) [0..<n]"

definition store_bytes :: "ptr \<Rightarrow> buf \<Rightarrow> (ptr \<Rightarrow> u8) \<Rightarrow> (ptr \<Rightarrow> u8)" where
  "store_bytes p bs r = (\<lambda>x. if unat (x - p) < length bs then bs ! unat (x - p) else r x)"

text \<open>The string at an address, with its zero; there is none if no zero follows.\<close>

partial_function (option) load_string :: "(ptr \<Rightarrow> u8) \<Rightarrow> ptr \<Rightarrow> buf option" where
  [code]: "load_string r p =
     (if r p = 0 then Some [0] else do { s \<leftarrow> load_string r (p + 1); Some (r p # s) })"

definition word_bytes :: "u32 \<Rightarrow> buf" where
  "word_bytes w = [ucast w, ucast (drop_bit 8 w), ucast (drop_bit 16 w), ucast (drop_bit 24 w)]"

definition load_word :: "(ptr \<Rightarrow> u8) \<Rightarrow> ptr \<Rightarrow> u32" where
  "load_word r p = ucast (r p) OR push_bit 8 (ucast (r (p + 1))) OR push_bit 16 (ucast (r (p + 2))) OR
     push_bit 24 (ucast (r (p + 3)))"

definition store_words :: "ptr \<Rightarrow> u32 list \<Rightarrow> (ptr \<Rightarrow> u8) \<Rightarrow> (ptr \<Rightarrow> u8)" where
  "store_words p ws r = store_bytes p (concat (map word_bytes ws)) r"

text \<open>An array of string pointers that ends with a null pointer.\<close>

partial_function (option) load_argv :: "(ptr \<Rightarrow> u8) \<Rightarrow> ptr \<Rightarrow> (ptr \<times> buf) list option" where
  [code]: "load_argv r p =
     (if load_word r p = 0 then Some []
      else do { a \<leftarrow> load_string r (load_word r p);
                as \<leftarrow> load_argv r (p + 4);
                Some ((load_word r p, a) # as) })"

section \<open>Small system calls\<close>

text \<open>\<^verbatim>\<open>kernel/syscalls/times.c\<close>, \<^verbatim>\<open>sysinfo.c\<close>, \<^verbatim>\<open>uname.c\<close>: the results are structures in user memory.\<close>

definition times_call :: "kernel \<Rightarrow> (i32 \<times> u32 list) option" where
  "times_call k = do { b \<leftarrow> pcbs k (current_process k); Some (0, [total_time b, 0, 0, 0]) }"

definition sysinfo :: "kernel \<Rightarrow> (i32 \<times> u32 list) option" where
  "sysinfo k =
     do { free \<leftarrow> memory_total_free (mem k);
          (total_procs, ready_procs) \<leftarrow> process_get_totals k;
          idle \<leftarrow> pcbs k (proc_first k);
          Some (0, [ticks_since_boot k div TIMER_HZ, 0, 0, 0, memory_get_total (mem k), free, 0, 0, 0, 0,
            of_nat total_procs, 0, 0, 0, of_nat ready_procs, c_quot (total_time idle) 64]) }"

text \<open>The compile date comes from a generated header and is a parameter; so is the machine's name.\<close>

definition UTSNAME_SIZE :: u32 where "UTSNAME_SIZE = 65"

fun uname_fields :: "buf list \<Rightarrow> buf \<Rightarrow> buf option" where
  "uname_fields [] b = Some b"
| "uname_fields (f # gs) b =
     do { (field, n) \<leftarrow> strlcpy (take 65 b) f UTSNAME_SIZE;
          rest \<leftarrow> uname_fields gs (drop 65 b);
          Some (field @ rest) }"

definition uname :: "buf \<Rightarrow> buf \<Rightarrow> buf \<Rightarrow> (i32 \<times> buf) option" where
  "uname compile_date machine b =
     do { b' \<leftarrow> uname_fields [lit ''vmwOS'', lit ''pi'', lit ''6'', compile_date, machine, lit ''none''] b;
          Some (0, b') }"

definition stat_words :: "stat_t \<Rightarrow> u32 list" where
  "stat_words st = [st_dev st, st_ino st, st_mode st, st_nlink st, st_uid st, st_gid st, st_rdev st,
     st_size st, st_blksize st, st_blocks st, st_atime st, st_mtime st, st_ctime st]"

definition load_stat :: "(ptr \<Rightarrow> u8) \<Rightarrow> ptr \<Rightarrow> stat_t" where
  "load_stat r p = \<lparr>st_dev = load_word r p, st_ino = load_word r (p + 4), st_mode = load_word r (p + 8),
     st_nlink = load_word r (p + 12), st_uid = load_word r (p + 16), st_gid = load_word r (p + 20),
     st_rdev = load_word r (p + 24), st_size = load_word r (p + 28), st_blksize = load_word r (p + 32),
     st_blocks = load_word r (p + 36), st_atime = load_word r (p + 40), st_mtime = load_word r (p + 44),
     st_ctime = load_word r (p + 48)\<rparr>"

section \<open>The cases of swi_handler_c\<close>

text \<open>
  \<open>Returned r\<close> is the value that the handler leaves in the caller's register 0, whenever the caller
  runs again; \<open>Blocked\<close> is a call that has given up the processor before its result is known.
\<close>

definition sys_read :: "u32 \<Rightarrow> ptr \<Rightarrow> u32 \<Rightarrow> 'h system \<Rightarrow> (outcome \<times> 'h system) option" where
  "sys_read fd p cnt s =
     do { (r, b, v, c, k) \<leftarrow> read fd (load_bytes (user_ram s) p (unat cnt)) cnt (fs s) (con s) (kern s);
          Some (r, s\<lparr>fs := v, con := c, kern := set_ram (store_bytes p b (ram (mem k))) k\<rparr>) }"

definition uart_putc :: "'h board \<Rightarrow> serial_type \<Rightarrow> u8 \<Rightarrow> 'h devices \<Rightarrow> 'h devices option" where
  "uart_putc B serial byte d =
     (case driver serial of
        None \<Rightarrow> None
      | Some Pl011 \<Rightarrow> pl011_uart_putc B byte d
      | Some Mini_uart \<Rightarrow> mini_uart_putc B byte d)"

text \<open>Writing waits for the device, which may never be ready: the device state is then lost.\<close>

definition sys_write :: "'h board \<Rightarrow> u32 \<Rightarrow> ptr \<Rightarrow> u32 \<Rightarrow> 'h system \<Rightarrow> (outcome \<times> 'h system) option" where
  "sys_write B fd p cnt s =
     do { (r, d) \<leftarrow> write_fd (\<lambda>byte d. Option.bind d (uart_putc B (ser s) byte)) (initialized (ser s) \<noteq> 0) fd
            (load_bytes (user_ram s) p (unat cnt)) cnt (Some (dev s));
          d' \<leftarrow> d;
          Some (Returned r, s\<lparr>dev := d'\<rparr>) }"

definition sys_open :: "ptr \<Rightarrow> u32 \<Rightarrow> u32 \<Rightarrow> 'h system \<Rightarrow> (outcome \<times> 'h system) option" where
  "sys_open p flags mode s =
     do { path \<leftarrow> load_string (user_ram s) p;
          (r, v) \<leftarrow> open_file path flags mode (fs s) (kern s);
          Some (Returned r, s\<lparr>fs := v\<rparr>) }"

definition sys_waitpid :: "i32 \<Rightarrow> ptr \<Rightarrow> i32 \<Rightarrow> 'h system \<Rightarrow> (outcome \<times> 'h system) option" where
  "sys_waitpid pid wstatus options s =
     do { (r, w, k) \<leftarrow> waitpid pid (wstatus \<noteq> NULL) options (current_process (kern s)) (kern s);
          Some (r, s\<lparr>kern := (case w of None \<Rightarrow> k
                              | Some x \<Rightarrow> set_ram (store_words wstatus [x] (ram (mem k))) k)\<rparr>) }"

text \<open>
  \<^verbatim>\<open>execve\<close> overwrites the start of the two blocks that it allocates. What they hold before is read
  here from the blocks that the allocator is about to return.
\<close>

definition exec_blocks :: "buf \<Rightarrow> 'h system \<Rightarrow> (ptr \<times> ptr \<times> u32) option" where
  "exec_blocks path s =
     do { inode \<leftarrow> get_inode (fs s) (kern s) path;
          if sint inode < 0 then Some (NULL, NULL, 0)
          else
            do { (r, st) \<leftarrow> romfs_stat (disk (fs s)) inode;
                 (t, m1) \<leftarrow> memory_allocate (st_size st) (mem (kern s));
                 (p, m2) \<leftarrow> memory_allocate DEFAULT_USER_STACK_SIZE m1;
                 Some (t, p, st_size st) } }"

definition sys_execve :: "ptr \<Rightarrow> ptr \<Rightarrow> ptr \<Rightarrow> 'h system \<Rightarrow> (outcome \<times> 'h system) option" where
  "sys_execve filename argv envp s =
     do { path \<leftarrow> load_string (user_ram s) filename;
          args \<leftarrow> (if argv = NULL then Some None else map_option Some (load_argv (user_ram s) argv));
          low \<leftarrow> load_string (user_ram s) 0;
          (t, p, sz) \<leftarrow> exec_blocks path s;
          (r, img, k) \<leftarrow> execve low (load_bytes (user_ram s) t (unat sz))
             (load_bytes (user_ram s) p (unat DEFAULT_USER_STACK_SIZE)) path args (fs s) (kern s);
          let k1 = (case img of None \<Rightarrow> k
             | Some (txt, stk) \<Rightarrow> set_ram (store_bytes p stk (store_bytes t txt (ram (mem k)))) k);
          b \<leftarrow> pcbs k1 (current_process k1);
          k2 \<leftarrow> pcb_upd (p_parent b) (\<lambda>q. q\<lparr>p_status := PROCESS_STATUS_READY\<rparr>) k1;
          k3 \<leftarrow> schedule k2;
          Some (Returned r, s\<lparr>kern := k3\<rparr>) }"

definition sys_chdir :: "ptr \<Rightarrow> 'h system \<Rightarrow> (outcome \<times> 'h system) option" where
  "sys_chdir p s =
     do { path \<leftarrow> load_string (user_ram s) p;
          (r, k) \<leftarrow> chdir path (fs s) (kern s);
          Some (Returned r, s\<lparr>kern := k\<rparr>) }"

definition sys_stat :: "ptr \<Rightarrow> ptr \<Rightarrow> 'h system \<Rightarrow> (outcome \<times> 'h system) option" where
  "sys_stat p q s =
     do { path \<leftarrow> load_string (user_ram s) p;
          (r, st) \<leftarrow> stat path (load_stat (user_ram s) q) (fs s) (kern s);
          Some (Returned r, s\<lparr>kern := set_ram (store_words q (stat_words st) (user_ram s)) (kern s)\<rparr>) }"

text \<open>A call whose result is a structure of words in user memory.\<close>

definition sys_words :: "(kernel \<Rightarrow> (i32 \<times> u32 list) option) \<Rightarrow> ptr \<Rightarrow> 'h system \<Rightarrow> (outcome \<times> 'h system) option" where
  "sys_words f p s =
     do { (r, ws) \<leftarrow> f (kern s);
          Some (Returned r, s\<lparr>kern := set_ram (store_words p ws (user_ram s)) (kern s)\<rparr>) }"

definition sys_uname :: "buf \<Rightarrow> buf \<Rightarrow> ptr \<Rightarrow> 'h system \<Rightarrow> (outcome \<times> 'h system) option" where
  "sys_uname compile_date machine p s =
     do { (r, b) \<leftarrow> uname compile_date machine (load_bytes (user_ram s) p 390);
          Some (Returned r, s\<lparr>kern := set_ram (store_bytes p b (user_ram s)) (kern s)\<rparr>) }"

definition sys_getdents :: "u32 \<Rightarrow> ptr \<Rightarrow> u32 \<Rightarrow> 'h system \<Rightarrow> (outcome \<times> 'h system) option" where
  "sys_getdents fd p cnt s =
     do { (r, b, v) \<leftarrow> getdents fd (load_bytes (user_ram s) p (unat cnt)) cnt (fs s);
          Some (Returned r, s\<lparr>fs := v, kern := set_ram (store_bytes p b (user_ram s)) (kern s)\<rparr>) }"

definition sys_nanosleep :: "ptr \<Rightarrow> 'h system \<Rightarrow> (outcome \<times> 'h system) option" where
  "sys_nanosleep p s =
     do { (r, d, k) \<leftarrow> nanosleep (load_word (user_ram s) p) (load_word (user_ram s) (p + 4)) (dev s) (kern s);
          Some (r, s\<lparr>dev := d, kern := k\<rparr>) }"

definition sys_getcwd :: "ptr \<Rightarrow> u32 \<Rightarrow> 'h system \<Rightarrow> (outcome \<times> 'h system) option" where
  "sys_getcwd p sz s =
     do { b \<leftarrow> getcwd (load_bytes (user_ram s) p (unat sz)) sz (fs s) (kern s);
          Some (Returned p, s\<lparr>kern := set_ram (store_bytes p b (user_ram s)) (kern s)\<rparr>) }"

definition sys_reboot :: "'h board \<Rightarrow> 'h system \<Rightarrow> 'h system" where
  "sys_reboot B s =
     (let d1 = bcm2835_write B 0x100024 (0x5a000000 OR 1) (dev s) in
      s\<lparr>dev := bcm2835_write B 0x10001c (0x5a000000 OR 0x20) d1\<rparr>)"

definition sys_i2c_read :: "'h board \<Rightarrow> u32 \<Rightarrow> ptr \<Rightarrow> u32 \<Rightarrow> 'h system \<Rightarrow> (outcome \<times> 'h system) option" where
  "sys_i2c_read B address p cnt s =
     do { (r, b, d) \<leftarrow> i2c_read B (i2c_up s) (ucast address) (load_bytes (user_ram s) p (unat cnt)) cnt (dev s);
          Some (Returned r, s\<lparr>dev := d, kern := set_ram (store_bytes p b (user_ram s)) (kern s)\<rparr>) }"

definition sys_i2c_write :: "'h board \<Rightarrow> u32 \<Rightarrow> ptr \<Rightarrow> u32 \<Rightarrow> 'h system \<Rightarrow> (outcome \<times> 'h system) option" where
  "sys_i2c_write B address p cnt s =
     do { (r, d) \<leftarrow> i2c_write B (i2c_up s) (ucast address) (load_bytes (user_ram s) p (unat cnt)) cnt (dev s);
          Some (Returned r, s\<lparr>dev := d\<rparr>) }"

section \<open>The dispatcher\<close>

definition SYSCALL_EXIT :: u32 where "SYSCALL_EXIT = 1"
definition SYSCALL_READ :: u32 where "SYSCALL_READ = 3"
definition SYSCALL_WRITE :: u32 where "SYSCALL_WRITE = 4"
definition SYSCALL_OPEN :: u32 where "SYSCALL_OPEN = 5"
definition SYSCALL_CLOSE :: u32 where "SYSCALL_CLOSE = 6"
definition SYSCALL_WAITPID :: u32 where "SYSCALL_WAITPID = 7"
definition SYSCALL_EXECVE :: u32 where "SYSCALL_EXECVE = 11"
definition SYSCALL_CHDIR :: u32 where "SYSCALL_CHDIR = 12"
definition SYSCALL_TIME :: u32 where "SYSCALL_TIME = 13"
definition SYSCALL_GETPID :: u32 where "SYSCALL_GETPID = 20"
definition SYSCALL_TIMES :: u32 where "SYSCALL_TIMES = 43"
definition SYSCALL_IOCTL :: u32 where "SYSCALL_IOCTL = 54"
definition SYSCALL_REBOOT :: u32 where "SYSCALL_REBOOT = 88"
definition SYSCALL_STAT :: u32 where "SYSCALL_STAT = 106"
definition SYSCALL_SYSINFO :: u32 where "SYSCALL_SYSINFO = 116"
definition SYSCALL_UNAME :: u32 where "SYSCALL_UNAME = 122"
definition SYSCALL_GETDENTS :: u32 where "SYSCALL_GETDENTS = 141"
definition SYSCALL_NANOSLEEP :: u32 where "SYSCALL_NANOSLEEP = 162"
definition SYSCALL_GETCWD :: u32 where "SYSCALL_GETCWD = 183"
definition SYSCALL_VFORK :: u32 where "SYSCALL_VFORK = 190"
definition SYSCALL_BLINK :: u32 where "SYSCALL_BLINK = 8192"
definition SYSCALL_MALLOC :: u32 where "SYSCALL_MALLOC = 8201"
definition SYSCALL_I2C_READ :: u32 where "SYSCALL_I2C_READ = 8202"
definition SYSCALL_I2C_WRITE :: u32 where "SYSCALL_I2C_WRITE = 8203"

lemmas syscall_numbers = SYSCALL_EXIT_def SYSCALL_READ_def SYSCALL_WRITE_def SYSCALL_OPEN_def SYSCALL_CLOSE_def
  SYSCALL_WAITPID_def SYSCALL_EXECVE_def SYSCALL_CHDIR_def SYSCALL_TIME_def SYSCALL_GETPID_def SYSCALL_TIMES_def
  SYSCALL_IOCTL_def SYSCALL_REBOOT_def SYSCALL_STAT_def SYSCALL_SYSINFO_def SYSCALL_UNAME_def
  SYSCALL_GETDENTS_def SYSCALL_NANOSLEEP_def SYSCALL_GETCWD_def SYSCALL_VFORK_def SYSCALL_BLINK_def
  SYSCALL_MALLOC_def SYSCALL_I2C_READ_def SYSCALL_I2C_WRITE_def

definition swi_handler_c :: "'h board \<Rightarrow> buf \<Rightarrow> buf \<Rightarrow> u32 \<Rightarrow> u32 \<Rightarrow> u32 \<Rightarrow> u32 \<Rightarrow> u32 \<Rightarrow> 'h system \<Rightarrow>
    (outcome \<times> 'h system) option" where
  "swi_handler_c B compile_date machine r7 r0 r1 r2 r3 s =
     (if r7 = SYSCALL_EXIT then do { k \<leftarrow> exit r0 (kern s); Some (Returned 0, s\<lparr>kern := k\<rparr>) }
      else if r7 = SYSCALL_READ then sys_read r0 r1 r2 s
      else if r7 = SYSCALL_WRITE then sys_write B r0 r1 r2 s
      else if r7 = SYSCALL_OPEN then sys_open r0 r1 r2 s
      else if r7 = SYSCALL_CLOSE then Some (Returned (close r0), s)
      else if r7 = SYSCALL_WAITPID then sys_waitpid r0 r1 r2 s
      else if r7 = SYSCALL_EXECVE then sys_execve r0 r1 r2 s
      else if r7 = SYSCALL_CHDIR then sys_chdir r0 s
      else if r7 = SYSCALL_UNAME then sys_uname compile_date machine r0 s
      else if r7 = SYSCALL_SYSINFO then sys_words sysinfo r0 s
      else if r7 = SYSCALL_STAT then sys_stat r0 r1 s
      else if r7 = SYSCALL_TIME then Some (Returned (time_since_boot (kern s)), s)
      else if r7 = SYSCALL_GETPID then
        do { b \<leftarrow> pcbs (kern s) (current_process (kern s)); Some (Returned (p_pid b), s) }
      else if r7 = SYSCALL_TIMES then sys_words times_call r0 s
      else if r7 = SYSCALL_IOCTL then Some (Returned (-1), s)
      else if r7 = SYSCALL_GETDENTS then sys_getdents r0 r1 r2 s
      else if r7 = SYSCALL_NANOSLEEP then sys_nanosleep r0 s
      else if r7 = SYSCALL_GETCWD then sys_getcwd r0 r1 s
      else if r7 = SYSCALL_VFORK then do { (r, k) \<leftarrow> vfork (kern s); Some (Returned r, s\<lparr>kern := k\<rparr>) }
      else if r7 = SYSCALL_BLINK then
        Some (Returned 0, s\<lparr>dev := (dev s)\<lparr>blinking_enabled := (if r0 = 0 then 0 else 1)\<rparr>\<rparr>)
      else if r7 = SYSCALL_REBOOT then Some (Returned (-1), sys_reboot B s)
      else if r7 = SYSCALL_MALLOC then
        do { (p, m) \<leftarrow> memory_allocate r0 (mem (kern s));
             Some (Returned p, s\<lparr>kern := (kern s)\<lparr>mem := m\<rparr>\<rparr>) }
      else if r7 = SYSCALL_I2C_READ then sys_i2c_read B r0 r1 r2 s
      else if r7 = SYSCALL_I2C_WRITE then sys_i2c_write B r0 r1 r2 s
      else Some (Returned 0, s))"

section \<open>The user side\<close>

text \<open>
  A wrapper of the C library loads register 7 with the number of the call and the first registers
  with its arguments, and executes \<^verbatim>\<open>svc\<close>; its result is register 0 afterwards. The registers that
  it does not load keep whatever they hold, \<open>junk\<close>.
\<close>

type_synonym svc_call = "u32 \<times> u32 list"

definition svc :: "'h board \<Rightarrow> buf \<Rightarrow> buf \<Rightarrow> u32 list \<Rightarrow> svc_call \<Rightarrow> 'h system \<Rightarrow> (outcome \<times> 'h system) option" where
  "svc B compile_date machine junk call s =
     (let r = snd call @ drop (length (snd call)) junk in
      swi_handler_c B compile_date machine (fst call) (r ! 0) (r ! 1) (r ! 2) (r ! 3) s)"

definition vlibc_exit :: "i32 \<Rightarrow> svc_call" where "vlibc_exit status = (1, [status])"

definition vlibc_read :: "i32 \<Rightarrow> ptr \<Rightarrow> u32 \<Rightarrow> svc_call" where "vlibc_read fd b cnt = (3, [fd, b, cnt])"

definition vlibc_write :: "i32 \<Rightarrow> ptr \<Rightarrow> u32 \<Rightarrow> svc_call" where "vlibc_write fd b sz = (4, [fd, b, sz])"

definition vlibc_open :: "ptr \<Rightarrow> u32 \<Rightarrow> u32 \<Rightarrow> svc_call" where "vlibc_open filename flags mode = (5, [filename, flags, mode])"

definition vlibc_close :: "u32 \<Rightarrow> svc_call" where "vlibc_close fd = (6, [fd])"

definition vlibc_waitpid :: "i32 \<Rightarrow> ptr \<Rightarrow> i32 \<Rightarrow> svc_call" where
  "vlibc_waitpid pid wstatus options = (7, [pid, wstatus, options])"

definition vlibc_execve :: "ptr \<Rightarrow> ptr \<Rightarrow> ptr \<Rightarrow> svc_call" where "vlibc_execve filename argv envp = (11, [filename, argv, envp])"

definition vlibc_chdir :: "ptr \<Rightarrow> svc_call" where "vlibc_chdir path = (12, [path])"

definition vlibc_getcwd :: "ptr \<Rightarrow> u32 \<Rightarrow> svc_call" where "vlibc_getcwd b sz = (183, [b, sz])"

definition vlibc_getpid :: svc_call where "vlibc_getpid = (20, [])"

definition vlibc_times :: "ptr \<Rightarrow> svc_call" where "vlibc_times b = (43, [b])"

definition vlibc_stat :: "ptr \<Rightarrow> ptr \<Rightarrow> svc_call" where "vlibc_stat pathname b = (106, [pathname, b])"

definition vlibc_sysinfo :: "ptr \<Rightarrow> svc_call" where "vlibc_sysinfo b = (116, [b])"

definition vlibc_uname :: "ptr \<Rightarrow> svc_call" where "vlibc_uname b = (122, [b])"

definition vlibc_getdents :: "u32 \<Rightarrow> ptr \<Rightarrow> u32 \<Rightarrow> svc_call" where "vlibc_getdents fd dirp cnt = (141, [fd, dirp, cnt])"

definition vlibc_nanosleep :: "ptr \<Rightarrow> ptr \<Rightarrow> svc_call" where "vlibc_nanosleep req rem = (162, [req, rem])"

definition vlibc_vfork :: svc_call where "vlibc_vfork = (190, [])"

definition vlibc_ioctl3 :: "i32 \<Rightarrow> u32 \<Rightarrow> u32 \<Rightarrow> svc_call" where "vlibc_ioctl3 fd request req2 = (54, [fd, request, req2])"

definition vlibc_ioctl4 :: "i32 \<Rightarrow> u32 \<Rightarrow> u32 \<Rightarrow> u32 \<Rightarrow> svc_call" where
  "vlibc_ioctl4 fd request req2 req3 = (54, [fd, request, req2, req3])"

definition vlibc_sys_time :: svc_call where "vlibc_sys_time = (13, [])"

definition vlibc_sys_reboot :: svc_call where "vlibc_sys_reboot = (88, [])"

text \<open>\<^verbatim>\<open>vmwos_blink\<close> leaves register 0 as it is for any other value than \<open>n\<close> and \<open>f\<close>.\<close>

definition vmwos_blink :: "i32 \<Rightarrow> svc_call" where
  "vmwos_blink v = (8192, if v = 102 then [0] else if v = 110 then [1] else [])"

definition vmwos_tb1 :: svc_call where "vmwos_tb1 = (8195, [])"

definition vmwos_setfont :: "i32 \<Rightarrow> svc_call" where "vmwos_setfont which = (8193, [which])"

definition vmwos_gradient :: svc_call where "vmwos_gradient = (8194, [])"

definition vmwos_framebuffer_load :: "i32 \<Rightarrow> i32 \<Rightarrow> i32 \<Rightarrow> ptr \<Rightarrow> svc_call" where
  "vmwos_framebuffer_load x y depth fb = (8200, [x, y, depth, fb])"

definition vmwos_get_temp :: svc_call where "vmwos_get_temp = (8198, [])"

definition vmwos_random :: "ptr \<Rightarrow> svc_call" where "vmwos_random b = (8199, [b])"

definition vmwos_malloc :: "u32 \<Rightarrow> svc_call" where "vmwos_malloc sz = (8201, [sz])"

definition vlibc_i2c_read :: "u16 \<Rightarrow> ptr \<Rightarrow> u32 \<Rightarrow> svc_call" where "vlibc_i2c_read address b cnt = (8202, [ucast address, b, cnt])"

definition vlibc_i2c_write :: "u16 \<Rightarrow> ptr \<Rightarrow> u32 \<Rightarrow> svc_call" where "vlibc_i2c_write address b cnt = (8203, [ucast address, b, cnt])"

lemmas vlibc_defs = vlibc_exit_def vlibc_read_def vlibc_write_def vlibc_open_def vlibc_close_def vlibc_waitpid_def
  vlibc_execve_def vlibc_chdir_def vlibc_getcwd_def vlibc_getpid_def vlibc_times_def vlibc_stat_def
  vlibc_sysinfo_def vlibc_uname_def vlibc_getdents_def vlibc_nanosleep_def vlibc_vfork_def vlibc_ioctl3_def
  vlibc_ioctl4_def vlibc_sys_time_def vlibc_sys_reboot_def vmwos_blink_def vmwos_tb1_def vmwos_setfont_def
  vmwos_gradient_def vmwos_framebuffer_load_def vmwos_get_temp_def vmwos_random_def vmwos_malloc_def
  vlibc_i2c_read_def vlibc_i2c_write_def

section \<open>User memory\<close>

lemma load_bytes_length [simp]: "length (load_bytes r p n) = n"
  by (simp add: load_bytes_def)

lemma load_bytes_nth: "i < n \<Longrightarrow> load_bytes r p n ! i = r (p + of_nat i)"
  by (simp add: load_bytes_def)

text \<open>Storing back bytes that are there already changes nothing.\<close>

lemma store_bytes_prefix:
  assumes "length xs = n" and "n \<le> cnt"
  shows "store_bytes q (xs @ drop n (load_bytes r q cnt)) r = store_bytes q xs r"
proof
  fix x
  show "store_bytes q (xs @ drop n (load_bytes r q cnt)) r x = store_bytes q xs r x"
    using assms by (auto simp: store_bytes_def nth_append load_bytes_nth)
qed

lemma store_bytes_at:
  assumes "i < length bs" and "length bs \<le> 4294967296"
  shows "store_bytes p bs r (p + of_nat i) = bs ! i"
  using assms by (simp add: store_bytes_def unat_of_nat)

text \<open>A string that has been stored is read back.\<close>

lemma load_string_from:
  assumes "\<And>i. i < length t \<Longrightarrow> r (p + of_nat i) = t ! i" and "r (p + of_nat (length t)) = 0" and "0 \<notin> set t"
  shows "load_string r p = Some (t @ [0])"
  using assms
proof (induction t arbitrary: p)
  case Nil
  then show ?case by (subst load_string.simps) simp
next
  case (Cons x t)
  have x: "r p = x" using Cons.prems(1) [of 0] by simp
  have "load_string r (p + 1) = Some (t @ [0])"
  proof (rule Cons.IH)
    show "r (p + 1 + of_nat i) = t ! i" if "i < length t" for i
      using Cons.prems(1) [of "Suc i"] that by (simp add: add.assoc)
    show "r (p + 1 + of_nat (length t)) = 0" using Cons.prems(2) by (simp add: add.assoc)
    show "0 \<notin> set t" using Cons.prems(3) by simp
  qed
  then show ?case using x Cons.prems(3) by (subst load_string.simps) auto
qed

lemma load_string_stored:
  assumes "0 \<notin> set t" and "length t < 4294967296"
  shows "load_string (store_bytes p (t @ [0]) r) p = Some (t @ [0])"
  using assms by (intro load_string_from) (simp_all add: store_bytes_at nth_append)

section \<open>Composition\<close>

lemma svc_simps:
  assumes "length junk = 4"
  shows "svc B cd mc junk (vlibc_open p flags mode) s = sys_open p flags mode s"
    and "svc B cd mc junk (vlibc_read fd p cnt) s = sys_read fd p cnt s"
  by (simp_all add: svc_def swi_handler_c_def vlibc_defs syscall_numbers)

lemma read_fd_start:
  assumes "file_at (disk v) i contents" and "f < length (fd_table v)" and "unat fd = f"
    and "fd_table v ! f = \<lparr>fd_valid = 1, fd_inode = i, fd_file_ptr = 0\<rparr>" and "length b = unat n"
  defines "m \<equiv> min (unat n) (length contents)"
  shows "\<exists>v'. read_fd fd b n v = Some (of_nat m, take m contents @ drop m b, v')"
  using file_at_read [OF assms(1), of 0 n b] assms(2-5) by (auto simp: read_fd_def m_def Let_def)

text \<open>
  C20: A program reads a file through the whole system: it calls \<^verbatim>\<open>open\<close> of the C library with the
  address of a path in its memory, then \<^verbatim>\<open>read\<close> with the descriptor it got. Both calls return; the
  second one returns the number of bytes, the wanted number or the size of the file, and
  the memory of the program holds the beginning of the file at the buffer and is unchanged elsewhere.
\<close>

theorem libc_open_read:
  assumes "load_string (user_ram s) p = Some (path_text absolute cs)" and "length junk = 4"
    and "start_dir absolute (fs s) (kern s) = Some d" and "path_leads (disk (fs s)) d cs i"
    and "\<forall>c\<in>set cs. component c" and "0 \<le> sint i" and "file_at (disk (fs s)) i contents"
    and "length (fd_table (fs s)) = 32" and "\<exists>f<32. fd_valid (fd_table (fs s) ! f) = 0"
    and "fd_valid (fd_table (fs s) ! 0) \<noteq> 0"
  shows "\<exists>fd s1 s2. svc B cd mc junk (vlibc_open p flags mode) s = Some (Returned fd, s1) \<and> 0 < sint fd \<and>
    svc B cd mc junk (vlibc_read fd q cnt) s1 = Some (Returned (of_nat (min (unat cnt) (length contents))), s2) \<and>
    user_ram s2 = store_bytes q (take (unat cnt) contents) (user_ram s)"
proof -
  obtain f where f: "f < 32" "fd_allocate i (fs s) = Some (of_nat f, (fs s)\<lparr>fd_table :=
      (fd_table (fs s))[f := \<lparr>fd_valid = 1, fd_inode = i, fd_file_ptr = 0\<rparr>]\<rparr>)" "fd_valid (fd_table (fs s) ! f) = 0"
    using fd_allocate_free [OF assms(8,9)] by blast
  define v1 where "v1 = (fs s)\<lparr>fd_table := (fd_table (fs s))[f := \<lparr>fd_valid = 1, fd_inode = i, fd_file_ptr = 0\<rparr>]\<rparr>"
  define s1 where "s1 = s\<lparr>fs := v1\<rparr>"
  let ?m = "min (unat cnt) (length contents)" and ?b = "load_bytes (user_ram s) q (unat cnt)"
  have f0: "f \<noteq> 0" using f(3) assms(10) by (cases f) simp_all
  have u: "unat (of_nat f :: u32) = f" using f(1) by simp
  have fd: "0 < sint (of_nat f :: i32)" "(of_nat f :: u32) \<noteq> 0"
    using unat_of_sint [of "of_nat f"] sint_nonneg_iff [of "of_nat f"] u f(1) f0 by auto
  have o: "svc B cd mc junk (vlibc_open p flags mode) s = Some (Returned (of_nat f), s1)"
    using get_inode_leads [OF assms(3-5)] assms(1,6) f(2)
    by (simp add: svc_simps [OF assms(2)] sys_open_def open_file_def v1_def s1_def)
  obtain v2 where "read_fd (of_nat f) ?b cnt v1 = Some (of_nat ?m, take ?m contents @ drop ?m ?b, v2)"
    using read_fd_start [of v1 i contents f "of_nat f" ?b cnt] assms(7,8) f(1) u by (auto simp: v1_def)
  then have "read (of_nat f) ?b cnt v1 (con s) (kern s) =
      Some (Returned (of_nat ?m), take ?m contents @ drop ?m ?b, v2, con s, kern s)"
    using f(1) u fd(2) by (simp add: read_def MAX_FD_def)
  then have r: "svc B cd mc junk (vlibc_read (of_nat f) q cnt) s1 = Some (Returned (of_nat ?m), s\<lparr>fs := v2,
      kern := set_ram (store_bytes q (take ?m contents @ drop ?m ?b) (user_ram s)) (kern s)\<rparr>)"
    by (simp add: svc_simps [OF assms(2)] sys_read_def s1_def)
  have "take ?m contents = take (unat cnt) contents" by (simp add: min_def)
  then have "store_bytes q (take ?m contents @ drop ?m ?b) (user_ram s) = store_bytes q (take (unat cnt) contents) (user_ram s)"
    using store_bytes_prefix [of "take ?m contents" ?m "unat cnt"] by simp
  with r o fd(1) show ?thesis by (intro exI conjI) (assumption, assumption, assumption, simp add: set_ram_def)
qed

text \<open>A machine whose program has the path \<open>/./hello\<close> at address 4096.\<close>

definition demo_system :: "(u32 \<Rightarrow> u32) system" where
  "demo_system = \<lparr>kern = set_ram (store_bytes 4096 ([47, 46, 47, 104, 101, 108, 108, 111] @ [0]) (\<lambda>x. 0)) three_procs,
     fs = demo_vfs, con = empty_console, dev = board_at 0x3f000000 (\<lambda>a. 0),
     ser = \<lparr>initialized = 1, baud = 115200, bits = 8, stop = 1, parity = 0, driver = Some Pl011\<rparr>, i2c_up = False\<rparr>"

theorem libc_open_read_witness:
  "\<exists>fd s1 s2. svc memory_bus [] [] [0, 0, 0, 0] (vlibc_open 4096 0 0) demo_system = Some (Returned fd, s1) \<and>
    svc memory_bus [] [] [0, 0, 0, 0] (vlibc_read fd 8192 100) s1 = Some (Returned 5, s2) \<and>
    user_ram s2 8192 = 119 \<and> user_ram s2 8196 = 100 \<and> user_ram s2 8197 = 0"
proof -
  have p: "load_string (user_ram demo_system) 4096 = Some (path_text True [[46], [104, 101, 108, 108, 111]])"
    using load_string_stored [of "[47, 46, 47, 104, 101, 108, 108, 111]" 4096 "\<lambda>x. 0"]
    by (simp add: demo_system_def set_ram_def path_text_def)
  have f: "fs demo_system = demo_vfs" by (simp add: demo_system_def)
  have v: "disk demo_vfs = demo_disk" "length (fd_table demo_vfs) = 32" "root_dir demo_vfs = 32"
    "fd_valid (fd_table demo_vfs ! 0) \<noteq> 0" by (simp_all add: demo_vfs_def nth_append)
  have free: "\<exists>f<32. fd_valid (fd_table demo_vfs ! f) = 0"
    by (intro exI [of _ 3]) (simp add: demo_vfs_def nth_append)
  let ?c = "[119, 111, 114, 108, 100] :: u8 list"
  have "\<exists>fd s1 s2. svc memory_bus [] [] [0, 0, 0, 0] (vlibc_open 4096 0 0) demo_system = Some (Returned fd, s1) \<and>
      0 < sint fd \<and> svc memory_bus [] [] [0, 0, 0, 0] (vlibc_read fd 8192 100) s1 =
        Some (Returned (of_nat (min (unat (100 :: u32)) (length ?c))), s2) \<and>
      user_ram s2 = store_bytes 8192 (take (unat (100 :: u32)) ?c) (user_ram demo_system)"
    by (rule libc_open_read [OF p, where d = 32 and i = 64])
      (use demo_path demo_file v free in \<open>simp_all add: f start_dir_def component_def\<close>)
  moreover have "of_nat (min (unat (100 :: u32)) (length ?c)) = (5 :: u32)" "take (unat (100 :: u32)) ?c = ?c"
    by simp_all
  ultimately obtain fd s1 s2 where
    r: "svc memory_bus [] [] [0, 0, 0, 0] (vlibc_open 4096 0 0) demo_system = Some (Returned fd, s1)"
    "svc memory_bus [] [] [0, 0, 0, 0] (vlibc_read fd 8192 100) s1 = Some (Returned 5, s2)"
    "user_ram s2 = store_bytes 8192 ?c (user_ram demo_system)" by metis
  have "user_ram s2 8192 = 119 \<and> user_ram s2 8196 = 100 \<and> user_ram s2 8197 = 0"
    unfolding r(3) by (simp add: store_bytes_def demo_system_def set_ram_def)
  with r(1,2) show ?thesis by auto
qed

text \<open>
  The numbers and the argument order of the C library agree with the kernel: whatever is in the
  other registers, each wrapper runs the kernel's routine on its own arguments.
\<close>

lemma libc_calls_reach_kernel:
  assumes "length junk = 4" and "call = svc B cd mc junk"
  shows "call (vlibc_read fd p n) s = sys_read fd p n s \<and>
    call (vlibc_write fd p n) s = sys_write B fd p n s \<and>
    call (vlibc_open p flags mode) s = sys_open p flags mode s \<and>
    call (vlibc_close fd) s = Some (Returned (close fd), s) \<and>
    call (vlibc_waitpid pid p options) s = sys_waitpid pid p options s \<and>
    call (vlibc_execve p argv envp) s = sys_execve p argv envp s \<and>
    call (vlibc_chdir p) s = sys_chdir p s \<and> call (vlibc_getcwd p n) s = sys_getcwd p n s \<and>
    call (vlibc_stat p q) s = sys_stat p q s \<and> call (vlibc_getdents fd p n) s = sys_getdents fd p n s \<and>
    call (vlibc_times p) s = sys_words times_call p s \<and> call (vlibc_sysinfo p) s = sys_words sysinfo p s \<and>
    call (vlibc_uname p) s = sys_uname cd mc p s \<and> call (vlibc_nanosleep p q) s = sys_nanosleep p s \<and>
    call vlibc_getpid s = map_option (\<lambda>b. (Returned (p_pid b), s)) (pcbs (kern s) (current_process (kern s))) \<and>
    call vlibc_sys_time s = Some (Returned (time_since_boot (kern s)), s) \<and>
    call (vlibc_exit st) s = map_option (\<lambda>k. (Returned 0, s\<lparr>kern := k\<rparr>)) (exit st (kern s)) \<and>
    call vlibc_vfork s = map_option (\<lambda>(r, k). (Returned r, s\<lparr>kern := k\<rparr>)) (vfork (kern s)) \<and>
    call (vmwos_malloc n) s =
      map_option (\<lambda>(a, m). (Returned a, s\<lparr>kern := (kern s)\<lparr>mem := m\<rparr>\<rparr>)) (memory_allocate n (mem (kern s))) \<and>
    call (vlibc_i2c_read a p n) s = sys_i2c_read B (ucast a) p n s \<and>
    call (vlibc_i2c_write a p n) s = sys_i2c_write B (ucast a) p n s \<and>
    call vlibc_sys_reboot s = Some (Returned (-1), sys_reboot B s)"
  unfolding assms(2)
  by (simp add: svc_def swi_handler_c_def vlibc_defs syscall_numbers map_option_case split: option.splits)

theorem libc_calls_reach_kernel_witness:
  "svc memory_bus [] [] [7, 8, 9, 10] vlibc_getpid demo_system = Some (Returned 1, demo_system)"
proof -
  have "svc memory_bus [] [] [7, 8, 9, 10] vlibc_getpid demo_system =
      map_option (\<lambda>b. (Returned (p_pid b), demo_system)) (pcbs (kern demo_system) (current_process (kern demo_system)))"
    using libc_calls_reach_kernel [of "[7, 8, 9, 10]" _ memory_bus "[]" "[]", OF _ refl, of _ _ _ demo_system] by simp
  moreover have "map_option p_pid (pcbs (kern demo_system) (current_process (kern demo_system))) = Some 1"
    by (simp add: demo_system_def set_ram_def three_procs_def)
  ultimately show ?thesis by auto
qed

text \<open>
  A system call that the kernel does not have is reported as a success: it returns 0 and changes
  nothing. The C library has six such calls. \<^verbatim>\<open>vmwos_random\<close>, for instance, returns 0 and leaves the
  caller's buffer as it was.
\<close>

lemma unsupported_calls_succeed:
  assumes "length junk = 4"
    and "c \<in> {vmwos_tb1, vmwos_gradient, vmwos_get_temp, vmwos_random p, vmwos_setfont f,
      vmwos_framebuffer_load x y depth fb}"
  shows "svc B cd mc junk c s = Some (Returned 0, s)"
  using assms by (auto simp: svc_def swi_handler_c_def vlibc_defs syscall_numbers)

end
