(* ===== verification/DeviceTree.thy ===== *)
theory DeviceTree
  imports Romfs
begin

text \<open>
  The decoder for the flattened device tree that the boot loader provides,
  \<^verbatim>\<open>kernel/boot/device_tree.c\<close>.

  \<open>dt_blob\<close> are the bytes from \<^verbatim>\<open>device_tree.address\<close> to the end of the tree; every access
  outside them is \<^term>\<open>None\<close>. Positions in the structure block are 32-bit indices that are scaled
  by four and wrap around, as the addresses of the machine do. The recursion of the parser follows
  the input, so it is a partial function. Values returned through pointers are an option,
  with \<^term>\<open>None\<close> for a variable that has not been set.
\<close>

section \<open>The header\<close>

record device_tree_type =
  dt_blob :: buf
  dt_valid :: u32
  dt_magic :: u32
  dt_totalsize :: u32
  off_struct :: u32
  off_strs :: u32
  off_rsvmap :: u32
  dt_version :: u32
  last_comp_ver :: u32
  boot_cpu_id :: u32
  size_strs :: u32

definition DT_STRING_MAXSIZE :: nat where "DT_STRING_MAXSIZE = 128"

definition FDT_BEGIN_NODE :: u32 where "FDT_BEGIN_NODE = 1"

definition FDT_END_NODE :: u32 where "FDT_END_NODE = 2"

definition FDT_PROP :: u32 where "FDT_PROP = 3"

definition FDT_NOP :: u32 where "FDT_NOP = 4"

definition FDT_END :: u32 where "FDT_END = 9"

lemmas fdt_defs = FDT_BEGIN_NODE_def FDT_END_NODE_def FDT_PROP_def FDT_NOP_def FDT_END_def

definition big_to_little :: "u32 \<Rightarrow> u32" where
  "big_to_little big = drop_bit 24 (big AND 0xff000000) OR drop_bit 8 (big AND 0x00ff0000) OR
     push_bit 8 (big AND 0x0000ff00) OR push_bit 24 (big AND 0x000000ff)"

definition big_to_little64 :: "u64 \<Rightarrow> u64" where
  "big_to_little64 big = drop_bit 48 (big AND 0xff00000000000000) OR drop_bit 32 (big AND 0x00ff000000000000) OR
     drop_bit 16 (big AND 0x0000ff0000000000) OR drop_bit 8 (big AND 0x000000ff00000000) OR
     push_bit 8 (big AND 0x00000000ff000000) OR push_bit 16 (big AND 0x0000000000ff0000) OR
     push_bit 32 (big AND 0x000000000000ff00) OR push_bit 48 (big AND 0x00000000000000ff)"

text \<open>The 32-bit word at a byte offset of the blob.\<close>

definition blob_word :: "buf \<Rightarrow> u32 \<Rightarrow> u32 option" where
  "blob_word blob a =
     (if unat a + 4 \<le> length blob then Some (le_word (take 4 (drop (unat a) blob))) else None)"

definition devicetree_setup :: "buf \<Rightarrow> device_tree_type \<Rightarrow> (i32 \<times> device_tree_type) option" where
  "devicetree_setup dt_ptr dt =
     do { let dt0 = dt\<lparr>dt_valid := 0\<rparr>;
          w0 \<leftarrow> blob_word dt_ptr 0;
          let dt1 = dt0\<lparr>dt_magic := big_to_little w0\<rparr>;
          if dt_magic dt1 \<noteq> 0xd00dfeed then Some (- ENODEV, dt1)
          else
            do { w1 \<leftarrow> blob_word dt_ptr 4;
                 w2 \<leftarrow> blob_word dt_ptr 8;
                 w3 \<leftarrow> blob_word dt_ptr 12;
                 w4 \<leftarrow> blob_word dt_ptr 16;
                 w5 \<leftarrow> blob_word dt_ptr 20;
                 w6 \<leftarrow> blob_word dt_ptr 24;
                 let dt2 = dt1\<lparr>dt_valid := 1, dt_blob := dt_ptr, dt_totalsize := big_to_little w1,
                   off_struct := big_to_little w2, off_strs := big_to_little w3,
                   off_rsvmap := big_to_little w4, dt_version := big_to_little w5,
                   last_comp_ver := big_to_little w6\<rparr>;
                 dt3 \<leftarrow> (if dt_version dt2 \<ge> 2
                         then do { w7 \<leftarrow> blob_word dt_ptr 28; Some (dt2\<lparr>boot_cpu_id := big_to_little w7\<rparr>) }
                         else Some dt2);
                 dt4 \<leftarrow> (if dt_version dt3 \<ge> 3
                         then do { w8 \<leftarrow> blob_word dt_ptr 32; Some (dt3\<lparr>size_strs := big_to_little w8\<rparr>) }
                         else Some dt3);
                 Some (0, dt4) } }"

section \<open>The structure block\<close>

text \<open>\<^verbatim>\<open>tree[i]\<close>, before and after the change of the byte order.\<close>

definition tree_raw :: "device_tree_type \<Rightarrow> u32 \<Rightarrow> u32 option" where
  "tree_raw dt i = blob_word (dt_blob dt) (off_struct dt + 4 * i)"

definition tree_at :: "device_tree_type \<Rightarrow> u32 \<Rightarrow> u32 option" where
  "tree_at dt i = map_option big_to_little (tree_raw dt i)"

text \<open>The bytes from \<^verbatim>\<open>&tree[i]\<close> on.\<close>

definition tree_bytes :: "device_tree_type \<Rightarrow> u32 \<Rightarrow> buf" where
  "tree_bytes dt i = drop (unat (off_struct dt + 4 * i)) (dt_blob dt)"

definition dt_copy_string :: "device_tree_type \<Rightarrow> u32 \<Rightarrow> buf \<Rightarrow> u32 \<Rightarrow> buf option" where
  "dt_copy_string dt offset s len =
     do { (d, n) \<leftarrow> strlcpy s (drop (unat (off_strs dt + offset)) (dt_blob dt)) len; Some d }"

text \<open>The loops over the value of a property only look at its words.\<close>

fun skip_value :: "device_tree_type \<Rightarrow> u32 \<Rightarrow> nat \<Rightarrow> u32 option" where
  "skip_value dt i 0 = Some i"
| "skip_value dt i (Suc n) = do { temp \<leftarrow> tree_raw dt i; skip_value dt (i + 1) n }"

definition name_matches :: "buf option \<Rightarrow> buf \<Rightarrow> bool option" where
  "name_matches node current_node_name =
     (case node of None \<Rightarrow> Some True
      | Some s \<Rightarrow> do { c \<leftarrow> strncmp s current_node_name DT_STRING_MAXSIZE; Some (c = 0) })"

definition dt_parse_prop :: "device_tree_type \<Rightarrow> u32 \<Rightarrow> buf \<Rightarrow> buf option \<Rightarrow> buf \<Rightarrow> (u32 \<times> u32) option" where
  "dt_parse_prop dt i current_node_name node prop =
     do { len \<leftarrow> tree_at dt i;
          so \<leftarrow> tree_at dt (i + 1);
          s \<leftarrow> dt_copy_string dt so (replicate DT_STRING_MAXSIZE 0) (of_nat DT_STRING_MAXSIZE);
          m \<leftarrow> name_matches node current_node_name;
          c \<leftarrow> (if m then do { c \<leftarrow> strncmp s prop DT_STRING_MAXSIZE; Some (c = 0) } else Some False);
          if c then Some (i, i + 1)
          else
            do { let n = unat ((len + 3) div 4);
                 i1 \<leftarrow> skip_value dt (i + 2) n;
                 i2 \<leftarrow> skip_value dt (i + 2) n;
                 Some (0, i2) } }"

text \<open>The name of a node, and the loop that skips it with its padding.\<close>

definition node_name_at :: "device_tree_type \<Rightarrow> u32 \<Rightarrow> buf option" where
  "node_name_at dt i =
     do { (d, n) \<leftarrow> strlcpy (replicate DT_STRING_MAXSIZE 0) (tree_bytes dt i) (of_nat DT_STRING_MAXSIZE); Some d }"

partial_function (option) skip_name :: "device_tree_type \<Rightarrow> u32 \<Rightarrow> u32 option" where
  [code]: "skip_name dt i =
     do { temp \<leftarrow> tree_at dt i; if temp AND 0xff = 0 then Some (i + 1) else skip_name dt (i + 1) }"

text \<open>
  The body of a node. The recursive call of \<^verbatim>\<open>dt_parse_node\<close> is made at a begin token, so it
  continues with the name of the inner node.
\<close>

partial_function (option) node_body ::
  "device_tree_type \<Rightarrow> buf option \<Rightarrow> buf \<Rightarrow> buf \<Rightarrow> u32 \<Rightarrow> (u32 \<times> u32) option" where
  [code]: "node_body dt node prop node_name i =
     do { t \<leftarrow> tree_at dt i;
          if t = FDT_NOP then node_body dt node prop node_name (i + 1)
          else if t = FDT_PROP then
            do { (result, i1) \<leftarrow> dt_parse_prop dt (i + 1) node_name node prop;
                 if result > 0 then Some (result, i1) else node_body dt node prop node_name i1 }
          else if t = FDT_BEGIN_NODE then
            do { nm \<leftarrow> node_name_at dt (i + 1);
                 i2 \<leftarrow> skip_name dt (i + 1);
                 (result, i1) \<leftarrow> node_body dt node prop nm i2;
                 if result > 0 then Some (result, i1) else node_body dt node prop node_name i1 }
          else if t = FDT_END_NODE then Some (0, i + 1)
          else node_body dt node prop node_name (i + 1) }"

definition dt_parse_node :: "device_tree_type \<Rightarrow> u32 \<Rightarrow> buf option \<Rightarrow> buf \<Rightarrow> (u32 \<times> u32) option" where
  "dt_parse_node dt i node prop =
     do { t \<leftarrow> tree_at dt i;
          if t \<noteq> FDT_BEGIN_NODE then Some (-1, i + 1)
          else
            do { nm \<leftarrow> node_name_at dt (i + 1);
                 i1 \<leftarrow> skip_name dt (i + 1);
                 node_body dt node prop nm i1 } }"

partial_function (option) find_loop :: "device_tree_type \<Rightarrow> buf option \<Rightarrow> buf \<Rightarrow> u32 \<Rightarrow> u32 option" where
  [code]: "find_loop dt node prop i =
     do { (result, i1) \<leftarrow> dt_parse_node dt i node prop;
          if result > 0 then Some result
          else
            do { t \<leftarrow> tree_at dt i1;
                 if t = FDT_END then Some (- ENOENT)
                 else if off_struct dt + i1 * 4 > dt_totalsize dt then Some (- ENOENT)
                 else find_loop dt node prop i1 } }"

definition devicetree_find_node_prop :: "device_tree_type \<Rightarrow> buf option \<Rightarrow> buf \<Rightarrow> i32 option" where
  "devicetree_find_node_prop dt node prop =
     (if dt_valid dt = 0 then Some (- ENODEV) else find_loop dt node prop 0)"

section \<open>Values of properties\<close>

text \<open>The results are the returned value and the variable that the last argument points to.\<close>

definition devicetree_prop_int :: "device_tree_type \<Rightarrow> i32 \<Rightarrow> u32 option \<Rightarrow> (u32 \<times> u32 option) option" where
  "devicetree_prop_int dt start_i var =
     (if dt_valid dt = 0 then Some (- ENODEV, var)
      else do { len \<leftarrow> tree_at dt start_i;
                so \<leftarrow> tree_at dt (start_i + 1);
                v \<leftarrow> tree_at dt (start_i + 2);
                Some (0, Some v) })"

definition devicetree_prop_int64 :: "device_tree_type \<Rightarrow> i32 \<Rightarrow> u64 option \<Rightarrow> (u32 \<times> u64 option) option" where
  "devicetree_prop_int64 dt start_i var =
     (if dt_valid dt = 0 then Some (- ENODEV, var)
      else do { len \<leftarrow> tree_at dt start_i;
                so \<leftarrow> tree_at dt (start_i + 1);
                value1 \<leftarrow> tree_at dt (start_i + 2);
                value2 \<leftarrow> tree_at dt (start_i + 3);
                Some (0, Some (push_bit 32 (ucast value1) OR ucast value2)) })"

text \<open>The length argument of the source is not used.\<close>

definition devicetree_prop_string :: "device_tree_type \<Rightarrow> i32 \<Rightarrow> buf \<Rightarrow> (u32 \<times> buf) option" where
  "devicetree_prop_string dt start_i s =
     (if dt_valid dt = 0 then Some (- ENODEV, s)
      else do { len \<leftarrow> tree_at dt start_i;
                so \<leftarrow> tree_at dt (start_i + 1);
                d \<leftarrow> memcpy s (tree_bytes dt (start_i + 2)) (unat len);
                Some (0, d) })"

text \<open>\<^verbatim>\<open>result\<close> is unsigned in these functions, so the test \<^verbatim>\<open>result<0\<close> is always false.\<close>

definition devicetree_find_string :: "device_tree_type \<Rightarrow> buf option \<Rightarrow> buf \<Rightarrow> buf \<Rightarrow> (u32 \<times> buf) option" where
  "devicetree_find_string dt node prop s =
     do { result \<leftarrow> devicetree_find_node_prop dt node prop;
          (r, d) \<leftarrow> devicetree_prop_string dt result s;
          Some (0, d) }"

definition devicetree_find_int :: "device_tree_type \<Rightarrow> buf option \<Rightarrow> buf \<Rightarrow> u32 option \<Rightarrow> (u32 \<times> u32 option) option" where
  "devicetree_find_int dt node prop var =
     do { result \<leftarrow> devicetree_find_node_prop dt node prop;
          (r, v) \<leftarrow> devicetree_prop_int dt result var;
          Some (0, v) }"

definition devicetree_find_int64 :: "device_tree_type \<Rightarrow> buf option \<Rightarrow> buf \<Rightarrow> u64 option \<Rightarrow> (u32 \<times> u64 option) option" where
  "devicetree_find_int64 dt node prop var =
     do { result \<leftarrow> devicetree_find_node_prop dt node prop;
          (r, v) \<leftarrow> devicetree_prop_int64 dt result var;
          Some (0, v) }"

section \<open>Memory\<close>

text \<open>The eight bytes from \<^verbatim>\<open>&tree[i]\<close> on as a little-endian number.\<close>

definition tree_raw64 :: "device_tree_type \<Rightarrow> u32 \<Rightarrow> u64 option" where
  "tree_raw64 dt i =
     do { lo \<leftarrow> tree_raw dt i; hi \<leftarrow> tree_raw dt (i + 1); Some (push_bit 32 (ucast hi) OR ucast lo) }"

text \<open>A cell value of one or two words: the value and the next index.\<close>

definition cell_value :: "device_tree_type \<Rightarrow> u32 \<Rightarrow> u32 \<Rightarrow> (u64 \<times> u32) option" where
  "cell_value dt cells i =
     (if cells = 1 then do { w \<leftarrow> tree_at dt i; Some (ucast w, i + 1) }
      else if cells = 2 then do { w \<leftarrow> tree_raw64 dt i; Some (big_to_little64 w, i + 2) }
      else Some (0, i))"

text \<open>The result is the length and the address.\<close>

definition devicetree_get_memory_old :: "device_tree_type \<Rightarrow> (u64 \<times> u64) option" where
  "devicetree_get_memory_old dt =
     do { (r1, ac) \<leftarrow> devicetree_find_int dt None (lit ''#address-cells'') None;
          address_cells \<leftarrow> ac;
          (r2, sc) \<leftarrow> devicetree_find_int dt None (lit ''#size-cells'') None;
          size_cells \<leftarrow> sc;
          result \<leftarrow> devicetree_find_node_prop dt (Some (lit ''memory'')) (lit ''reg'');
          val_len \<leftarrow> tree_at dt result;
          so \<leftarrow> tree_at dt (result + 1);
          (address, i1) \<leftarrow> cell_value dt address_cells (result + 2);
          (len, i2) \<leftarrow> cell_value dt size_cells i1;
          Some (len, address) }"

fun read_values :: "device_tree_type \<Rightarrow> u32 \<Rightarrow> nat \<Rightarrow> u32 option" where
  "read_values dt i 0 = Some i"
| "read_values dt i (Suc n) = do { v \<leftarrow> tree_at dt i; read_values dt (i + 1) n }"

definition devicetree_get_memory_new :: "device_tree_type \<Rightarrow> (u64 \<times> u64) option" where
  "devicetree_get_memory_new dt =
     do { result \<leftarrow> devicetree_find_node_prop dt (Some (lit ''memory@0'')) (lit ''reg'');
          val_len \<leftarrow> tree_at dt result;
          so \<leftarrow> tree_at dt (result + 1);
          let i = result + 2;
          if val_len = 8 then
            do { a \<leftarrow> tree_at dt i; l \<leftarrow> tree_at dt (i + 1); Some (ucast l, ucast a) }
          else if val_len = 12 then
            do { a \<leftarrow> tree_raw64 dt i; l \<leftarrow> tree_raw dt (i + 2);
                 Some (big_to_little64 (ucast l), big_to_little64 a) }
          else if val_len = 24 then
            do { a \<leftarrow> tree_raw64 dt i; l \<leftarrow> tree_at dt (i + 2);
                 a2 \<leftarrow> tree_raw64 dt (i + 3); l2 \<leftarrow> tree_at dt (i + 5);
                 Some (ucast l, big_to_little64 a) }
          else do { i1 \<leftarrow> read_values dt i (unat (val_len div 4)); Some (0, 0) } }"

definition devicetree_get_memory :: "device_tree_type \<Rightarrow> u64 option" where
  "devicetree_get_memory dt =
     do { (l1, a1) \<leftarrow> devicetree_get_memory_old dt;
          (l2, a2) \<leftarrow> (if l1 < 1024 then devicetree_get_memory_new dt else Some (l1, a1));
          Some (if l2 < 1024 then 256 * 1024 * 1024 else l2) }"

section \<open>What a tree says\<close>

text \<open>
  The contents of a node: no-operation tokens, properties with their name and the words of their
  value, and inner nodes.
\<close>

datatype dt_item = Nop | Prop buf "u32 list" | Sub buf "dt_item list"

text \<open>A name of less than 128 characters in the block of strings.\<close>

definition string_at :: "device_tree_type \<Rightarrow> u32 \<Rightarrow> buf \<Rightarrow> bool" where
  "string_at dt so nm \<longleftrightarrow> (let s = drop (unat (off_strs dt + so)) (dt_blob dt) in
     terminated s \<and> cstr s = nm \<and> length nm < 128)"

text \<open>A node name from word \<open>pos\<close> up to word \<open>e\<close>: the last byte of the last word is the first nul.\<close>

definition name_words :: "device_tree_type \<Rightarrow> nat \<Rightarrow> buf \<Rightarrow> nat \<Rightarrow> bool" where
  "name_words dt pos nm e \<longleftrightarrow> terminated (tree_bytes dt (of_nat pos)) \<and> cstr (tree_bytes dt (of_nat pos)) = nm \<and>
     length nm < 128 \<and> pos < e \<and>
     (\<forall>q. pos \<le> q \<longrightarrow> q < e \<longrightarrow> (\<exists>w. tree_at dt (of_nat q) = Some w \<and> (w AND 0xff = 0 \<longleftrightarrow> q = e - 1)))"

text \<open>The words from \<open>pos\<close> up to \<open>e\<close> of the structure block encode a list of items.\<close>

fun items_at :: "device_tree_type \<Rightarrow> nat \<Rightarrow> dt_item list \<Rightarrow> nat \<Rightarrow> bool" where
  "items_at dt pos [] e \<longleftrightarrow> e = pos"
| "items_at dt pos (Nop # its) e \<longleftrightarrow> tree_at dt (of_nat pos) = Some FDT_NOP \<and> items_at dt (pos + 1) its e"
| "items_at dt pos (Prop nm vs # its) e \<longleftrightarrow> tree_at dt (of_nat pos) = Some FDT_PROP \<and>
     (\<exists>len so. tree_at dt (of_nat (pos + 1)) = Some len \<and> unat ((len + 3) div 4) = length vs \<and>
       tree_at dt (of_nat (pos + 2)) = Some so \<and> string_at dt so nm) \<and>
     (\<forall>j < length vs. tree_at dt (of_nat (pos + 3 + j)) = Some (vs ! j)) \<and>
     items_at dt (pos + 3 + length vs) its e"
| "items_at dt pos (Sub nm sub # its) e \<longleftrightarrow> tree_at dt (of_nat pos) = Some FDT_BEGIN_NODE \<and>
     (\<exists>p1 p2. name_words dt (pos + 1) nm p1 \<and> items_at dt p1 sub p2 \<and>
       tree_at dt (of_nat p2) = Some FDT_END_NODE \<and> items_at dt (p2 + 1) its e)"

text \<open>The value of the first property with a name, in any node or in the nodes with a name.\<close>

fun find_prop :: "buf option \<Rightarrow> buf \<Rightarrow> buf \<Rightarrow> dt_item list \<Rightarrow> u32 list option" where
  "find_prop node prop cur [] = None"
| "find_prop node prop cur (Nop # its) = find_prop node prop cur its"
| "find_prop node prop cur (Prop nm vs # its) =
     (if (node = None \<or> node = Some cur) \<and> nm = prop then Some vs else find_prop node prop cur its)"
| "find_prop node prop cur (Sub nm sub # its) =
     (case find_prop node prop nm sub of Some vs \<Rightarrow> Some vs | None \<Rightarrow> find_prop node prop cur its)"

lemma items_at_mono: "items_at dt pos its e \<Longrightarrow> pos \<le> e"
proof (induction dt pos its e rule: items_at.induct)
  case (4 dt pos nm sub its e)
  then obtain p1 p2 where p: "name_words dt (pos + 1) nm p1" "items_at dt p1 sub p2" "items_at dt (p2 + 1) its e"
    by auto
  have "p1 \<le> p2" "p2 + 1 \<le> e" using 4 p by auto
  moreover have "pos < p1" using p(1) by (simp add: name_words_def)
  ultimately show ?case by simp
qed auto

lemma skip_name_words:
  "p < e \<Longrightarrow> \<forall>q. p \<le> q \<longrightarrow> q < e \<longrightarrow> (\<exists>w. tree_at dt (of_nat q) = Some w \<and> (w AND 0xff = 0 \<longleftrightarrow> q = e - 1)) \<Longrightarrow>
   skip_name dt (of_nat p) = Some (of_nat e)"
proof (induction "e - p" arbitrary: p)
  case (Suc d)
  obtain w where w: "tree_at dt (of_nat p) = Some w" "w AND 0xff = 0 \<longleftrightarrow> p = e - 1" using Suc.prems by auto
  have n: "(of_nat p + 1 :: u32) = of_nat (p + 1)" by simp
  show ?case
  proof (cases "p = e - 1")
    case True
    then have e: "of_nat e = (of_nat p + 1 :: u32)" and "w AND 0xff = 0" using Suc.prems(1) w(2) by auto
    then show ?thesis unfolding e using w(1) by (subst skip_name.simps) simp
  next
    case False
    then have "skip_name dt (of_nat (p + 1)) = Some (of_nat e)" using Suc by (intro Suc.hyps(1)) auto
    then show ?thesis using w False by (subst skip_name.simps) (simp only: bind.bind_lunit n if_False)
  qed
qed simp

lemma skip_name_spec: "name_words dt pos nm e \<Longrightarrow> skip_name dt (of_nat pos) = Some (of_nat e)"
  unfolding name_words_def by (intro skip_name_words) auto

lemma copy_128:
  assumes "terminated s" and "length (cstr s) < 128"
  shows "\<exists>d n. strlcpy (replicate DT_STRING_MAXSIZE 0) s (of_nat DT_STRING_MAXSIZE) = Some (d, n) \<and>
    cstr d = cstr s \<and> terminated d"
proof -
  have "take 127 (cstr s) = cstr s" using assms(2) by simp
  then have "strlcpy (replicate 128 0) s 128 =
      Some (cstr s @ 0 # drop (Suc (length (cstr s))) (replicate 128 0), length (cstr s))"
    using strlcpy_copies [OF assms(1), of 128 "replicate 128 0"] by (simp add: Let_def)
  then show ?thesis
    by (simp add: DT_STRING_MAXSIZE_def terminated_def cstr_append_zero [OF zero_notin_cstr])
qed

lemma node_name_spec:
  "name_words dt pos nm e \<Longrightarrow> \<exists>b. node_name_at dt (of_nat pos) = Some b \<and> terminated b \<and> cstr b = nm"
  using copy_128 [of "tree_bytes dt (of_nat pos)"] by (auto simp: name_words_def node_name_at_def)

lemma strncmp_128:
  assumes "terminated s" and "terminated t" and "length (cstr s) < 128 \<or> length (cstr t) < 128"
  shows "\<exists>r. strncmp s t DT_STRING_MAXSIZE = Some r \<and> (r = 0 \<longleftrightarrow> cstr s = cstr t)"
proof -
  obtain r where r: "strncmp s t 128 = Some r" "r = 0 \<longleftrightarrow> take 128 (cstr s) = take 128 (cstr t)"
    using strncmp_spec [OF assms(1,2)] by blast
  have "cstr s = cstr t" if e: "take 128 (cstr s) = take 128 (cstr t)"
  proof -
    have "min 128 (length (cstr s)) = min 128 (length (cstr t))" using arg_cong [OF e, of length] by simp
    then have "length (cstr s) < 128" "length (cstr t) < 128" using assms(3) by (auto simp: min_def split: if_splits)
    with e show ?thesis by simp
  qed
  with r show ?thesis by (auto simp: DT_STRING_MAXSIZE_def)
qed

lemma name_matches_spec:
  assumes "terminated nmb" and "length (cstr nmb) < 128" and "\<forall>s. node = Some s \<longrightarrow> terminated s"
  shows "name_matches node nmb = Some (node = None \<or> map_option cstr node = Some (cstr nmb))"
proof (cases node)
  case (Some s)
  then show ?thesis using strncmp_128 [of s nmb] assms by (auto simp: name_matches_def)
qed (simp add: name_matches_def)

lemma skip_value_spec:
  "\<forall>j<n. \<exists>w. tree_at dt (of_nat (p + j)) = Some w \<Longrightarrow> skip_value dt (of_nat p) n = Some (of_nat (p + n))"
proof (induction n arbitrary: p)
  case (Suc n)
  from Suc.prems have "\<exists>w. tree_at dt (of_nat p) = Some w" by force
  then obtain r where "tree_raw dt (of_nat p) = Some r" by (auto simp: tree_at_def)
  moreover have "skip_value dt (of_nat (p + 1)) n = Some (of_nat (p + 1 + n))"
    using Suc.prems by (intro Suc.IH) (metis add.assoc add.commute less_Suc_eq_0_disj plus_1_eq_Suc Suc_less_eq)
  ultimately show ?case by (simp add: add.commute add.left_commute)
qed simp

text \<open>A property whose length word has the index \<open>r\<close>.\<close>

definition value_at :: "device_tree_type \<Rightarrow> nat \<Rightarrow> u32 list \<Rightarrow> bool" where
  "value_at dt r vs \<longleftrightarrow> (\<exists>len so. tree_at dt (of_nat r) = Some len \<and> tree_at dt (of_nat (r + 1)) = Some so) \<and>
     (\<forall>j < length vs. tree_at dt (of_nat (r + 2 + j)) = Some (vs ! j))"

lemma dt_parse_prop_spec:
  assumes "items_at dt pos (Prop nm vs # its) e" and "terminated cb" "length (cstr cb) < 128"
    and "\<forall>s. node = Some s \<longrightarrow> terminated s" and "terminated pb"
  shows "value_at dt (pos + 1) vs"
    and "dt_parse_prop dt (of_nat (pos + 1)) cb node pb =
      (if (node = None \<or> map_option cstr node = Some (cstr cb)) \<and> nm = cstr pb
       then Some (of_nat (pos + 1), of_nat (pos + 2)) else Some (0, of_nat (pos + 3 + length vs)))"
proof -
  obtain len so where ls: "tree_at dt (of_nat (pos + 1)) = Some len" "unat ((len + 3) div 4) = length vs"
    "tree_at dt (of_nat (pos + 2)) = Some so" "string_at dt so nm"
    and v: "\<forall>j < length vs. tree_at dt (of_nat (pos + 3 + j)) = Some (vs ! j)" using assms(1) by auto
  show "value_at dt (pos + 1) vs"
    using ls v by (auto simp: value_at_def numeral_eq_Suc)
  obtain d where d: "dt_copy_string dt so (replicate DT_STRING_MAXSIZE 0) (of_nat DT_STRING_MAXSIZE) = Some d"
    "cstr d = nm" "terminated d" "length nm < 128"
    using copy_128 [of "drop (unat (off_strs dt + so)) (dt_blob dt)"] ls(4)
    by (auto simp: string_at_def dt_copy_string_def Let_def)
  obtain r where r: "strncmp d pb DT_STRING_MAXSIZE = Some r" "r = 0 \<longleftrightarrow> nm = cstr pb"
    using strncmp_128 [OF d(3) assms(5)] d by auto
  let ?m = "node = None \<or> map_option cstr node = Some (cstr cb)"
  note m = name_matches_spec [OF assms(2-4)]
  have s: "skip_value dt (of_nat (pos + 3)) (length vs) = Some (of_nat (pos + 3 + length vs))"
    using v by (intro skip_value_spec) auto
  have n: "of_nat (pos + 1) + (1 :: u32) = of_nat (pos + 2)" "of_nat (pos + 1) + (2 :: u32) = of_nat (pos + 3)" by simp_all
  show "dt_parse_prop dt (of_nat (pos + 1)) cb node pb =
      (if (node = None \<or> map_option cstr node = Some (cstr cb)) \<and> nm = cstr pb
       then Some (of_nat (pos + 1), of_nat (pos + 2)) else Some (0, of_nat (pos + 3 + length vs)))"
    unfolding dt_parse_prop_def n ls(1,3) m using d(1) r s ls(2)
    by (cases ?m; cases "nm = cstr pb") (simp_all only: Let_def bind.bind_lunit if_True if_False simp_thms split_conv)
qed

lemma of_nat_pos: "0 < n \<Longrightarrow> n < 4294967296 \<Longrightarrow> (0 :: u32) < of_nat n"
  by (simp add: word_less_nat_alt)

text \<open>
  The body of a node gives the first matching property, or ends behind the end token with 0.
\<close>

definition body_result :: "device_tree_type \<Rightarrow> u32 list option \<Rightarrow> nat \<Rightarrow> (u32 \<times> u32) option \<Rightarrow> bool" where
  "body_result dt found e r = (case found of
     None \<Rightarrow> r = Some (0, of_nat e)
   | Some vs \<Rightarrow> (\<exists>i i1. r = Some (of_nat i, i1) \<and> 0 < i \<and> i < 1073741824 \<and> value_at dt i vs))"

lemma body_result_pos: "body_result dt (Some vs) e r \<Longrightarrow> \<exists>w i1. r = Some (w, i1) \<and> 0 < w"
  by (auto simp: body_result_def of_nat_pos)

lemma node_body_spec:
  assumes "items_at dt pos its e" and "tree_at dt (of_nat e) = Some FDT_END_NODE" and "e < 1073741824"
    and "terminated cb" and "length (cstr cb) < 128" and "\<forall>s. node = Some s \<longrightarrow> terminated s" and "terminated pb"
  shows "body_result dt (find_prop (map_option cstr node) (cstr pb) (cstr cb) its) (e + 1)
    (node_body dt node pb cb (of_nat pos))"
  using assms(1-5)
proof (induction dt pos its e arbitrary: cb rule: items_at.induct)
  case (1 dt pos e)
  then show ?case by (subst node_body.simps) (simp add: body_result_def fdt_defs add.commute)
next
  case (2 dt pos its e)
  have "node_body dt node pb cb (of_nat pos) = node_body dt node pb cb (of_nat (pos + 1))"
    using 2(2) by (subst node_body.simps) (simp add: fdt_defs add.commute)
  with 2 show ?case by simp
next
  case (3 dt pos nm vs its e)
  note pp = dt_parse_prop_spec [OF 3(2) 3(5,6) assms(6,7)]
  have n: "of_nat pos + (1 :: u32) = of_nat (pos + 1)" by simp
  have e: "pos + 3 + length vs \<le> e" "items_at dt (pos + 3 + length vs) its e" "tree_at dt (of_nat pos) = Some FDT_PROP"
    using 3(2) items_at_mono by auto
  have step: "node_body dt node pb cb (of_nat pos) =
      do { (result, i1) \<leftarrow> dt_parse_prop dt (of_nat (pos + 1)) cb node pb;
           if result > 0 then Some (result, i1) else node_body dt node pb cb i1 }"
    using e(3) by (subst node_body.simps) (simp add: fdt_defs n)
  show ?case
  proof (cases "(map_option cstr node = None \<or> map_option cstr node = Some (cstr cb)) \<and> nm = cstr pb")
    case True
    have "0 < (of_nat (pos + 1) :: u32)" using e(1) 3(4) by (intro of_nat_pos) auto
    then have "node_body dt node pb cb (of_nat pos) = Some (of_nat (pos + 1), of_nat (pos + 2))"
      unfolding step pp(2) using True by (simp only: option.map_disc_iff if_True bind.bind_lunit split_conv simp_thms)
    moreover have "pos + 1 < 1073741824" using e(1) 3(4) by simp
    moreover have "find_prop (map_option cstr node) (cstr pb) (cstr cb) (Prop nm vs # its) = Some vs"
      using True by (simp only: find_prop.simps if_True simp_thms)
    ultimately show ?thesis using pp(1) unfolding body_result_def
      by (simp only: option.case) (intro exI [of _ "pos + 1"] exI [of _ "of_nat (pos + 2)"], simp)
  next
    case False
    then have f: "\<not> ((node = None \<or> map_option cstr node = Some (cstr cb)) \<and> nm = cstr pb)" by simp
    have "node_body dt node pb cb (of_nat pos) = node_body dt node pb cb (of_nat (pos + 3 + length vs))"
      unfolding step pp(2) using f by (simp only: if_False bind.bind_lunit split_conv less_irrefl)
    with 3(1) [OF e(2) 3(3-6)] False show ?thesis by (simp only: find_prop.simps if_False)
  qed
next
  case (4 dt pos nm sub its e)
  obtain p1 p2 where p: "name_words dt (pos + 1) nm p1" "items_at dt p1 sub p2"
    "tree_at dt (of_nat p2) = Some FDT_END_NODE" "items_at dt (p2 + 1) its e"
    "tree_at dt (of_nat pos) = Some FDT_BEGIN_NODE" using 4(3) by auto
  have p2: "p2 + 1 \<le> e" using items_at_mono [OF p(4)] .
  obtain b where b: "node_name_at dt (of_nat (pos + 1)) = Some b" "terminated b" "cstr b = nm"
    using node_name_spec [OF p(1)] by blast
  have l: "length (cstr b) < 128" using p(1) b(3) by (simp add: name_words_def)
  have n: "of_nat pos + (1 :: u32) = of_nat (pos + 1)" by simp
  have step: "node_body dt node pb cb (of_nat pos) =
      do { (result, i1) \<leftarrow> node_body dt node pb b (of_nat p1);
           if result > 0 then Some (result, i1) else node_body dt node pb cb i1 }"
    using p(5) b(1) skip_name_spec [OF p(1)]
    by (subst node_body.simps) (simp add: fdt_defs n del: of_nat_add)
  have ih1: "body_result dt (find_prop (map_option cstr node) (cstr pb) nm sub) (p2 + 1) (node_body dt node pb b (of_nat p1))"
    using 4(1) [OF p(2,3) _ b(2) l] p2 4(5) b(3) by simp
  have ih2: "body_result dt (find_prop (map_option cstr node) (cstr pb) (cstr cb) its) (e + 1)
      (node_body dt node pb cb (of_nat (p2 + 1)))"
    using 4(2) [OF p(4) 4(4-7)] .
  show ?case
  proof (cases "find_prop (map_option cstr node) (cstr pb) nm sub")
    case None
    with ih1 have "node_body dt node pb cb (of_nat pos) = node_body dt node pb cb (of_nat (p2 + 1))"
      by (simp only: step body_result_def option.case bind.bind_lunit split_conv less_irrefl if_False)
    with ih2 None show ?thesis by simp
  next
    case (Some vs)
    from body_result_pos [OF ih1 [unfolded Some]] obtain w i1 where
      w: "node_body dt node pb b (of_nat p1) = Some (w, i1)" "0 < w" by blast
    then have "node_body dt node pb cb (of_nat pos) = node_body dt node pb b (of_nat p1)" by (simp add: step)
    with ih1 Some show ?thesis by (simp add: body_result_def)
  qed
qed

text \<open>A device tree whose structure block holds one root node and the end token.\<close>

definition tree_holds :: "device_tree_type \<Rightarrow> buf \<Rightarrow> dt_item list \<Rightarrow> bool" where
  "tree_holds dt root its \<longleftrightarrow> dt_valid dt \<noteq> 0 \<and>
     (\<exists>e. items_at dt 0 [Sub root its] e \<and> tree_at dt (of_nat e) = Some FDT_END \<and> e < 1073741824)"

lemma find_node_prop_spec:
  assumes "tree_holds dt root its" and "\<forall>s. node = Some s \<longrightarrow> terminated s" and "terminated pb"
  shows "case find_prop (map_option cstr node) (cstr pb) root its of
      None \<Rightarrow> devicetree_find_node_prop dt node pb = Some (- ENOENT)
    | Some vs \<Rightarrow> \<exists>i. devicetree_find_node_prop dt node pb = Some (of_nat i) \<and> 0 < i \<and> i < 1073741824 \<and> value_at dt i vs"
proof -
  obtain e p1 p2 where p: "name_words dt 1 root p1" "items_at dt p1 its p2" "tree_at dt (of_nat p2) = Some FDT_END_NODE"
    "e = p2 + 1" "tree_at dt 0 = Some FDT_BEGIN_NODE" "tree_at dt (of_nat e) = Some FDT_END" "e < 1073741824"
    and v: "dt_valid dt \<noteq> 0"
    using assms(1) by (auto simp: tree_holds_def)
  obtain b where b: "node_name_at dt 1 = Some b" "terminated b" "cstr b = root"
    using node_name_spec [OF p(1)] by auto
  have l: "length (cstr b) < 128" using p(1) b(3) by (simp add: name_words_def)
  have sk: "skip_name dt 1 = Some (of_nat p1)" using skip_name_spec [OF p(1)] by simp
  have pn: "dt_parse_node dt 0 node pb = node_body dt node pb b (of_nat p1)"
    using p(5) b(1) sk by (simp add: dt_parse_node_def)
  have r: "body_result dt (find_prop (map_option cstr node) (cstr pb) root its) (p2 + 1) (node_body dt node pb b (of_nat p1))"
    using node_body_spec [OF p(2,3) _ b(2) l assms(2,3)] p(4,7) b(3) by simp
  show ?thesis
  proof (cases "find_prop (map_option cstr node) (cstr pb) root its")
    case None
    with r p(4) have "dt_parse_node dt 0 node pb = Some (0, of_nat e)" by (simp add: body_result_def pn)
    then have "find_loop dt node pb 0 = Some (- ENOENT)" using p(6) by (subst find_loop.simps) simp
    with None v show ?thesis by (simp add: devicetree_find_node_prop_def)
  next
    case (Some vs)
    with r obtain i i1 where i: "dt_parse_node dt 0 node pb = Some (of_nat i, i1)" "0 < i" "i < 1073741824" "value_at dt i vs"
      by (auto simp: body_result_def pn)
    then have "find_loop dt node pb 0 = Some (of_nat i)" using of_nat_pos [of i] by (subst find_loop.simps) simp
    with Some i v show ?thesis by (auto simp: devicetree_find_node_prop_def)
  qed
qed

section \<open>Properties\<close>

text \<open>
  C31: Looking up a number in a well-formed device tree returns the first word of the value of the
  first property with the given name, in document order, in any node or in the nodes with the given
  name, whatever other properties, inner nodes and padding come before it. A property that is not
  there is not reported: the call also returns 0, and the value is 1, the begin token at the start
  of the structure block, because the error code is taken for a position.
\<close>

theorem devicetree_find_int_correct:
  assumes "tree_holds dt root its" and "\<forall>s. node = Some s \<longrightarrow> terminated s" and "terminated pb"
    and "8 \<le> off_struct dt" and "unat (off_struct dt) \<le> length (dt_blob dt)"
  shows "case find_prop (map_option cstr node) (cstr pb) root its of
      Some vs \<Rightarrow> vs \<noteq> [] \<longrightarrow> devicetree_find_int dt node pb var = Some (0, Some (hd vs))
    | None \<Rightarrow> devicetree_find_int dt node pb var = Some (0, Some 1)"
proof -
  have v: "dt_valid dt \<noteq> 0" and t0: "tree_at dt 0 = Some FDT_BEGIN_NODE"
    using assms(1) by (auto simp: tree_holds_def)
  show ?thesis
  proof (cases "find_prop (map_option cstr node) (cstr pb) root its")
    case None
    then have f: "devicetree_find_node_prop dt node pb = Some (- ENOENT)"
      using find_node_prop_spec [OF assms(1-3)] by simp
    have o: "8 \<le> unat (off_struct dt)" using assms(4) by (simp add: word_le_nat_alt)
    have "unat (off_struct dt - 8) = unat (off_struct dt) - 8" "unat (off_struct dt - 4) = unat (off_struct dt) - 4"
      using unat_sub_le [of 8 "off_struct dt"] unat_sub_le [of 4 "off_struct dt"] o by simp_all
    then have "\<exists>a. tree_at dt (-2) = Some a" "\<exists>a. tree_at dt (-1) = Some a"
      using o assms(5) by (simp_all add: tree_at_def tree_raw_def blob_word_def)
    then show ?thesis using None f v t0
      by (auto simp: devicetree_find_int_def devicetree_prop_int_def ENOENT_def FDT_BEGIN_NODE_def)
  next
    case (Some vs)
    then obtain i where i: "devicetree_find_node_prop dt node pb = Some (of_nat i)" "value_at dt i vs"
      using find_node_prop_spec [OF assms(1-3)] by auto
    show ?thesis
    proof (cases vs)
      case (Cons x xs)
      with i(2) have "tree_at dt (of_nat i + 2) = Some x" "\<exists>a. tree_at dt (of_nat i) = Some a"
        "\<exists>a. tree_at dt (of_nat i + 1) = Some a" by (auto simp: value_at_def add.commute)
      with i(1) v Some Cons show ?thesis by (auto simp: devicetree_find_int_def devicetree_prop_int_def)
    qed (simp add: Some)
  qed
qed

text \<open>A tree with one property \<^verbatim>\<open>ab\<close> of the value 0x1234 in the root and an inner node \<^verbatim>\<open>n\<close>.\<close>

definition demo_tree :: device_tree_type where
  "demo_tree = \<lparr>dt_blob = [0, 0, 0, 0, 0, 0, 0, 0,
     0, 0, 0, 1, 0, 0, 0, 0, 0, 0, 0, 1, 110, 0, 0, 0, 0, 0, 0, 4, 0, 0, 0, 2,
     0, 0, 0, 3, 0, 0, 0, 4, 0, 0, 0, 0, 0, 0, 18, 52, 0, 0, 0, 2, 0, 0, 0, 9, 97, 98, 0],
     dt_valid = 1, dt_magic = 0xd00dfeed, dt_totalsize = 59, off_struct = 8, off_strs = 56, off_rsvmap = 0,
     dt_version = 1, last_comp_ver = 1, boot_cpu_id = 0, size_strs = 3\<rparr>"

lemma demo_tree_words:
  "tree_at demo_tree 0 = Some 1" "tree_at demo_tree 1 = Some 0" "tree_at demo_tree 2 = Some 1"
  "tree_at demo_tree 3 = Some 0x6e000000" "tree_at demo_tree 4 = Some 4" "tree_at demo_tree 5 = Some 2"
  "tree_at demo_tree 6 = Some 3" "tree_at demo_tree 7 = Some 4" "tree_at demo_tree 8 = Some 0"
  "tree_at demo_tree 9 = Some 0x1234" "tree_at demo_tree 10 = Some 2" "tree_at demo_tree 11 = Some 9"
  by (simp_all add: tree_at_def tree_raw_def blob_word_def demo_tree_def big_to_little_def le_word_def)

lemma name_one_word:
  assumes "tree_at dt (of_nat pos) = Some w" and "w AND 0xff = 0" and "terminated (tree_bytes dt (of_nat pos))"
    and "cstr (tree_bytes dt (of_nat pos)) = nm" and "length nm < 128" and "e = pos + 1"
  shows "name_words dt pos nm e"
proof -
  have "\<exists>w. tree_at dt (of_nat q) = Some w \<and> (w AND 0xff = 0 \<longleftrightarrow> q = e - 1)" if "pos \<le> q" "q < e" for q
  proof -
    have "q = pos" using that assms(6) by simp
    with assms show ?thesis by simp
  qed
  with assms show ?thesis by (simp add: name_words_def)
qed

lemma demo_tree_names:
  "name_words demo_tree 1 [] 2" "name_words demo_tree 3 [110] 4" "string_at demo_tree 0 [97, 98]"
proof -
  have b: "tree_bytes demo_tree 1 = 0 # drop 13 (dt_blob demo_tree)"
    "tree_bytes demo_tree 3 = 110 # 0 # drop 22 (dt_blob demo_tree)"
    by (simp_all add: tree_bytes_def demo_tree_def)
  show "name_words demo_tree 1 [] 2"
    by (rule name_one_word [of _ _ 0]) (simp_all add: demo_tree_words b)
  show "name_words demo_tree 3 [110] 4"
    by (rule name_one_word [of _ _ "0x6e000000"]) (simp_all add: demo_tree_words b)
  show "string_at demo_tree 0 [97, 98]" by (simp add: string_at_def demo_tree_def)
qed

lemma demo_tree_holds: "tree_holds demo_tree [] [Sub [110] [Nop], Prop [97, 98] [0x1234]]"
proof -
  have "items_at demo_tree 4 [Nop] 5" using demo_tree_words by (simp add: fdt_defs)
  moreover have "items_at demo_tree 6 [Prop [97, 98] [0x1234]] 10"
    using demo_tree_words demo_tree_names(3) by (simp add: fdt_defs)
  ultimately have "items_at demo_tree 2 [Sub [110] [Nop], Prop [97, 98] [0x1234]] 10"
    unfolding items_at.simps(4)
    using demo_tree_words(3,6) demo_tree_names(2)
    by (intro conjI exI [of _ 4] exI [of _ 5]) (simp_all add: fdt_defs)
  then have "items_at demo_tree 0 [Sub [] [Sub [110] [Nop], Prop [97, 98] [0x1234]]] 11"
    unfolding items_at.simps(4) [of demo_tree 0]
    using demo_tree_words(1,11) demo_tree_names(1)
    by (intro conjI exI [of _ 2] exI [of _ 10]) (simp_all add: fdt_defs)
  moreover have "tree_at demo_tree (of_nat 11) = Some FDT_END" using demo_tree_words(12) by (simp add: fdt_defs)
  moreover have "dt_valid demo_tree \<noteq> 0" by (simp add: demo_tree_def)
  ultimately show ?thesis unfolding tree_holds_def by (intro conjI exI [of _ 11]) simp_all
qed

theorem devicetree_find_int_correct_witness:
  "devicetree_find_int demo_tree None [97, 98, 0] None = Some (0, Some 0x1234) \<and>
   devicetree_find_int demo_tree (Some [110, 0]) [97, 98, 0] None = Some (0, Some 1)"
proof -
  have o: "8 \<le> off_struct demo_tree" "unat (off_struct demo_tree) \<le> length (dt_blob demo_tree)"
    by (simp_all add: demo_tree_def)
  show ?thesis
    using devicetree_find_int_correct [OF demo_tree_holds _ _ o, of None "[97, 98, 0]" None]
      devicetree_find_int_correct [OF demo_tree_holds _ _ o, of "Some [110, 0]" "[97, 98, 0]" None]
    by simp
qed

text \<open>
  The conversion of 64-bit numbers is not a reversal of the bytes: the shifts are those of a
  number of seven bytes.
\<close>

lemma big_to_little64_wrong: "big_to_little64 0x0100000000000000 = 0x100" "big_to_little64 0xff = 0xff000000000000"
  by (simp_all add: big_to_little64_def)

end
