(* ===== verification/Boot.thy ===== *)
theory Boot
  imports Syscalls DeviceTree
begin

text \<open>
  The boot sequence: detection of the board (\<^verbatim>\<open>kernel/boot/hardware_detect.c\<close>), the drivers
  (\<^verbatim>\<open>kernel/drivers/drivers.c\<close>), the start of the first program (\<^verbatim>\<open>kernel/processes/userspace.c\<close>)
  and \<^verbatim>\<open>kernel_main\<close> itself. Everything that is only printed is left out.
\<close>

section \<open>kernel/boot/hardware_detect.c\<close>

record boot_info =
  device_tree_found :: i32
  hardware_revision :: u32
  tree :: device_tree_type

definition hardware_convert_type :: "u32 \<Rightarrow> u32" where
  "hardware_convert_type revision =
     (if revision \<in> {0x2, 0x3, 0x4, 0x5, 0x6, 0xd, 0xe, 0xf} then RPI_MODEL_B
      else if revision \<in> {0x7, 0x8, 0x9} then RPI_MODEL_A
      else if revision \<in> {0x10, 0x13, 0x900032} then RPI_MODEL_BPLUS
      else if revision \<in> {0x11, 0x14} then RPI_COMPUTE_MODULE1
      else if revision = 0xa020a0 then RPI_COMPUTE_MODULE3
      else if revision \<in> {0x12, 0x15, 0x900021} then RPI_MODEL_APLUS
      else if revision \<in> {0x900092, 0x900093, 0x920093} then RPI_MODEL_ZERO
      else if revision = 0x9000c1 then RPI_MODEL_ZERO_W
      else if revision = 0x902120 then RPI_MODEL_ZERO_2W
      else if revision \<in> {0xa01040, 0xa01041, 0xa21041} then RPI_MODEL_2B
      else if revision = 0xa22042 then RPI_MODEL_2B_V1_2
      else if revision \<in> {0xa02082, 0xa22082, 0xa32082} then RPI_MODEL_3B
      else if revision = 0xa020d3 then RPI_MODEL_3BPLUS
      else if revision = 0x9020e0 then RPI_MODEL_3APLUS
      else if revision \<in> {0xa03111, 0xb03111, 0xb03112, 0xb03114, 0xb03115, 0xc03111, 0xc03112, 0xc03114,
        0xc03115, 0xd03114, 0xd03115} then RPI_MODEL_4B
      else RPI_MODEL_UNKNOWN)"

text \<open>The result of \<^verbatim>\<open>devicetree_find_int\<close> is not looked at.\<close>

definition hardware_detect :: "buf \<Rightarrow> boot_info \<Rightarrow> 'h devices \<Rightarrow> (u32 \<times> boot_info \<times> 'h devices) option" where
  "hardware_detect info_ptr i d =
     do { (result, dt) \<leftarrow> devicetree_setup info_ptr (tree i);
          if result = 0 then
            do { (r, v) \<leftarrow> devicetree_find_int dt (Some (lit ''system'')) (lit ''linux,revision'')
                   (Some (hardware_revision i));
                 rev \<leftarrow> v;
                 Some (0, i\<lparr>device_tree_found := 1, hardware_revision := rev, tree := dt\<rparr>,
                   d\<lparr>hardware_type := hardware_convert_type rev\<rparr>) }
          else Some (0, i\<lparr>tree := dt\<rparr>, d) }"

text \<open>The boot tags are disabled, so without a device tree 256 MB are assumed.\<close>

definition hardware_get_memory :: "boot_info \<Rightarrow> (u32 \<times> u32) option" where
  "hardware_get_memory i =
     (if device_tree_found i \<noteq> 0 then do { l \<leftarrow> devicetree_get_memory (tree i); Some (0, ucast l) }
      else Some (0, 256 * 1024 * 1024))"

text \<open>The variable \<^verbatim>\<open>act_led_gpio\<close> that the source also sets is never read.\<close>

definition hardware_setup_vars :: "'h devices \<Rightarrow> 'h devices" where
  "hardware_setup_vars d =
     (let t = hardware_type d in
      d\<lparr>io_base :=
        (if t \<in> {RPI_MODEL_A, RPI_MODEL_APLUS, RPI_MODEL_B, RPI_MODEL_BPLUS, RPI_MODEL_ZERO, RPI_MODEL_ZERO_W,
           RPI_COMPUTE_MODULE1} then 0x20000000
         else if t \<in> {RPI_MODEL_2B, RPI_MODEL_2B_V1_2, RPI_MODEL_3B, RPI_MODEL_3BPLUS, RPI_MODEL_3APLUS,
           RPI_MODEL_ZERO_2W, RPI_COMPUTE_MODULE3} then 0x3f000000
         else 0xfe000000)\<rparr>)"

section \<open>Drivers and the first program\<close>

definition drivers_init_all :: "'h board \<Rightarrow> serial_type \<Rightarrow> bool \<Rightarrow> 'h devices \<Rightarrow> (bool \<times> 'h devices) option" where
  "drivers_init_all B serial up d =
     do { (r, d1) \<leftarrow> led_init B d;
          let d2 = snd (timer_init B d1);
          d3 \<leftarrow> serial_enable_interrupts B serial d2;
          let (r1, up1, d4) = i2c_init B 0 up d3;
          Some (up1, d4) }"

text \<open>
  \<^verbatim>\<open>start_userspace\<close> up to the jump into user mode; False when the first program cannot be loaded.
  \<open>old_text\<close> and \<open>old_stack\<close> are the previous contents of the two blocks that \<^verbatim>\<open>execve\<close> allocates.
\<close>

definition start_userspace :: "buf \<Rightarrow> buf \<Rightarrow> buf \<Rightarrow> buf \<Rightarrow> vfs \<Rightarrow> kernel \<Rightarrow>
    (bool \<times> (buf \<times> buf) option \<times> kernel) option" where
  "start_userspace low old_text old_stack init_filename v k =
     do { (init_process, k1) \<leftarrow> process_create k;
          let k2 = k1\<lparr>current_process := init_process\<rparr>;
          k3 \<leftarrow> pcb_upd init_process (\<lambda>b. b\<lparr>p_parent := init_process\<rparr>) k2;
          root \<leftarrow> get_inode v k3 (lit ''/'');
          k4 \<leftarrow> pcb_upd init_process (\<lambda>b. b\<lparr>current_dir := root\<rparr>) k3;
          (result, img, k5) \<leftarrow> execve low old_text old_stack init_filename None v k4;
          if sint result < 0 then Some (False, img, k5)
          else do { k6 \<leftarrow> pcb_upd init_process (\<lambda>b. b\<lparr>p_status := PROCESS_STATUS_READY\<rparr>) k5;
                    Some (True, img, k6) } }"

section \<open>kernel/kernel_main.c\<close>

text \<open>
  \<open>initrd_image\<close> is the disk image that is linked into the kernel, \<open>idle\<close> and \<open>enter\<close> the addresses of
  \<^verbatim>\<open>idle_task\<close> and \<^verbatim>\<open>enter_userspace\<close>. The result says whether the first program runs.
\<close>

definition kernel_main :: "'h board \<Rightarrow> buf \<Rightarrow> u32 \<Rightarrow> u32 \<Rightarrow> buf \<Rightarrow> buf \<Rightarrow> buf \<Rightarrow> buf \<Rightarrow> u32 \<Rightarrow> boot_info \<Rightarrow> 'h system \<Rightarrow>
    (bool \<times> (buf \<times> buf) option \<times> boot_info \<times> 'h system) option" where
  "kernel_main B initrd_image idle enter low old_text old_stack r2 memory_kernel i s =
     do { (r, i1, d1) \<leftarrow> hardware_detect r2 i (dev s);
          let d2 = hardware_setup_vars d1;
          let (r3, ser1, d3) = serial_init B 1 (ser s) d2;
          let d4 = snd (platform_irq_enable B d3);
          (up, d5) \<leftarrow> drivers_init_all B ser1 (i2c_up s) d4;
          (start, len) \<leftarrow> hardware_get_memory i1;
          m \<leftarrow> memory_hierarchy_init len memory_kernel (mem (kern s));
          v1 \<leftarrow> fd_table_init (fs s);
          let v2 = v1\<lparr>disk := ramdisk_init initrd_image (of_nat (length initrd_image))\<rparr>;
          (r4, v3) \<leftarrow> mount (lit ''romfs'') v2;
          k1 \<leftarrow> create_idle_task idle enter ((kern s)\<lparr>mem := m\<rparr>);
          (ok, img, k2) \<leftarrow> start_userspace low old_text old_stack (lit ''/bin/shell'') v3 k1;
          Some (ok, img, i1, s\<lparr>kern := k2, fs := v3, dev := d5, ser := ser1, i2c_up := up\<rparr>) }"

section \<open>Enough memory\<close>

text \<open>Below chunk \<open>a\<close> anything may be in use, and above it at most \<open>c\<close> chunks are.\<close>

definition room :: "nat \<Rightarrow> nat \<Rightarrow> mem_state \<Rightarrow> bool" where
  "room a c m \<longleftrightarrow> (\<exists>S. finite S \<and> card S \<le> c \<and> used m \<subseteq> {..<a} \<union> S)"

text \<open>With few chunks in use, one of many windows is free.\<close>

lemma free_window:
  assumes "room a c m" and "0 < n" and "a + (c + 1) * n \<le> max_chunk m"
  shows "\<exists>i<max_chunk m. free_run m n i"
proof (rule ccontr)
  assume neg: "\<not> (\<exists>i<max_chunk m. free_run m n i)"
  obtain S where S: "finite S" "card S \<le> c" "used m \<subseteq> {..<a} \<union> S" using assms(1) by (auto simp: room_def)
  have "\<exists>x\<in>S. a + j * n \<le> x \<and> x < a + j * n + n" if "j \<le> c" for j
  proof -
    have "j * n + n \<le> (c + 1) * n" using that by (metis Suc_eq_plus1 add.commute mult_Suc mult_le_mono1 Suc_le_mono)
    then have "a + j * n < max_chunk m" using assms(2,3) by linarith
    with neg obtain x where "x \<in> used m" "a + j * n \<le> x" "x < a + j * n + n"
      by (auto simp: free_run_def disjoint_iff)
    with S(3) show ?thesis by fastforce
  qed
  then obtain f where f: "\<forall>j\<le>c. f j \<in> S \<and> a + j * n \<le> f j \<and> f j < a + j * n + n" by metis
  have "inj_on f {..c}"
  proof (rule linorder_inj_onI)
    fix j k assume jk: "j < k" "j \<in> {..c}" "k \<in> {..c}"
    then have "j * n + n \<le> k * n" by (metis Suc_leI add.commute mult_Suc mult_le_mono1)
    then show "f j \<noteq> f k" using f jk by (metis atMost_iff add.assoc add_le_cancel_left leD le_trans)
  qed auto
  then have "card (f ` {..c}) = c + 1" by (simp add: card_image)
  moreover have "card (f ` {..c}) \<le> card S" using f S(1) by (intro card_mono) auto
  ultimately show False using S(2) by simp
qed

lemma room_block:
  assumes "room a c m" and "used m' = used m \<union> block p sz"
  shows "room a (c + chunks_of sz) m'"
proof -
  obtain S where S: "finite S" "card S \<le> c" "used m \<subseteq> {..<a} \<union> S" using assms(1) by (auto simp: room_def)
  have "card (S \<union> block p sz) \<le> c + chunks_of sz"
    using card_Un_le [of S "block p sz"] S(2) by (simp add: block_def)
  moreover have "finite (S \<union> block p sz)" using S(1) by (simp add: block_def)
  moreover have "used m' \<subseteq> {..<a} \<union> (S \<union> block p sz)" using S(3) assms(2) by blast
  ultimately show ?thesis unfolding room_def by blast
qed

lemma room_alloc:
  assumes "room a c m" and "mem_inv m" and "a + (c + 1) * chunks_of sz \<le> max_chunk m"
    and "memory_allocate sz m = Some (p, m')" and "max_chunk m + chunks_of sz \<le> 32 * MAP_WORDS"
  shows "p \<noteq> NULL" and "room a (c + chunks_of sz) m'"
proof -
  obtain i where i: "i < max_chunk m" "free_run m (chunks_of sz) i"
    using free_window [OF assms(1) chunks_of_pos assms(3)] by blast
  show p: "p \<noteq> NULL" using allocate_null(2) [of sz m m' i] assms(2,4,5) i by auto
  show "room a (c + chunks_of sz) m'"
    using room_block [OF assms(1)] allocate_disjoint(2) [OF assms(4,2) p] by blast
qed

section \<open>The first processes\<close>

lemma process_create_fresh:
  assumes "process_create k = Some (p, k')" and "p \<noteq> NULL" and "proc_list k ps" and "p \<notin> set ps"
  shows "\<exists>b. pcbs k' p = Some b \<and> length (p_name b) = 32 \<and> wait_queue_next b = NULL"
proof -
  obtain m b where ins: "process_insert p (k\<lparr>mem := m, pcbs := (pcbs k)(p \<mapsto> b), avail_pid := avail_pid k + 1\<rparr>) = Some k'"
    and b: "length (p_name b) = 32" "wait_queue_next b = NULL"
    using assms(1,2)
    by (auto simp: process_create_def Let_def bind_eq_Some_conv zero_pcb_def split: if_splits)
  let ?k = "k\<lparr>mem := m, pcbs := (pcbs k)(p \<mapsto> b), avail_pid := avail_pid k + 1\<rparr>"
  have "ps ! i \<noteq> p" if "i < length ps" for i using assms(4) that by auto
  then have "proc_list ?k ps" using assms(3) unfolding proc_list_def linked_def by auto
  from process_insert_spec [OF this assms(4,2)] ins have "same_but_links ?k k'" by auto
  then have "map_option unlinked (pcbs k' p) = Some (unlinked b)" by (simp add: same_but_links_def)
  then obtain c where "pcbs k' p = Some c" "unlinked c = unlinked b" by auto
  then show ?thesis using b unlinked_fields(8,11) [of c b] by simp
qed
section \<open>Every step of the boot sequence returns\<close>

lemma gpio_direction_output_total:
  assumes "w < 54"
  shows "\<exists>d'. gpio_direction_output B w d = Some (0, d')"
proof -
  have "\<not> int MAX_GPIO < sint w" and "\<not> 32 \<le> unat (c_rem w 10 * 3)"
    using assms small_pin [OF assms] by (simp_all add: MAX_GPIO_def word_less_nat_alt del: of_nat_unat)
  then show ?thesis by (simp add: gpio_direction_output_def Let_def split: prod.splits)
qed

lemma led_init_total: "\<exists>r d'. led_init B d = Some (r, d')"
proof (cases "led_pin (hardware_type d)")
  case None
  then show ?thesis by (simp add: led_init_def hardware_get_type_def)
next
  case (Some q)
  obtain pin low where q: "q = (pin, low)" by (cases q)
  with Some have p: "pin < 54" by (auto simp: led_pin_def split: if_splits)
  let ?d = "d\<lparr>led_configured := 1, led_gpio := pin, led_active_low := low\<rparr>"
  obtain r d3 where g: "gpio_request pin ?d = (r, d3)" by (metis surj_pair)
  then have "led_gpio d3 = pin" by (auto simp: gpio_request_def Let_def split: if_splits)
  moreover obtain d' where "gpio_direction_output B pin d3 = Some (0, d')"
    using gpio_direction_output_total [OF p] by metis
  ultimately show ?thesis using Some q g by (simp add: led_init_def Let_def hardware_get_type_def)
qed

lemma serial_init_driver: "serial_init B 1 ser0 d = (r, ser1, d1) \<Longrightarrow> driver ser1 = Some Pl011"
  by (auto simp: serial_init_def pl011_uart_init_def Let_def serial_8n1_def split: prod.splits if_splits)

lemma drivers_init_all_total:
  assumes "driver serial \<noteq> None"
  shows "\<exists>up1 d'. drivers_init_all B serial up d = Some (up1, d')"
proof -
  obtain r d1 where l: "led_init B d = Some (r, d1)" using led_init_total [of B d] by blast
  let ?d2 = "snd (timer_init B d1)"
  obtain d3 where s: "serial_enable_interrupts B serial ?d2 = Some d3"
    using assms by (cases "the (driver serial)") (auto simp: serial_enable_interrupts_def)
  obtain r1 up1 d4 where "i2c_init B 0 up d3 = (r1, up1, d4)" by (metis prod_cases3)
  with l s show ?thesis by (simp add: drivers_init_all_def Let_def)
qed

lemma invalidate_from_spec:
  "i + n \<le> length tab \<Longrightarrow> \<exists>t. invalidate_from i n tab = Some t \<and> length t = length tab \<and>
    (\<forall>j<length tab. if i \<le> j \<and> j < i + n then fd_valid (t ! j) = 0 else t ! j = tab ! j)"
proof (induction n arbitrary: i tab)
  case (Suc n)
  let ?t = "tab[i := (tab ! i)\<lparr>fd_valid := 0\<rparr>]"
  have g: "arr_get tab i = Some (tab ! i)" using Suc.prems by simp
  from Suc.IH [of "Suc i" ?t] Suc.prems obtain t where
    t: "invalidate_from (Suc i) n ?t = Some t" "length t = length tab"
      "\<forall>j<length tab. if Suc i \<le> j \<and> j < Suc i + n then fd_valid (t ! j) = 0 else t ! j = ?t ! j" by auto
  have "if i \<le> j \<and> j < i + Suc n then fd_valid (t ! j) = 0 else t ! j = tab ! j" if "j < length tab" for j
    using t(3) [rule_format, OF that] Suc.prems by (cases "j = i") (auto split: if_splits)
  with g t(1,2) show ?case by auto
qed auto

text \<open>After \<^verbatim>\<open>fd_table_init\<close> exactly the first three descriptors are valid.\<close>

lemma fd_table_init_spec:
  assumes "length (fd_table v) = MAX_FD"
  shows "\<exists>t. fd_table_init v = Some (v\<lparr>fd_table := t\<rparr>) \<and> length t = MAX_FD \<and>
    (\<forall>j<MAX_FD. fd_valid (t ! j) \<noteq> 0 \<longleftrightarrow> j < 3)"
proof -
  obtain t where t: "invalidate_from 0 MAX_FD (fd_table v) = Some t" "length t = MAX_FD"
    "\<forall>j<MAX_FD. fd_valid (t ! j) = 0" using invalidate_from_spec [of 0 MAX_FD "fd_table v"] assms by auto
  let ?v = "\<lambda>i t. t[i := (t ! i)\<lparr>fd_valid := 1\<rparr>]"
  let ?t = "?v 2 (?v 1 (?v 0 t))"
  have "fd_table_init v = Some (v\<lparr>fd_table := ?t\<rparr>)"
    using t(1,2) by (simp add: fd_table_init_def validate_def MAX_FD_def)
  moreover have "length ?t = MAX_FD" using t(2) by simp
  moreover have "fd_valid (?t ! j) \<noteq> 0 \<longleftrightarrow> j < 3" if "j < MAX_FD" for j
    using that t(2,3) by (auto simp: nth_list_update MAX_FD_def)
  ultimately show ?thesis by blast
qed

lemma mount_romfs:
  assumes "romfs_mount (disk v) = Some r" and "0 \<le> sint r"
  shows "mount (lit ''romfs'') v = Some (0, v\<lparr>root_dir := r\<rparr>)"
proof -
  have "strncmp (lit ''romfs'') (lit ''romfs'') 5 = Some 0" by code_simp
  with assms show ?thesis by (simp add: mount_def)
qed

section \<open>The idle task and the first program\<close>

lemma process_create_room:
  assumes "kinv base extra k ps" and "max_chunk (mem k) + 2 \<le> 32 * MAP_WORDS"
    and "0 \<le> sint (avail_pid k)" and "sint (avail_pid k) < 2147483647"
    and "room a c (mem k)" and "a + (c + 1) * 2 \<le> max_chunk (mem k)"
  shows "\<exists>p b k'. process_create k = Some (p, k') \<and> p \<noteq> NULL \<and> p \<notin> set ps \<and> kinv base extra k' (ps @ [p]) \<and>
    room a (c + 2) (mem k') \<and> max_chunk (mem k') = max_chunk (mem k) \<and> avail_pid k' = avail_pid k + 1 \<and>
    pid_of k' p = avail_pid k \<and> pcbs k' p = Some b \<and> length (p_name b) = 32 \<and> resources k' p = [(p, PCB_SIZE)] \<and>
    k' = k\<lparr>mem := mem k', pcbs := pcbs k', avail_pid := avail_pid k', proc_first := proc_first k'\<rparr> \<and>
    (\<forall>q\<in>set ps. map_option unlinked (pcbs k' q) = map_option unlinked (pcbs k q))"
proof -
  obtain p k' where pk: "process_create k = Some (p, k')"
    and spec: "if p = NULL then k' = k \<and> (\<forall>i < max_chunk (mem k). \<not> free_run (mem k) 2 i)
     else p \<notin> set ps \<and> kinv base extra k' (ps @ [p]) \<and> pid_of k' p = avail_pid k \<and>
       avail_pid k' = avail_pid k + 1 \<and> status_of k' p = PROCESS_STATUS_SLEEPING \<and>
       resources k' p = [(p, PCB_SIZE)] \<and>
       k' = k\<lparr>mem := mem k', pcbs := pcbs k', avail_pid := avail_pid k', proc_first := proc_first k'\<rparr> \<and>
       used (mem k') = used (mem k) \<union> block p PCB_SIZE \<and> max_chunk (mem k') = max_chunk (mem k) \<and>
       (\<forall>q\<in>set ps. map_option unlinked (pcbs k' q) = map_option unlinked (pcbs k q))"
    using process_create_spec [OF assms(1-4)] by blast
  have p: "p \<noteq> NULL" using spec free_window [OF assms(5) _ assms(6)] by (auto split: if_splits)
  note sp = spec [unfolded if_not_P [OF p]]
  obtain b where "pcbs k' p = Some b" "length (p_name b) = 32"
    using process_create_fresh [OF pk p kinv_parts(1) [OF assms(1)]] sp by blast
  moreover have "room a (c + 2) (mem k')" using room_block [OF assms(5), of "mem k'" p PCB_SIZE] sp
    by (simp add: PCB_SIZE_chunks)
  ultimately show ?thesis using pk p sp by blast
qed

text \<open>The idle task may be changed freely as long as it stays in the list under its number.\<close>

lemma kinv_head:
  assumes "kinv base extra k [f]" and "pcbs k f = Some b" and "mm.accounts base ((f, PCB_SIZE) # extra') m"
    and "p_next b' = p_next b" "p_prev b' = p_prev b" "p_pid b' = p_pid b"
  shows "kinv base extra' (k\<lparr>mem := m, pcbs := (pcbs k)(f \<mapsto> b')\<rparr>) [f]"
proof -
  let ?k = "k\<lparr>mem := m, pcbs := (pcbs k)(f \<mapsto> b')\<rparr>"
  note kp = kinv_parts [OF assms(1)]
  have "proc_list ?k [f]"
  proof (subst proc_list_cong [of ?k k])
    show "map_option (\<lambda>b. (p_next b, p_prev b)) (pcbs ?k q) = map_option (\<lambda>b. (p_next b, p_prev b)) (pcbs k q)" for q
      using assms(2,4,5) by simp
  qed (use kp(1) in simp_all)
  moreover have "pid_of ?k = pid_of k" using assms(2,6) by (auto simp: pid_of_def fun_eq_iff)
  moreover have "dom (pcbs ?k) = {f}" using kp(2) assms(2) by auto
  ultimately show ?thesis using assms(1,3) by (simp add: kinv_defs holdings_def)
qed

lemma create_idle_task_spec:
  assumes "kinv base [] k []" and "max_chunk (mem k) + 2 \<le> 32 * MAP_WORDS" and "avail_pid k = 0"
    and "room a 0 (mem k)" and "a + 3 \<le> max_chunk (mem k)"
  shows "\<exists>f s k'. create_idle_task idle enter k = Some k' \<and> kinv base [(s, 4096)] k' [f] \<and> pid_of k' f = 0 \<and>
    is_ready k' f \<and> room a 3 (mem k') \<and> max_chunk (mem k') = max_chunk (mem k) \<and> avail_pid k' = 1"
proof -
  obtain f b k1 where c: "process_create k = Some (f, k1)" "kinv base [] k1 [f]" "room a 2 (mem k1)"
    "max_chunk (mem k1) = max_chunk (mem k)" "avail_pid k1 = 1" "pid_of k1 f = 0" "pcbs k1 f = Some b"
    "length (p_name b) = 32"
    using process_create_room [OF assms(1,2) _ _ assms(4)] assms(3,5) by (auto simp: numeral_2_eq_2)
  have acc: "mm.accounts base [(f, PCB_SIZE)] (mem k1)" and mi: "mem_inv (mem k1)"
    using kinv_parts(4) [OF c(2)] by (simp_all add: holdings_def mm.accounts_def)
  have ch: "chunks_of 4096 = 1" by (simp add: chunks_of_def)
  obtain s m where al: "memory_allocate 4096 (mem k1) = Some (s, m)"
    using allocate_total [OF mi, of 4096] assms(2) c(4) ch by auto
  have s: "s \<noteq> NULL" and rm: "room a 3 m"
    using room_alloc [OF c(3) mi _ al] assms(2,5) c(4) by (simp_all add: ch)
  have il: "length (cstr (lit ''idle'')) + 1 = 5" "Suc (length (cstr (lit ''idle''))) = 5" by (simp_all add: lit_def)
  have sc: "strncpy (p_name b) (lit ''idle'') 5 = Some (cstr (lit ''idle'') @ 0 # drop 5 (p_name b))"
    using strncpy_copies [of "lit ''idle''" "p_name b", unfolded il] c(8)
    by (simp add: lit_def terminated_def)
  obtain b' where k': "create_idle_task idle enter k = Some (k1\<lparr>mem := m, pcbs := (pcbs k1)(f \<mapsto> b')\<rparr>)"
    and b': "p_next b' = p_next b" "p_prev b' = p_prev b" "p_pid b' = p_pid b" "p_status b' = PROCESS_STATUS_READY"
    using c(1,7) al sc by (simp add: create_idle_task_def pcb_upd_def Let_def)
  let ?k = "k1\<lparr>mem := m, pcbs := (pcbs k1)(f \<mapsto> b')\<rparr>"
  have "mm.accounts base ((f, PCB_SIZE) # [(s, 4096)]) m"
    using mm.accounts_alloc [OF acc al s] mm.accounts_cong [of "[(s, 4096), (f, PCB_SIZE)]" "[(f, PCB_SIZE), (s, 4096)]"]
    by simp
  from kinv_head [OF c(2,7) this b'(1,2,3)] have "kinv base [(s, 4096)] ?k [f]" .
  moreover have "pid_of ?k f = 0" "is_ready ?k f"
    using c(6,7) b'(3,4) by (simp_all add: pid_of_def is_ready_def status_of_def)
  moreover have "max_chunk m = max_chunk (mem k)" using allocate_inv(2) [OF al mi] c(4) by simp
  ultimately show ?thesis using k' rm c(5) by (intro exI [of _ f] exI [of _ s] exI [of _ ?k]) simp
qed

text \<open>
  Starting the first program: with room for its control block, text and stack it becomes the second
  process of the list, owns its memory, works in the root directory and is its own parent.
\<close>

definition program_fits :: "nat \<Rightarrow> nat \<Rightarrow> nat \<Rightarrow> nat \<Rightarrow> bool" where
  "program_fits a c n mx \<longleftrightarrow> a + (c + 1) * 2 \<le> mx \<and> a + (c + 3) * n \<le> mx \<and> a + (c + n + 3) * 2 \<le> mx \<and>
     mx + n \<le> 32 * MAP_WORDS \<and> mx + 2 \<le> 32 * MAP_WORDS"

lemma start_userspace_spec:
  assumes "kinv base extra k [f]" and "0 \<le> sint (avail_pid k)" and "sint (avail_pid k) < 2147483647"
    and "room a c (mem k)" and "program_fits a c (chunks_of (of_nat (length contents))) (max_chunk (mem k))"
    and "path_leads (disk v) (root_dir v) cs i" and "\<forall>c\<in>set cs. component c" and "0 \<le> sint i"
    and "resolves (disk v) i i" and "file_at (disk v) i contents" and "contents \<noteq> []"
    and "length old_text = length contents"
  shows "\<exists>p b stk k'. start_userspace low old_text old_stack (path_text True cs) v k =
      Some (True, Some (contents, stk), k') \<and> kinv base extra k' [f, p] \<and> current_process k' = p \<and>
    pid_of k' p = avail_pid k \<and> pid_of k' f = pid_of k f \<and> status_of k' f = status_of k f \<and> is_ready k' p \<and>
    pcbs k' p = Some b \<and> u_pc (user_state b) = p_text b \<and> p_text b \<noteq> NULL \<and> p_stack b \<noteq> NULL \<and>
    textsize b = of_nat (length contents) \<and> p_parent b = p \<and> current_dir b = root_dir v"
proof -
  let ?n = "chunks_of (of_nat (length contents))"
  note fits = assms(5) [unfolded program_fits_def]
  obtain p b k1 where c: "process_create k = Some (p, k1)" "p \<noteq> NULL" "p \<noteq> f" "kinv base extra k1 [f, p]"
    "room a (c + 2) (mem k1)" "max_chunk (mem k1) = max_chunk (mem k)" "avail_pid k1 = avail_pid k + 1"
    "pid_of k1 p = avail_pid k" "pcbs k1 p = Some b" "length (p_name b) = 32" "resources k1 p = [(p, PCB_SIZE)]"
    "map_option unlinked (pcbs k1 f) = map_option unlinked (pcbs k f)"
    using process_create_room [OF assms(1) _ assms(2-4)] fits by auto
  define k4 where "k4 = k1\<lparr>current_process := p, pcbs := (pcbs k1)(p \<mapsto> b\<lparr>p_parent := p, current_dir := root_dir v\<rparr>)\<rparr>"
  have kv: "kinv base extra k4 [f, p]"
    using c(9) by (intro kinv_core [OF c(4)]) (auto simp: k4_def core_def)
  have b4: "pcbs k4 p = Some (b\<lparr>p_parent := p, current_dir := root_dir v\<rparr>)" by (simp add: k4_def)
  have root: "get_inode v k' (lit ''/'') = Some (root_dir v)" for k'
    by (simp add: get_inode_def lit_def)
  have r4: "resources k4 p = [(p, PCB_SIZE)]" using c(9,11) by (auto simp: resources_def k4_def split: if_splits)
  have mi: "mem_inv (mem k4)" using kinv_parts(4) [OF kv] by (simp add: mm.accounts_def)
  have m4: "max_chunk (mem k4) = max_chunk (mem k)" "room a (c + 2) (mem k4)" "current_process k4 = p"
    using c(5,6) by (simp_all add: k4_def)
  have c2: "chunks_of DEFAULT_USER_STACK_SIZE = 2" by (simp add: chunks_of_def DEFAULT_USER_STACK_SIZE_def)
  have room4: "t \<noteq> NULL \<and> s \<noteq> NULL" if a1: "memory_allocate (of_nat (length contents)) (mem k4) = Some (t, m1)"
    and a2: "memory_allocate DEFAULT_USER_STACK_SIZE m1 = Some (s, m2)" for t m1 s m2
  proof -
    have n1: "t \<noteq> NULL" and r1: "room a (c + 2 + ?n) m1"
      using room_alloc [OF m4(2) mi _ a1] fits m4(1) by (simp_all add: algebra_simps)
    have "s \<noteq> NULL"
      using room_alloc(1) [OF r1 allocate_inv(1) [OF a1 mi] _ a2] allocate_inv(2) [OF a1 mi] fits m4(1) c2
      by (simp add: algebra_simps)
    with n1 show ?thesis by blast
  qed
  have len: "length (p_name (b\<lparr>p_parent := p, current_dir := root_dir v\<rparr>)) = 32" using c(10) by simp
  have pre: "start_dir True v k4 = Some (root_dir v)" "args_fit low old_stack None" "p \<in> set (tl [f, p])"
    "max_chunk (mem k4) + ?n \<le> 32 * MAP_WORDS" "max_chunk (mem k4) + 2 \<le> 32 * MAP_WORDS"
    using fits m4(1) by (simp_all add: start_dir_def args_fit_def)
  note E = execve_loads_spec [OF kv m4(3) [symmetric] pre(3) b4 len pre(1) assms(6-12) pre(2,4,5)]
  obtain r img k5 where ex: "execve low old_text old_stack (path_text True cs) None v k4 = Some (r, img, k5)"
    and img: "case img of None \<Rightarrow> r = - ENOMEM \<and> pcbs k5 = pcbs k4 \<and>
        (\<exists>t m1 s m2. memory_allocate (of_nat (length contents)) (mem k4) = Some (t, m1) \<and>
           memory_allocate DEFAULT_USER_STACK_SIZE m1 = Some (s, m2) \<and> (t = NULL \<or> s = NULL))
     | Some (txt, stk) \<Rightarrow> txt = contents \<and> current_process k5 = p \<and> (None = (None :: (ptr \<times> buf) list option) \<longrightarrow> r = 0) \<and>
         kinv base (tl (resources k4 p) @ extra) k5 [f, p] \<and> (\<forall>q. q \<noteq> p \<longrightarrow> pcbs k5 q = pcbs k4 q) \<and>
         avail_pid k5 = avail_pid k4 \<and>
         (\<exists>b'. pcbs k5 p = Some b' \<and> p_pid b' = p_pid (b\<lparr>p_parent := p, current_dir := root_dir v\<rparr>) \<and>
           p_parent b' = p_parent (b\<lparr>p_parent := p, current_dir := root_dir v\<rparr>) \<and>
           current_dir b' = current_dir (b\<lparr>p_parent := p, current_dir := root_dir v\<rparr>) \<and>
           u_pc (user_state b') = p_text b' \<and> p_text b' \<noteq> NULL \<and> p_stack b' \<noteq> NULL \<and>
           textsize b' = of_nat (length contents) \<and> cstr (p_name b') = take 31 (butlast (path_text True cs)))"
    using E by (elim exE conjE) (rule that)
  obtain stk where im: "img = Some (contents, stk)" and r: "r = 0" "current_process k5 = p" "kinv base extra k5 [f, p]"
    "pcbs k5 f = pcbs k4 f"
    using img room4 c(3) r4 by (cases img) auto
  obtain b5 where b5: "pcbs k5 p = Some b5" "p_pid b5 = p_pid b" "p_parent b5 = p" "current_dir b5 = root_dir v"
    "u_pc (user_state b5) = p_text b5" "p_text b5 \<noteq> NULL" "p_stack b5 \<noteq> NULL" "textsize b5 = of_nat (length contents)"
    using img im by auto
  let ?k = "k5\<lparr>pcbs := (pcbs k5)(p \<mapsto> b5\<lparr>p_status := PROCESS_STATUS_READY\<rparr>)\<rparr>"
  have "start_userspace low old_text old_stack (path_text True cs) v k = Some (True, Some (contents, stk), ?k)"
    using c(1,9) ex b5(1) root by (simp add: start_userspace_def Let_def pcb_upd_def k4_def im r(1))
  moreover have "kinv base extra ?k [f, p]"
    using b5(1) by (intro kinv_core [OF r(3)]) (auto simp: core_def)
  moreover have "pid_of ?k p = avail_pid k" "is_ready ?k p"
    using b5(2) c(8,9) by (simp_all add: pid_of_def is_ready_def status_of_def)
  moreover have "pid_of ?k f = pid_of k f" "status_of ?k f = status_of k f"
  proof -
    have "map_option unlinked (pcbs ?k f) = map_option unlinked (pcbs k f)"
      using r(4) c(3,12) by (simp add: k4_def)
    then show "pid_of ?k f = pid_of k f" "status_of ?k f = status_of k f" by (rule unlinked_same_of)+
  qed
  ultimately show ?thesis
    using r(2) b5(3-8) by (intro exI [of _ p] exI [of _ "b5\<lparr>p_status := PROCESS_STATUS_READY\<rparr>"] exI [of _ stk] exI [of _ ?k]) simp
qed
section \<open>The boot theorem\<close>

lemma shell_path: "lit ''/bin/shell'' = path_text True [butlast (lit ''bin''), butlast (lit ''shell'')]"
  by (simp add: path_text_def lit_def)

lemma shell_components: "\<forall>c\<in>set [butlast (lit ''bin''), butlast (lit ''shell'')]. component c"
  by (simp add: component_def lit_def)

text \<open>A romfs volume that starts with the header of the directory \<open>root\<close>.\<close>

definition volume :: "ramdisk \<Rightarrow> i32 \<Rightarrow> bool" where
  "volume rd root \<longleftrightarrow> on_disk rd 0 16 \<and> bytes_at rd 0 8 = butlast (lit ''-rom1fs-'') \<and>
     (\<exists>vol. name_at rd 16 vol \<and> length vol \<le> 16 \<and> root = 16 + of_nat (16 * name_chunks vol))"

lemma volume_mount:
  assumes "volume (disk v) root"
  shows "mount (lit ''romfs'') v = Some (0, v\<lparr>root_dir := root\<rparr>)"
proof -
  obtain vol where vol: "name_at (disk v) 16 vol" "length vol \<le> 16" "root = 16 + of_nat (16 * name_chunks vol)"
    using assms by (auto simp: volume_def)
  have "name_chunks vol \<in> {1, 2}" using vol(2) by (auto simp: name_chunks_def)
  then have "0 \<le> sint root" using vol(3) by auto
  moreover have "romfs_mount (disk v) = Some root"
    using romfs_mount_spec [OF _ _ vol(1,2)] assms vol(3) by (simp add: volume_def)
  ultimately show ?thesis by (intro mount_romfs)
qed
text \<open>
  C1: Booting starts the shell. Whatever the board and its devices do, if the memory and the disk
  image are usable and \<^verbatim>\<open>/bin/shell\<close> fits, \<^verbatim>\<open>kernel_main\<close> reaches user mode: the kernel keeps
  exactly its own chunks, the idle task has number 0 and the shell number 1, both are ready and the
  shell is current, its text block holds the bytes of the file, execution starts at the first of
  them, it works in the root directory, and exactly the descriptors 0, 1 and 2 are open.
\<close>

theorem boot_starts_shell:
  assumes "hardware_detect r2 i (dev s) = Some (r, i1, d1)" and "hardware_get_memory i1 = Some (start, len)"
    and "len \<le> MAX_MEMORY" and "unat memory_kernel < 1073741824" and "kern s = boot_kernel (boot_mem r0)"
    and "length (fd_table (fs s)) = MAX_FD" and "rd = ramdisk_init initrd (of_nat (length initrd))"
    and "volume rd root" and "path_leads rd root [butlast (lit ''bin''), butlast (lit ''shell'')] n"
    and "0 \<le> sint n" and "resolves rd n n" and "file_at rd n contents" and "contents \<noteq> []"
    and "length old_text = length contents"
    and "program_fits (Suc (unat memory_kernel div 4096)) 3 (chunks_of (of_nat (length contents))) (unat len div 4096)"
  shows "\<exists>f p stk blocks b s'.
    kernel_main B initrd idle enter low old_text old_stack r2 memory_kernel i s =
      Some (True, Some (contents, stk), i1, s') \<and>
    kinv {0..unat memory_kernel div 4096} blocks (kern s') [f, p] \<and> current_process (kern s') = p \<and>
    pid_of (kern s') f = 0 \<and> pid_of (kern s') p = 1 \<and> is_ready (kern s') f \<and> is_ready (kern s') p \<and>
    pcbs (kern s') p = Some b \<and> u_pc (user_state b) = p_text b \<and> p_text b \<noteq> NULL \<and> p_stack b \<noteq> NULL \<and>
    textsize b = of_nat (length contents) \<and> p_parent b = p \<and> current_dir b = root \<and>
    disk (fs s') = rd \<and> root_dir (fs s') = root \<and>
    (\<forall>j<MAX_FD. fd_valid (fd_table (fs s') ! j) \<noteq> 0 \<longleftrightarrow> j < 3)"
proof -
  let ?a = "Suc (unat memory_kernel div 4096)"
  obtain r3 ser1 d3 where se: "serial_init B 1 (ser s) (hardware_setup_vars d1) = (r3, ser1, d3)" by (metis prod_cases3)
  have dr: "driver ser1 \<noteq> None" using serial_init_driver [OF se] by simp
  obtain up d5 where dv: "drivers_init_all B ser1 (i2c_up s) (snd (platform_irq_enable B d3)) = Some (up, d5)"
    using drivers_init_all_total [OF dr] by metis
  obtain m where m: "memory_hierarchy_init len memory_kernel (boot_mem r0) = Some m" "mem_inv m"
    "used m = {0..unat memory_kernel div 4096}" "max_chunk m = unat len div 4096"
    using memory_init_boot [OF assms(3,4), where t = len and r = r0] by (auto simp: memory_hierarchy_init_def)
  obtain t where t: "fd_table_init (fs s) = Some ((fs s)\<lparr>fd_table := t\<rparr>)"
    "\<forall>j<MAX_FD. fd_valid (t ! j) \<noteq> 0 \<longleftrightarrow> j < 3" using fd_table_init_spec [OF assms(6)] by blast
  let ?v = "(fs s)\<lparr>fd_table := t, disk := rd\<rparr>"
  have mo: "mount (lit ''romfs'') ?v = Some (0, ?v\<lparr>root_dir := root\<rparr>)" by (rule volume_mount) (simp add: assms(8))
  have ro: "room ?a 0 m" unfolding room_def m(3) by (intro exI [of _ "{}"]) auto
  have k0: "kinv {0..unat memory_kernel div 4096} [] (boot_kernel m) []" using kinv_boot [OF m(2)] m(3) by simp
  have fit: "?a + 3 \<le> max_chunk m" "max_chunk m + 2 \<le> 32 * MAP_WORDS" using assms(15) m(4) by (simp_all add: program_fits_def)
  obtain f st k1 where id: "create_idle_task idle enter (boot_kernel m) = Some k1"
    "kinv {0..unat memory_kernel div 4096} [(st, 4096)] k1 [f]" "pid_of k1 f = 0" "is_ready k1 f" "room ?a 3 (mem k1)"
    "max_chunk (mem k1) = max_chunk m" "avail_pid k1 = 1"
    using create_idle_task_spec [OF k0, of ?a idle enter] ro fit by auto
  let ?w = "?v\<lparr>root_dir := root\<rparr>"
  have "0 \<le> sint (avail_pid k1)" "sint (avail_pid k1) < 2147483647" using id(7) by simp_all
  moreover have "program_fits ?a 3 (chunks_of (of_nat (length contents))) (max_chunk (mem k1))" using assms(15) id(6) m(4) by simp
  ultimately obtain p b stk k2 where u: "start_userspace low old_text old_stack (lit ''/bin/shell'') ?w k1 =
      Some (True, Some (contents, stk), k2)" "kinv {0..unat memory_kernel div 4096} [(st, 4096)] k2 [f, p]"
    "current_process k2 = p" "pid_of k2 p = avail_pid k1" "pid_of k2 f = pid_of k1 f" "status_of k2 f = status_of k1 f"
    "is_ready k2 p" "pcbs k2 p = Some b" "u_pc (user_state b) = p_text b" "p_text b \<noteq> NULL" "p_stack b \<noteq> NULL"
    "textsize b = of_nat (length contents)" "p_parent b = p" "current_dir b = root_dir ?w"
    using start_userspace_spec [OF id(2) _ _ id(5), of contents ?w "[butlast (lit ''bin''), butlast (lit ''shell'')]" n
        old_text low old_stack] shell_components assms(9-14) unfolding shell_path by auto
  have bk: "(boot_kernel (boot_mem r0))\<lparr>mem := m\<rparr> = boot_kernel m" by (simp add: boot_kernel_def)
  have "kernel_main B initrd idle enter low old_text old_stack r2 memory_kernel i s =
      Some (True, Some (contents, stk), i1, s\<lparr>kern := k2, fs := ?w, dev := d5, ser := ser1, i2c_up := up\<rparr>)"
    using assms(1,2,5,7) se dv m(1) t(1) mo id(1) u(1) bk by (simp add: kernel_main_def Let_def)
  moreover have "is_ready k2 f" using id(4) u(6) by (simp add: is_ready_def)
  ultimately show ?thesis
    using u id(3,7) t(2)
    by (intro exI [of _ f] exI [of _ p] exI [of _ stk] exI [of _ "[(st, 4096)]"] exI [of _ b]
        exI [of _ "s\<lparr>kern := k2, fs := ?w, dev := d5, ser := ser1, i2c_up := up\<rparr>"]) simp
qed

text \<open>A disk with the program \<^verbatim>\<open>/bin/shell\<close>, and a boot without a device tree.\<close>

definition shell_image :: buf where
  "shell_image = [45, 114, 111, 109, 49, 102, 115, 45, 0, 0, 0, 144, 0, 0, 0, 0,
     116, 101, 115, 116, 0, 0, 0, 0, 0, 0, 0, 0, 0, 0, 0, 0,
     0, 0, 0, 73, 0, 0, 0, 32, 0, 0, 0, 0, 0, 0, 0, 0,
     46, 0, 0, 0, 0, 0, 0, 0, 0, 0, 0, 0, 0, 0, 0, 0,
     0, 0, 0, 9, 0, 0, 0, 96, 0, 0, 0, 0, 0, 0, 0, 0,
     98, 105, 110, 0, 0, 0, 0, 0, 0, 0, 0, 0, 0, 0, 0, 0,
     0, 0, 0, 10, 0, 0, 0, 0, 0, 0, 0, 5, 0, 0, 0, 0,
     115, 104, 101, 108, 108, 0, 0, 0, 0, 0, 0, 0, 0, 0, 0, 0,
     119, 111, 114, 108, 100, 0, 0, 0, 0, 0, 0, 0, 0, 0, 0, 0]"

definition shell_disk :: ramdisk where
  "shell_disk = ramdisk_init shell_image (of_nat (length shell_image))"

lemma shell_disk_words:
  "word_at shell_disk 32 = 73" "word_at shell_disk 36 = 32" "word_at shell_disk 64 = 9" "word_at shell_disk 68 = 96"
  "word_at shell_disk 96 = 10" "word_at shell_disk 104 = 5"
  by (simp_all add: word_at_def be_word_def bytes_at_def shell_disk_def ramdisk_init_def shell_image_def)

lemma shell_disk_on: "unat off + n \<le> 144 \<Longrightarrow> on_disk shell_disk off n"
  by (simp add: on_disk_def shell_disk_def ramdisk_init_def shell_image_def)

lemma shell_disk_bytes:
  "bytes_at shell_disk 0 8 = butlast (lit ''-rom1fs-'')" "bytes_at shell_disk 16 16 = [116, 101, 115, 116] @ replicate 12 0"
  "bytes_at shell_disk 48 16 = [46] @ replicate 15 0" "bytes_at shell_disk 80 16 = [98, 105, 110] @ replicate 13 0"
  "bytes_at shell_disk 112 16 = [115, 104, 101, 108, 108] @ replicate 11 0"
  "bytes_at shell_disk 128 5 = [119, 111, 114, 108, 100]"
  by (simp_all add: bytes_at_def shell_disk_def ramdisk_init_def shell_image_def lit_def,
      simp_all add: eval_nat_numeral)

lemma shell_disk_names:
  "name_at shell_disk 16 [116, 101, 115, 116]" "name_at shell_disk 48 [46]" "name_at shell_disk 80 [98, 105, 110]"
  "name_at shell_disk 112 [115, 104, 101, 108, 108]"
  using shell_disk_bytes by (simp_all add: name_at_def shell_disk_on name_chunks_def)

lemma shell_disk_volume: "volume shell_disk 32"
  unfolding volume_def using shell_disk_bytes(1) shell_disk_names(1)
  by (auto simp: shell_disk_on name_chunks_def intro!: exI [of _ "[116, 101, 115, 116]"])

lemma shell_disk_resolves: "resolves shell_disk 32 32" "resolves shell_disk 64 64" "resolves shell_disk 96 96"
  by (auto simp: shell_disk_words shell_disk_on intro!: resolves.here)

lemma shell_disk_directories:
  "directory shell_disk 32 [(32, [46]), (64, [98, 105, 110])] id"
  "directory shell_disk 64 [(96, [115, 104, 101, 108, 108])] id"
  by (simp_all add: directory_def header_at_def shell_disk_on shell_disk_words shell_disk_names shell_disk_resolves)

lemma shell_disk_path: "path_leads shell_disk 32 [butlast (lit ''bin''), butlast (lit ''shell'')] 96"
  using shell_disk_directories
  by (intro path_leads.intros(3) [of _ 32 "[(32, [46]), (64, [98, 105, 110])]" id _ 64]
      path_leads.intros(1) [of _ 64 "[(96, [115, 104, 101, 108, 108])]" id])
    (simp_all add: entry_of_def lit_def)

lemma shell_disk_file: "file_at shell_disk 96 [119, 111, 114, 108, 100]"
proof -
  have "data_start 96 [115, 104, 101, 108, 108] = 128" by (simp add: data_start_def name_chunks_def)
  then show ?thesis unfolding file_at_def
    by (intro exI [of _ "[115, 104, 101, 108, 108]"])
      (simp add: header_at_def shell_disk_on shell_disk_words shell_disk_names shell_disk_bytes)
qed

theorem boot_starts_shell_witness:
  "\<forall>(s :: (u32 \<Rightarrow> u32) system) i. \<exists>stk i1 s'.
    kernel_main memory_bus shell_image 0 0 [] (replicate 5 0) [] [0, 0, 0, 0] 1048576 (i\<lparr>device_tree_found := 0\<rparr>)
      (s\<lparr>kern := boot_kernel (boot_mem (\<lambda>a. 0)), fs := demo_vfs\<rparr>) =
      Some (True, Some ([119, 111, 114, 108, 100], stk), i1, s') \<and>
    pid_of (kern s') (current_process (kern s')) = 1"
proof (intro allI)
  fix s :: "(u32 \<Rightarrow> u32) system" and i :: boot_info
  let ?s = "s\<lparr>kern := boot_kernel (boot_mem (\<lambda>a. 0)), fs := demo_vfs\<rparr>" and ?i = "i\<lparr>device_tree_found := 0\<rparr>"
  obtain dt where hd: "hardware_detect [0, 0, 0, 0] ?i (dev ?s) = Some (0, ?i\<lparr>tree := dt\<rparr>, dev ?s)"
    by (simp add: hardware_detect_def devicetree_setup_def blob_word_def Let_def le_word_def big_to_little_def ENODEV_def)
  have gm: "hardware_get_memory (?i\<lparr>tree := dt\<rparr>) = Some (0, 268435456)" by (simp add: hardware_get_memory_def)
  have fit: "program_fits (Suc (unat (1048576 :: u32) div 4096)) 3
      (chunks_of (of_nat (length [119, 111, 114, 108, 100 :: u8]))) (unat (268435456 :: u32) div 4096)"
    by (simp add: program_fits_def chunks_of_def)
  have "len \<le> MAX_MEMORY" if "len = 268435456" for len using that by (simp add: MAX_MEMORY_def)
  from boot_starts_shell [OF hd gm this [OF refl] _ _ _ shell_disk_def shell_disk_volume shell_disk_path _ _ shell_disk_file _ _ fit,
      of "\<lambda>a. 0" "replicate 5 0" memory_bus 0 0 "[]" "[]"]
  show "\<exists>stk i1 s'. kernel_main memory_bus shell_image 0 0 [] (replicate 5 0) [] [0, 0, 0, 0] 1048576 ?i ?s =
      Some (True, Some ([119, 111, 114, 108, 100], stk), i1, s') \<and> pid_of (kern s') (current_process (kern s')) = 1"
    using shell_disk_resolves(3) by (auto simp: demo_vfs_def MAX_FD_def)
qed

end
