(* ===== verification/System.thy ===== *)
theory System
  imports Boot
begin

text \<open>
  The whole kernel in motion. A step of the machine is a system call of the running process, an interrupt, the
  continuation of a call that has given up the processor, or a program that changes its memory and registers. Every
  step, in any order, keeps the invariant of the process table and of the memory: the control blocks form a list, the
  process that runs is one of them and has not exited, no two processes have the same number, and no block of memory
  belongs to two owners.
\<close>

section \<open>Steps of the machine\<close>

text \<open>The value that a finished \<^verbatim>\<open>waitpid\<close> stores for its caller.\<close>

definition store_status :: "ptr \<Rightarrow> i32 option \<Rightarrow> kernel \<Rightarrow> kernel" where
  "store_status wstatus w k = (case w of None \<Rightarrow> k
     | Some x \<Rightarrow> set_ram (store_words wstatus [x] (ram (mem k))) k)"

text \<open>
  The idle task makes no system calls. A process number is never used again, so there are fewer than \<open>2 ^ 31\<close>
  processes in the life of the system. The continuations are those of \<^verbatim>\<open>waitpid\<close>, of \<^verbatim>\<open>read\<close> on the console and of
  \<^verbatim>\<open>nanosleep\<close>.
\<close>

inductive kstep :: "'h board \<Rightarrow> 'h system \<Rightarrow> 'h system \<Rightarrow> bool" for B where
  call: "current_process (kern s) \<noteq> proc_first (kern s) \<Longrightarrow> sint (avail_pid (kern s)) < 2147483647 \<Longrightarrow>
     swi_handler_c B compile_date machine r7 r0 r1 r2 r3 s = Some (r, s') \<Longrightarrow> kstep B s s'"
| irq: "interrupt_handler_c B (ser s) (dev s) (con s) (kern s) = Some (d, c, k) \<Longrightarrow>
     kstep B s (s\<lparr>dev := d, con := c, kern := k\<rparr>)"
| resume_waitpid: "waitpid_wait pid (wstatus \<noteq> NULL) proc (kern s) = Some (r, w, k) \<Longrightarrow>
     kstep B s (s\<lparr>kern := store_status wstatus w k\<rparr>)"
| resume_read: "console_read b cnt (con s) (kern s) = Some (r, b', c, k) \<Longrightarrow>
     kstep B s (s\<lparr>con := c, kern := set_ram (store_bytes p b' (ram (mem k))) k\<rparr>)"
| resume_nanosleep: "nanosleep_loop end_time (dev s) (kern s) = Some (fin, d, k) \<Longrightarrow>
     kstep B s (s\<lparr>dev := d, kern := k\<rparr>)"
| user: "kstep B s (s\<lparr>kern := (set_ram r (kern s))\<lparr>cpu_r := regs, cpu_spsr := st\<rparr>\<rparr>)"

inductive_cases kstep_cases: "kstep B s s'"

section \<open>The invariant\<close>

definition exited :: "kernel \<Rightarrow> ptr \<Rightarrow> bool" where
  "exited k p \<longleftrightarrow> status_of k p = PROCESS_STATUS_EXITED \<and> pcbs k p \<noteq> None"

text \<open>The part that also holds in the middle of a call, just before \<^verbatim>\<open>schedule\<close>.\<close>

definition kernel_ok :: "nat set \<Rightarrow> kernel \<Rightarrow> bool" where
  "kernel_ok base k \<longleftrightarrow> (\<exists>extra ps. ktab base extra k ps) \<and> current_process k \<in> dom (pcbs k) \<and>
     0 \<le> sint (avail_pid k) \<and> \<not> exited k (proc_first k)"

definition kernel_inv :: "nat set \<Rightarrow> kernel \<Rightarrow> bool" where
  "kernel_inv base k \<longleftrightarrow> kernel_ok base k \<and> \<not> exited k (current_process k)"

text \<open>
  Changes that do not touch the structure of the table; only the processes in \<open>E\<close> may become exited.
\<close>

definition frame :: "ptr set \<Rightarrow> kernel \<Rightarrow> kernel \<Rightarrow> bool" where
  "frame E k k' \<longleftrightarrow> proc_first k' = proc_first k \<and> mem k' = mem k \<and> avail_pid k' = avail_pid k \<and>
     current_process k' = current_process k \<and>
     (\<forall>p. map_option core (pcbs k' p) = map_option core (pcbs k p)) \<and>
     (\<forall>p. p \<notin> E \<longrightarrow> exited k' p \<longrightarrow> exited k p)"

lemma frame_refl [simp]: "frame E k k"
  by (simp add: frame_def)

lemma frame_trans: "frame E k k1 \<Longrightarrow> frame E k1 k2 \<Longrightarrow> frame E k k2"
  by (simp add: frame_def)

lemma frame_mono: "frame {} k k' \<Longrightarrow> frame E k k'"
  by (simp add: frame_def)

lemma frame_fields [simp]:
  "frame E k (k1\<lparr>tick_counter := t\<rparr>) = frame E k k1"
  "frame E k (k1\<lparr>wait_first := w\<rparr>) = frame E k k1"
  "frame E k (k1\<lparr>cpu_r := c\<rparr>) = frame E k k1"
  "frame E k (k1\<lparr>cpu_spsr := z\<rparr>) = frame E k k1"
  by (simp_all add: frame_def exited_def status_of_def)

lemma frame_upd:
  assumes "pcb_upd p f k = Some k'" and "\<And>b. pcbs k p = Some b \<Longrightarrow> core (f b) = core b"
    and "p \<in> E \<or> (\<forall>b. p_status (f b) = PROCESS_STATUS_EXITED \<longrightarrow> p_status b = PROCESS_STATUS_EXITED)"
  shows "frame E k k'"
  using assms by (auto simp: pcb_upd_def frame_def exited_def status_of_def option_bind_eq_Some split: if_splits)

lemma kernel_frame:
  assumes "frame E k k'" and "proc_first k \<notin> E"
  shows "kernel_ok base k \<Longrightarrow> kernel_ok base k'"
    and "kernel_inv base k \<Longrightarrow> current_process k \<notin> E \<Longrightarrow> kernel_inv base k'"
proof -
  note f = assms(1) [unfolded frame_def]
  have "map_option core (pcbs k' p) = map_option core (pcbs k p)" for p using f by blast
  then have "pcbs k' p = None \<longleftrightarrow> pcbs k p = None" for p by (rule core_of(4))
  then have dm: "dom (pcbs k') = dom (pcbs k)" by (simp add: dom_def)
  show ok: "kernel_ok base k'" if k: "kernel_ok base k"
  proof -
    obtain extra ps where kt: "ktab base extra k ps" using k by (auto simp: kernel_ok_def)
    have "ktab base extra k' ps" by (rule ktab_core(1) [OF kt]) (use f in simp_all)
    with k f dm assms(2) show ?thesis by (auto simp: kernel_ok_def)
  qed
  show "kernel_inv base k \<Longrightarrow> current_process k \<notin> E \<Longrightarrow> kernel_inv base k'"
    using f ok by (auto simp: kernel_inv_def)
qed

lemma kernel_inv_frame: "kernel_inv base k \<Longrightarrow> frame {} k k' \<Longrightarrow> kernel_inv base k'"
  using kernel_frame(2) [of "{}"] by simp

lemma kernel_inv_ok: "kernel_inv base k \<Longrightarrow> kernel_ok base k"
  by (simp add: kernel_inv_def)

text \<open>The table of a good state starts with the idle task.\<close>

lemma kernel_ok_table:
  assumes "kernel_ok base k"
  obtains extra qs where "ktab base extra k (proc_first k # qs)" "current_process k \<in> set (proc_first k # qs)"
    "proc_first k \<notin> set qs"
proof -
  obtain extra ps where kt: "ktab base extra k ps" and c: "current_process k \<in> dom (pcbs k)"
    using assms by (auto simp: kernel_ok_def)
  note kp = ktab_parts [OF kt]
  then have c': "current_process k \<in> set ps" using c by simp
  then obtain q qs where ps: "ps = q # qs" by (cases ps) auto
  then have "q = proc_first k" using kp(1) by (simp add: proc_list_def nth_ptr_def)
  with kt c' ps kp(3) show thesis by (intro that [of extra qs]) simp_all
qed

section \<open>Scheduling and sleeping\<close>

lemma accounts_exited: "same_but_accounts k k' \<Longrightarrow> exited k' p = exited k p"
proof -
  assume a: "same_but_accounts k k'"
  have "map_option p_status (pcbs k' p) = map_option p_status (pcbs k p)"
    by (rule same_but_accounts_field [OF a]) (rule unaccounted_fields)
  then show ?thesis by (cases "pcbs k p"; cases "pcbs k' p") (simp_all add: exited_def status_of_def)
qed

text \<open>\<^verbatim>\<open>schedule\<close> ends in a process that is ready, or in the idle task.\<close>

lemma schedule_inv:
  assumes "kernel_ok base k" and "schedule k = Some k'"
  shows "kernel_inv base k'"
proof -
  obtain extra qs where kt: "ktab base extra k (proc_first k # qs)"
    and c: "current_process k \<in> set (proc_first k # qs)" and d: "proc_first k \<notin> set qs"
    using kernel_ok_table [OF assms(1)] by blast
  note kp = ktab_parts [OF kt]
  have ne: "\<not> exited k (proc_first k)" using assms(1) by (simp add: kernel_ok_def)
  show ?thesis
  proof (cases "qs = []")
    case True
    then obtain b where "pcbs k (proc_first k) = Some b" "p_next b = NULL"
      using proc_list_nth(3) [OF kp(1), of 0] by (auto simp: linked_def nth_ptr_def)
    moreover have cf: "current_process k = proc_first k" using c True by simp
    ultimately have "k' = k" using assms(2) by (simp add: schedule_def)
    with assms(1) ne cf show ?thesis by (simp add: kernel_inv_def)
  next
    case False
    have "\<exists>s. ring_at k qs s"
    proof (cases "current_process k = proc_first k")
      case True
      with False kp(1) show ?thesis by (auto simp: ring_at_def intro!: exI [of _ 0])
    next
      case False
      then show ?thesis using c kp(1) by (auto simp: ring_at_def in_set_conv_nth)
    qed
    then obtain s where r: "ring_at k qs s" by blast
    obtain sa: "same_but_accounts k k'" and cu: "current_process k' = pick_next k (proc_first k) qs s"
      using schedule_spec [OF r] assms(2) by auto
    have "ktab base extra k' (proc_first k # qs)"
    proof (rule ktab_core(1) [OF kt])
      show "map_option core (pcbs k' p) = map_option core (pcbs k p)" for p
        by (rule same_but_accounts_field [OF sa]) (rule unaccounted_core)
    qed (use sa in \<open>auto simp: same_but_accounts_def\<close>)
    moreover from ktab_parts(2) [OF this] have "current_process k' \<in> dom (pcbs k')"
      using pick_next_in [of k "proc_first k" qs s] cu by auto
    moreover have "\<not> exited k' (current_process k')"
      unfolding accounts_exited [OF sa] cu
      using pick_next_in [of k "proc_first k" qs s] ne by (auto simp: exited_def is_ready_def status_defs)
    ultimately show ?thesis
      using assms(1) sa accounts_exited [OF sa]
      unfolding kernel_inv_def kernel_ok_def same_but_accounts_def by auto
  qed
qed
lemma core_simps [simp]:
  "core (b\<lparr>p_status := x\<rparr>) = core b" "core (b\<lparr>wait_queue_next := q\<rparr>) = core b"
  "core (b\<lparr>exit_value := v\<rparr>) = core b" "core (b\<lparr>current_dir := d\<rparr>) = core b"
  "core (b\<lparr>kernel_state := z\<rparr>) = core b"
  by (simp_all add: core_def)

lemma wait_append_frame: "wait_append p q k = Some k' \<Longrightarrow> frame {} k k'"
proof (induction p q k k' rule: wait_append.raw_induct [rotated, consumes 1, case_names step])
  case (step wa p q k k')
  then show ?case
    by (auto simp: option_bind_eq_Some split: if_splits intro: frame_upd)
qed

lemma wait_enqueue_frame: "wait_enqueue q p k = Some k' \<Longrightarrow> frame {} k k'"
proof -
  assume "wait_enqueue q p k = Some k'"
  then obtain k1 where 1: "(if wait_first k q = NULL then Some (k\<lparr>wait_first := (wait_first k)(q := p)\<rparr>)
      else wait_append p (wait_first k q) k) = Some k1"
    and 2: "pcb_upd p (\<lambda>b. b\<lparr>p_status := PROCESS_STATUS_SLEEPING\<rparr>) k1 = Some k'"
    by (auto simp: wait_enqueue_def option_bind_eq_Some)
  have "frame {} k k1" using 1 wait_append_frame by (auto split: if_splits)
  moreover have "frame {} k1 k'" using 2 by (rule frame_upd) (simp_all add: status_defs)
  ultimately show ?thesis by (rule frame_trans)
qed

lemma wake_from_frame: "wake_from p k = Some k' \<Longrightarrow> frame {} k k'"
proof (induction p k k' rule: wake_from.raw_induct [rotated, consumes 1, case_names step])
  case (step wf p k k')
  show ?case
  proof (cases "p = NULL")
    case False
    then obtain b where b: "pcbs k p = Some b" using step(2) by (auto simp: option_bind_eq_Some)
    with False obtain k1 where k1: "pcb_upd p (\<lambda>b. b\<lparr>p_status := PROCESS_STATUS_READY, wait_queue_next := NULL\<rparr>) k = Some k1"
      "wf (wait_queue_next b) k1 = Some k'" using step(2) by (auto simp: option_bind_eq_Some)
    have "frame {} k k1" using k1(1) by (rule frame_upd) (simp_all add: status_defs)
    then show ?thesis using step(1) [OF k1(2)] by (rule frame_trans)
  qed (use step(2) in simp)
qed

lemma wait_queue_wake_frame: "wait_queue_wake q k = Some k' \<Longrightarrow> frame {} k k'"
  using wake_from_frame by (auto simp: wait_queue_wake_def option_bind_eq_Some)

lemma wait_queue_add_inv:
  "kernel_ok base k \<Longrightarrow> wait_queue_add q p k = Some k' \<Longrightarrow> kernel_inv base k'"
  using kernel_frame(1) [OF wait_enqueue_frame] schedule_inv
  by (fastforce simp: wait_queue_add_def option_bind_eq_Some)

lemma waitpid_loop_inv:
  "waitpid_loop p k = Some r \<Longrightarrow> kernel_inv base k \<Longrightarrow>
   kernel_inv base (snd r) \<and> (fst r \<longrightarrow> exited (snd r) p)"
proof (induction p k r rule: waitpid_loop.raw_induct [rotated, consumes 1, case_names step])
  case (step wl p k r)
  obtain b where b: "pcbs k p = Some b" using step(2) by (auto simp: option_bind_eq_Some)
  show ?case
  proof (cases "p_status b = PROCESS_STATUS_EXITED")
    case True
    with step(2,3) b show ?thesis by (auto simp: exited_def status_of_def)
  next
    case False
    with step(2) b obtain k1 where k1: "wait_queue_add Waitpid_queue (current_process k) k = Some k1"
      "(if current_process k1 = current_process k then wl p k1 else Some (False, k1)) = Some r"
      by (auto simp: option_bind_eq_Some)
    note i = wait_queue_add_inv [OF kernel_inv_ok [OF step(3)] k1(1)]
    with step(1) k1(2) show ?thesis by (auto split: if_splits)
  qed
qed

lemma console_wait_inv:
  "console_wait c k = Some r \<Longrightarrow> kernel_inv base k \<Longrightarrow> kernel_inv base (snd r)"
proof (induction c k r rule: console_wait.raw_induct [rotated, consumes 1, case_names step])
  case (step cw c k r)
  show ?case
  proof (cases "input_buffer_head c = input_buffer_tail c")
    case True
    with step(2) obtain k1 where k1: "wait_queue_add Console_queue (current_process k) k = Some k1"
      "(if current_process k1 = current_process k then cw c k1 else Some (False, k1)) = Some r"
      by (auto simp: option_bind_eq_Some)
    note i = wait_queue_add_inv [OF kernel_inv_ok [OF step(3)] k1(1)]
    with step(1) k1(2) show ?thesis by (auto split: if_splits)
  qed (use step(2,3) in auto)
qed

lemma console_read_inv:
  "kernel_inv base k \<Longrightarrow> console_read b cnt c k = Some (r, b', c', k') \<Longrightarrow> kernel_inv base k'"
  using console_wait_inv by (fastforce simp: console_read_def option_bind_eq_Some split: if_splits)

lemma nanosleep_loop_inv:
  "nanosleep_loop t d k = Some r \<Longrightarrow> kernel_inv base k \<Longrightarrow> kernel_inv base (snd (snd r))"
proof (induction t d k r rule: nanosleep_loop.raw_induct [rotated, consumes 1, case_names step])
  case (step nl t d k r)
  show ?case
  proof (cases "ticks_since_boot k \<le> t")
    case True
    with step(2) obtain d1 k1 where k1: "wait_queue_add Timer_queue (current_process k) k = Some k1"
      "(if current_process k1 = current_process k then nl t d1 k1 else Some (False, d1, k1)) = Some r"
      by (auto simp: timer_sleep_until_def Let_def option_bind_eq_Some)
    note i = wait_queue_add_inv [OF kernel_inv_ok [OF step(3)] k1(1)]
    with step(1) k1(2) show ?thesis by (auto split: if_splits)
  qed (use step(2,3) in auto)
qed

section \<open>Interrupts\<close>

lemma console_insert_frame:
  "console_insert_char ch c k = Some (r, c', k') \<Longrightarrow> frame {} k k'"
  using wait_queue_wake_frame by (auto simp: console_insert_char_def Let_def option_bind_eq_Some split: if_splits)

lemma uart_receive_frame: "uart_receive getc d c k = Some r \<Longrightarrow> frame {} k (snd (snd r))"
proof (induction getc d c k r rule: uart_receive.raw_induct [rotated, consumes 1, case_names step])
  case (step ur getc d c k r)
  obtain ascii d1 where g: "getc d = (ascii, d1)" by (cases "getc d")
  show ?case
  proof (cases "ascii = -1")
    case False
    with step(2) g obtain x c1 k1 where k1: "console_insert_char ascii c k = Some (x, c1, k1)"
      "ur getc d1 c1 k1 = Some r" by (auto simp: option_bind_eq_Some)
    from console_insert_frame [OF k1(1)] step(1) [OF k1(2)] show ?thesis by (rule frame_trans)
  qed (use step(2) g in auto)
qed

lemma serial_receives:
  assumes "serial_interrupt_handler B serial d c k = Some (r, d', c', k')"
  obtains getc d1 where "uart_receive getc d c k = Some (d1, c', k')"
  using assms
  by (auto simp: serial_interrupt_handler_def pl011_uart_interrupt_handler_def mini_uart_interrupt_handler_def
      option_bind_eq_Some split: option.splits uart_driver.splits)

lemma serial_interrupt_frame:
  "serial_interrupt_handler B serial d c k = Some (r, d', c', k') \<Longrightarrow> frame {} k k'"
  by (erule serial_receives) (drule uart_receive_frame, simp)

lemma timer_interrupt_frame:
  assumes "timer_interrupt_handler B d k = Some (d', k')"
  shows "frame {} k k'"
proof -
  let ?k = "k\<lparr>tick_counter := tick_counter k + 1\<rparr>"
  consider "wait_queue_wake Timer_queue ?k = Some k'" | "k' = ?k"
    using assms unfolding timer_interrupt_handler_def Let_def
    by (cases "timer_next_wakeup d \<noteq> 0 \<and> timer_next_wakeup d < tick_counter k + 1") (auto simp: option_bind_eq_Some)
  then have "frame {} ?k k'" by cases (auto dest: wait_queue_wake_frame)
  moreover have "frame {} k ?k" by simp
  ultimately show ?thesis by (rule frame_trans [rotated])
qed

lemma interrupt_parts:
  assumes "(let (uart, tim, d0) = (u, t, d) in
      do { (d1, c1, k1) \<leftarrow> (if uart then serve d0 else Some (d0, c, k));
           (d2, k2) \<leftarrow> (if tim then tick d1 k1 else Some (d1, k1));
           if \<not> uart \<and> \<not> tim then Some (d2, c1, k2)
           else do { let d3 = ack d2; k3 \<leftarrow> (if enabled c1 then schedule k2 else Some k2); Some (d3, c1, k3) } }) =
      Some (d', c', k')"
  obtains d1 c1 k1 d2 k2 where "(if u then serve d else Some (d, c, k)) = Some (d1, c1, k1)"
    "(if t then tick d1 k1 else Some (d1, k1)) = Some (d2, k2)" "k' = k2 \<or> schedule k2 = Some k'" "c' = c1"
  using assms by (cases u; cases t; force simp: option_bind_eq_Some split: if_splits)

lemma interrupt_inv:
  assumes "kernel_inv base k" and "interrupt_handler_c B serial d c k = Some (d', c', k')"
  shows "kernel_inv base k'"
proof -
  obtain uart tim d0 where p: "pending_interrupts B d = (uart, tim, d0)" by (cases "pending_interrupts B d") auto
  obtain d1 c1 k1 d2 k2 where
    1: "(if uart then do { (r, d', c', k') \<leftarrow> serial_interrupt_handler B serial d0 c k; Some (d', c', k') }
         else Some (d0, c, k)) = Some (d1, c1, k1)"
    and 2: "(if tim then timer_interrupt_handler B d1 k1 else Some (d1, k1)) = Some (d2, k2)"
    and 3: "k' = k2 \<or> schedule k2 = Some k'"
    using assms(2) unfolding interrupt_handler_c_def p by (elim interrupt_parts)
  have "frame {} k k1"
  proof (cases uart)
    case True
    with 1 obtain r where "serial_interrupt_handler B serial d0 c k = Some (r, d1, c1, k1)"
      by (auto simp: option_bind_eq_Some)
    then show ?thesis by (rule serial_interrupt_frame)
  qed (use 1 in simp)
  moreover have "frame {} k1 k2" using 2 timer_interrupt_frame by (auto split: if_splits)
  ultimately have "kernel_inv base k2" using kernel_inv_frame [OF assms(1)] frame_trans by blast
  with 3 schedule_inv kernel_inv_ok show ?thesis by blast
qed

section \<open>Memory\<close>

lemma exited_simps [simp]:
  "exited (k\<lparr>mem := m\<rparr>) = exited k" "exited (k\<lparr>cpu_r := c\<rparr>) = exited k" "exited (k\<lparr>cpu_spsr := z\<rparr>) = exited k"
  by (simp_all add: exited_def status_of_def fun_eq_iff)

lemma ktab_mem:
  assumes "ktab base extra k ps" and "mm.accounts base (holdings k ps @ extra') m"
  shows "ktab base extra' (k\<lparr>mem := m\<rparr>) ps"
proof -
  have "holdings (k\<lparr>mem := m\<rparr>) ps = holdings k ps" by (rule holdings_cong) (simp add: resources_def)
  moreover have "proc_list (k\<lparr>mem := m\<rparr>) ps = proc_list k ps" by (rule proc_list_cong) simp_all
  moreover have "pid_of (k\<lparr>mem := m\<rparr>) = pid_of k" by (simp add: pid_of_def fun_eq_iff)
  ultimately show ?thesis using assms by (simp add: ktab_def)
qed

lemma accounts_ram: "mm.accounts base live (m\<lparr>ram := r\<rparr>) = mm.accounts base live m"
  by (simp add: mm.accounts_def mem_inv_def)

lemma ktab_set_ram: "ktab base extra k ps \<Longrightarrow> ktab base extra (set_ram r k) ps"
  unfolding set_ram_def using ktab_parts(4) by (intro ktab_mem) (auto simp: accounts_ram)

lemma set_ram_fields [simp]:
  "pcbs (set_ram r k) = pcbs k" "proc_first (set_ram r k) = proc_first k" "avail_pid (set_ram r k) = avail_pid k"
  "current_process (set_ram r k) = current_process k" "exited (set_ram r k) = exited k"
  by (simp_all add: set_ram_def)

lemma kernel_ok_set_ram: "kernel_ok base k \<Longrightarrow> kernel_ok base (set_ram r k)"
  using ktab_set_ram by (fastforce simp: kernel_ok_def)

lemma kernel_inv_set_ram: "kernel_inv base k \<Longrightarrow> kernel_inv base (set_ram r k)"
  using kernel_ok_set_ram by (simp add: kernel_inv_def)

lemma store_status_inv: "kernel_inv base k \<Longrightarrow> kernel_inv base (store_status p w k)"
  by (simp add: store_status_def kernel_inv_set_ram split: option.splits)

text \<open>A block that a program asks for belongs to nobody in the table.\<close>

lemma ktab_alloc:
  assumes "ktab base extra k ps" and "memory_allocate n (mem k) = Some (p, m)"
  shows "\<exists>extra'. ktab base extra' (k\<lparr>mem := m\<rparr>) ps"
proof (cases "p = NULL")
  case True
  then have "m = mem k" using allocate_null(1) [of n "mem k" m] assms(2) ktab_parts(5) [OF assms(1)] by simp
  then have "ktab base extra (k\<lparr>mem := m\<rparr>) ps" using ktab_parts(4) [OF assms(1)] by (intro ktab_mem [OF assms(1)]) simp
  then show ?thesis by blast
next
  case False
  have "mm.accounts base ((p, n) # holdings k ps @ extra) m"
    using mm.accounts_alloc [OF ktab_parts(4) [OF assms(1)] assms(2) False] .
  then have "mm.accounts base (holdings k ps @ (p, n) # extra) m"
    using mm.accounts_cong [of "(p, n) # holdings k ps @ extra" "holdings k ps @ (p, n) # extra"] by simp
  from ktab_mem [OF assms(1) this] show ?thesis by blast
qed

lemma kernel_ok_alloc:
  "kernel_ok base k \<Longrightarrow> memory_allocate n (mem k) = Some (p, m) \<Longrightarrow> kernel_ok base (k\<lparr>mem := m\<rparr>)"
  using ktab_alloc by (fastforce simp: kernel_ok_def)

lemma kernel_inv_alloc:
  "kernel_inv base k \<Longrightarrow> memory_allocate n (mem k) = Some (p, m) \<Longrightarrow> kernel_inv base (k\<lparr>mem := m\<rparr>)"
  using kernel_ok_alloc by (simp add: kernel_inv_def)

section \<open>Exit and waitpid\<close>

lemma exit_inv:
  assumes "kernel_inv base k" and "current_process k \<noteq> proc_first k" and "exit v k = Some k'"
  shows "kernel_inv base k'"
proof -
  obtain k1 k2 where 1: "pcb_upd (current_process k)
        (\<lambda>b. b\<lparr>p_status := PROCESS_STATUS_EXITED, exit_value := v\<rparr>) k = Some k1"
    and 2: "wait_queue_wake Waitpid_queue k1 = Some k2" and 3: "schedule k2 = Some k'"
    using assms(3) by (auto simp: exit_def waitpid_done_def option_bind_eq_Some)
  have "frame {current_process k} k k1" using 1 by (rule frame_upd) simp_all
  moreover have "frame {current_process k} k1 k2" using wait_queue_wake_frame [OF 2] by (rule frame_mono)
  ultimately have "frame {current_process k} k k2" by (rule frame_trans)
  from kernel_frame(1) [OF this] assms(1,2) have "kernel_ok base k2" by (simp add: kernel_inv_ok)
  from schedule_inv [OF this 3] show ?thesis .
qed

text \<open>Releasing memory keeps the tables of the allocator, and it does not return for a size of 0.\<close>

lemma mark_free_loop_wf: "mark_free_loop i n m = Some m' \<Longrightarrow> wf_mem m \<Longrightarrow> wf_mem m'"
proof (induction n arbitrary: i m)
  case (Suc n)
  then obtain m1 where m1: "memory_mark_free i m = Some m1" "mark_free_loop (Suc i) n m1 = Some m'"
    by (auto simp: option_bind_eq_Some)
  have "wf_mem m1" using m1(1) Suc.prems(2)
    by (auto simp: memory_mark_free_def Let_def option_bind_eq_Some arr_set_eq_Some)
  with Suc.IH [OF m1(2)] show ?case .
qed simp

lemma kfree_size:
  assumes "kfree p n k = Some k'" and "wf_mem (mem k)"
  shows "n \<noteq> 0" and "wf_mem (mem k')" and "pcbs k' = pcbs k"
proof -
  show "n \<noteq> 0" using assms memory_free_size_zero [OF assms(2)] by (auto simp: kfree_def)
  show "wf_mem (mem k')" using assms mark_free_loop_wf
    by (fastforce simp: kfree_def memory_free_def Let_def option_bind_eq_Some split: if_splits)
  show "pcbs k' = pcbs k" using assms by (auto simp: kfree_def option_bind_eq_Some)
qed

lemma destroy_sizes:
  assumes "ktab base extra k ps" and "p \<in> set ps" and "process_destroy p k = Some k'"
  shows "\<forall>(q, n)\<in>set (resources k p). n \<noteq> 0"
proof -
  note kp = ktab_parts [OF assms(1)]
  obtain b where b: "pcbs k p = Some b" using assms(2) kp(2) by blast
  let ?k1 = "k\<lparr>pcbs := (pcbs k)(p \<mapsto> b\<lparr>p_valid := 0\<rparr>)\<rparr>"
  have "proc_list ?k1 ps" using kp(1) b by (subst proc_list_cong [of _ k]) auto
  from process_remove_spec [OF this assms(2)] obtain k2 where
    k2: "process_remove p ?k1 = Some (0, k2)" "same_but_links ?k1 k2" "pcbs k2 p = Some (b\<lparr>p_valid := 0\<rparr>)" by auto
  have w2: "wf_mem (mem k2)" using same_but_links_of(5) [OF k2(2)] kp(5) by (simp add: mem_inv_def)
  obtain k3 k4 where k3: "(if p_stack b \<noteq> NULL then kfree (p_stack b) (stacksize b) k2 else Some k2) = Some k3"
    and k4: "(if p_text b \<noteq> NULL then kfree (p_text b) (textsize b) k3 else Some k3) = Some k4"
    using assms(3) b k2 by (auto simp: process_destroy_def pcb_upd_def option_bind_eq_Some cong: if_cong)
  have "wf_mem (mem k3)" and s: "p_stack b \<noteq> NULL \<Longrightarrow> stacksize b \<noteq> 0"
    using k3 w2 kfree_size [of "p_stack b" "stacksize b" k2 k3] by (auto split: if_splits)
  then have t: "p_text b \<noteq> NULL \<Longrightarrow> textsize b \<noteq> 0"
    using k4 kfree_size [of "p_text b" "textsize b" k3 k4] by (auto split: if_splits)
  from s t b show ?thesis by (auto simp: resources_def PCB_SIZE_chunks)
qed

lemma unlinked_exited:
  assumes "map_option unlinked (pcbs k' q) = map_option unlinked (pcbs k q)"
  shows "exited k' q = exited k q"
proof -
  have "pcbs k' q = None \<longleftrightarrow> pcbs k q = None" using assms by (metis option.map_disc_iff)
  with unlinked_same_of(2) [OF assms] show ?thesis by (simp add: exited_def)
qed

lemma reap_inv:
  assumes "kernel_inv base k" and "exited k p" and "reap w p k = Some (x, k')"
  shows "kernel_inv base k'"
proof -
  obtain extra qs where kt: "ktab base extra k (proc_first k # qs)"
    and c: "current_process k \<in> set (proc_first k # qs)" and d: "proc_first k \<notin> set qs"
    using kernel_ok_table [OF kernel_inv_ok [OF assms(1)]] by blast
  have ne: "\<not> exited k (proc_first k)" "\<not> exited k (current_process k)" and av: "0 \<le> sint (avail_pid k)"
    using assms(1) by (auto simp: kernel_inv_def kernel_ok_def)
  have pq: "p \<noteq> proc_first k" "p \<noteq> current_process k" using ne assms(2) by auto
  have "p \<in> dom (pcbs k)" using assms(2) by (auto simp: exited_def)
  with ktab_parts(2) [OF kt] pq(1) have p: "p \<in> set qs" by auto
  have ds: "process_destroy p k = Some k'" using assms(3) by (auto simp: reap_def option_bind_eq_Some)
  have nz: "\<forall>(q, n)\<in>set (resources k p). n \<noteq> 0" by (rule destroy_sizes [OF kt _ ds]) (use p in simp)
  obtain kt': "ktab base extra k' (remove1 p (proc_first k # qs))"
    and cu: "current_process k' = current_process k"
    and un: "\<And>q. q \<noteq> p \<Longrightarrow> map_option unlinked (pcbs k' q) = map_option unlinked (pcbs k q)"
    using ktab_destroy [OF kt _ nz] p ds by auto
  have r: "remove1 p (proc_first k # qs) = proc_first k # remove1 p qs" using pq(1) by simp
  have pf: "proc_first k' = proc_first k"
    using ktab_parts(1) [OF kt'] unfolding r by (simp add: proc_list_def nth_ptr_def)
  have "current_process k' \<in> dom (pcbs k')"
    unfolding ktab_parts(2) [OF kt'] cu r using c pq ktab_parts(3) [OF kt] by auto
  moreover have "0 \<le> sint (avail_pid k')"
    using kt' unfolding r ktab_def by force
  moreover have "\<not> exited k' (proc_first k')" "\<not> exited k' (current_process k')"
    unfolding pf cu using ne pq un unlinked_exited by metis+
  ultimately show ?thesis using kt' by (auto simp: kernel_inv_def kernel_ok_def)
qed

lemma waitpid_wait_inv:
  assumes "kernel_inv base k" and "waitpid_wait pid w p k = Some (r, x, k')"
  shows "kernel_inv base k'"
proof -
  obtain e k1 where k1: "waitpid_loop p k = Some (e, k1)"
    "(if e then do { (w, k2) \<leftarrow> reap w p k1; Some (Returned pid, w, k2) } else Some (Blocked, None, k1)) = Some (r, x, k')"
    using assms(2) by (auto simp: waitpid_wait_def option_bind_eq_Some)
  have i: "kernel_inv base k1" "e \<Longrightarrow> exited k1 p" using waitpid_loop_inv [OF k1(1) assms(1)] by auto
  show ?thesis
  proof (cases e)
    case True
    with k1(2) obtain y where "reap w p k1 = Some (y, k')" by (auto simp: option_bind_eq_Some)
    with i True show ?thesis by (blast intro: reap_inv)
  qed (use k1(2) i in auto)
qed

lemma waitpid_inv:
  assumes "kernel_inv base k" and "waitpid pid w options caller k = Some (r, x, k')"
  shows "kernel_inv base k'"
proof -
  have f: "kernel_inv base k'" if "waitpid_found pid w options p k = Some (r, x, k')" for p
  proof (cases "options = WNOHANG")
    case True
    with that obtain b where b: "pcbs k p = Some b" by (auto simp: waitpid_found_def option_bind_eq_Some)
    show ?thesis
    proof (cases "p_status b = PROCESS_STATUS_EXITED")
      case st: True
      with that True b obtain y where "reap w p k = Some (y, k')"
        by (auto simp: waitpid_found_def option_bind_eq_Some)
      moreover have "exited k p" using b st by (simp add: exited_def status_of_def)
      ultimately show ?thesis using assms(1) by (blast intro: reap_inv)
    qed (use that True b assms(1) in \<open>simp add: waitpid_found_def\<close>)
  next
    case False
    with that assms(1) show ?thesis by (auto simp: waitpid_found_def intro: waitpid_wait_inv)
  qed
  have "k' = k \<or> (\<exists>p. waitpid_found pid w options p k = Some (r, x, k'))"
    using assms(2) by (auto simp: waitpid_def option_bind_eq_Some split: if_splits)
  with f assms(1) show ?thesis by blast
qed

section \<open>Vfork and execve\<close>

text \<open>A new process: the table is longer by one entry, and all others are as before.\<close>

lemma create_ok:
  assumes "kernel_inv base k" and "sint (avail_pid k) < 2147483647" and "process_create k = Some (c, k1)"
    and "c \<noteq> NULL"
  shows "kernel_ok base k1" and "current_process k1 = current_process k" and "c \<noteq> proc_first k1"
    and "\<exists>b. pcbs k1 c = Some b \<and> p_stack b = NULL \<and> p_text b = NULL"
proof -
  obtain extra qs where kt: "ktab base extra k (proc_first k # qs)"
    and c: "current_process k \<in> set (proc_first k # qs)"
    using kernel_ok_table [OF kernel_inv_ok [OF assms(1)]] by blast
  let ?ps = "proc_first k # qs"
  have ne: "\<not> exited k (proc_first k)" and av: "0 \<le> sint (avail_pid k)"
    using assms(1) by (auto simp: kernel_inv_def kernel_ok_def)
  obtain m where m: "memory_allocate PCB_SIZE (mem k) = Some (c, m)"
    using assms(3) by (auto simp: process_create_def Let_def option_bind_eq_Some split: if_splits)
  obtain n: "c \<notin> set ?ps" and kt1: "ktab base extra k1 (?ps @ [c])" and av1: "avail_pid k1 = avail_pid k + 1"
    and rs: "resources k1 c = [(c, PCB_SIZE)]"
    and k1: "k1 = k\<lparr>mem := mem k1, pcbs := pcbs k1, avail_pid := avail_pid k1, proc_first := proc_first k1\<rparr>"
    and un: "\<forall>q\<in>set ?ps. map_option unlinked (pcbs k1 q) = map_option unlinked (pcbs k q)"
    using ktab_create [OF kt av assms(2) m assms(4)] assms(3) by auto
  show cu: "current_process k1 = current_process k" by (subst k1) simp
  have pf: "proc_first k1 = proc_first k" using ktab_parts(1) [OF kt1] by (simp add: proc_list_def nth_ptr_def)
  then show "c \<noteq> proc_first k1" using n by auto
  have "current_process k1 \<in> dom (pcbs k1)" unfolding ktab_parts(2) [OF kt1] cu using c by auto
  moreover have "exited k1 (proc_first k) = exited k (proc_first k)" by (rule unlinked_exited) (use un in simp)
  then have "\<not> exited k1 (proc_first k1)" using ne pf by simp
  moreover have "0 \<le> sint (avail_pid k1)" using av1 sint_inc [OF assms(2)] av by simp
  ultimately show "kernel_ok base k1" using kt1 unfolding kernel_ok_def by blast
  obtain b where b: "pcbs k1 c = Some b" using ktab_parts(2) [OF kt1] by auto
  with rs have "p_stack b = NULL \<and> p_text b = NULL" by (simp add: resources_def split: if_splits)
  with b show "\<exists>b. pcbs k1 c = Some b \<and> p_stack b = NULL \<and> p_text b = NULL" by blast
qed

lemma process_save_frame:
  assumes "process_save p stk k = Some k'"
  shows "frame {} k k'"
proof -
  obtain st k1 c where k1: "pcb_upd p (\<lambda>b. b\<lparr>kernel_state := st\<rparr>) k = Some k1" "k' = k1\<lparr>cpu_r := c\<rparr>"
    using assms by (auto simp: process_save_def Let_def option_bind_eq_Some)
  from k1(1) have "frame {} k k1" by (rule frame_upd) simp_all
  with k1(2) show ?thesis by simp
qed

lemma vfork_inv:
  assumes "kernel_inv base k" and "sint (avail_pid k) < 2147483647" and "vfork k = Some (r, k')"
  shows "kernel_inv base k'"
proof -
  let ?p = "current_process k"
  obtain c k1 where k1: "process_create k = Some (c, k1)" using assms(3) by (auto simp: vfork_def Let_def option_bind_eq_Some)
  show ?thesis
  proof (cases "c = NULL")
    case True
    with k1 obtain m where m: "memory_allocate PCB_SIZE (mem k) = Some (NULL, m)" "k1 = k\<lparr>mem := m\<rparr>"
      by (auto simp: process_create_def Let_def option_bind_eq_Some split: if_splits)
    moreover have "k' = k1" using assms(3) k1 True by (auto simp: vfork_def Let_def)
    ultimately show ?thesis using kernel_inv_alloc [OF assms(1) m(1)] by simp
  next
    case False
    note co = create_ok [OF assms(1,2) k1 False]
    obtain cb where cb: "pcbs k1 c = Some cb" "p_stack cb = NULL" "p_text cb = NULL" using co(4) by blast
    from assms(3) k1 False cb(1) obtain pb k2 k3 k4 k5 s where
      k2: "pcb_upd c (\<lambda>b. pb\<lparr>p_pid := p_pid cb, p_prev := p_prev cb, p_next := p_next cb,
          p_parent := ?p, p_stack := NULL, p_text := NULL\<rparr>) k1 = Some k2"
      and k3: "pcb_upd ?p (\<lambda>b. b\<lparr>p_status := PROCESS_STATUS_SLEEPING\<rparr>) k2 = Some k3"
      and k4: "pcb_upd c (\<lambda>b. b\<lparr>p_status := PROCESS_STATUS_READY\<rparr>) k3 = Some k4"
      and k5: "process_save c s k4 = Some k5" and tl: "vfork_tail ?p (p_pid cb) k5 = Some (r, k')"
      by (auto simp: vfork_def Let_def option_bind_eq_Some)
    have "frame {c} k1 k2" using k2 cb by (intro frame_upd [OF k2]) (auto simp: core_def)
    moreover have "frame {c} k2 k3" using k3 by (rule frame_upd) (simp_all add: status_defs)
    moreover have "frame {c} k3 k4" using k4 by (rule frame_upd) simp_all
    moreover have "frame {c} k4 k5" by (rule frame_mono) (rule process_save_frame [OF k5])
    ultimately have f: "frame {c} k1 k5" using frame_trans by blast
    then have "kernel_ok base k5" using kernel_frame(1) [OF f] co(1,3) by simp
    moreover have "current_process k5 = ?p" using f co(2) by (simp add: frame_def)
    then have "schedule k5 = Some k'" using tl by (auto simp: vfork_tail_def option_bind_eq_Some)
    ultimately show ?thesis by (rule schedule_inv)
  qed
qed

lemma execve_cases:
  assumes "execve low ot os path argv v k = Some (r, img, k')"
  obtains (same) "k' = k"
  | (full) n t m1 sn s m2 where "memory_allocate n (mem k) = Some (t, m1)" "memory_allocate sn m1 = Some (s, m2)"
      "k' = k\<lparr>mem := m2\<rparr>"
  | (loaded) n t m1 sn s m2 b b' where "memory_allocate n (mem k) = Some (t, m1)" "memory_allocate sn m1 = Some (s, m2)"
      "t \<noteq> NULL" "s \<noteq> NULL" "pcbs k (current_process k) = Some b"
      "p_next b' = p_next b" "p_prev b' = p_prev b" "p_pid b' = p_pid b" "p_stack b' = s" "stacksize b' = sn"
      "p_text b' = t" "textsize b' = n" "k' = k\<lparr>mem := m2, pcbs := (pcbs k)(current_process k \<mapsto> b')\<rparr>"
proof -
  from assms obtain inode where i: "get_inode v k path = Some inode"
    by (auto simp: execve_def option_bind_eq_Some)
  show thesis
  proof (cases "sint inode < 0")
    case True
    with i assms show thesis by (intro same) (simp add: execve_def)
  next
    case False
    with i assms obtain x st where st: "romfs_stat (disk v) inode = Some (x, st)"
      by (auto simp: execve_def option_bind_eq_Some)
    show thesis
    proof (cases "sint x < 0")
      case True
      with i st False assms show thesis by (intro same) (simp add: execve_def)
    next
      case x: False
      with i st False assms obtain t m1 s m2 where
        a: "memory_allocate (st_size st) (mem k) = Some (t, m1)"
          "memory_allocate DEFAULT_USER_STACK_SIZE m1 = Some (s, m2)"
        by (auto simp: execve_def Let_def option_bind_eq_Some)
      show thesis
      proof (cases "t = NULL \<or> s = NULL")
        case True
        with i st False x a assms show thesis by (intro full [OF a]) (simp add: execve_def Let_def)
      next
        case ts: False
        define new where "new nm u b = b\<lparr>p_name := nm, user_state := u b, p_stack := s,
          stacksize := DEFAULT_USER_STACK_SIZE, p_text := t, textsize := st_size st\<rparr>" for nm u and b :: pcb
        obtain b nm u where "pcbs k (current_process k) = Some b"
          "k' = k\<lparr>mem := m2, pcbs := (pcbs k)(current_process k \<mapsto> new nm u b)\<rparr>"
          using ts i st False x a assms
          by (auto simp: execve_def Let_def option_bind_eq_Some pcb_upd_def new_def)
        with ts show thesis by (intro loaded [OF a, of b "new nm u b"]) (simp_all add: new_def)
      qed
    qed
  qed
qed

lemma execve_inv:
  assumes "kernel_inv base k" and "current_process k \<noteq> proc_first k"
    and "execve low ot os path argv v k = Some (r, img, k')"
  shows "kernel_ok base k'"
  using assms(3)
proof (cases rule: execve_cases)
  case same
  with assms(1) show ?thesis by (simp add: kernel_inv_ok)
next
  case (full n t m1 sn s m2)
  from kernel_ok_alloc [OF kernel_inv_ok [OF assms(1)] full(1)] have "kernel_ok base (k\<lparr>mem := m1\<rparr>)" .
  from kernel_ok_alloc [OF this, of sn s m2] full(2,3) show ?thesis by simp
next
  case (loaded n t m1 sn s m2 b b')
  obtain extra qs where kt: "ktab base extra k (proc_first k # qs)"
    and c: "current_process k \<in> set (proc_first k # qs)"
    using kernel_ok_table [OF kernel_inv_ok [OF assms(1)]] by blast
  have p: "current_process k \<in> set (tl (proc_first k # qs))" using c assms(2) by auto
  have "ktab base (tl (resources k (current_process k)) @ extra) k' (proc_first k # qs)"
    unfolding loaded(13) by (rule ktab_new_blocks(1) [OF kt p]) (use loaded in simp_all)
  moreover have "exited k' (proc_first k) = exited k (proc_first k)"
    using assms(2) loaded(13) by (simp add: exited_def status_of_def)
  ultimately show ?thesis
    using assms(1) loaded(13) unfolding kernel_inv_def kernel_ok_def by auto
qed

section \<open>System calls\<close>

lemma sys_read_inv:
  assumes "kernel_inv base (kern s)" and "sys_read fd p cnt s = Some (r, s')"
  shows "kernel_inv base (kern s')"
proof -
  obtain b v c k where k: "read fd (load_bytes (user_ram s) p (unat cnt)) cnt (fs s) (con s) (kern s) = Some (r, b, v, c, k)"
    "s' = s\<lparr>fs := v, con := c, kern := set_ram (store_bytes p b (ram (mem k))) k\<rparr>"
    using assms(2) by (auto simp: sys_read_def option_bind_eq_Some)
  have "k = kern s \<or> (\<exists>x y z. console_read x cnt (con s) (kern s) = Some (r, y, z, k))"
    using k(1) by (auto simp: read_def option_bind_eq_Some split: if_splits)
  then have "kernel_inv base k" using assms(1) console_read_inv by blast
  with k(2) show ?thesis by (simp add: kernel_inv_set_ram)
qed

lemma sys_waitpid_inv:
  "kernel_inv base (kern s) \<Longrightarrow> sys_waitpid pid wstatus options s = Some (r, s') \<Longrightarrow> kernel_inv base (kern s')"
  by (auto simp: sys_waitpid_def option_bind_eq_Some kernel_inv_set_ram dest!: waitpid_inv [rotated] split: option.splits)

text \<open>After \<^verbatim>\<open>execve\<close> the parent is made ready, and the processor is given up.\<close>

lemma wake_parent_inv:
  assumes "kernel_ok base k1" and "pcb_upd q (\<lambda>b. b\<lparr>p_status := PROCESS_STATUS_READY\<rparr>) k1 = Some k2"
    and "schedule k2 = Some k3"
  shows "kernel_inv base k3"
proof -
  have "frame {} k1 k2" using assms(2) by (rule frame_upd) (simp_all add: status_defs)
  from kernel_frame(1) [OF this _ assms(1)] have "kernel_ok base k2" by simp
  from schedule_inv [OF this assms(3)] show ?thesis .
qed

lemma sys_execve_inv:
  assumes "kernel_inv base (kern s)" and "current_process (kern s) \<noteq> proc_first (kern s)"
    and "sys_execve p a e s = Some (r, s')"
  shows "kernel_inv base (kern s')"
proof -
  obtain low ot os path args x img k t u q k2 k3 where
    k: "execve low ot os path args (fs s) (kern s) = Some (x, img, k)"
    and k2: "pcb_upd q (\<lambda>b. b\<lparr>p_status := PROCESS_STATUS_READY\<rparr>) (case img of None \<Rightarrow> k
        | Some (txt, stk) \<Rightarrow> set_ram (store_bytes u stk (store_bytes t txt (ram (mem k)))) k) = Some k2"
    and k3: "schedule k2 = Some k3" "s' = s\<lparr>kern := k3\<rparr>"
    using assms(3) by (auto simp: sys_execve_def Let_def option_bind_eq_Some)
  have "kernel_ok base (case img of None \<Rightarrow> k
        | Some (txt, stk) \<Rightarrow> set_ram (store_bytes u stk (store_bytes t txt (ram (mem k)))) k)"
    using execve_inv [OF assms(1,2) k] kernel_ok_set_ram by (auto split: option.splits)
  from wake_parent_inv [OF this k2 k3(1)] k3(2) show ?thesis by simp
qed

lemma sys_chdir_inv:
  assumes "kernel_inv base (kern s)" and "sys_chdir p s = Some (r, s')"
  shows "kernel_inv base (kern s')"
proof -
  have "frame {} (kern s) (kern s')"
    using assms(2) by (auto simp: sys_chdir_def chdir_def option_bind_eq_Some split: if_splits intro: frame_upd)
  then show ?thesis by (rule kernel_inv_frame [OF assms(1)])
qed

lemma sys_nanosleep_inv:
  "kernel_inv base (kern s) \<Longrightarrow> sys_nanosleep p s = Some (r, s') \<Longrightarrow> kernel_inv base (kern s')"
  by (auto simp: sys_nanosleep_def nanosleep_def Let_def option_bind_eq_Some dest!: nanosleep_loop_inv)

text \<open>The calls that touch nothing of the kernel but the caller's memory.\<close>

lemma plain_calls_inv:
  assumes "kernel_inv base (kern s)"
  shows "sys_write B fd p cnt s = Some (r, s') \<Longrightarrow> kernel_inv base (kern s')"
    and "sys_open p flags mode s = Some (r, s') \<Longrightarrow> kernel_inv base (kern s')"
    and "sys_uname compile_date machine p s = Some (r, s') \<Longrightarrow> kernel_inv base (kern s')"
    and "sys_words f p s = Some (r, s') \<Longrightarrow> kernel_inv base (kern s')"
    and "sys_stat p q s = Some (r, s') \<Longrightarrow> kernel_inv base (kern s')"
    and "sys_getdents fd p cnt s = Some (r, s') \<Longrightarrow> kernel_inv base (kern s')"
    and "sys_getcwd p sz s = Some (r, s') \<Longrightarrow> kernel_inv base (kern s')"
    and "sys_i2c_read B a p cnt s = Some (r, s') \<Longrightarrow> kernel_inv base (kern s')"
    and "sys_i2c_write B a p cnt s = Some (r, s') \<Longrightarrow> kernel_inv base (kern s')"
    and "kernel_inv base (kern (sys_reboot B s))"
  using assms kernel_inv_set_ram [OF assms]
  by (auto simp: sys_write_def sys_open_def sys_uname_def sys_words_def sys_stat_def sys_getdents_def sys_getcwd_def
      sys_i2c_read_def sys_i2c_write_def sys_reboot_def Let_def option_bind_eq_Some)

lemma swi_handler_inv:
  assumes "kernel_inv base (kern s)" and "current_process (kern s) \<noteq> proc_first (kern s)"
    and "sint (avail_pid (kern s)) < 2147483647"
    and "swi_handler_c B compile_date machine r7 r0 r1 r2 r3 s = Some (r, s')"
  shows "kernel_inv base (kern s')"
  using assms(4) assms(1) unfolding swi_handler_c_def
  by (auto simp: option_bind_eq_Some split: if_splits
      dest!: sys_read_inv [OF assms(1)] sys_waitpid_inv [OF assms(1)] sys_execve_inv [OF assms(1,2)]
        sys_chdir_inv [OF assms(1)] sys_nanosleep_inv [OF assms(1)] exit_inv [OF assms(1,2)]
        vfork_inv [OF assms(1,3)] kernel_inv_alloc [OF assms(1)] plain_calls_inv(1-9) [OF assms(1)]
      intro: plain_calls_inv(10) [OF assms(1)])

lemma kstep_inv:
  assumes "kstep B s s'" and "kernel_inv base (kern s)"
  shows "kernel_inv base (kern s')"
  using assms
proof (induction rule: kstep.induct)
  case (call s compile_date machine r7 r0 r1 r2 r3 r s')
  then show ?case by (blast intro: swi_handler_inv)
next
  case (irq s d c k)
  then show ?case by (auto intro: interrupt_inv)
next
  case (resume_waitpid pid wstatus proc s r w k)
  then show ?case by (auto intro: store_status_inv waitpid_wait_inv)
next
  case (resume_read b cnt s r b' c k p)
  then show ?case by (auto intro: kernel_inv_set_ram console_read_inv)
next
  case (resume_nanosleep end_time s fin d k)
  then show ?case using nanosleep_loop_inv by fastforce
next
  case (user s st regs r)
  have "frame {} (set_ram r (kern s)) ((set_ram r (kern s))\<lparr>cpu_r := regs, cpu_spsr := st\<rparr>)" by simp
  from kernel_inv_frame [OF kernel_inv_set_ram [OF user] this] show ?case by simp
qed

lemma ksteps_inv: "(kstep B)\<^sup>*\<^sup>* s s' \<Longrightarrow> kernel_inv base (kern s) \<Longrightarrow> kernel_inv base (kern s')"
  by (induction rule: rtranclp_induct) (auto intro: kstep_inv)

section \<open>What the invariant means\<close>

text \<open>
  The memory of a process: its control block, its stack and its program. The stack and the program of the idle task
  are not recorded as its own.
\<close>

definition owned :: "kernel \<Rightarrow> ptr \<Rightarrow> (ptr \<times> u32) list" where
  "owned k p = (if p = proc_first k then [(p, PCB_SIZE)] else resources k p)"

definition owned_chunks :: "kernel \<Rightarrow> ptr \<Rightarrow> nat set" where
  "owned_chunks k p = (\<Union>(q, n)\<in>set (owned k p). block q n)"

lemma owned_holdings:
  assumes "ktab base extra k (proc_first k # qs)" and "a \<in> set (proc_first k # qs)"
  shows "set (owned k a) \<subseteq> set (holdings k (proc_first k # qs))"
  using assms(2) by (auto simp: owned_def holdings_def)

lemma owned_distinct:
  assumes "ktab base extra k (proc_first k # qs)" and "a \<in> set (proc_first k # qs)" and "b \<in> set (proc_first k # qs)"
    and "a \<noteq> b"
  shows "set (owned k a) \<inter> set (owned k b) = {}"
proof -
  let ?f = "proc_first k"
  note kp = ktab_parts [OF assms(1)]
  have d: "distinct (holdings k (?f # qs))" using kp(4) by (simp add: mm.accounts_def)
  have hd: "hd (resources k x) = (x, PCB_SIZE)" if "x \<in> set qs" for x
  proof -
    have "x \<in> dom (pcbs k)" using that kp(2) by simp
    then show ?thesis by (auto simp: resources_def)
  qed
  have f: "(?f, PCB_SIZE) \<notin> set (resources k x)" if "x \<in> set qs" for x
    using d that by (auto simp: holdings_def)
  have r: "set (resources k x) \<inter> set (resources k y) = {}" if "x \<in> set qs" "y \<in> set qs" "x \<noteq> y" for x y
  proof -
    have "resources k x \<noteq> resources k y" using hd that by (metis prod.inject)
    then show ?thesis using d that by (simp add: holdings_def distinct_concat_iff)
  qed
  show ?thesis using assms(2-4) f r by (auto simp: owned_def)
qed

lemma owned_apart:
  assumes "ktab base extra k (proc_first k # qs)" and "a \<in> set (proc_first k # qs)" and "b \<in> set (proc_first k # qs)"
    and "a \<noteq> b"
  shows "owned_chunks k a \<inter> owned_chunks k b = {}"
proof -
  have "block x n \<inter> block y m = {}" if "(x, n) \<in> set (owned k a)" "(y, m) \<in> set (owned k b)" for x n y m
  proof (rule mm.accounts_member(4) [OF ktab_parts(4) [OF assms(1)]])
    show "(y, m) \<in> set (holdings k (proc_first k # qs) @ extra)" "(x, n) \<in> set (holdings k (proc_first k # qs) @ extra)"
      using owned_holdings [OF assms(1)] assms(2,3) that by auto
    show "(x, n) \<noteq> (y, m)" using owned_distinct [OF assms] that by auto
  qed
  then show ?thesis unfolding owned_chunks_def by blast
qed

lemma owned_allocated:
  assumes "ktab base extra k (proc_first k # qs)" and "a \<in> set (proc_first k # qs)"
  shows "owned_chunks k a \<subseteq> used (mem k)" and "owned_chunks k a \<inter> base = {}"
proof -
  have "block x n \<subseteq> used (mem k) \<and> block x n \<inter> base = {}" if "(x, n) \<in> set (owned k a)" for x n
    using mm.accounts_member(1,2) [OF ktab_parts(4) [OF assms(1)], of x n] owned_holdings [OF assms] that by auto
  then show "owned_chunks k a \<subseteq> used (mem k)" "owned_chunks k a \<inter> base = {}" by (auto simp: owned_chunks_def)
qed

text \<open>The invariant as a statement about the processes of the table.\<close>

definition processes_apart :: "nat set \<Rightarrow> kernel \<Rightarrow> bool" where
  "processes_apart base k \<longleftrightarrow>
     (\<forall>a\<in>dom (pcbs k). owned_chunks k a \<subseteq> used (mem k) \<and> owned_chunks k a \<inter> base = {} \<and>
        (\<forall>b\<in>dom (pcbs k). a \<noteq> b \<longrightarrow> pid_of k a \<noteq> pid_of k b \<and> owned_chunks k a \<inter> owned_chunks k b = {}))"

lemma kernel_inv_apart:
  assumes "kernel_inv base k"
  shows "processes_apart base k"
proof -
  obtain extra qs where kt: "ktab base extra k (proc_first k # qs)"
    using kernel_ok_table [OF kernel_inv_ok [OF assms]] by blast
  have "inj_on (pid_of k) (set (proc_first k # qs))" using kt unfolding ktab_def distinct_map by blast
  then have "pid_of k a \<noteq> pid_of k b" if "a \<in> set (proc_first k # qs)" "b \<in> set (proc_first k # qs)" "a \<noteq> b" for a b
    using that inj_onD by metis
  with owned_allocated [OF kt] owned_apart [OF kt] show ?thesis
    unfolding processes_apart_def ktab_parts(2) [OF kt] by blast
qed

lemma booted_inv:
  assumes "kinv base blocks k [f, p]" and "current_process k = p" and "is_ready k f" and "is_ready k p"
  shows "kernel_inv base k"
proof -
  have kt: "ktab base blocks k [f, p]" using assms(1) by (simp add: kinv_def)
  have f: "proc_first k = f" using ktab_parts(1) [OF kt] by (simp add: proc_list_def nth_ptr_def)
  have "0 \<le> sint (avail_pid k)" using kt by (auto simp: ktab_def)
  then show ?thesis
    using kt f assms(2-4) ktab_parts(2) [OF kt]
    by (auto simp: kernel_inv_def kernel_ok_def exited_def is_ready_def status_defs)
qed

text \<open>
  C2: The kernel keeps its processes apart, whatever happens after booting. From a state as booting leaves it, with
  the idle task and the shell ready and the shell current, let the machine run for any number of steps: system calls
  with any arguments, interrupts, calls that go on after they had to wait, programs that change their memory. In the
  state that is reached the running process is in the table and has not exited, the control blocks form the list that
  the scheduler walks, all process numbers differ, and the control block, stack and program of a process overlap with
  those of no other process and with no chunk of the kernel.
\<close>

theorem kernel_keeps_processes_apart:
  assumes "kinv base blocks (kern s) [f, p]" and "current_process (kern s) = p" and "is_ready (kern s) f"
    and "is_ready (kern s) p" and "(kstep B)\<^sup>*\<^sup>* s s'"
  shows "processes_apart base (kern s') \<and> (\<exists>ps. proc_list (kern s') ps \<and> dom (pcbs (kern s')) = set ps) \<and>
    current_process (kern s') \<in> dom (pcbs (kern s')) \<and> \<not> exited (kern s') (current_process (kern s'))"
proof -
  have i: "kernel_inv base (kern s')" using ksteps_inv [OF assms(5) booted_inv [OF assms(1-4)]] .
  then obtain extra ps where "ktab base extra (kern s') ps" by (auto simp: kernel_inv_def kernel_ok_def)
  from ktab_parts(1,2) [OF this] kernel_inv_apart [OF i] i show ?thesis
    by (auto simp: kernel_inv_def kernel_ok_def)
qed

text \<open>In a small system the second process exits; the idle task goes on.\<close>

lemma exit_step:
  assumes "kinv base blocks (kern s) [f, p]" and "current_process (kern s) = p" and "sint (avail_pid (kern s)) < 100"
    and "waiting (kern s) (\<lambda>q. [])"
  shows "\<exists>s'. kstep B s s' \<and> exited (kern s') p \<and> current_process (kern s') = f"
proof -
  let ?k = "kern s"
  note kp = kinv_parts [OF assms(1)]
  obtain b where b: "pcbs ?k p = Some b" using kp(2) by auto
  have f: "proc_first ?k = f" "f \<noteq> p" using kp(1,3) by (simp_all add: proc_list_def nth_ptr_def)
  let ?k1 = "?k\<lparr>pcbs := (pcbs ?k)(p \<mapsto> b\<lparr>p_status := PROCESS_STATUS_EXITED, exit_value := 7\<rparr>)\<rparr>"
  let ?k2 = "?k1\<lparr>wait_first := (wait_first ?k)(Waitpid_queue := NULL)\<rparr>"
  have "waiting ?k1 (\<lambda>q. [])" by (rule waiting_upd [OF assms(4) b]) simp_all
  from wait_queue_wake_run [OF this, of Waitpid_queue] have w: "waitpid_done ?k1 = Some ?k2"
    by (simp add: waitpid_done_def fun_upd_def)
  have "proc_list ?k2 [f, p] = proc_list ?k [f, p]" using b by (intro proc_list_cong) auto
  then have rg: "ring_at ?k2 [p] 0" using kp(1) f assms(2) by (simp add: ring_at_def)
  obtain k' where k': "schedule ?k2 = Some k'" "current_process k' = pick_next ?k2 f [p] 0" "same_but_accounts ?k2 k'"
    using schedule_spec [OF rg] f(1) by auto
  have nr: "\<not> is_ready ?k2 p" and ex: "exited ?k2 p"
    by (simp_all add: is_ready_def exited_def status_of_def status_defs)
  have "exit 7 ?k = Some k'" using assms(2) b w k'(1) by (simp add: exit_def pcb_upd_def)
  then have "swi_handler_c B [] [] SYSCALL_EXIT 7 0 0 0 s = Some (Returned 0, s\<lparr>kern := k'\<rparr>)"
    by (simp add: swi_handler_c_def)
  then have "kstep B s (s\<lparr>kern := k'\<rparr>)" by (rule kstep.call [rotated 2]) (use assms(2,3) f in auto)
  moreover have "current_process k' = f" using k'(2) nr by (simp add: pick_next_def)
  moreover have "exited k' p" using ex accounts_exited [OF k'(3)] by simp
  ultimately show ?thesis by (intro exI [of _ "s\<lparr>kern := k'\<rparr>"]) simp
qed

theorem kernel_keeps_processes_apart_witness:
  "\<exists>(s :: (u32 \<Rightarrow> u32) system) s' p. (kstep memory_bus)\<^sup>*\<^sup>* s s' \<and> current_process (kern s) = p \<and> exited (kern s') p \<and>
    processes_apart {0..4} (kern s')"
proof -
  obtain k f p where k: "kinv {0..4} [] k [f, p]" "current_process k = p" "avail_pid k = 2" "waiting k (\<lambda>q. [])"
    using small_running by blast
  let ?ready = "\<lambda>b. b\<lparr>p_status := PROCESS_STATUS_READY\<rparr>"
  let ?k = "k\<lparr>pcbs := (\<lambda>x. map_option ?ready (pcbs k x))\<rparr>"
  have kv: "kinv {0..4} [] ?k [f, p]"
    by (rule kinv_core [OF k(1)]) (auto simp: core_def [abs_def] option.map_comp comp_def cong: if_cong)
  have "is_ready ?k x" if "x \<in> {f, p}" for x
  proof -
    have "x \<in> dom (pcbs k)" using that kinv_parts(2) [OF k(1)] by auto
    then show ?thesis by (auto simp: is_ready_def status_of_def)
  qed
  then have r: "is_ready ?k f" "is_ready ?k p" by blast+
  have w: "waiting ?k (\<lambda>q. [])" using k(4) by (auto simp: waiting_def)
  obtain s :: "(u32 \<Rightarrow> u32) system" where s: "kern s = ?k" by (metis system.select_convs(1))
  obtain s' where st: "kstep memory_bus s s'" "exited (kern s') p"
    using exit_step [of "{0..4}" "[]" s f p memory_bus] kv k(2,3) w s by auto
  from st(1) have "(kstep memory_bus)\<^sup>*\<^sup>* s s'" by blast
  from kernel_keeps_processes_apart [OF _ _ _ _ this, of "{0..4}" "[]" f p] this st(2) kv k(2) r s show ?thesis
    by (intro exI [of _ s] exI [of _ s'] exI [of _ p]) simp
qed

section \<open>Files and the console\<close>

text \<open>What a step leaves of the file layer: nothing closes a descriptor, and no one changes the disk.\<close>

definition files_kept :: "vfs \<Rightarrow> vfs \<Rightarrow> bool" where
  "files_kept v v' \<longleftrightarrow> length (fd_table v') = length (fd_table v) \<and> disk v' = disk v \<and> root_dir v' = root_dir v \<and>
     (\<forall>j < length (fd_table v). fd_valid (fd_table v ! j) \<noteq> 0 \<longrightarrow>
        fd_valid (fd_table v' ! j) \<noteq> 0 \<and> fd_inode (fd_table v' ! j) = fd_inode (fd_table v ! j))"

lemma files_kept_refl [simp]: "files_kept v v"
  by (simp add: files_kept_def)

lemma files_kept_trans: "files_kept v v1 \<Longrightarrow> files_kept v1 v2 \<Longrightarrow> files_kept v v2"
  by (simp add: files_kept_def)

lemma files_kept_update:
  assumes "arr_get (fd_table v) i = Some e" and "fd_valid e \<noteq> 0 \<Longrightarrow> fd_valid e' \<noteq> 0 \<and> fd_inode e' = fd_inode e"
  shows "files_kept v (v\<lparr>fd_table := (fd_table v)[i := e']\<rparr>)"
  using assms by (auto simp: files_kept_def arr_get_eq_Some nth_list_update)

lemma fd_allocate_from_kept:
  "fd_allocate_from inode fd (fd_table v) = Some (r, tab) \<Longrightarrow> files_kept v (v\<lparr>fd_table := tab\<rparr>)"
proof (induction inode fd "fd_table v" rule: fd_allocate_from.induct)
  case (1 inode fd)
  note s = 1(2) [unfolded fd_allocate_from.simps [of inode fd]]
  then obtain e where e: "arr_get (fd_table v) fd = Some e" by (auto simp: option_bind_eq_Some)
  consider (free) "fd_valid e = 0" | (full) "fd_valid e \<noteq> 0" "fd + 1 \<ge> MAX_FD" | (more) "fd_valid e \<noteq> 0" "\<not> fd + 1 \<ge> MAX_FD"
    by blast
  then show ?case
  proof cases
    case free
    with s e show ?thesis using files_kept_update [OF e] by auto
  next
    case full
    with s e have "tab = fd_table v" by auto
    then show ?thesis by simp
  next
    case more
    with s e 1(1) [OF e] show ?thesis by auto
  qed
qed

lemma open_file_kept: "open_file path flags mode v k = Some (r, v') \<Longrightarrow> files_kept v v'"
  using fd_allocate_from_kept by (fastforce simp: open_file_def fd_allocate_def option_bind_eq_Some split: if_splits)

lemma read_fd_kept: "read_fd fd b cnt v = Some (r, b', v') \<Longrightarrow> files_kept v v'"
  by (auto simp: read_fd_def option_bind_eq_Some split: if_splits intro: files_kept_update)

lemma getdents_kept: "getdents fd b cnt v = Some (r, b', v') \<Longrightarrow> files_kept v v'"
  by (auto simp: getdents_def option_bind_eq_Some split: if_splits intro: files_kept_update)

lemma get_char_wf: "console_get_char c = Some (x, c') \<Longrightarrow> ring_wf c \<Longrightarrow> ring_wf c'"
  using advance_index(2) [of "input_buffer_tail c"]
  by (auto simp: console_get_char_def Let_def ring_wf_def option_bind_eq_Some split: if_splits)

lemma read_chars_wf: "read_chars b i n c = Some (b', c') \<Longrightarrow> ring_wf c \<Longrightarrow> ring_wf c'"
proof (induction n arbitrary: b i c)
  case (Suc n)
  then obtain ch c1 b1 where "console_get_char c = Some (ch, c1)" "read_chars b1 (Suc i) n c1 = Some (b', c')"
    by (auto simp: option_bind_eq_Some)
  with Suc.IH Suc.prems(2) get_char_wf show ?case by blast
qed simp

lemma console_read_wf: "console_read b cnt c k = Some (r, b', c', k') \<Longrightarrow> ring_wf c \<Longrightarrow> ring_wf c'"
  using read_chars_wf by (auto simp: console_read_def option_bind_eq_Some split: if_splits)

lemma buffer_insert_wf: "buffer_insert ch c = Some (x, c') \<Longrightarrow> ring_wf c \<Longrightarrow> ring_wf c'"
  using advance_index(2) [of "input_buffer_head c"]
  by (auto simp: buffer_insert_def Let_def ring_wf_def option_bind_eq_Some arr_set_eq_Some split: if_splits)

lemma console_insert_wf: "console_insert_char ch c k = Some (x, c', k') \<Longrightarrow> ring_wf c \<Longrightarrow> ring_wf c'"
proof -
  assume a: "console_insert_char ch c k = Some (x, c', k')" and w: "ring_wf c"
  obtain y c1 where c1: "buffer_insert ch c = Some (y, c1)" "c' = c1 \<or> (\<exists>z. c' = c1\<lparr>scheduling_enabled := z\<rparr>)"
    using a by (auto simp: console_insert_char_def Let_def option_bind_eq_Some split: if_splits)
  from buffer_insert_wf [OF c1(1) w] c1(2) show ?thesis by (auto simp: ring_wf_def)
qed

lemma uart_receive_wf: "uart_receive getc d c k = Some r \<Longrightarrow> ring_wf c \<Longrightarrow> ring_wf (fst (snd r))"
proof (induction getc d c k r rule: uart_receive.raw_induct [rotated, consumes 1, case_names step])
  case (step ur getc d c k r)
  obtain ascii d1 where g: "getc d = (ascii, d1)" by (cases "getc d")
  show ?case
  proof (cases "ascii = -1")
    case False
    with step(2) g obtain x c1 k1 where k1: "console_insert_char ascii c k = Some (x, c1, k1)"
      "ur getc d1 c1 k1 = Some r" by (auto simp: option_bind_eq_Some)
    from step(1) [OF k1(2) console_insert_wf [OF k1(1) step(3)]] show ?thesis .
  qed (use step(2,3) g in auto)
qed

lemma interrupt_wf:
  assumes "interrupt_handler_c B serial d c k = Some (d', c', k')" and "ring_wf c"
  shows "ring_wf c'"
proof -
  obtain uart tim d0 where p: "pending_interrupts B d = (uart, tim, d0)" by (cases "pending_interrupts B d") auto
  obtain d1 k1 where "(if uart then do { (r, d', c', k') \<leftarrow> serial_interrupt_handler B serial d0 c k; Some (d', c', k') }
         else Some (d0, c, k)) = Some (d1, c', k1)"
    using assms(1) unfolding interrupt_handler_c_def p by (elim interrupt_parts) blast
  then consider "c' = c" | r where "serial_interrupt_handler B serial d0 c k = Some (r, d1, c', k1)"
    by (cases uart) (auto simp: option_bind_eq_Some)
  then show ?thesis
  proof cases
    case 2
    then obtain getc d2 where "uart_receive getc d0 c k = Some (d2, c', k1)" by (elim serial_receives)
    from uart_receive_wf [OF this assms(2)] show ?thesis by simp
  qed (use assms(2) in simp)
qed

definition tables_kept :: "'h system \<Rightarrow> 'h system \<Rightarrow> bool" where
  "tables_kept s s' \<longleftrightarrow> files_kept (fs s) (fs s') \<and> (ring_wf (con s) \<longrightarrow> ring_wf (con s'))"

lemma same_tables: "fs s' = fs s \<Longrightarrow> con s' = con s \<Longrightarrow> tables_kept s s'"
  by (simp add: tables_kept_def)

lemma sys_read_tables: "sys_read fd p cnt s = Some (r, s') \<Longrightarrow> tables_kept s s'"
  using read_fd_kept console_read_wf
  by (fastforce simp: sys_read_def read_def tables_kept_def option_bind_eq_Some split: if_splits)

lemma sys_open_tables: "sys_open p flags mode s = Some (r, s') \<Longrightarrow> tables_kept s s'"
  using open_file_kept by (fastforce simp: sys_open_def tables_kept_def option_bind_eq_Some)

lemma sys_getdents_tables: "sys_getdents fd p cnt s = Some (r, s') \<Longrightarrow> tables_kept s s'"
  using getdents_kept by (fastforce simp: sys_getdents_def tables_kept_def option_bind_eq_Some)

lemma other_calls_tables:
  "sys_write B fd p cnt s = Some (r, s') \<Longrightarrow> tables_kept s s'"
  "sys_waitpid pid wstatus options s = Some (r, s') \<Longrightarrow> tables_kept s s'"
  "sys_execve p a e s = Some (r, s') \<Longrightarrow> tables_kept s s'"
  "sys_chdir p s = Some (r, s') \<Longrightarrow> tables_kept s s'"
  "sys_uname compile_date machine p s = Some (r, s') \<Longrightarrow> tables_kept s s'"
  "sys_words f p s = Some (r, s') \<Longrightarrow> tables_kept s s'"
  "sys_stat p q s = Some (r, s') \<Longrightarrow> tables_kept s s'"
  "sys_nanosleep p s = Some (r, s') \<Longrightarrow> tables_kept s s'"
  "sys_getcwd p sz s = Some (r, s') \<Longrightarrow> tables_kept s s'"
  "sys_i2c_read B a p cnt s = Some (r, s') \<Longrightarrow> tables_kept s s'"
  "sys_i2c_write B a p cnt s = Some (r, s') \<Longrightarrow> tables_kept s s'"
  by (auto simp: sys_write_def sys_waitpid_def sys_execve_def sys_chdir_def sys_uname_def sys_words_def sys_stat_def
      sys_nanosleep_def sys_getcwd_def sys_i2c_read_def sys_i2c_write_def Let_def option_bind_eq_Some intro!: same_tables)

lemma swi_handler_tables:
  assumes "swi_handler_c B compile_date machine r7 r0 r1 r2 r3 s = Some (r, s')"
  shows "tables_kept s s'"
  using assms unfolding swi_handler_c_def
  by (auto simp: option_bind_eq_Some sys_reboot_def Let_def split: if_splits
      intro: sys_read_tables sys_open_tables sys_getdents_tables other_calls_tables same_tables)

lemma kstep_tables: "kstep B s s' \<Longrightarrow> tables_kept s s'"
proof (induction rule: kstep.induct)
  case (call s compile_date machine r7 r0 r1 r2 r3 r s')
  then show ?case by (blast intro: swi_handler_tables)
next
  case (irq s d c k)
  then show ?case using interrupt_wf by (auto simp: tables_kept_def)
next
  case (resume_read b cnt s r b' c k p)
  then show ?case using console_read_wf by (auto simp: tables_kept_def)
qed (simp_all add: same_tables)

lemma ksteps_tables: "(kstep B)\<^sup>*\<^sup>* s s' \<Longrightarrow> tables_kept s s'"
proof (induction rule: rtranclp_induct)
  case (step s1 s2)
  with kstep_tables [OF step(2)] show ?case by (auto simp: tables_kept_def intro: files_kept_trans)
qed (simp add: same_tables)

text \<open>
  C22: The tables of the file layer and the console keep their shape, whatever happens: the table of descriptors has
  its 32 entries and the ring of the console its 256 bytes with both indices inside, the disk and the root directory
  are never changed, and a descriptor that is open stays open and stands for the same file for ever, because
  \<^verbatim>\<open>close\<close> does nothing.
\<close>

theorem tables_keep_their_shape:
  assumes "length (fd_table (fs s)) = MAX_FD" and "ring_wf (con s)" and "(kstep B)\<^sup>*\<^sup>* s s'"
  shows "length (fd_table (fs s')) = MAX_FD \<and> ring_wf (con s') \<and> disk (fs s') = disk (fs s) \<and>
    root_dir (fs s') = root_dir (fs s) \<and>
    (\<forall>j<MAX_FD. fd_valid (fd_table (fs s) ! j) \<noteq> 0 \<longrightarrow>
       fd_valid (fd_table (fs s') ! j) \<noteq> 0 \<and> fd_inode (fd_table (fs s') ! j) = fd_inode (fd_table (fs s) ! j))"
  using ksteps_tables [OF assms(3)] assms(1,2) by (simp add: tables_kept_def files_kept_def)

text \<open>A program opens the root directory and closes it.\<close>

lemma open_close_steps:
  assumes "current_process (kern s) \<noteq> proc_first (kern s)" and "sint (avail_pid (kern s)) < 2147483647"
    and "user_ram s 4096 = 47" "user_ram s 4097 = 0" and "fs s = demo_vfs"
  shows "\<exists>s'. (kstep B)\<^sup>*\<^sup>* s s' \<and> fd_table (fs s') = (fd_table demo_vfs)[3 := \<lparr>fd_valid = 1, fd_inode = 32, fd_file_ptr = 0\<rparr>]"
proof -
  let ?t = "(fd_table demo_vfs)[3 := \<lparr>fd_valid = 1, fd_inode = 32, fd_file_ptr = 0\<rparr>]"
  let ?s1 = "s\<lparr>fs := demo_vfs\<lparr>fd_table := ?t\<rparr>\<rparr>"
  have p: "load_string (user_ram s) 4096 = Some [47, 0]"
    using assms(3,4) by (simp add: load_string.simps [of _ 4096] load_string.simps [of _ 4097])
  have "fd_allocate_from 32 0 (fd_table demo_vfs) = Some (3, ?t)"
    by (simp add: fd_allocate_from.simps demo_vfs_def arr_get_def MAX_FD_def nth_append numeral_3_eq_3)
  then have "open_file [47, 0] 0 0 demo_vfs (kern s) = Some (3, demo_vfs\<lparr>fd_table := ?t\<rparr>)"
    by (simp add: open_file_def get_inode_def fd_allocate_def demo_vfs_def)
  with p assms(5) have "swi_handler_c B [] [] SYSCALL_OPEN 4096 0 0 0 s = Some (Returned 3, ?s1)"
    by (simp add: swi_handler_c_def sys_open_def syscall_numbers)
  then have 1: "kstep B s ?s1" by (rule kstep.call [rotated 2]) (use assms in auto)
  have "swi_handler_c B [] [] SYSCALL_CLOSE 3 0 0 0 ?s1 = Some (Returned (close 3), ?s1)"
    by (simp add: swi_handler_c_def syscall_numbers)
  then have 2: "kstep B ?s1 ?s1" by (rule kstep.call [rotated 2]) (use assms in auto)
  from 1 2 have "(kstep B)\<^sup>*\<^sup>* s ?s1" by (meson r_into_rtranclp rtranclp.rtrancl_into_rtrancl)
  then show ?thesis by (intro exI [of _ ?s1]) simp
qed

theorem tables_keep_their_shape_witness:
  "\<exists>(s :: (u32 \<Rightarrow> u32) system) s'. (kstep memory_bus)\<^sup>*\<^sup>* s s' \<and> fd_inode (fd_table (fs s') ! 3) = 32 \<and>
    fd_valid (fd_table (fs s') ! 0) \<noteq> 0 \<and> ring_wf (con s')"
proof -
  let ?k = "(boot_kernel (boot_mem (\<lambda>a. if a = 4096 then 47 else 0)))\<lparr>current_process := 1\<rparr>"
  obtain s :: "(u32 \<Rightarrow> u32) system" where s: "kern s = ?k" "fs s = demo_vfs" "con s = empty_console"
    by (metis system.select_convs(1,2,3))
  obtain s' where s': "(kstep memory_bus)\<^sup>*\<^sup>* s s'"
    "fd_table (fs s') = (fd_table demo_vfs)[3 := \<lparr>fd_valid = 1, fd_inode = 32, fd_file_ptr = 0\<rparr>]"
    using open_close_steps [of s memory_bus] s by (auto simp: boot_kernel_def boot_mem_def)
  have "length (fd_table (fs s)) = MAX_FD" "ring_wf (con s)"
    using s empty_console_ring by (simp_all add: demo_vfs_def MAX_FD_def)
  moreover have "fd_valid (fd_table demo_vfs ! 0) \<noteq> 0" "3 < length (fd_table demo_vfs)" "0 < MAX_FD"
    by (simp_all add: demo_vfs_def MAX_FD_def nth_append)
  ultimately show ?thesis
    using tables_keep_their_shape [OF _ _ s'(1)] s(2) s' by (intro exI [of _ s] exI [of _ s']) simp
qed

end
