(* ===== verification/Printk.thy ===== *)
theory Printk
  imports Console
begin

text \<open>
  Formatted output: \<^verbatim>\<open>kernel/lib/printk.c\<close> and its twin \<^verbatim>\<open>userspace/vlibc/printf.c\<close>, together
  with \<^verbatim>\<open>atoi\<close> of \<^verbatim>\<open>userspace/vlibc/string.c\<close> and the pretty printer of
  \<^verbatim>\<open>userspace/vlibc/time.c\<close>.

  The variable arguments are a list of values; taking an argument of the wrong kind or one that is
  not there is \<^term>\<open>None\<close>, as is every store outside the buffer. The format is the rest of the
  string that \<^verbatim>\<open>string\<close> points to. The character type is unsigned on this processor, so the
  padding length is an 8-bit number that wraps around.
\<close>

section \<open>Output loops\<close>

definition MAX_PRINT_SIZE :: nat where "MAX_PRINT_SIZE = 256"

text \<open>The loops that store characters and stop at the end of the buffer.\<close>

fun put_chars :: "u8 list \<Rightarrow> buf \<Rightarrow> nat \<Rightarrow> (buf \<times> nat) option" where
  "put_chars [] b n = Some (b, n)"
| "put_chars (c # cs) b n =
     do { b1 \<leftarrow> arr_set b n c;
          if n + 1 = MAX_PRINT_SIZE then Some (b1, n + 1) else put_chars cs b1 (n + 1) }"

fun put_string :: "buf \<Rightarrow> buf \<Rightarrow> nat \<Rightarrow> (buf \<times> nat) option" where
  "put_string [] b n = None"
| "put_string (c # s) b n =
     (if c = 0 then Some (b, n)
      else do { b1 \<leftarrow> arr_set b n c;
                if n + 1 = MAX_PRINT_SIZE then Some (b1, n + 1) else put_string s b1 (n + 1) })"

definition digit_char :: "nat \<Rightarrow> u8" where
  "digit_char d = (if d < 10 then of_nat d + 48 else of_nat d - 10 + 97)"

text \<open>
  The loop that fills \<^verbatim>\<open>int_buffer\<close> from the right; the third argument is \<^verbatim>\<open>int_pointer+1\<close>.
\<close>

fun digits_loop :: "nat \<Rightarrow> nat \<Rightarrow> nat \<Rightarrow> buf \<Rightarrow> nat \<Rightarrow> (buf \<times> nat \<times> nat) option" where
  "digits_loop base x 0 ib printed_size = None"
| "digits_loop base x (Suc q) ib printed_size =
     do { ib1 \<leftarrow> arr_set ib q (digit_char (x mod base));
          if x div base \<noteq> 0 then digits_loop base (x div base) q ib1 (printed_size + 1)
          else Some (ib1, q, printed_size + 1) }"

text \<open>A number with its padding; \<open>width\<close> is 10, or 18 for 64-bit numbers.\<close>

definition print_number :: "nat \<Rightarrow> nat \<Rightarrow> nat \<Rightarrow> u8 \<Rightarrow> u8 \<Rightarrow> nat \<Rightarrow> buf \<Rightarrow> nat \<Rightarrow> (buf \<times> nat) option" where
  "print_number base width x pad_len pad_value printed_size b n =
     do { (ib, q, printed) \<leftarrow> digits_loop base x width (replicate 18 0) printed_size;
          (b1, n1) \<leftarrow> put_chars (replicate (unat pad_len - printed) pad_value) b n;
          put_chars (drop q (take width ib)) b1 n1 }"

section \<open>Conversions\<close>

datatype parg = Num u32 | Num64 u64 | Str buf

definition is_digit :: "u8 \<Rightarrow> bool" where
  "is_digit c \<longleftrightarrow> 48 \<le> c \<and> c \<le> 57"

fun pad_loop :: "buf \<Rightarrow> u8 \<Rightarrow> (buf \<times> u8) option" where
  "pad_loop [] pad_len = None"
| "pad_loop (c # s) pad_len =
     (if is_digit c then pad_loop s (pad_len * 10 + (c - 48)) else Some (c # s, pad_len))"

text \<open>The result is the rest of the format, the padding length and the padding character.\<close>

fun parse_pad :: "buf \<Rightarrow> (buf \<times> u8 \<times> u8) option" where
  "parse_pad [] = None"
| "parse_pad (c # s) =
     (if is_digit c then do { (r, l) \<leftarrow> pad_loop s (c - 48); Some (r, l, if c = 48 then 48 else 32) }
      else Some (c # s, 0, 32))"

text \<open>The first result says whether the main loop is left.\<close>

type_synonym conv_result = "bool \<times> buf \<times> parg list \<times> buf \<times> nat"

definition convert_decimal :: "u32 \<Rightarrow> buf \<Rightarrow> parg list \<Rightarrow> u8 \<Rightarrow> u8 \<Rightarrow> buf \<Rightarrow> nat \<Rightarrow> conv_result option" where
  "convert_decimal x s args pad_len pad_value b n =
     (if x AND 0x80000000 \<noteq> 0 then
        do { b1 \<leftarrow> arr_set b n 45;
             if n + 1 = MAX_PRINT_SIZE then Some (True, s, args, b1, n + 1)
             else do { (b2, n2) \<leftarrow> print_number 10 10 (unat (NOT x + 1)) pad_len pad_value 1 b1 (n + 1);
                       Some (False, s, args, b2, n2) } }
      else
        do { (b2, n2) \<leftarrow> print_number 10 10 (unat x) pad_len pad_value 0 b n;
             Some (False, s, args, b2, n2) })"

definition convert_char :: "u8 \<Rightarrow> buf \<Rightarrow> parg list \<Rightarrow> buf \<Rightarrow> nat \<Rightarrow> conv_result option" where
  "convert_char c s args b n =
     do { b1 \<leftarrow> arr_set b n c; Some (n + 1 = MAX_PRINT_SIZE, s, args, b1, n + 1) }"

fun convert :: "buf \<Rightarrow> parg list \<Rightarrow> u8 \<Rightarrow> u8 \<Rightarrow> buf \<Rightarrow> nat \<Rightarrow> conv_result option" where
  "convert [] args pad_len pad_value b n = None"
| "convert (c # s) args pad_len pad_value b n =
     (if c = 100 \<or> c = 105 then
        (case args of Num x # as \<Rightarrow> convert_decimal x s as pad_len pad_value b n | _ \<Rightarrow> None)
      else if c = 108 then
        (case (s, args) of
           (c1 # c2 # s', Num64 lx # as) \<Rightarrow>
             do { (b1, n1) \<leftarrow> print_number 16 18 (unat lx) 0 pad_value 0 b n; Some (False, s', as, b1, n1) }
         | _ \<Rightarrow> None)
      else if c = 120 \<or> c = 112 then
        (case args of
           Num x # as \<Rightarrow>
             do { (b1, n1) \<leftarrow> print_number 16 10 (unat x) pad_len pad_value 0 b n; Some (False, s, as, b1, n1) }
         | _ \<Rightarrow> None)
      else if c = 99 then
        (case args of Num x # as \<Rightarrow> convert_char (ucast x) s as b n | _ \<Rightarrow> None)
      else if c = 37 then convert_char 37 s args b n
      else if c = 115 then
        (case args of
           Str t # as \<Rightarrow> do { (b1, n1) \<leftarrow> put_string t b n; Some (False, s, as, b1, n1) }
         | _ \<Rightarrow> None)
      else Some (False, c # s, args, b, n))"

lemma pad_loop_length: "pad_loop s l = Some (r, l') \<Longrightarrow> length r \<le> length s"
  by (induction s l rule: pad_loop.induct) (auto split: if_splits)

lemma parse_pad_length: "parse_pad s = Some (r, l) \<Longrightarrow> length r \<le> length s"
  by (induction s rule: parse_pad.induct)
    (auto simp: option_bind_eq_Some split: if_splits dest!: pad_loop_length)

lemma convert_length:
  "convert s args l v b n = Some (stop, s1, res) \<Longrightarrow> length s1 \<le> length s"
  by (induction s args l v b n rule: convert.induct)
    (auto simp: option_bind_eq_Some convert_decimal_def convert_char_def
      split: if_splits list.splits parg.splits)

text \<open>One round of the main loop, for a string that does not begin with its end.\<close>

definition format_step :: "u8 \<Rightarrow> buf \<Rightarrow> parg list \<Rightarrow> buf \<Rightarrow> nat \<Rightarrow> conv_result option" where
  "format_step c s args b n =
     (if c = 37 then do { (s1, pad_len, pad_value) \<leftarrow> parse_pad s; convert s1 args pad_len pad_value b n }
      else convert_char c s args b n)"

lemma format_step_length: "format_step c s args b n = Some (stop, s1, res) \<Longrightarrow> length s1 \<le> length s"
  by (auto simp: format_step_def convert_char_def option_bind_eq_Some split: if_splits
      dest!: parse_pad_length convert_length)

function vsprintf_loop :: "buf \<Rightarrow> parg list \<Rightarrow> buf \<Rightarrow> nat \<Rightarrow> (buf \<times> nat) option" where
  "vsprintf_loop [] args b n = None"
| "vsprintf_loop (c # s) args b n =
     (if c = 0 then Some (b, n)
      else
        do { r \<leftarrow> format_step c s args b n;
             case r of (stop, s1, as, b1, n1) \<Rightarrow>
               if stop \<or> n1 = MAX_PRINT_SIZE - 1 then Some (b1, n1) else vsprintf_loop s1 as b1 n1 })"
  by pat_completeness auto
termination
  by (relation "measure (\<lambda>(s, a, b, n). length s)") (auto dest!: format_step_length)

declare vsprintf_loop.simps(2) [simp del]

definition vsprintf :: "buf \<Rightarrow> buf \<Rightarrow> parg list \<Rightarrow> (buf \<times> nat) option" where
  "vsprintf buffer fmt args = vsprintf_loop fmt args buffer 0"

definition printk :: "(u8 \<Rightarrow> 'd \<Rightarrow> 'd) \<Rightarrow> bool \<Rightarrow> buf \<Rightarrow> parg list \<Rightarrow> 'd \<Rightarrow> (nat \<times> 'd) option" where
  "printk putc ready fmt args d =
     do { (b, result) \<leftarrow> vsprintf (replicate MAX_PRINT_SIZE 0) fmt args;
          (w, d1) \<leftarrow> console_write putc ready b (of_nat result) d;
          Some (result, d1) }"

definition serial_printk :: "(u8 \<Rightarrow> 'd \<Rightarrow> 'd) \<Rightarrow> bool \<Rightarrow> buf \<Rightarrow> parg list \<Rightarrow> 'd \<Rightarrow> (nat \<times> 'd) option" where
  "serial_printk putc ready fmt args d =
     do { (b, result) \<leftarrow> vsprintf (replicate MAX_PRINT_SIZE 0) fmt args;
          (w, d1) \<leftarrow> serial_write putc ready b (of_nat result) d;
          Some (result, d1) }"

definition sprintf :: "buf \<Rightarrow> buf \<Rightarrow> parg list \<Rightarrow> (nat \<times> buf) option" where
  "sprintf string_buf fmt args =
     do { (b, result) \<leftarrow> vsprintf string_buf fmt args;
          b1 \<leftarrow> arr_set b result 0;
          Some (result, b1) }"

section \<open>userspace/vlibc\<close>

text \<open>\<^verbatim>\<open>userspace/vlibc/printf.c\<close> has the same text as the kernel's \<^verbatim>\<open>vsprintf\<close>.\<close>

definition vlibc_vsprintf :: "buf \<Rightarrow> buf \<Rightarrow> parg list \<Rightarrow> (buf \<times> nat) option" where
  "vlibc_vsprintf buffer fmt args = vsprintf_loop fmt args buffer 0"

text \<open>\<open>write_out\<close> is the system call \<^verbatim>\<open>write(1,buffer,result)\<close> on the state \<open>'d\<close> of the output.\<close>

definition vlibc_printf :: "(buf \<Rightarrow> 'd \<Rightarrow> 'd) \<Rightarrow> buf \<Rightarrow> parg list \<Rightarrow> 'd \<Rightarrow> (nat \<times> 'd) option" where
  "vlibc_printf write_out fmt args d =
     do { (b, result) \<leftarrow> vlibc_vsprintf (replicate MAX_PRINT_SIZE 0) fmt args;
          Some (result, write_out (take result b) d) }"

definition vlibc_sprintf :: "buf \<Rightarrow> buf \<Rightarrow> parg list \<Rightarrow> (nat \<times> buf) option" where
  "vlibc_sprintf string_buf fmt args =
     do { (b, result) \<leftarrow> vlibc_vsprintf string_buf fmt args;
          b1 \<leftarrow> arr_set b result 0;
          Some (result, b1) }"

fun atoi_loop :: "buf \<Rightarrow> i32 \<Rightarrow> i32 option" where
  "atoi_loop [] result = None"
| "atoi_loop (c # s) result =
     (if c = 0 then Some result else atoi_loop s (result * 10 + (ucast c - 48)))"

definition atoi :: "buf \<Rightarrow> i32 option" where
  "atoi s = atoi_loop s 0"

text \<open>The signed divisions are only applied to positive numbers.\<close>

definition time_pretty :: "i32 \<Rightarrow> buf \<Rightarrow> buf option" where
  "time_pretty time b0 =
     do { b \<leftarrow> arr_set b0 0 0;
          let days = (if sint time > 86400 then time div 86400 else 0);
          let t1 = time - days * 24 * 60 * 60;
          let hours = (if sint t1 > 3600 then t1 div 3600 else 0);
          let t2 = t1 - hours * 60 * 60;
          let minutes = (if sint t2 > 60 then t2 div 60 else 0);
          let seconds = t2 - minutes * 60;
          (n, r) \<leftarrow> (if days \<noteq> 0 then
               vlibc_sprintf b (lit ''%dd %dh %dm %ds'') [Num days, Num hours, Num minutes, Num seconds]
             else if hours \<noteq> 0 then vlibc_sprintf b (lit ''%dh %dm %ds'') [Num hours, Num minutes, Num seconds]
             else if minutes \<noteq> 0 then vlibc_sprintf b (lit ''%dm %ds'') [Num minutes, Num seconds]
             else vlibc_sprintf b (lit ''%ds'') [Num seconds]);
          Some r }"

section \<open>What a number looks like\<close>

function digits_of :: "nat \<Rightarrow> nat \<Rightarrow> u8 list" where
  "digits_of base x =
     (if x < base \<or> base < 2 then [digit_char (x mod base)]
      else digits_of base (x div base) @ [digit_char (x mod base)])"
  by pat_completeness auto
termination
  by (relation "measure snd") auto

declare digits_of.simps [simp del]

lemma digits_of_nonempty [simp]: "digits_of base x \<noteq> []"
  by (subst digits_of.simps) simp

lemma digits_of_length: "2 \<le> base \<Longrightarrow> x < base ^ k \<Longrightarrow> 0 < k \<Longrightarrow> length (digits_of base x) \<le> k"
proof (induction k arbitrary: x)
  case (Suc k)
  show ?case
  proof (cases "x < base")
    case True
    then show ?thesis by (subst digits_of.simps) simp
  next
    case False
    then have "0 < k" using Suc.prems by (cases k) auto
    moreover have "x div base < base ^ k" using Suc.prems by (simp add: less_mult_imp_div_less mult.commute)
    ultimately have "length (digits_of base (x div base)) \<le> k" using Suc by blast
    with False Suc.prems(1) show ?thesis by (subst digits_of.simps) simp
  qed
qed simp

text \<open>Reading the digits back gives the number.\<close>

definition digit_value :: "u8 \<Rightarrow> nat" where
  "digit_value c = (if c < 58 then unat c - 48 else unat c - 87)"

lemma digit_char_unat: "d < 16 \<Longrightarrow> unat (digit_char d) = (if d < 10 then d + 48 else d + 87)"
proof -
  assume d: "d < 16"
  have "digit_char d = of_nat (if d < 10 then d + 48 else d + 87)" by (simp add: digit_char_def)
  then have "unat (digit_char d) = (if d < 10 then d + 48 else d + 87) mod 256"
    by (simp add: unat_of_nat take_bit_eq_mod)
  with d show ?thesis by simp
qed

lemma digit_value_char: "d < 16 \<Longrightarrow> digit_value (digit_char d) = d"
  using digit_char_unat [of d] by (auto simp: digit_value_def word_less_nat_alt)

lemma digit_char_nonzero: "d < 16 \<Longrightarrow> digit_char d \<noteq> 0"
  using digit_char_unat [of d] by (auto split: if_splits)

lemma digits_of_value:
  "2 \<le> base \<Longrightarrow> base \<le> 16 \<Longrightarrow> foldl (\<lambda>v c. v * base + digit_value c) 0 (digits_of base x) = x"
proof (induction base x rule: digits_of.induct)
  case (1 base x)
  have "x mod base < 16" using 1(2,3) by (meson less_le_trans mod_less_divisor zero_less_numeral order_less_le_trans)
  with 1 show ?case by (subst digits_of.simps) (simp add: digit_value_char)
qed

lemma digits_of_nonzero: "2 \<le> base \<Longrightarrow> base \<le> 16 \<Longrightarrow> 0 \<notin> set (digits_of base x)"
proof (induction base x rule: digits_of.induct)
  case (1 base x)
  have "x mod base < 16" using 1(2,3) by (meson less_le_trans mod_less_divisor zero_less_numeral order_less_le_trans)
  with 1 show ?case by (subst digits_of.simps) (use digit_char_nonzero in auto)
qed

lemma digits_loop_spec:
  "2 \<le> base \<Longrightarrow> length (digits_of base x) \<le> q \<Longrightarrow> q \<le> length ib \<Longrightarrow>
   \<exists>ib'. digits_loop base x q ib pr = Some (ib', q - length (digits_of base x), pr + length (digits_of base x)) \<and>
     length ib' = length ib \<and> drop q ib' = drop q ib \<and>
     drop (q - length (digits_of base x)) (take q ib') = digits_of base x"
proof (induction base x arbitrary: q ib pr rule: digits_of.induct)
  case (1 base x)
  obtain q' where q: "q = Suc q'" using 1(3) by (cases q) (simp_all add: Suc_leI)
  have l: "q' < length ib" using 1(4) q by simp
  let ?ib = "ib[q' := digit_char (x mod base)]"
  have dq: "drop q' ?ib = digit_char (x mod base) # drop q ib" using l q by (simp add: Cons_nth_drop_Suc [symmetric])
  show ?case
  proof (cases "x < base")
    case True
    then have d: "digits_of base x = [digit_char (x mod base)]" by (subst digits_of.simps) simp
    have "drop q' (take q ?ib) = [digit_char (x mod base)]" using dq q l by (simp add: drop_take)
    with True l q d show ?thesis by simp
  next
    case False
    then have d: "digits_of base x = digits_of base (x div base) @ [digit_char (x mod base)]"
      using 1(2) by (subst digits_of.simps) simp
    have nz: "x div base \<noteq> 0" using False 1(2) by (simp add: div_eq_0_iff)
    let ?l = "length (digits_of base (x div base))"
    obtain ib' where ib': "digits_loop base (x div base) q' ?ib (pr + 1) = Some (ib', q' - ?l, pr + 1 + ?l)"
      "length ib' = length ?ib" "drop q' ib' = drop q' ?ib" "drop (q' - ?l) (take q' ib') = digits_of base (x div base)"
      using 1(1) [of q' ?ib "pr + 1"] False 1(2,3,4) l q d by auto
    have "take q ib' = take q' ib' @ [digit_char (x mod base)]"
    proof -
      have "ib' ! q' = digit_char (x mod base)"
        using ib'(3) dq l ib'(2) by (metis Cons_nth_drop_Suc length_list_update list.inject)
      then show ?thesis using l ib'(2) q by (simp add: take_Suc_conv_app_nth)
    qed
    moreover have "drop q ib' = drop q ib"
      using arg_cong [OF ib'(3), of tl] dq q by (simp add: drop_Suc tl_drop)
    moreover have "?l \<le> q'" using 1(3) d q by simp
    ultimately show ?thesis using ib' nz l q d by simp
  qed
qed

lemma put_chars_spec:
  "n + length cs < MAX_PRINT_SIZE \<Longrightarrow> n + length cs \<le> length b \<Longrightarrow>
   put_chars cs b n = Some (take n b @ cs @ drop (n + length cs) b, n + length cs)"
proof (induction cs arbitrary: b n)
  case (Cons c cs)
  then have "put_chars cs (b[n := c]) (n + 1) = Some (take (n + 1) (b[n := c]) @ cs @
      drop (n + 1 + length cs) (b[n := c]), n + 1 + length cs)" by (intro Cons.IH) auto
  with Cons.prems show ?case by (simp add: take_list_update_Suc)
qed simp

lemma put_string_spec:
  "terminated s \<Longrightarrow> n + length (cstr s) < MAX_PRINT_SIZE \<Longrightarrow> n + length (cstr s) \<le> length b \<Longrightarrow>
   put_string s b n = Some (take n b @ cstr s @ drop (n + length (cstr s)) b, n + length (cstr s))"
proof (induction s arbitrary: b n)
  case (Cons c s)
  show ?case
  proof (cases "c = 0")
    case False
    with Cons.prems have "put_string s (b[n := c]) (n + 1) = Some (take (n + 1) (b[n := c]) @ cstr s @
        drop (n + 1 + length (cstr s)) (b[n := c]), n + 1 + length (cstr s))" by (intro Cons.IH) auto
    with False Cons.prems show ?thesis by (simp add: take_list_update_Suc)
  qed simp
qed simp

text \<open>The text of a number with its padding; \<open>pr\<close> characters have already been printed.\<close>

definition number_text :: "nat \<Rightarrow> nat \<Rightarrow> u8 \<Rightarrow> u8 \<Rightarrow> nat \<Rightarrow> buf" where
  "number_text base x pad_len pad_value pr =
     replicate (unat pad_len - (pr + length (digits_of base x))) pad_value @ digits_of base x"

lemma print_number_spec:
  assumes "2 \<le> base" and "length (digits_of base x) \<le> w" and "w \<le> 18"
    and "n + length (number_text base x l v pr) < MAX_PRINT_SIZE"
    and "n + length (number_text base x l v pr) \<le> length b"
  shows "print_number base w x l v pr b n =
    (let t = number_text base x l v pr in Some (take n b @ t @ drop (n + length t) b, n + length t))"
proof -
  let ?d = "digits_of base x" and ?p = "replicate (unat l - (pr + length (digits_of base x))) v"
  obtain ib where ib: "digits_loop base x w (replicate 18 0) pr = Some (ib, w - length ?d, pr + length ?d)"
    "drop (w - length ?d) (take w ib) = ?d"
    using digits_loop_spec [OF assms(1,2), of "replicate 18 0" pr] assms(3) by auto
  have p: "put_chars ?p b n = Some (take n b @ ?p @ drop (n + length ?p) b, n + length ?p)"
    using assms(4,5) by (intro put_chars_spec) (auto simp: number_text_def)
  have "put_chars ?d (take n b @ ?p @ drop (n + length ?p) b) (n + length ?p) =
    Some (take (n + length ?p) (take n b @ ?p @ drop (n + length ?p) b) @ ?d @
      drop (n + length ?p + length ?d) (take n b @ ?p @ drop (n + length ?p) b), n + length ?p + length ?d)"
    using assms(4,5) by (intro put_chars_spec) (auto simp: number_text_def)
  moreover have "take (n + length ?p) (take n b @ ?p @ drop (n + length ?p) b) = take n b @ ?p"
    using assms(5) by (simp add: number_text_def)
  moreover have "drop (n + length ?p + length ?d) (take n b @ ?p @ drop (n + length ?p) b) =
      drop (n + length ?p + length ?d) b"
    using assms(5) by (simp add: number_text_def ac_simps)
  ultimately show ?thesis unfolding print_number_def using ib p by (simp add: number_text_def add.assoc)
qed

section \<open>What a format means\<close>

text \<open>
  A format is a sequence of pieces: characters, and conversions with the digits that give the
  padding.
\<close>

datatype piece = Lit u8 | Dec "u8 list" | DecI "u8 list" | Hex "u8 list" | Ptr "u8 list" | Chr | Percent | Strg

fun piece_format :: "piece \<Rightarrow> buf" where
  "piece_format (Lit c) = [c]"
| "piece_format (Dec ds) = 37 # ds @ [100]"
| "piece_format (DecI ds) = 37 # ds @ [105]"
| "piece_format (Hex ds) = 37 # ds @ [120]"
| "piece_format (Ptr ds) = 37 # ds @ [112]"
| "piece_format Chr = [37, 99]"
| "piece_format Percent = [37, 37]"
| "piece_format Strg = [37, 115]"

fun piece_ok :: "piece \<Rightarrow> bool" where
  "piece_ok (Lit c) \<longleftrightarrow> c \<noteq> 0 \<and> c \<noteq> 37"
| "piece_ok (Dec ds) \<longleftrightarrow> list_all is_digit ds"
| "piece_ok (DecI ds) \<longleftrightarrow> list_all is_digit ds"
| "piece_ok (Hex ds) \<longleftrightarrow> list_all is_digit ds"
| "piece_ok (Ptr ds) \<longleftrightarrow> list_all is_digit ds"
| "piece_ok p \<longleftrightarrow> True"

definition pad_width :: "u8 list \<Rightarrow> u8" where
  "pad_width ds = foldl (\<lambda>l c. l * 10 + (c - 48)) 0 ds"

definition pad_fill :: "u8 list \<Rightarrow> u8" where
  "pad_fill ds = (if ds \<noteq> [] \<and> hd ds = 48 then 48 else 32)"

text \<open>A negative number begins with a minus sign, in front of the padding.\<close>

definition dec_text :: "u8 list \<Rightarrow> u32 \<Rightarrow> buf" where
  "dec_text ds x =
     (if x AND 0x80000000 \<noteq> 0 then 45 # number_text 10 (unat (- x)) (pad_width ds) (pad_fill ds) 1
      else number_text 10 (unat x) (pad_width ds) (pad_fill ds) 0)"

definition hex_text :: "u8 list \<Rightarrow> u32 \<Rightarrow> buf" where
  "hex_text ds x = number_text 16 (unat x) (pad_width ds) (pad_fill ds) 0"

text \<open>The text of a format with its arguments, if they are of the right kinds.\<close>

fun render :: "piece list \<Rightarrow> parg list \<Rightarrow> buf option" where
  "render [] args = Some []"
| "render (Lit c # ps) args = map_option ((#) c) (render ps args)"
| "render (Percent # ps) args = map_option ((#) 37) (render ps args)"
| "render (Dec ds # ps) (Num x # as) = map_option ((@) (dec_text ds x)) (render ps as)"
| "render (DecI ds # ps) (Num x # as) = map_option ((@) (dec_text ds x)) (render ps as)"
| "render (Hex ds # ps) (Num x # as) = map_option ((@) (hex_text ds x)) (render ps as)"
| "render (Ptr ds # ps) (Num x # as) = map_option ((@) (hex_text ds x)) (render ps as)"
| "render (Chr # ps) (Num x # as) = map_option ((#) (ucast x)) (render ps as)"
| "render (Strg # ps) (Str s # as) = (if terminated s then map_option ((@) (cstr s)) (render ps as) else None)"
| "render (_ # ps) _ = None"

lemma pad_loop_spec:
  "list_all is_digit ds \<Longrightarrow> \<not> is_digit c \<Longrightarrow>
   pad_loop (ds @ c # s) l = Some (c # s, foldl (\<lambda>l c. l * 10 + (c - 48)) l ds)"
  by (induction ds arbitrary: l) auto

lemma parse_pad_spec:
  "list_all is_digit ds \<Longrightarrow> \<not> is_digit c \<Longrightarrow>
   parse_pad (ds @ c # s) = Some (c # s, pad_width ds, pad_fill ds)"
  by (cases ds) (auto simp: pad_width_def pad_fill_def pad_loop_spec)

lemma not_digits [simp]:
  "\<not> is_digit 100" "\<not> is_digit 120" "\<not> is_digit 99" "\<not> is_digit 37" "\<not> is_digit 115"
  "\<not> is_digit 105" "\<not> is_digit 112"
  by (simp_all add: is_digit_def)

text \<open>Storing a text behind the first \<open>n\<close> characters of the buffer.\<close>

definition stored :: "buf \<Rightarrow> nat \<Rightarrow> buf \<Rightarrow> buf" where
  "stored b n t = take n b @ t @ drop (n + length t) b"

lemma stored_length: "n + length t \<le> length b \<Longrightarrow> length (stored b n t) = length b"
  by (simp add: stored_def)

lemma stored_stored:
  "n + length t + length u \<le> length b \<Longrightarrow> stored (stored b n t) (n + length t) u = stored b n (t @ u)"
  by (simp add: stored_def ac_simps)

lemma stored_one: "n < length b \<Longrightarrow> b[n := c] = stored b n [c]"
  by (simp add: stored_def upd_conv_take_nth_drop)

lemma u32_digits: "length (digits_of 10 (unat (x :: u32))) \<le> 10" "length (digits_of 16 (unat (x :: u32))) \<le> 10"
  using unat_u32_bound [of x] by (auto intro!: digits_of_length)

lemma convert_decimal_spec:
  assumes "n + length (dec_text ds x) < MAX_PRINT_SIZE" and "n + length (dec_text ds x) \<le> length b"
  shows "convert_decimal x s as (pad_width ds) (pad_fill ds) b n =
    Some (False, s, as, stored b n (dec_text ds x), n + length (dec_text ds x))"
proof (cases "x AND 0x80000000 = 0")
  case True
  then have t: "dec_text ds x = number_text 10 (unat x) (pad_width ds) (pad_fill ds) 0" by (simp add: dec_text_def)
  have "print_number 10 10 (unat x) (pad_width ds) (pad_fill ds) 0 b n =
      Some (stored b n (dec_text ds x), n + length (dec_text ds x))"
    using print_number_spec [of 10 "unat x" 10 n "pad_width ds" "pad_fill ds" 0 b] u32_digits(1) [of x] assms t
    by (simp add: stored_def Let_def)
  with True show ?thesis by (simp add: convert_decimal_def)
next
  case False
  let ?t = "number_text 10 (unat (- x)) (pad_width ds) (pad_fill ds) 1"
  have t: "dec_text ds x = 45 # ?t" using False by (simp add: dec_text_def)
  have e: "NOT x + 1 = - x" by (simp add: not_eq_complement)
  have n: "n < length b" "n + 1 \<noteq> MAX_PRINT_SIZE" using assms t by auto
  have "print_number 10 10 (unat (NOT x + 1)) (pad_width ds) (pad_fill ds) 1 (stored b n [45]) (n + 1) =
      Some (stored (stored b n [45]) (n + 1) ?t, n + 1 + length ?t)"
    unfolding e
    using print_number_spec [of 10 "unat (- x)" 10 "n + 1" "pad_width ds" "pad_fill ds" 1 "stored b n [45]"]
      u32_digits(1) [of "- x"] assms t stored_length [of n "[45]" b] n
    by (simp add: stored_def Let_def)
  moreover have "stored (stored b n [45]) (n + 1) ?t = stored b n (45 # ?t)"
    using stored_stored [of n "[45]" ?t b] assms t by simp
  ultimately show ?thesis using False n t by (simp add: convert_decimal_def stored_one)
qed

text \<open>The two letters for signed decimal and the two for hexadecimal numbers.\<close>

lemma format_decimal:
  assumes "list_all is_digit ds" and "c = 100 \<or> c = 105"
    and "n + length (dec_text ds x) < MAX_PRINT_SIZE" and "n + length (dec_text ds x) \<le> length b"
  shows "format_step 37 (ds @ c # s) (Num x # as) b n =
    Some (False, s, as, stored b n (dec_text ds x), n + length (dec_text ds x))"
proof -
  have "parse_pad (ds @ c # s) = Some (c # s, pad_width ds, pad_fill ds)"
    using assms(1,2) by (intro parse_pad_spec) auto
  then show ?thesis using convert_decimal_spec [OF assms(3,4), of s as] assms(2) by (auto simp: format_step_def)
qed

lemma format_hex:
  assumes "list_all is_digit ds" and "c = 120 \<or> c = 112"
    and "n + length (hex_text ds x) < MAX_PRINT_SIZE" and "n + length (hex_text ds x) \<le> length b"
  shows "format_step 37 (ds @ c # s) (Num x # as) b n =
    Some (False, s, as, stored b n (hex_text ds x), n + length (hex_text ds x))"
proof -
  have "parse_pad (ds @ c # s) = Some (c # s, pad_width ds, pad_fill ds)"
    using assms(1,2) by (intro parse_pad_spec) auto
  moreover have "print_number 16 10 (unat x) (pad_width ds) (pad_fill ds) 0 b n =
      Some (stored b n (hex_text ds x), n + length (hex_text ds x))"
    using print_number_spec [of 16 "unat x" 10 n "pad_width ds" "pad_fill ds" 0 b] u32_digits(2) [of x] assms
    by (simp add: stored_def Let_def hex_text_def)
  ultimately show ?thesis using assms(2) by (auto simp: format_step_def)
qed

lemma format_number:
  assumes "format_step 37 (ds @ c # s) (Num x # as) b n = Some (False, s, as, stored b n u, n + length u)"
    and "args = Num x # as" and "render ps as = Some v" and "t = u @ v" and "piece_format p = 37 # ds @ [c]"
  shows "\<exists>c s' as u v. piece_format p @ s = c # s' \<and> c \<noteq> 0 \<and> t = u @ v \<and> render ps as = Some v \<and>
    format_step c s' args b n = Some (False, s, as, stored b n u, n + length u)"
  using assms by (intro exI [of _ 37] exI [of _ "ds @ c # s"] exI [of _ as] exI [of _ u] exI [of _ v]) simp

text \<open>One piece: the step of the main loop stores its text.\<close>

lemma format_piece:
  assumes "piece_ok p" and "render (p # ps) args = Some t" and "n + length t < MAX_PRINT_SIZE" and "n + length t \<le> length b"
  shows "\<exists>c s' as u v. piece_format p @ s = c # s' \<and> c \<noteq> 0 \<and> t = u @ v \<and> render ps as = Some v \<and>
    format_step c s' args b n = Some (False, s, as, stored b n u, n + length u)"
proof (cases p)
  case (Lit c)
  with assms obtain v where "render ps args = Some v" "t = c # v" by auto
  with Lit assms show ?thesis
    by (intro exI [of _ c] exI [of _ s] exI [of _ args] exI [of _ "[c]"] exI [of _ v])
      (simp add: format_step_def convert_char_def stored_one)
next
  case (Dec ds)
  with assms obtain x as v where "args = Num x # as" "render ps as = Some v" "t = dec_text ds x @ v"
    by (cases args; cases "hd args") auto
  with Dec assms show ?thesis by (intro format_number [OF format_decimal [of ds 100]]) auto
next
  case (DecI ds)
  with assms obtain x as v where "args = Num x # as" "render ps as = Some v" "t = dec_text ds x @ v"
    by (cases args; cases "hd args") auto
  with DecI assms show ?thesis by (intro format_number [OF format_decimal [of ds 105]]) auto
next
  case (Hex ds)
  with assms obtain x as v where "args = Num x # as" "render ps as = Some v" "t = hex_text ds x @ v"
    by (cases args; cases "hd args") auto
  with Hex assms show ?thesis by (intro format_number [OF format_hex [of ds 120]]) auto
next
  case (Ptr ds)
  with assms obtain x as v where "args = Num x # as" "render ps as = Some v" "t = hex_text ds x @ v"
    by (cases args; cases "hd args") auto
  with Ptr assms show ?thesis by (intro format_number [OF format_hex [of ds 112]]) auto
next
  case Chr
  with assms obtain x as v where a: "args = Num x # as" "render ps as = Some v" "t = ucast x # v"
    by (cases args; cases "hd args") auto
  with Chr assms show ?thesis
    by (intro exI [of _ 37] exI [of _ "99 # s"] exI [of _ as] exI [of _ "[ucast x]"] exI [of _ v])
      (simp add: format_step_def convert_char_def stored_one)
next
  case Percent
  with assms obtain v where "render ps args = Some v" "t = 37 # v" by auto
  with Percent assms show ?thesis
    by (intro exI [of _ 37] exI [of _ "37 # s"] exI [of _ args] exI [of _ "[37]"] exI [of _ v])
      (simp add: format_step_def convert_char_def stored_one)
next
  case Strg
  with assms obtain x as v where a: "args = Str x # as" "terminated x" "render ps as = Some v" "t = cstr x @ v"
    by (cases args; cases "hd args") (auto split: if_splits)
  have "put_string x b n = Some (stored b n (cstr x), n + length (cstr x))"
    using put_string_spec [of x n b] assms a by (simp add: stored_def)
  with Strg a show ?thesis
    by (intro exI [of _ 37] exI [of _ "115 # s"] exI [of _ as] exI [of _ "cstr x"] exI [of _ v])
      (simp add: format_step_def)
qed

lemma vsprintf_loop_renders:
  "list_all piece_ok ps \<Longrightarrow> render ps args = Some t \<Longrightarrow> n + length t < 255 \<Longrightarrow> n + length t \<le> length b \<Longrightarrow>
   vsprintf_loop (concat (map piece_format ps) @ 0 # rest) args b n = Some (stored b n t, n + length t)"
proof (induction ps arbitrary: args t b n)
  case Nil
  then show ?case by (simp add: vsprintf_loop.simps(2) stored_def)
next
  case (Cons p ps)
  let ?s = "concat (map piece_format ps) @ 0 # rest"
  obtain c s' as u v where st: "piece_format p @ ?s = c # s'" "c \<noteq> 0" "t = u @ v" "render ps as = Some v"
    "format_step c s' args b n = Some (False, ?s, as, stored b n u, n + length u)"
    using format_piece [of p ps args t n b ?s] Cons.prems by (auto simp: MAX_PRINT_SIZE_def)
  have "vsprintf_loop ?s as (stored b n u) (n + length u) =
      Some (stored (stored b n u) (n + length u) v, n + length u + length v)"
    using Cons.prems st by (intro Cons.IH) (auto simp: stored_length)
  moreover have "stored (stored b n u) (n + length u) v = stored b n t"
    using stored_stored [of n u v b] Cons.prems(4) st(3) by simp
  moreover have "n + length u \<noteq> MAX_PRINT_SIZE - 1" using Cons.prems(3) st(3) by (simp add: MAX_PRINT_SIZE_def)
  ultimately have "vsprintf_loop (c # s') args b n = Some (stored b n t, n + length u + length v)"
    using st(2,5) by (simp add: vsprintf_loop.simps(2))
  with st(1,3) show ?case by simp
qed

section \<open>Properties\<close>

text \<open>
  C29: For every format made of characters and conversions, padded or not, and arguments of the right
  kinds whose text has less than 255 characters, \<^verbatim>\<open>vsprintf\<close> returns the length of the text and
  stores exactly the text, with signed decimal and hexadecimal numbers, characters, percent signs
  and strings, and nothing behind it.
\<close>

theorem vsprintf_renders:
  assumes "list_all piece_ok ps" and "render ps args = Some t" and "length t < 255" and "length t \<le> length b"
  shows "vsprintf b (concat (map piece_format ps) @ [0]) args = Some (t @ drop (length t) b, length t)"
  using vsprintf_loop_renders [OF assms(1,2), of 0 b "[]"] assms(3,4) by (simp add: vsprintf_def stored_def)

lemma small_digits:
  "digits_of 10 5 = [53]" "digits_of 10 42 = [52, 50]" "digits_of 16 255 = [102, 102]"
  by (simp_all add: digits_of.simps [of _ 5] digits_of.simps [of _ 42] digits_of.simps [of _ 4]
      digits_of.simps [of _ 255] digits_of.simps [of _ 15] digit_char_def)

theorem vsprintf_renders_witness:
  "vsprintf [9, 9, 9, 9, 9, 9, 9, 9, 9, 9]
     [97, 37, 100, 37, 48, 52, 120, 37, 115, 0] [Num (-42), Num 255, Str [104, 105, 0]] =
   Some ([97, 45, 52, 50, 48, 48, 102, 102, 104, 105], 10)"
proof -
  let ?ps = "[Lit 97, Dec [], Hex [48, 52], Strg]"
  have ok: "list_all piece_ok ?ps" by (simp add: is_digit_def)
  have m: "(-42 :: u32) AND 0x80000000 \<noteq> 0" by simp
  have z: "replicate 2 (48 :: u8) = [48, 48]" by (simp add: numeral_2_eq_2)
  have "dec_text [] (-42) = [45, 52, 50]" using m by (simp add: dec_text_def number_text_def pad_width_def small_digits)
  moreover have "hex_text [48, 52] 255 = [48, 48, 102, 102]"
    by (simp add: hex_text_def number_text_def pad_width_def pad_fill_def small_digits z)
  ultimately have "render ?ps [Num (-42), Num 255, Str [104, 105, 0]] =
      Some [97, 45, 52, 50, 48, 48, 102, 102, 104, 105]" by simp
  from vsprintf_renders [OF ok this, of "[9, 9, 9, 9, 9, 9, 9, 9, 9, 9]"] show ?thesis by simp
qed

lemma digit_value_bounds: "d < 10 \<Longrightarrow> ucast (digit_char d) - (48 :: u32) = of_nat (digit_value (digit_char d))"
proof -
  assume d: "d < 10"
  then have u: "unat (digit_char d) = d + 48" "digit_value (digit_char d) = d"
    using digit_char_unat [of d] digit_value_char [of d] by auto
  have "(ucast (digit_char d) :: u32) = of_nat (unat (digit_char d))" by simp
  then show ?thesis unfolding u by simp
qed

lemma atoi_loop_digits:
  "atoi_loop (digits_of 10 x @ 0 # rest) 0 = Some (of_nat x)"
proof -
  have *: "atoi_loop (ds @ 0 # rest) (of_nat r) = Some (of_nat (foldl (\<lambda>v c. v * 10 + digit_value c) r ds))"
    if "\<forall>c\<in>set ds. \<exists>d<10. c = digit_char d" for ds r
    using that
  proof (induction ds arbitrary: r)
    case (Cons c ds)
    then obtain d where d: "d < 10" "c = digit_char d" by auto
    then have "c \<noteq> 0" using digit_char_nonzero by simp
    moreover have "of_nat r * 10 + (ucast c - 48) = (of_nat (r * 10 + digit_value c) :: i32)"
      using digit_value_bounds [OF d(1)] d(2) by simp
    ultimately show ?case using Cons.IH [of "r * 10 + digit_value c"] Cons.prems by simp
  qed simp
  have "\<forall>c\<in>set (digits_of 10 x). \<exists>d<10. c = digit_char d" for x
  proof (induction "10 :: nat" x rule: digits_of.induct)
    case (1 x)
    have "\<exists>d<10. digit_char (x mod 10) = digit_char d" by (rule exI [of _ "x mod 10"]) simp
    then show ?case using 1 by (subst digits_of.simps) auto
  qed
  from * [OF this, of x 0] digits_of_value [of 10 x] show ?thesis by simp
qed

text \<open>
  Printing a number that is not negative with \<^verbatim>\<open>"%d"\<close> and reading it back with \<^verbatim>\<open>atoi\<close> gives
  the same number.
\<close>

lemma sprintf_atoi:
  assumes "0 \<le> sint x" and "11 \<le> length b"
  shows "\<exists>n s. vlibc_sprintf b [37, 100, 0] [Num x] = Some (n, s) \<and> atoi s = Some x"
proof -
  have "unat x < 2147483648" using assms(1) by (simp add: sint_nonneg_iff)
  then have "x AND 0x80000000 = 0" using tst_digit [of x 31] by simp
  then have t: "dec_text [] x = digits_of 10 (unat x)"
    by (simp add: dec_text_def number_text_def pad_width_def)
  let ?d = "digits_of 10 (unat x)"
  have l: "length ?d \<le> 10" by (rule u32_digits)
  have "vsprintf_loop (concat (map piece_format [Dec []]) @ 0 # []) [Num x] b 0 = Some (stored b 0 ?d, 0 + length ?d)"
    using l assms(2) t by (intro vsprintf_loop_renders) auto
  then have v: "vlibc_vsprintf b [37, 100, 0] [Num x] = Some (?d @ drop (length ?d) b, length ?d)"
    by (simp add: vlibc_vsprintf_def stored_def)
  have "arr_set (?d @ drop (length ?d) b) (length ?d) 0 = Some (?d @ 0 # drop (Suc (length ?d)) b)"
    using l assms(2) by (simp add: list_update_append Cons_nth_drop_Suc [symmetric])
  with v have "vlibc_sprintf b [37, 100, 0] [Num x] = Some (length ?d, ?d @ 0 # drop (Suc (length ?d)) b)"
    by (simp add: vlibc_sprintf_def)
  then show ?thesis using atoi_loop_digits [of "unat x" "drop (Suc (length ?d)) b"] by (auto simp: atoi_def)
qed

text \<open>
  A string argument that fills the buffer is cut off, but the loop goes on: the next character of
  the format is stored behind the buffer.
\<close>

lemma put_string_fills:
  "terminated s \<Longrightarrow> n < 256 \<Longrightarrow> length b = 256 \<Longrightarrow> 256 \<le> n + length (cstr s) \<Longrightarrow>
   \<exists>b'. put_string s b n = Some (b', 256) \<and> length b' = 256"
proof (induction s arbitrary: b n)
  case (Cons c s)
  then have "c \<noteq> 0" by auto
  show ?case
  proof (cases "n = 255")
    case True
    with Cons.prems \<open>c \<noteq> 0\<close> show ?thesis by (simp add: MAX_PRINT_SIZE_def)
  next
    case False
    with Cons.prems \<open>c \<noteq> 0\<close> have "\<exists>b'. put_string s (b[n := c]) (n + 1) = Some (b', 256) \<and> length b' = 256"
      by (intro Cons.IH) auto
    with False Cons.prems \<open>c \<noteq> 0\<close> show ?thesis by (simp add: MAX_PRINT_SIZE_def)
  qed
qed simp

lemma vsprintf_overruns:
  assumes "terminated s" and "256 \<le> length (cstr s)" and "length b = 256" and "c \<noteq> 0" and "c \<noteq> 37"
  shows "vsprintf b (37 # 115 # c # rest) [Str s] = None"
proof -
  obtain b' where "put_string s b 0 = Some (b', 256)" "length b' = 256"
    using put_string_fills [OF assms(1), of 0 b] assms(2,3) by auto
  then show ?thesis using assms(4,5)
    by (simp add: vsprintf_def vsprintf_loop.simps(2) format_step_def is_digit_def convert_char_def MAX_PRINT_SIZE_def)
qed

end
