(* ===== verification/Debug.thy ===== *)
theory Debug
  imports Printk Boot
begin

text \<open>
  The debugging aids of the kernel: the register and memory dumps of \<^verbatim>\<open>kernel/debug/panic.c\<close>, the direct output of
  \<^verbatim>\<open>kernel/debug/early_debug.c\<close>, the blinking of \<^verbatim>\<open>kernel/debug/emergency_blink.c\<close>, the memory test of
  \<^verbatim>\<open>kernel/lib/memory_benchmark.c\<close>, the list of reserved memory of \<^verbatim>\<open>kernel/boot/device_tree.c\<close>, the messages of
  \<^verbatim>\<open>kernel/boot/hardware_detect.c\<close> about the board and its command line, the handlers of
  \<^verbatim>\<open>kernel/interrupts/interrupts.c\<close> for events that the kernel does not expect, and the functions of
  \<^verbatim>\<open>kernel/drivers/serial/pl011_uart.c\<close> that no other part calls.
\<close>

section \<open>kernel/debug/panic.c\<close>

definition kprint :: "(u8 \<Rightarrow> 'd \<Rightarrow> 'd) \<Rightarrow> bool \<Rightarrow> buf \<Rightarrow> parg list \<Rightarrow> 'd \<Rightarrow> 'd option" where
  "kprint putc ready fmt args d = map_option snd (printk putc ready fmt args d)"

text \<open>A format with a newline or another character at the end.\<close>

definition with_end :: "string \<Rightarrow> u8 \<Rightarrow> buf" where
  "with_end s c = butlast (lit s) @ [c, 0]"

text \<open>The loop over the registers, which both dumps share; \<open>i\<close> is the next one, \<open>n\<close> are left.\<close>

fun dump_regs :: "(u8 \<Rightarrow> 'd \<Rightarrow> 'd) \<Rightarrow> bool \<Rightarrow> u32 list \<Rightarrow> nat \<Rightarrow> nat \<Rightarrow> 'd \<Rightarrow> 'd option" where
  "dump_regs putc ready r i 0 d = Some d"
| "dump_regs putc ready r i (Suc n) d =
     do { a \<leftarrow> arr_get r i;
          d1 \<leftarrow> kprint putc ready (with_end ''r%d: %x'' 9) [Num (of_nat i), Num a] d;
          d2 \<leftarrow> (if i \<noteq> 7 then
                   do { b \<leftarrow> arr_get r (i + 8); kprint putc ready (lit ''r%d: %x'') [Num (of_nat (i + 8)), Num b] d1 }
                 else Some d1);
          d3 \<leftarrow> kprint putc ready (with_end '''' 10) [] d2;
          dump_regs putc ready r (Suc i) n d3 }"

definition dump_saved_user_state :: "(u8 \<Rightarrow> 'd \<Rightarrow> 'd) \<Rightarrow> bool \<Rightarrow> pcb \<Rightarrow> 'd \<Rightarrow> 'd option" where
  "dump_saved_user_state putc ready proc d =
     do { d1 \<leftarrow> kprint putc ready (with_end ''Process %d dump! %s'' 10) [Num (p_pid proc), Str (p_name proc)] d;
          d2 \<leftarrow> kprint putc ready (butlast (lit ''pc: %x'') @ [9] @ with_end ''cpsr: %x'' 10)
            [Num (u_pc (user_state proc)), Num (u_spsr (user_state proc))] d1;
          dump_regs putc ready (u_r (user_state proc)) 0 8 d2 }"

definition dump_saved_kernel_state :: "(u8 \<Rightarrow> 'd \<Rightarrow> 'd) \<Rightarrow> bool \<Rightarrow> pcb \<Rightarrow> 'd \<Rightarrow> 'd option" where
  "dump_saved_kernel_state putc ready proc d =
     do { d1 \<leftarrow> kprint putc ready (with_end ''Kernel %d dump! %s'' 10) [Num (p_pid proc), Str (p_name proc)] d;
          dump_regs putc ready (k_r (kernel_state proc)) 0 8 d1 }"

text \<open>The list holds the registers 0 to 14 at the call.\<close>

definition dump_kernel_regs :: "(u8 \<Rightarrow> 'd \<Rightarrow> 'd) \<Rightarrow> bool \<Rightarrow> u32 list \<Rightarrow> 'd \<Rightarrow> 'd option" where
  "dump_kernel_regs putc ready r d =
     (if length r < 15 then None
      else do { d1 \<leftarrow> kprint putc ready (with_end ''Kernel register dump: PC=%x'' 10) [Num (r ! 14)] d;
                d2 \<leftarrow> kprint putc ready (with_end ''r0: %x r1: %x r2: %x r3: %x'' 10) (map Num (take 4 r)) d1;
                d3 \<leftarrow> kprint putc ready (with_end ''r4: %x r5: %x r6: %x r7: %x'' 10) (map Num (take 4 (drop 4 r))) d2;
                d4 \<leftarrow> kprint putc ready (with_end ''r8: %x r9: %x r10: %x r11: %x'' 10) (map Num (take 4 (drop 8 r))) d3;
                kprint putc ready (with_end ''r12: %x r13: %x r14: %x'' 10) (map Num (take 3 (drop 12 r))) d4 })"

text \<open>\<^verbatim>\<open>dump_memory\<close> from index \<open>i\<close> on, with \<open>n\<close> bytes left.\<close>

fun dump_bytes :: "(u8 \<Rightarrow> 'd \<Rightarrow> 'd) \<Rightarrow> bool \<Rightarrow> (ptr \<Rightarrow> u8) \<Rightarrow> ptr \<Rightarrow> nat \<Rightarrow> nat \<Rightarrow> 'd \<Rightarrow> 'd option" where
  "dump_bytes putc ready m p i 0 d = Some d"
| "dump_bytes putc ready m p i (Suc n) d =
     do { d1 \<leftarrow> (if i mod 16 = 0 then kprint putc ready (10 # lit ''%x: '') [Num p] d else Some d);
          d2 \<leftarrow> kprint putc ready (lit ''%x '') [Num (ucast (m p))] d1;
          dump_bytes putc ready m (p + 1) (Suc i) n d2 }"

definition dump_memory :: "(u8 \<Rightarrow> 'd \<Rightarrow> 'd) \<Rightarrow> bool \<Rightarrow> (ptr \<Rightarrow> u8) \<Rightarrow> u32 \<Rightarrow> u32 \<Rightarrow> 'd \<Rightarrow> 'd option" where
  "dump_memory putc ready m address sz d = dump_bytes putc ready m address 0 (unat sz) d"

section \<open>kernel/debug/early_debug.c\<close>

definition early_debug_init :: "'h board \<Rightarrow> 'h devices \<Rightarrow> u32 \<times> 'h devices" where
  "early_debug_init B d =
     (let d1 = bcm2835_write B UART0_CR 0x0 d;
          (old, d2) = bcm2835_read B GPIO_GPFSEL1 d1;
          old1 = (old AND NOT (push_bit 12 0x7)) OR push_bit 12 4;
          old2 = (old1 AND NOT (push_bit 15 0x7)) OR push_bit 15 4;
          d3 = bcm2835_write B GPIO_GPFSEL1 old2 d2;
          d4 = bcm2835_write B GPIO_GPPUD 0 d3;
          d5 = bcm2835_write B GPIO_GPPUDCLK0 (push_bit 14 1 OR push_bit 15 1) d4;
          d6 = bcm2835_write B GPIO_GPPUDCLK0 0 d5;
          d7 = bcm2835_write B UART0_ICR 0x7FF d6;
          d8 = bcm2835_write B UART0_IBRD 26 d7;
          d9 = bcm2835_write B UART0_FBRD 3 d8;
          d10 = bcm2835_write B UART0_LCRH (UART0_LCRH_FEN OR UART0_LCRH_WLEN_8BIT) d9;
          d11 = bcm2835_write B UART0_IMSC 0 d10;
          d12 = bcm2835_write B UART0_CR (UART0_CR_UARTEN OR UART0_CR_TXE OR UART0_CR_RXE) d11 in
      (0, d12))"

definition early_debug_putc :: "'h board \<Rightarrow> u8 \<Rightarrow> 'h devices \<Rightarrow> 'h devices option" where
  "early_debug_putc B byte d =
     do { d1 \<leftarrow> wait_flag B UART0_FR_TXFF d; Some (bcm2835_write B UART0_DR (ucast byte) d1) }"

text \<open>Sending the bytes \<open>i\<close> to \<open>i+n-1\<close> of a buffer through the port.\<close>

fun uart_write :: "'h board \<Rightarrow> buf \<Rightarrow> nat \<Rightarrow> nat \<Rightarrow> 'h devices \<Rightarrow> 'h devices option" where
  "uart_write B buffer i 0 d = Some d"
| "uart_write B buffer i (Suc n) d =
     do { c \<leftarrow> arr_get buffer i; d1 \<leftarrow> pl011_uart_putc B c d; uart_write B buffer (Suc i) n d1 }"

definition early_debug_write :: "'h board \<Rightarrow> buf \<Rightarrow> u32 \<Rightarrow> 'h devices \<Rightarrow> (i32 \<times> 'h devices) option" where
  "early_debug_write B buffer sz d = do { d1 \<leftarrow> uart_write B buffer 0 (unat sz) d; Some (sz, d1) }"

definition hex_upper :: "u8 \<Rightarrow> u8" where
  "hex_upper t = (if t < 10 then t + 48 else t + (65 - 10))"

definition early_debug_put_hex_char :: "'h board \<Rightarrow> u8 \<Rightarrow> 'h devices \<Rightarrow> 'h devices option" where
  "early_debug_put_hex_char B x d =
     do { d1 \<leftarrow> early_debug_putc B (hex_upper (drop_bit 4 x AND 0xf)) d;
          early_debug_putc B (hex_upper (x AND 0xf)) d1 }"

fun early_dump :: "'h board \<Rightarrow> (ptr \<Rightarrow> u8) \<Rightarrow> ptr \<Rightarrow> nat \<Rightarrow> nat \<Rightarrow> 'h devices \<Rightarrow> 'h devices option" where
  "early_dump B m p i 0 d = Some d"
| "early_dump B m p i (Suc n) d =
     do { d1 \<leftarrow> (if i mod 16 = 0 then do { a \<leftarrow> early_debug_putc B 13 d; early_debug_putc B 10 a } else Some d);
          d2 \<leftarrow> early_debug_put_hex_char B (m p) d1;
          d3 \<leftarrow> early_debug_putc B 32 d2;
          early_dump B m (p + 1) (Suc i) n d3 }"

definition early_debug_dump_memory :: "'h board \<Rightarrow> (ptr \<Rightarrow> u8) \<Rightarrow> u32 \<Rightarrow> u32 \<Rightarrow> 'h devices \<Rightarrow> 'h devices option" where
  "early_debug_dump_memory B m address sz d = early_dump B m address 0 (unat sz) d"

section \<open>kernel/drivers/serial/pl011_uart.c\<close>

definition pl011_uart_putc_extra :: "'h board \<Rightarrow> u8 \<Rightarrow> u32 \<Rightarrow> 'h devices \<Rightarrow> 'h devices option" where
  "pl011_uart_putc_extra B byte extra d =
     do { d1 \<leftarrow> wait_flag B UART0_FR_TXFF d; Some (bcm2835_write B UART0_DR (ucast byte + extra - extra) d1) }"

definition pl011_write :: "'h board \<Rightarrow> buf \<Rightarrow> u32 \<Rightarrow> 'h devices \<Rightarrow> (i32 \<times> 'h devices) option" where
  "pl011_write B buffer sz d = do { d1 \<leftarrow> uart_write B buffer 0 (unat sz) d; Some (sz, d1) }"

text \<open>The second result is \<^verbatim>\<open>pl011_uart_initialized\<close>.\<close>

definition old_pl011_uart_init :: "'h board \<Rightarrow> 'h devices \<Rightarrow> u32 \<times> i32 \<times> 'h devices" where
  "old_pl011_uart_init B d =
     (let d1 = bcm2835_write B UART0_CR 0x0 d;
          d2 = snd (gpio_request 14 d1);
          d3 = snd (gpio_request 15 d2);
          d4 = bcm2835_write B GPIO_GPPUD 0 d3;
          d5 = bcm2835_write B GPIO_GPPUDCLK0 (push_bit 14 1 OR push_bit 15 1) d4;
          d6 = bcm2835_write B GPIO_GPPUDCLK0 0 d5;
          d7 = bcm2835_write B UART0_ICR 0x7FF d6;
          d8 = bcm2835_write B UART0_IBRD 1 d7;
          d9 = bcm2835_write B UART0_FBRD 40 d8;
          d10 = bcm2835_write B UART0_LCRH (UART0_LCRH_FEN OR UART0_LCRH_WLEN_8BIT) d9;
          d11 = bcm2835_write B UART0_IMSC 0 d10;
          d12 = bcm2835_write B UART0_CR (UART0_CR_UARTEN OR UART0_CR_TXE OR UART0_CR_RXE) d11 in
      (0, 1, d12))"

section \<open>kernel/debug/emergency_blink.c\<close>

text \<open>
  The function never returns. \<open>emergency_blink B n\<close> is the state after \<open>n\<close> rounds of its loop. It has its own base
  address and counts its registers in words.
\<close>

definition EMERGENCY_GPIO :: u32 where "EMERGENCY_GPIO = 0x3f000000 + 0x200000"

definition gpio_word :: "u32 \<Rightarrow> u32" where
  "gpio_word i = EMERGENCY_GPIO + 4 * i"

definition emergency_setup :: "'h board \<Rightarrow> 'h \<Rightarrow> 'h" where
  "emergency_setup B h = (let (v, h1) = bus_read B (gpio_word 1) h in bus_write B (gpio_word 1) (v OR push_bit 24 1) h1)"

definition emergency_round :: "'h board \<Rightarrow> 'h \<Rightarrow> 'h" where
  "emergency_round B h = bus_write B (gpio_word 7) (push_bit 18 1) (bus_write B (gpio_word 10) (push_bit 18 1) h)"

definition emergency_blink :: "'h board \<Rightarrow> nat \<Rightarrow> 'h \<Rightarrow> 'h" where
  "emergency_blink B n h = (emergency_round B ^^ n) (emergency_setup B h)"

section \<open>kernel/lib/memory_benchmark.c\<close>

text \<open>The loop of \<^verbatim>\<open>memset_test\<close> from index \<open>i\<close> on, with \<open>n\<close> bytes left.\<close>

fun memset_check :: "(u8 \<Rightarrow> 'd \<Rightarrow> 'd) \<Rightarrow> bool \<Rightarrow> buf \<Rightarrow> u32 \<Rightarrow> nat \<Rightarrow> nat \<Rightarrow> nat \<Rightarrow> 'd \<Rightarrow> (nat \<times> 'd) option" where
  "memset_check putc ready b v i 0 errors d = Some (errors, d)"
| "memset_check putc ready b v i (Suc n) errors d =
     do { c \<leftarrow> arr_get b i;
          if ucast c \<noteq> v then
            do { d1 \<leftarrow> kprint putc ready (with_end ''Not match at offset %d (%x!=%x)!'' 10) [Num (of_nat i), Num (ucast c), Num v] d;
                 if errors + 1 > 20 then Some (errors + 1, d1) else memset_check putc ready b v (Suc i) n (errors + 1) d1 }
          else memset_check putc ready b v (Suc i) n errors d }"

definition memset_test :: "(u8 \<Rightarrow> 'd \<Rightarrow> 'd) \<Rightarrow> bool \<Rightarrow> buf \<Rightarrow> u32 \<Rightarrow> nat \<Rightarrow> 'd \<Rightarrow> 'd option" where
  "memset_test putc ready b v sz d =
     do { d1 \<leftarrow> kprint putc ready (9 # lit ''Testing: '') [] d;
          (errors, d2) \<leftarrow> memset_check putc ready b v 0 sz 0 d1;
          c \<leftarrow> arr_get b (sz + 1);
          (errors2, d3) \<leftarrow>
            (if ucast c = v then
               do { x \<leftarrow> kprint putc ready (with_end ''Value after the end has wrong value!'' 10) [] d2; Some (errors + 1, x) }
             else Some (errors, d2));
          if errors2 \<noteq> 0 then kprint putc ready (with_end ''Failed!'' 10) [] d3
          else kprint putc ready (with_end ''Passed!'' 10) [] d3 }"

definition BENCH_SIZE :: nat where "BENCH_SIZE = 1024 * 1024"
definition BENCH_ITERATIONS :: nat where "BENCH_ITERATIONS = 16"

fun repeat_fill :: "(buf \<Rightarrow> buf option) \<Rightarrow> nat \<Rightarrow> buf \<Rightarrow> buf option" where
  "repeat_fill fill 0 b = Some b"
| "repeat_fill fill (Suc n) b = do { b1 \<leftarrow> fill b; repeat_fill fill n b1 }"

text \<open>
  The three benchmarks have the same form. \<open>cycles\<close> are the two values of the cycle counter, \<open>div32\<close> the division
  routine of a file that the repository does not have; \<open>fill\<close> is one of the three routines.
\<close>

definition run_benchmark :: "(u8 \<Rightarrow> 'd \<Rightarrow> 'd) \<Rightarrow> bool \<Rightarrow> (u32 \<Rightarrow> u32 \<Rightarrow> u32) \<Rightarrow> u32 \<times> u32 \<Rightarrow> (buf \<Rightarrow> buf option) \<Rightarrow> u32 \<Rightarrow> buf \<Rightarrow> 'd \<Rightarrow> (buf \<times> 'd) option" where
  "run_benchmark putc ready div32 cycles fill v benchmark d =
     do { b \<leftarrow> repeat_fill fill BENCH_ITERATIONS benchmark;
          let took = snd cycles - fst cycles;
          d1 \<leftarrow> kprint putc ready (9 # with_end ''MEMSPEED: %d MB took %d cycles %dMB/s'' 10)
            [Num (of_nat (BENCH_SIZE * BENCH_ITERATIONS)), Num took, Num (div32 (16 * 700000) (took div 1000))] d;
          d2 \<leftarrow> memset_test putc ready b v BENCH_SIZE d1;
          Some (b, d2) }"

definition run_memory_benchmark :: "(u8 \<Rightarrow> 'd \<Rightarrow> 'd) \<Rightarrow> bool \<Rightarrow> (u32 \<Rightarrow> u32 \<Rightarrow> u32) \<Rightarrow> u32 \<times> u32 \<Rightarrow> buf \<Rightarrow> 'd \<Rightarrow> (buf \<times> 'd) option" where
  "run_memory_benchmark putc ready div32 cycles benchmark d =
     run_benchmark putc ready div32 cycles (\<lambda>b. memset_byte b 0xfe BENCH_SIZE) 0xfe benchmark d"

text \<open>\<open>addr\<close> is the address of the array, a multiple of 64.\<close>

definition run_memory_benchmark32 :: "(u8 \<Rightarrow> 'd \<Rightarrow> 'd) \<Rightarrow> bool \<Rightarrow> (u32 \<Rightarrow> u32 \<Rightarrow> u32) \<Rightarrow> u32 \<times> u32 \<Rightarrow> u32 \<Rightarrow> buf \<Rightarrow> 'd \<Rightarrow> (buf \<times> 'd) option" where
  "run_memory_benchmark32 putc ready div32 cycles addr benchmark d =
     run_benchmark putc ready div32 cycles (\<lambda>b. memset_4byte addr b 0xa5 (of_nat BENCH_SIZE)) 0xa5 benchmark d"

definition run_memory_benchmark_asm :: "(u8 \<Rightarrow> 'd \<Rightarrow> 'd) \<Rightarrow> bool \<Rightarrow> (u32 \<Rightarrow> u32 \<Rightarrow> u32) \<Rightarrow> u32 \<times> u32 \<Rightarrow> u32 \<Rightarrow> buf \<Rightarrow> 'd \<Rightarrow> (buf \<times> 'd) option" where
  "run_memory_benchmark_asm putc ready div32 cycles addr benchmark d =
     run_benchmark putc ready div32 cycles (\<lambda>b. memset addr b 0x78 (of_nat BENCH_SIZE)) 0x78 benchmark d"

text \<open>
  The functions that switch the caches on have empty bodies. \<open>cycles\<close> gives the values of the counter for the six runs,
  \<open>fun_addr\<close> is the address of \<^verbatim>\<open>memset\<close>.
\<close>

definition memset_benchmark :: "(u8 \<Rightarrow> 'd \<Rightarrow> 'd) \<Rightarrow> bool \<Rightarrow> (u32 \<Rightarrow> u32 \<Rightarrow> u32) \<Rightarrow> (nat \<Rightarrow> u32 \<times> u32) \<Rightarrow> u32 \<Rightarrow> u32 \<Rightarrow> buf \<Rightarrow> 'd \<Rightarrow> (buf \<times> 'd) option" where
  "memset_benchmark putc ready div32 cycles addr fun_addr b0 d =
     do { d1 \<leftarrow> kprint putc ready (10 # with_end ''Running Memory benchmarks %x %x'' 10) [Num addr, Num fun_addr] d;
          d2 \<leftarrow> kprint putc ready (with_end ''Default memory:'' 10) [] d1;
          (b1, d3) \<leftarrow> run_memory_benchmark putc ready div32 (cycles 0) b0 d2;
          d4 \<leftarrow> kprint putc ready (with_end ''L1 icache enabled:'' 10) [] d3;
          (b2, d5) \<leftarrow> run_memory_benchmark putc ready div32 (cycles 1) b1 d4;
          d6 \<leftarrow> kprint putc ready (with_end ''Branch predictor enabled:'' 10) [] d5;
          (b3, d7) \<leftarrow> run_memory_benchmark putc ready div32 (cycles 2) b2 d6;
          d8 \<leftarrow> kprint putc ready (with_end ''L1 dcache enabled:'' 10) [] d7;
          (b4, d9) \<leftarrow> run_memory_benchmark putc ready div32 (cycles 3) b3 d8;
          d10 \<leftarrow> kprint putc ready (with_end ''32-bit copy'' 10) [] d9;
          (b5, d11) \<leftarrow> run_memory_benchmark32 putc ready div32 (cycles 4) addr b4 d10;
          d12 \<leftarrow> kprint putc ready (with_end ''Assembly 64-byt copy'' 10) [] d11;
          run_memory_benchmark_asm putc ready div32 (cycles 5) addr b5 d12 }"

section \<open>kernel/boot/device_tree.c\<close>

text \<open>
  The macro \<^verbatim>\<open>PRIx64\<close> of the source already begins with a percent sign. A 64-bit number is passed in two words, of
  which no conversion takes any; they are a single argument here.
\<close>

definition blob_word64 :: "buf \<Rightarrow> nat \<Rightarrow> u64 option" where
  "blob_word64 b a =
     (if a + 8 \<le> length b then
        Some (ucast (le_word (take 4 (drop a b))) OR push_bit 32 (ucast (le_word (take 4 (drop (a + 4) b)))))
      else None)"

partial_function (option) reserved_loop :: "(u8 \<Rightarrow> 'd \<Rightarrow> 'd) \<Rightarrow> bool \<Rightarrow> buf \<Rightarrow> nat \<Rightarrow> 'd \<Rightarrow> 'd option" where
  [code]: "reserved_loop putc ready b a d =
     do { x \<leftarrow> blob_word64 b a;
          y \<leftarrow> blob_word64 b (a + 8);
          if x = 0 \<and> y = 0 then Some d
          else do { d1 \<leftarrow> kprint putc ready (9 # with_end ''0x%%llx bytes starting at address 0x%%llx'' 10)
                      [Num64 (big_to_little64 y), Num64 (big_to_little64 x)] d;
                    reserved_loop putc ready b (a + 16) d1 } }"

definition devicetree_find_reserved :: "(u8 \<Rightarrow> 'd \<Rightarrow> 'd) \<Rightarrow> bool \<Rightarrow> device_tree_type \<Rightarrow> 'd \<Rightarrow> (i32 \<times> 'd) option" where
  "devicetree_find_reserved putc ready dt d =
     (if dt_valid dt = 0 then Some (- ENODEV, d)
      else do { d1 \<leftarrow> kprint putc ready (with_end ''Device tree:'' 10) [] d;
                d2 \<leftarrow> kprint putc ready (9 # with_end ''Magic: 0x%x'' 10) [Num (dt_magic dt)] d1;
                d3 \<leftarrow> kprint putc ready (9 # with_end ''Totalsize:  %d'' 10) [Num (dt_totalsize dt)] d2;
                d4 \<leftarrow> kprint putc ready (9 # with_end ''Off Struct: 0x%x'' 10) [Num (off_struct dt)] d3;
                d5 \<leftarrow> kprint putc ready (9 # with_end ''Off strs:   0x%x'' 10) [Num (off_strs dt)] d4;
                d6 \<leftarrow> kprint putc ready (9 # with_end ''Off rsvmap: 0x%x'' 10) [Num (off_rsvmap dt)] d5;
                d7 \<leftarrow> kprint putc ready (9 # with_end ''Version:    %d'' 10) [Num (dt_version dt)] d6;
                d8 \<leftarrow> kprint putc ready (9 # with_end ''LastCompVer:%d'' 10) [Num (last_comp_ver dt)] d7;
                d9 \<leftarrow> (if dt_version dt \<ge> 2 then kprint putc ready (9 # with_end ''BootCpuID: %d'' 10) [Num (boot_cpu_id dt)] d8 else Some d8);
                d10 \<leftarrow> (if dt_version dt \<ge> 3 then kprint putc ready (9 # with_end ''SizeStrs: %d'' 10) [Num (size_strs dt)] d9 else Some d9);
                d11 \<leftarrow> kprint putc ready (with_end ''Reserved memory:'' 10) [] d10;
                d12 \<leftarrow> reserved_loop putc ready (dt_blob dt) (unat (off_rsvmap dt)) d11;
                Some (0, d12) })"


section \<open>kernel/boot/hardware_detect.c\<close>

definition model_text :: "u32 \<Rightarrow> u32 \<Rightarrow> buf \<times> parg list" where
  "model_text t revision =
     (if t = RPI_MODEL_A then (lit ''A'', [])
      else if t = RPI_MODEL_APLUS then (lit ''A+'', [])
      else if t = RPI_MODEL_B then (lit ''B'', [])
      else if t = RPI_MODEL_BPLUS then (lit ''B+'', [])
      else if t = RPI_MODEL_2B then (lit ''2B'', [])
      else if t = RPI_MODEL_2B_V1_2 then (lit ''2B v1.2'', [])
      else if t = RPI_MODEL_3B then (lit ''3B'', [])
      else if t = RPI_MODEL_3BPLUS then (lit ''3B+'', [])
      else if t = RPI_MODEL_3APLUS then (lit ''3A+'', [])
      else if t = RPI_MODEL_ZERO then (lit ''Zero'', [])
      else if t = RPI_MODEL_ZERO_W then (lit ''Zero W'', [])
      else if t = RPI_MODEL_ZERO_2W then (lit ''Zero 2W'', [])
      else if t = RPI_COMPUTE_MODULE1 then (lit ''Compute Module 1'', [])
      else if t = RPI_COMPUTE_MODULE3 then (lit ''Compute Module 3'', [])
      else if t = RPI_MODEL_4B then (lit ''4B'', [])
      else (lit ''Unknown %x'', [Num revision]))"

text \<open>\<open>string0\<close> is the uninitialised local array of 128 bytes.\<close>

definition hardware_print_model :: "(u8 \<Rightarrow> 'd \<Rightarrow> 'd) \<Rightarrow> bool \<Rightarrow> buf \<Rightarrow> u32 \<Rightarrow> u32 \<Rightarrow> boot_info \<Rightarrow> 'd \<Rightarrow> 'd option" where
  "hardware_print_model putc ready string0 type version i d =
     do { d1 \<leftarrow> kprint putc ready (9 # lit ''Hardware version: %x '') [Num version] d;
          d2 \<leftarrow> kprint putc ready (if version = 0xc42 then lit ''(Raspberry Pi)'' else lit ''(Unknown Hardware)'') [] d1;
          d3 \<leftarrow> kprint putc ready [10, 0] [] d2;
          d4 \<leftarrow> (if device_tree_found i \<noteq> 0 then
                   do { (r, s) \<leftarrow> devicetree_find_string (tree i) None (lit ''model'') string0;
                        kprint putc ready (9 # with_end ''Device Tree reports: %s'' 10) [Str s] d3 }
                 else Some d3);
          d5 \<leftarrow> kprint putc ready (9 # lit ''We detect as: Model '') [] d4;
          d6 \<leftarrow> kprint putc ready (fst (model_text type (hardware_revision i))) (snd (model_text type (hardware_revision i))) d5;
          kprint putc ready [10, 0] [] d6 }"

text \<open>\<open>cmdline\<close> is the static array of 1024 bytes. The boot tags are disabled, so \<^verbatim>\<open>atags_found\<close> is 0.\<close>

definition CMDLINESIZE :: nat where "CMDLINESIZE = 1024"

definition hardware_print_commandline :: "(u8 \<Rightarrow> 'd \<Rightarrow> 'd) \<Rightarrow> bool \<Rightarrow> buf \<Rightarrow> boot_info \<Rightarrow> 'd \<Rightarrow> (buf \<times> 'd) option" where
  "hardware_print_commandline putc ready cmdline i d =
     do { d1 \<leftarrow> kprint putc ready (with_end ''Command line from bootloader:'' 10) [] d;
          if device_tree_found i \<noteq> 0 then
            do { (r, s) \<leftarrow> devicetree_find_string (tree i) (Some (lit ''chosen'')) (lit ''bootargs'') cmdline;
                 d2 \<leftarrow> kprint putc ready (with_end ''%s'' 10) [Str s] d1;
                 Some (s, d2) }
          else Some (cmdline, d1) }"

section \<open>kernel/interrupts/interrupts.c\<close>

definition fiq_handler :: "(u8 \<Rightarrow> 'd \<Rightarrow> 'd) \<Rightarrow> bool \<Rightarrow> 'd \<Rightarrow> 'd option" where
  "fiq_handler putc ready d = kprint putc ready (with_end ''UNHANDLED FIQ'' 10) [] d"

definition abort_handler :: "(u8 \<Rightarrow> 'd \<Rightarrow> 'd) \<Rightarrow> bool \<Rightarrow> 'd \<Rightarrow> 'd option" where
  "abort_handler putc ready d = kprint putc ready (with_end ''UNHANDLED ABORT'' 10) [] d"

definition undef_handler :: "(u8 \<Rightarrow> 'd \<Rightarrow> 'd) \<Rightarrow> bool \<Rightarrow> u32 \<Rightarrow> 'd \<Rightarrow> 'd option" where
  "undef_handler putc ready lr d = kprint putc ready (with_end ''UNHANDLED UNDEF %x'' 10) [Num lr] d"

section \<open>What the aids show\<close>

text \<open>The direct memory dump sends its text character by character: two upper-case digits for every byte, 16 to a line.\<close>

fun put_all :: "'h board \<Rightarrow> buf \<Rightarrow> 'h devices \<Rightarrow> 'h devices option" where
  "put_all B [] d = Some d"
| "put_all B (c # cs) d = do { d1 \<leftarrow> pl011_uart_putc B c d; put_all B cs d1 }"

definition hex_byte :: "u8 \<Rightarrow> buf" where
  "hex_byte x = [hex_upper (drop_bit 4 x), hex_upper (x AND 0xf)]"

definition dump_item :: "(ptr \<Rightarrow> u8) \<Rightarrow> ptr \<Rightarrow> nat \<Rightarrow> buf" where
  "dump_item m p i = (if i mod 16 = 0 then [13, 10] else []) @ hex_byte (m (p + of_nat i)) @ [32]"

definition early_dump_text :: "(ptr \<Rightarrow> u8) \<Rightarrow> ptr \<Rightarrow> nat \<Rightarrow> buf" where
  "early_dump_text m p n =
     concat (map (dump_item m p) [0..<n])"

lemma put_all_append: "put_all B (a @ b) d = do { d1 \<leftarrow> put_all B a d; put_all B b d1 }"
proof (induction a arbitrary: d)
  case (Cons c a)
  then show ?case by (cases "pl011_uart_putc B c d") simp_all
qed simp

lemma nibble_high: "drop_bit 4 (x :: u8) AND 0xf = drop_bit 4 x"
proof (rule bit_eqI)
  fix n
  show "bit (drop_bit 4 x AND 0xf) n = bit (drop_bit 4 x) n"
    using bit_imp_le_length [of x "n + 4"] by (auto simp: bit_simps numeral_eq_Suc less_Suc_eq bit_Suc)
qed

lemma early_dump_step:
  "early_dump B m (p + of_nat i) i (Suc n) d =
   do { d1 \<leftarrow> put_all B (dump_item m p i) d; early_dump B m (p + of_nat (Suc i)) (Suc i) n d1 }"
proof -
  have e: "early_debug_putc = pl011_uart_putc" by (simp add: fun_eq_iff early_debug_putc_def pl011_uart_putc_def)
  have n: "p + of_nat i + 1 = p + of_nat (Suc i)" by simp
  have b: "Option.bind x Some = x" for x :: "'a devices option" by (cases x) simp_all
  show ?thesis unfolding early_dump.simps n
    by (cases "i mod 16 = 0")
      (simp_all add: e early_debug_put_hex_char_def hex_byte_def dump_item_def nibble_high b)
qed

lemma early_dump_spec:
  "early_dump B m (p + of_nat i) i n d = put_all B (concat (map (dump_item m p) [i..<i + n])) d"
proof (induction n arbitrary: i d)
  case (Suc n)
  have u: "[i..<i + Suc n] = i # [Suc i..<Suc i + n]" by (simp add: upt_rec)
  show ?case unfolding u early_dump_step Suc.IH by (simp add: put_all_append)
qed simp

lemma early_dump_sends: "early_debug_dump_memory B m address sz d = put_all B (early_dump_text m address (unat sz)) d"
  using early_dump_spec [of B m address 0 "unat sz" d] by (simp add: early_debug_dump_memory_def early_dump_text_def)

text \<open>The memory test does not look at the byte behind the block, only at the one after it.\<close>

lemma memset_check_ignores:
  "i + n \<le> k \<Longrightarrow> memset_check putc ready (b[k := x]) v i n errors d = memset_check putc ready b v i n errors d"
proof (induction n arbitrary: i errors d)
  case (Suc n)
  then have "arr_get (b[k := x]) i = arr_get b i" by (simp add: arr_get_def)
  moreover have "memset_check putc ready (b[k := x]) v (Suc i) n e d' = memset_check putc ready b v (Suc i) n e d'" for e d'
    using Suc by simp
  ultimately show ?case by (simp cong: if_cong)
qed simp

lemma memset_test_misses_overrun:
  "memset_test putc ready (b[sz := x]) v sz d = memset_test putc ready b v sz d"
proof -
  have "arr_get (b[sz := x]) (sz + 1) = arr_get b (sz + 1)" by (simp add: arr_get_def)
  then show ?thesis by (simp add: memset_test_def memset_check_ignores cong: if_cong)
qed

text \<open>The line about a reserved area shows the conversion instead of the numbers, whatever they are.\<close>

lemma reserved_text:
  "kprint putc True (9 # with_end ''0x%%llx bytes starting at address 0x%%llx'' 10) args d =
   Some (fold putc (crlf (9 # butlast (with_end ''0x%llx bytes starting at address 0x%llx'' 10))) d)"
proof -
  let ?t = "9 # butlast (with_end ''0x%llx bytes starting at address 0x%llx'' 10)"
  let ?ps = "map (\<lambda>c. if c = 37 then Percent else Lit c) ?t" and ?b = "replicate MAX_PRINT_SIZE 0"
  have r: "render (map (\<lambda>c. if c = 37 then Percent else Lit c) t) args = Some t" for t by (induction t) auto
  have "concat (map piece_format ?ps) @ [0] = 9 # with_end ''0x%%llx bytes starting at address 0x%%llx'' 10"
    by (simp add: with_end_def lit_def)
  moreover have "list_all piece_ok ?ps" by (simp add: with_end_def lit_def)
  moreover have l: "length ?t = 41" by (simp add: with_end_def lit_def)
  ultimately have "vsprintf ?b (9 # with_end ''0x%%llx bytes starting at address 0x%%llx'' 10) args = Some (stored ?b 0 ?t, 41)"
    using vsprintf_loop_renders [of ?ps args ?t 0 ?b "[]"] r [of ?t] by (simp only: vsprintf_def) (simp add: MAX_PRINT_SIZE_def)
  moreover have "take 41 (stored ?b 0 ?t) = ?t" "41 \<le> length (stored ?b 0 ?t)"
    unfolding stored_def using l by (simp_all add: MAX_PRINT_SIZE_def)
  ultimately show ?thesis
    using console_write_sends [of 41 "stored ?b 0 ?t" putc d] by (simp only: kprint_def printk_def) simp
qed

text \<open>
  A command line of 256 characters or more fills the buffer of \<^verbatim>\<open>printk\<close>, and the newline of the format is stored
  behind it, although the array for the line has 1024 bytes.
\<close>

lemma commandline_overruns:
  assumes "devicetree_find_string (tree i) (Some (lit ''chosen'')) (lit ''bootargs'') cmdline = Some (r, s)"
    and "device_tree_found i \<noteq> 0" and "terminated s" and "256 \<le> length (cstr s)"
  shows "hardware_print_commandline putc ready cmdline i d = None"
proof -
  have "with_end ''%s'' 10 = 37 # 115 # 10 # [0]" by (simp add: with_end_def lit_def)
  then have "printk putc ready (with_end ''%s'' 10) [Str s] x = None" for x
    using vsprintf_overruns [OF assms(3,4), of "replicate 256 0" 10 "[0]"] by (simp add: printk_def MAX_PRINT_SIZE_def)
  with assms(1,2) show ?thesis
    by (cases "kprint putc ready (with_end ''Command line from bootloader:'' 10) [] d")
      (simp_all add: hardware_print_commandline_def kprint_def)
qed

end
