(* ===== verification/Atags.thy ===== *)
theory Atags
  imports Printk Syscalls
begin

text \<open>
  The boot tags of \<^verbatim>\<open>kernel/boot/atags.c\<close>: a list of tagged records that a boot loader leaves in memory. The memory is
  the list of its 32-bit words, a position in it is an index. The switch of \<^verbatim>\<open>atags_detect\<close> and \<^verbatim>\<open>atags_dump\<close> does not
  step over a tag that it does not know, so their loops may never end; then, and when they leave the memory, there is no
  result.
\<close>

section \<open>kernel/include/boot/atags.h\<close>

record atag_info_t =
  revision :: u32
  ramsize :: u32
  atag_hardware_type :: u32
  framebuffer_x :: u32
  framebuffer_y :: u32

definition ATAG_NONE :: u32 where "ATAG_NONE = 0x00000000"
definition ATAG_CORE :: u32 where "ATAG_CORE = 0x54410001"
definition ATAG_MEM :: u32 where "ATAG_MEM = 0x54410002"
definition ATAG_VIDEOTEXT :: u32 where "ATAG_VIDEOTEXT = 0x54410003"
definition ATAG_RAMDISK :: u32 where "ATAG_RAMDISK = 0x54410004"
definition ATAG_INITRD2 :: u32 where "ATAG_INITRD2 = 0x54420005"
definition ATAG_SERIAL :: u32 where "ATAG_SERIAL = 0x54410006"
definition ATAG_REVISION :: u32 where "ATAG_REVISION = 0x54410007"
definition ATAG_VIDEOLFB :: u32 where "ATAG_VIDEOLFB = 0x54410008"
definition ATAG_CMDLINE :: u32 where "ATAG_CMDLINE = 0x54410009"

lemmas atag_defs [c_const] = ATAG_NONE_def ATAG_CORE_def ATAG_MEM_def ATAG_VIDEOTEXT_def ATAG_RAMDISK_def ATAG_INITRD2_def
  ATAG_SERIAL_def ATAG_REVISION_def ATAG_VIDEOLFB_def ATAG_CMDLINE_def

section \<open>The command line\<close>

text \<open>The inner loop of \<^verbatim>\<open>parse_cmdline_int\<close>, from the position \<open>i\<close> on.\<close>

function parse_digits :: "buf \<Rightarrow> nat \<Rightarrow> nat \<Rightarrow> u32 \<Rightarrow> nat \<Rightarrow> i32 \<Rightarrow> i32 option" where
  "parse_digits cmdline cmdline_len key_len base i result =
     (if cmdline_len < i + key_len then Some result
      else do { c \<leftarrow> arr_get cmdline i;
                let digit = (ucast c :: u32);
                if digit = 32 \<or> digit = 0 then Some result
                else parse_digits cmdline cmdline_len key_len base (Suc i)
                       (result * base + (if digit \<le> 57 then digit - 48 else digit - 97 + 10)) })"
  by pat_completeness auto
termination
  by (relation "measure (\<lambda>(s, l, kl, b, i, r). length s - i)") (auto simp: arr_get_eq_Some)

text \<open>What follows the key: \<open>j\<close> is the position behind the equals sign.\<close>

definition parse_value :: "buf \<Rightarrow> nat \<Rightarrow> nat \<Rightarrow> nat \<Rightarrow> i32 option" where
  "parse_value cmdline cmdline_len key_len j =
     do { a \<leftarrow> arr_get cmdline j;
          hex \<leftarrow> (if a = 48 then do { b \<leftarrow> arr_get cmdline (j + 1); Some (b = 120) } else Some False);
          if hex then parse_digits cmdline cmdline_len key_len 16 (j + 2) 0
          else parse_digits cmdline cmdline_len key_len 10 j 0 }"

function parse_from :: "buf \<Rightarrow> buf \<Rightarrow> nat \<Rightarrow> nat \<Rightarrow> nat \<Rightarrow> i32 option" where
  "parse_from cmdline key cmdline_len key_len i =
     do { c \<leftarrow> arr_get cmdline i;
          if c = 0 then Some 0
          else if cmdline_len < i + key_len then Some 0
          else do { r \<leftarrow> strncmp key (drop i cmdline) key_len;
                    if r = 0 then parse_value cmdline cmdline_len key_len (i + key_len + 1)
                    else parse_from cmdline key cmdline_len key_len (Suc i) } }"
  by pat_completeness auto
termination
  by (relation "measure (\<lambda>(s, k, l, kl, i). length s - i)") (auto simp: arr_get_eq_Some)

declare parse_digits.simps [simp del] parse_from.simps [simp del]

definition parse_cmdline_int :: "buf \<Rightarrow> buf \<Rightarrow> i32 option" where
  "parse_cmdline_int cmdline key =
     do { cmdline_len \<leftarrow> strlen cmdline; key_len \<leftarrow> strlen key; parse_from cmdline key cmdline_len key_len 0 }"

section \<open>The list of tags\<close>

text \<open>A message that ends with a newline.\<close>

definition message :: "string \<Rightarrow> buf" where
  "message s = butlast (lit s) @ [10, 0]"

text \<open>The bytes of the words from an index on.\<close>

definition words_text :: "u32 list \<Rightarrow> nat \<Rightarrow> buf" where
  "words_text m i = concat (map word_bytes (drop i m))"

text \<open>
  One round of the switch in \<^verbatim>\<open>atags_detect\<close>, for every tag but \<^term>\<open>ATAG_NONE\<close>. The first result says whether
  \<^verbatim>\<open>tags+=size\<close> is done.
\<close>

definition detect_tag :: "(u8 \<Rightarrow> 'd \<Rightarrow> 'd) \<Rightarrow> bool \<Rightarrow> u32 list \<Rightarrow> nat \<Rightarrow> u32 \<Rightarrow> atag_info_t \<Rightarrow> 'd \<Rightarrow> (bool \<times> atag_info_t \<times> 'd) option" where
  "detect_tag putc ready m i tag info d =
     (if tag = ATAG_MEM then
        do { total_ram \<leftarrow> arr_get m (i + 2);
             begin_at \<leftarrow> arr_get m (i + 3);
             d1 \<leftarrow> (if begin_at \<noteq> 0 then
                      map_option snd (printk putc ready (message ''Warning!  We do not handle memory not starting at zero!'') [] d)
                    else Some d);
             Some (True, info\<lparr>ramsize := total_ram\<rparr>, d1) }
      else if tag = ATAG_CMDLINE then
        do { let cmdline = words_text m (i + 2);
             x \<leftarrow> parse_cmdline_int cmdline (lit ''fbwidth'');
             y \<leftarrow> parse_cmdline_int cmdline (lit ''fbheight'');
             r \<leftarrow> parse_cmdline_int cmdline (lit ''rev'');
             Some (True, info\<lparr>framebuffer_x := x, framebuffer_y := y, revision := r\<rparr>, d) }
      else if tag \<in> {ATAG_CORE, ATAG_VIDEOTEXT, ATAG_RAMDISK, ATAG_INITRD2, ATAG_SERIAL, ATAG_REVISION, ATAG_VIDEOLFB} then
        Some (True, info, d)
      else do { (n, d1) \<leftarrow> printk putc ready (message ''ERROR! Unknown atag'') [] d; Some (False, info, d1) })"

partial_function (option) detect_loop :: "(u8 \<Rightarrow> 'd \<Rightarrow> 'd) \<Rightarrow> bool \<Rightarrow> u32 list \<Rightarrow> nat \<Rightarrow> atag_info_t \<Rightarrow> 'd \<Rightarrow> (atag_info_t \<times> 'd) option" where
  [code]: "detect_loop putc ready m i info d =
     do { size \<leftarrow> arr_get m i;
          tag \<leftarrow> arr_get m (i + 1);
          if tag = ATAG_NONE then Some (info, d)
          else do { (advance, info1, d1) \<leftarrow> detect_tag putc ready m i tag info d;
                    detect_loop putc ready m (if advance then i + unat size else i) info1 d1 } }"

definition no_atags :: atag_info_t where
  "no_atags = \<lparr>revision = 0, ramsize = 0, atag_hardware_type = 0, framebuffer_x = 0, framebuffer_y = 0\<rparr>"

definition atags_detect :: "(u8 \<Rightarrow> 'd \<Rightarrow> 'd) \<Rightarrow> bool \<Rightarrow> u32 list \<Rightarrow> nat \<Rightarrow> 'd \<Rightarrow> (atag_info_t \<times> 'd) option" where
  "atags_detect putc ready m atags d = detect_loop putc ready m atags no_atags d"

definition atags_get_memory :: "atag_info_t \<Rightarrow> u32" where
  "atags_get_memory atag_info = ramsize atag_info"

definition atags_get_revision :: "atag_info_t \<Rightarrow> u32" where
  "atags_get_revision atag_info = revision atag_info"

section \<open>Printing the tags\<close>

text \<open>The loop that prints the command line in pieces; \<open>len\<close> is the number of characters that are left.\<close>

function dump_cmdline :: "(u8 \<Rightarrow> 'd \<Rightarrow> 'd) \<Rightarrow> bool \<Rightarrow> buf \<Rightarrow> nat \<Rightarrow> nat \<Rightarrow> 'd \<Rightarrow> 'd option" where
  "dump_cmdline putc ready cmdline len cnt d =
     (if len = 0 then Some d
      else do { (n, d1) \<leftarrow> printk putc ready (lit ''%s'') [Str (drop (256 * cnt) cmdline)] d;
                dump_cmdline putc ready cmdline (len - 256) (Suc cnt) d1 })"
  by pat_completeness auto
termination
  by (relation "measure (\<lambda>(p, r, c, len, cnt, d). len)") auto

declare dump_cmdline.simps [simp del]

text \<open>A message with the values of the words at the given offsets of a tag.\<close>

definition dump_words :: "(u8 \<Rightarrow> 'd \<Rightarrow> 'd) \<Rightarrow> bool \<Rightarrow> u32 list \<Rightarrow> nat \<Rightarrow> buf \<Rightarrow> nat list \<Rightarrow> 'd \<Rightarrow> 'd option" where
  "dump_words putc ready m i fmt offsets d =
     (if \<forall>j \<in> set offsets. i + j < length m then
        map_option snd (printk putc ready fmt (map (\<lambda>j. Num (m ! (i + j))) offsets) d)
      else None)"

definition dump_tag :: "(u8 \<Rightarrow> 'd \<Rightarrow> 'd) \<Rightarrow> bool \<Rightarrow> u32 list \<Rightarrow> nat \<Rightarrow> u32 \<Rightarrow> 'd \<Rightarrow> (bool \<times> 'd) option" where
  "dump_tag putc ready m i tag d =
     (if tag = ATAG_CORE then
        map_option (Pair True) (dump_words putc ready m i (message ''  CORE: flags: %x, pagesize: %x, rootdev: %x'') [2, 3, 4] d)
      else if tag = ATAG_MEM then
        do { a \<leftarrow> arr_get m (i + 2);
             b \<leftarrow> arr_get m (i + 3);
             (n, d1) \<leftarrow> printk putc ready (message ''  MEMORY: size: %x (%dMB), start: %x'') [Num a, Num (a div 1024 div 1024), Num b] d;
             Some (True, d1) }
      else if tag = ATAG_VIDEOTEXT then
        map_option (Pair True) (dump_words putc ready m i
          (message ''  VIDEOTEXT x,y,video: %x, mode,cols, ega: %x, lines, vga, points: %x'') [2, 3, 4] d)
      else if tag = ATAG_RAMDISK then
        map_option (Pair True) (dump_words putc ready m i (message ''  RAMDISK flags: %x, size: %x, start: %x'') [2, 3, 4] d)
      else if tag = ATAG_INITRD2 then
        map_option (Pair True) (dump_words putc ready m i (message ''  INITRD size: %x, start: %x'') [3, 2] d)
      else if tag = ATAG_SERIAL then
        map_option (Pair True) (dump_words putc ready m i (message '' SERIAL NUMBER: low: %x, high: %x'') [2, 3] d)
      else if tag = ATAG_REVISION then
        map_option (Pair True) (dump_words putc ready m i (message '' Board revision: %x'') [2] d)
      else if tag = ATAG_VIDEOLFB then
        map_option (Pair True) (dump_words putc ready m i (message ''  VESA framebuffer'') [] d)
      else if tag = ATAG_CMDLINE then
        do { let cmdline = words_text m (i + 2);
             len \<leftarrow> strlen cmdline;
             (n, d1) \<leftarrow> printk putc ready (lit ''  Commandline (%d): '') [Num (of_nat len)] d;
             d2 \<leftarrow> dump_cmdline putc ready cmdline len 0 d1;
             (n, d3) \<leftarrow> printk putc ready (message '''') [] d2;
             Some (True, d3) }
      else map_option (Pair False) (dump_words putc ready m i (message ''ERROR! Unknown atag'') [] d))"

partial_function (option) dump_loop :: "(u8 \<Rightarrow> 'd \<Rightarrow> 'd) \<Rightarrow> bool \<Rightarrow> u32 list \<Rightarrow> nat \<Rightarrow> 'd \<Rightarrow> 'd option" where
  [code]: "dump_loop putc ready m i d =
     do { size \<leftarrow> arr_get m i;
          tag \<leftarrow> arr_get m (i + 1);
          if tag = ATAG_NONE then map_option snd (printk putc ready (message '''') [] d)
          else do { (advance, d1) \<leftarrow> dump_tag putc ready m i tag d;
                    dump_loop putc ready m (if advance then i + unat size else i) d1 } }"

definition atags_dump :: "(u8 \<Rightarrow> 'd \<Rightarrow> 'd) \<Rightarrow> bool \<Rightarrow> u32 list \<Rightarrow> nat \<Rightarrow> 'd \<Rightarrow> 'd option" where
  "atags_dump putc ready m atags d =
     do { (n, d1) \<leftarrow> printk putc ready (message ''Dumping ATAGs provied by bootloader:'') [] d; dump_loop putc ready m atags d1 }"

section \<open>What the command line gives\<close>

text \<open>The value that digits denote. The loop computes it with words, so modulo the size of an integer.\<close>

definition digits_value :: "nat \<Rightarrow> buf \<Rightarrow> nat" where
  "digits_value base ds = foldl (\<lambda>v c. v * base + digit_value c) 0 ds"

definition is_hex_digit :: "u8 \<Rightarrow> bool" where
  "is_hex_digit c \<longleftrightarrow> (48 \<le> c \<and> c \<le> 57) \<or> (97 \<le> c \<and> c \<le> 102)"

definition add_digit :: "u32 \<Rightarrow> i32 \<Rightarrow> u8 \<Rightarrow> i32" where
  "add_digit base r c = r * base + (if (ucast c :: u32) \<le> 57 then ucast c - 48 else ucast c - 97 + 10)"

lemma unat_u8_u32: "unat (ucast (c :: u8) :: u32) = unat c"
  by (simp add: unsigned_ucast_eq take_bit_nat_eq_self_iff less_le_trans [OF unsigned_less])

lemma ucast_u8_u32_iff: "(ucast (c :: u8) :: u32) = 32 \<longleftrightarrow> c = 32" "(ucast c :: u32) = 0 \<longleftrightarrow> c = 0"
  "(ucast c :: u32) \<le> 57 \<longleftrightarrow> c \<le> 57"
  by (auto simp: word_unat_eq_iff word_le_nat_alt unat_u8_u32)

lemma add_digit_value:
  assumes "is_hex_digit c"
  shows "add_digit (of_nat base) (of_nat v) c = of_nat (v * base + digit_value c)"
proof -
  have u: "ucast c = (of_nat (unat c) :: u32)" by (simp add: word_unat_eq_iff unat_u8_u32)
  show ?thesis
  proof (cases "c \<le> 57")
    case True
    with assms have b: "48 \<le> unat c" "c < 58" by (auto simp: is_hex_digit_def word_le_nat_alt word_less_nat_alt)
    then have "ucast c - 48 = (of_nat (unat c - 48) :: u32)" unfolding u by (metis of_nat_diff of_nat_numeral)
    with True b show ?thesis by (simp add: add_digit_def ucast_u8_u32_iff digit_value_def)
  next
    case False
    with assms have b: "87 \<le> unat c" "\<not> c < 58" by (auto simp: is_hex_digit_def word_le_nat_alt word_less_nat_alt)
    then have "of_nat (unat c) - 87 = (of_nat (unat c - 87) :: u32)" using of_nat_diff [of 87 "unat c", where 'a = u32] by simp
    then have "ucast c - 97 + 10 = (of_nat (unat c - 87) :: u32)" unfolding u [symmetric] by simp
    with False b show ?thesis by (simp add: add_digit_def ucast_u8_u32_iff digit_value_def)
  qed
qed

lemma add_digits_value:
  "list_all is_hex_digit ds \<Longrightarrow>
   foldl (add_digit (of_nat base)) (of_nat v) ds = of_nat (foldl (\<lambda>v c. v * base + digit_value c) v ds)"
proof (induction ds arbitrary: v)
  case (Cons c ds)
  then have "add_digit (of_nat base) (of_nat v) c = of_nat (v * base + digit_value c)" by (simp add: add_digit_value)
  with Cons show ?case by (simp del: of_nat_add of_nat_mult)
qed simp

lemma hex_digit_no_end: "is_hex_digit c \<Longrightarrow> c \<noteq> 0 \<and> c \<noteq> 32"
  by (auto simp: is_hex_digit_def)

lemma parse_digits_spec:
  assumes "list_all is_hex_digit ds" and "tail = [] \<or> hd tail = 32"
    and "cl = length p + length ds + length tail"
  shows "parse_digits (p @ ds @ tail @ 0 # rest) cl kl base (length p) r =
    Some (foldl (add_digit base) r (take (Suc cl - (length p + kl)) ds))"
  using assms
proof (induction ds arbitrary: p r)
  case Nil
  then show ?case
    by (cases tail) (subst parse_digits.simps, simp add: nth_append arr_get_def)+
next
  case (Cons c ds)
  show ?case
  proof (cases "cl < length p + kl")
    case True
    then show ?thesis by (subst parse_digits.simps) simp
  next
    case False
    have "parse_digits ((p @ [c]) @ ds @ tail @ 0 # rest) cl kl base (length (p @ [c])) (add_digit base r c) =
        Some (foldl (add_digit base) (add_digit base r c) (take (Suc cl - (length (p @ [c]) + kl)) ds))"
      using Cons.prems by (intro Cons.IH) auto
    moreover have "Suc cl - (length p + kl) = Suc (Suc cl - (length (p @ [c]) + kl))" using False by simp
    moreover have "c \<noteq> 0" "c \<noteq> 32" using Cons.prems(1) hex_digit_no_end [of c] by auto
    ultimately show ?thesis using False
      by (subst parse_digits.simps) (simp add: ucast_u8_u32_iff nth_append add_digit_def arr_get_def)
  qed
qed


text \<open>A line with the key, an equals sign, a value and a tail, and the key not earlier in the line.\<close>

lemma parse_value_spec:
  assumes "px = [] \<and> base = 10 \<and> list_all is_digit ds \<or> px = [48, 120] \<and> base = 16 \<and> list_all is_hex_digit ds"
    and "tail = [] \<or> hd tail = 32" and "cl = length p + length px + length ds + length tail"
  shows "parse_value (p @ px @ ds @ tail @ 0 # rest) cl kl (length p) =
    Some (of_nat (digits_value base (take (Suc cl - (length p + length px + kl)) ds)))"
proof -
  have h: "list_all is_hex_digit ds"
    using assms(1) by (auto simp: list_all_iff is_digit_def is_hex_digit_def)
  then have t: "list_all is_hex_digit (take n ds)" for n
    by (auto simp: list_all_iff dest: in_set_takeD)
  have d: "parse_digits ((p @ px) @ ds @ tail @ 0 # rest) cl kl (of_nat base) (length (p @ px)) 0 =
      Some (of_nat (digits_value base (take (Suc cl - (length p + length px + kl)) ds)))"
    using parse_digits_spec [OF h assms(2), of cl "p @ px" rest kl "of_nat base" 0]
      add_digits_value [OF t, of base 0] assms(3) by (simp add: digits_value_def)
  show ?thesis
  proof (cases "px = []")
    case True
    with assms(1) have b: "base = 10" "list_all is_digit ds" by auto
    have "\<not> ((ds @ tail @ 0 # rest) ! 0 = 48 \<and> (ds @ tail @ 0 # rest) ! 1 = 120)"
      using b(2) assms(2)
      by (cases ds; cases tail; cases "tl ds") (auto simp: is_digit_def)
    then have "\<not> ((p @ ds @ tail @ 0 # rest) ! length p = 48 \<and> (p @ ds @ tail @ 0 # rest) ! Suc (length p) = 120)"
      by (simp add: nth_append)
    moreover have "(p @ ds @ tail @ 0 # rest) ! length p = 48 \<Longrightarrow> Suc (length p) < length (p @ ds @ tail @ 0 # rest)"
      using assms(2) by (cases ds; cases tail) (auto simp: nth_append)
    ultimately show ?thesis using d True b by (auto simp: parse_value_def)
  next
    case False
    with assms(1) have "px = [48, 120]" "base = 16" by auto
    with d show ?thesis by (simp add: parse_value_def nth_append)
  qed
qed

lemma parse_from_skip:
  assumes "i \<le> n" and "\<And>j. i \<le> j \<Longrightarrow> j < n \<Longrightarrow> j < length s \<and> s ! j \<noteq> 0 \<and> j + kl \<le> cl \<and>
    (\<exists>r. strncmp key (drop j s) kl = Some r \<and> r \<noteq> 0)"
  shows "parse_from s key cl kl i = parse_from s key cl kl n"
  using assms
proof (induction rule: inc_induct)
  case (step m)
  obtain r where "m < length s" "s ! m \<noteq> 0" "m + kl \<le> cl" "strncmp key (drop m s) kl = Some r" "r \<noteq> 0"
    using step.prems [of m] step.hyps by auto
  then have "parse_from s key cl kl m = parse_from s key cl kl (Suc m)" by (subst parse_from.simps) auto
  with step show ?case by auto
qed simp

lemma strncmp_key:
  assumes "0 \<notin> set key" and "0 \<notin> set line" and "j \<le> length line"
  shows "\<exists>r. strncmp (key @ [0]) (drop j (line @ 0 # rest)) (length key) = Some r \<and>
    (r = 0 \<longleftrightarrow> take (length key) (drop j line) = key)"
proof -
  have "terminated (key @ [0])" "terminated (drop j (line @ 0 # rest))" using assms(3) by (auto simp: terminated_def)
  from strncmp_spec [OF this, of "length key"] obtain r where
    "strncmp (key @ [0]) (drop j (line @ 0 # rest)) (length key) = Some r"
    "r = 0 \<longleftrightarrow> take (length key) (cstr (key @ [0])) = take (length key) (cstr (drop j (line @ 0 # rest)))" by blast
  moreover have "cstr (key @ [0]) = key" using assms(1) unfolding cstr_def by (subst takeWhile_append2) auto
  moreover have "0 \<notin> set (drop j line)" using assms(2) by (auto dest: in_set_dropD)
  then have "cstr (drop j (line @ 0 # rest)) = drop j line" 
    using assms(3) unfolding cstr_def by (simp, subst takeWhile_append2) auto
  ultimately show ?thesis by auto
qed


lemma parse_cmdline_int_spec:
  assumes "px = [] \<and> base = 10 \<and> list_all is_digit ds \<or> px = [48, 120] \<and> base = 16 \<and> list_all is_hex_digit ds"
    and "tail = [] \<or> hd tail = 32"
    and line: "cline = pre @ key @ 61 # px @ ds @ tail" and "0 \<notin> set cline" and "key \<noteq> []"
    and first: "\<forall>j < length pre. take (length key) (drop j cline) \<noteq> key"
  shows "parse_cmdline_int (cline @ 0 # rest) (key @ [0]) =
    Some (of_nat (digits_value base (take (Suc (length ds + length tail) - length key) ds)))"
proof -
  let ?s = "cline @ 0 # rest" and ?cl = "length cline" and ?kl = "length key" and ?n = "length pre"
  have k0: "0 \<notin> set key" using assms(4) line by auto
  have cs: "cstr ?s = cline" "cstr (key @ [0]) = key"
    using assms(4) k0 unfolding cstr_def by (subst takeWhile_append2; auto)+
  have "parse_cmdline_int ?s (key @ [0]) = parse_from ?s (key @ [0]) ?cl ?kl 0"
    by (simp add: parse_cmdline_int_def strlen_cstr cs terminated_def)
  also have "\<dots> = parse_from ?s (key @ [0]) ?cl ?kl ?n"
  proof (rule parse_from_skip)
    fix j assume j: "j < ?n"
    have "?s ! j \<in> set cline" using j line by (simp add: nth_append)
    then have "?s ! j \<noteq> 0" using assms(4) by metis
    moreover have "j + ?kl \<le> ?cl" using j line by simp
    moreover obtain r where "strncmp (key @ [0]) (drop j ?s) ?kl = Some r" "r \<noteq> 0"
      using strncmp_key [OF k0 assms(4), of j rest] first j line by auto
    ultimately show "j < length ?s \<and> ?s ! j \<noteq> 0 \<and> j + ?kl \<le> ?cl \<and>
        (\<exists>r. strncmp (key @ [0]) (drop j ?s) ?kl = Some r \<and> r \<noteq> 0)" using j line by auto
  qed simp
  also have "\<dots> = parse_value ?s ?cl ?kl (?n + ?kl + 1)"
  proof -
    have "?s ! ?n = hd key" using line assms(5) by (cases key) (simp_all add: nth_append)
    then have "?s ! ?n \<noteq> 0" using k0 assms(5) by (metis hd_in_set)
    moreover have "strncmp (key @ [0]) (drop ?n ?s) ?kl = Some 0"
      using strncmp_key [OF k0 assms(4), of ?n rest] line by auto
    ultimately show ?thesis using line by (subst parse_from.simps) simp
  qed
  also have "\<dots> = Some (of_nat (digits_value base (take (Suc (length ds + length tail) - ?kl) ds)))"
    using parse_value_spec [OF assms(1,2), of ?cl "pre @ key @ [61]" rest ?kl] line by (simp add: ac_simps)
  finally show ?thesis .
qed

lemma digits_of_digits: "list_all is_digit (digits_of 10 n)" "list_all is_hex_digit (digits_of 16 n)"
proof -
  have d: "d < 10 \<Longrightarrow> is_digit (digit_char d)" for d
    using digit_char_unat [of d] by (auto simp: is_digit_def word_le_nat_alt)
  show "list_all is_digit (digits_of 10 n)"
  proof (induction "10 :: nat" n rule: digits_of.induct)
    case (1 x)
    with d [of "x mod 10"] d [of x] show ?case by (subst digits_of.simps) simp
  qed
  have h: "d < 16 \<Longrightarrow> is_hex_digit (digit_char d)" for d
    using digit_char_unat [of d] by (auto simp: is_hex_digit_def word_le_nat_alt)
  show "list_all is_hex_digit (digits_of 16 n)"
  proof (induction "16 :: nat" n rule: digits_of.induct)
    case (1 x)
    with h [of "x mod 16"] h [of x] show ?case by (subst digits_of.simps) simp
  qed
qed

text \<open>The text of a number in a setting.\<close>

definition setting_text :: "bool \<Rightarrow> nat \<Rightarrow> buf" where
  "setting_text hex n = (if hex then [48, 120] @ digits_of 16 n else digits_of 10 n)"

lemma digits_value_of: "digits_value 10 (digits_of 10 n) = n" "digits_value 16 (digits_of 16 n) = n"
  by (simp_all add: digits_value_def digits_of_value)

lemma cmdline_setting_spec:
  assumes "cline = pre @ key @ 61 # setting_text hex n @ tail" and "0 \<notin> set (pre @ key @ tail)" and "key \<noteq> []"
    and "tail = [] \<or> hd tail = 32" and "\<forall>j < length pre. take (length key) (drop j cline) \<noteq> key"
  defines "base \<equiv> if hex then 16 else 10"
  shows "parse_cmdline_int (cline @ 0 # rest) (key @ [0]) =
    Some (of_nat (digits_value base (take (Suc (length (digits_of base n) + length tail) - length key) (digits_of base n))))"
proof -
  have nz: "0 \<notin> set (digits_of base n)" by (rule digits_of_nonzero) (auto simp: base_def)
  then have "0 \<notin> set cline" using assms(1,2) by (auto simp: setting_text_def base_def split: if_splits)
  then show ?thesis
    using parse_cmdline_int_spec [of "if hex then [48, 120] else []" base "digits_of base n" tail cline pre key rest]
      digits_of_digits [of n] assms(1-5) by (auto simp: setting_text_def base_def)
qed

text \<open>
  C36: A setting \<open>key=number\<close> of the command line, decimal or hexadecimal with \<open>0x\<close>, is read back as the number
  when the text behind the number is at least as long as the key less one character. A shorter text behind it costs the
  number its last digits, because the loop over the digits stops as soon as less than the length of the key is left: a
  number at the very end of the line with no more digits than that is read as 0.
\<close>

theorem cmdline_setting_read:
  assumes "cline = pre @ key @ 61 # setting_text hex n @ tail" and "0 \<notin> set (pre @ key @ tail)" and "key \<noteq> []"
    and "tail = [] \<or> hd tail = 32" and "\<forall>j < length pre. take (length key) (drop j cline) \<noteq> key"
  shows "(length key \<le> Suc (length tail) \<longrightarrow> parse_cmdline_int (cline @ 0 # rest) (key @ [0]) = Some (of_nat n)) \<and>
    (tail = [] \<and> length (digits_of (if hex then 16 else 10) n) < length key \<longrightarrow>
      parse_cmdline_int (cline @ 0 # rest) (key @ [0]) = Some 0)"
  using cmdline_setting_spec [OF assms] by (auto simp: digits_value_of digits_value_def [of _ "[]"])

theorem cmdline_setting_read_witness:
  "parse_cmdline_int (butlast (lit ''a=1 rev='') @ [50, 32, 98] @ [0]) (lit ''rev'') = Some 2 \<and>
   parse_cmdline_int (butlast (lit ''a=1 rev='') @ [50] @ [0]) (lit ''rev'') = Some 0"
proof -
  have d: "digits_of 10 2 = [50]" by (simp add: digits_of.simps [of _ 2] digit_char_def)
  show ?thesis
    using cmdline_setting_read [of _ "butlast (lit ''a=1 '')" "butlast (lit ''rev'')" False 2 "[32, 98]" "[]"]
      cmdline_setting_read [of _ "butlast (lit ''a=1 '')" "butlast (lit ''rev'')" False 2 "[]" "[]"]
    by (simp add: setting_text_def d lit_def All_less_Suc)
qed

section \<open>What the list of tags gives\<close>

text \<open>A longer memory does not change the result.\<close>

lemma strncmp_from_append: "strncmp_from a b i n = Some r \<Longrightarrow> strncmp_from a (b @ x) i n = Some r"
  by (induction a b i n rule: strncmp_from.induct)
    (auto simp: option_bind_eq_Some arr_get_eq_Some nth_append Let_def split: if_splits)

lemma parse_digits_append:
  "parse_digits s cl kl base i r = Some v \<Longrightarrow> parse_digits (s @ x) cl kl base i r = Some v"
proof (induction s cl kl base i r rule: parse_digits.induct)
  case (1 s cl kl base i r)
  show ?case
  proof (cases "cl < i + kl")
    case False
    with "1.prems" have i: "i < length s" by (subst (asm) parse_digits.simps) (auto simp: option_bind_eq_Some arr_get_eq_Some)
    show ?thesis
    proof (cases "(ucast (s ! i) :: u32) = 32 \<or> (ucast (s ! i) :: u32) = 0")
      case True
      with False i "1.prems" show ?thesis
        by (subst parse_digits.simps, subst (asm) parse_digits.simps) (auto simp: nth_append)
    next
      case nend: False
      with "1.prems" False i
      have p: "parse_digits s cl kl base (Suc i) (r * base + (if (ucast (s ! i) :: u32) \<le> 57 then ucast (s ! i) - 48 else ucast (s ! i) - 97 + 10)) = Some v"
        by (subst (asm) parse_digits.simps) (auto simp: Let_def)
      have "parse_digits (s @ x) cl kl base (Suc i) (r * base + (if (ucast (s ! i) :: u32) \<le> 57 then ucast (s ! i) - 48 else ucast (s ! i) - 97 + 10)) = Some v"
        by (rule "1.IH" [OF False _ refl _ p]) (use i nend in auto)
      with nend False i show ?thesis by (subst parse_digits.simps) (auto simp: nth_append Let_def)
    qed
  qed (use "1.prems" in \<open>subst parse_digits.simps, subst (asm) parse_digits.simps, simp\<close>)
qed

lemma parse_value_append: "parse_value s cl kl j = Some v \<Longrightarrow> parse_value (s @ x) cl kl j = Some v"
proof -
  assume "parse_value s cl kl j = Some v"
  then obtain hex where h: "j < length s"
    "(if s ! j = 48 then do { b \<leftarrow> arr_get s (j + 1); Some (b = 120) } else Some False) = Some hex"
    "(if hex then parse_digits s cl kl 16 (j + 2) 0 else parse_digits s cl kl 10 j 0) = Some v"
    by (auto simp: parse_value_def option_bind_eq_Some arr_get_eq_Some)
  have "(if s ! j = 48 then do { b \<leftarrow> arr_get (s @ x) (j + 1); Some (b = 120) } else Some False) = Some hex"
    using h(2) by (auto simp: option_bind_eq_Some arr_get_eq_Some nth_append split: if_splits)
  moreover have "(if hex then parse_digits (s @ x) cl kl 16 (j + 2) 0 else parse_digits (s @ x) cl kl 10 j 0) = Some v"
    using h(3) by (cases hex) (simp_all add: parse_digits_append)
  ultimately show ?thesis using h(1) by (simp add: parse_value_def nth_append)
qed

lemma parse_from_append: "parse_from s key cl kl i = Some v \<Longrightarrow> parse_from (s @ x) key cl kl i = Some v"
proof (induction s key cl kl i rule: parse_from.induct)
  case (1 s key cl kl i)
  from "1.prems" have i: "i < length s" by (subst (asm) parse_from.simps) (auto simp: option_bind_eq_Some arr_get_eq_Some)
  show ?case
  proof (cases "s ! i = 0 \<or> cl < i + kl")
    case True
    with i "1.prems" show ?thesis by (subst parse_from.simps, subst (asm) parse_from.simps) (auto simp: nth_append split: if_splits)
  next
    case False
    with i "1.prems" obtain r where r: "strncmp key (drop i s) kl = Some r"
      "(if r = 0 then parse_value s cl kl (i + kl + 1) else parse_from s key cl kl (Suc i)) = Some v"
      by (subst (asm) parse_from.simps) (auto simp: option_bind_eq_Some)
    have "strncmp key (drop i (s @ x)) kl = Some r"
      using r(1) i by (simp add: strncmp_def strncmp_from_append)
    moreover have "(if r = 0 then parse_value (s @ x) cl kl (i + kl + 1) else parse_from (s @ x) key cl kl (Suc i)) = Some v"
      using r "1.IH" [of "s ! i" r] i False by (auto simp: parse_value_append)
    ultimately show ?thesis using False i by (subst parse_from.simps) (auto simp: nth_append)
  qed
qed

lemma parse_cmdline_int_append:
  "parse_cmdline_int s key = Some v \<Longrightarrow> parse_cmdline_int (s @ x) key = Some v"
proof -
  assume a: "parse_cmdline_int s key = Some v"
  then have "terminated s" by (auto simp: parse_cmdline_int_def strlen_cstr split: if_splits)
  then have "cstr (s @ x) = cstr s" "terminated (s @ x)"
    unfolding cstr_def terminated_def by (auto intro: takeWhile_append1)
  with a \<open>terminated s\<close> show ?thesis
    by (auto simp: parse_cmdline_int_def strlen_cstr option_bind_eq_Some parse_from_append split: if_splits)
qed

text \<open>A tag is its number and its body; the size that precedes it counts all words of it.\<close>

definition tag_words :: "u32 \<times> u32 list \<Rightarrow> u32 list" where
  "tag_words t = of_nat (length (snd t) + 2) # fst t # snd t"

definition skipped_tags :: "u32 list" where
  "skipped_tags = [ATAG_CORE, ATAG_VIDEOTEXT, ATAG_RAMDISK, ATAG_INITRD2, ATAG_SERIAL, ATAG_REVISION, ATAG_VIDEOLFB]"

definition known_tag :: "u32 \<Rightarrow> bool" where
  "known_tag tag \<longleftrightarrow> tag \<in> set (ATAG_NONE # ATAG_MEM # ATAG_CMDLINE # skipped_tags)"

text \<open>
  What a tag tells: the amount of memory, which has to begin at address 0, and the settings of the command line.
\<close>

definition tag_effect :: "u32 \<times> u32 list \<Rightarrow> atag_info_t \<Rightarrow> atag_info_t option" where
  "tag_effect t info =
     (case t of (tag, body) \<Rightarrow>
        if tag = ATAG_MEM then
          (case body of sz # begin_at # _ \<Rightarrow> if begin_at = 0 then Some (info\<lparr>ramsize := sz\<rparr>) else None | _ \<Rightarrow> None)
        else if tag = ATAG_CMDLINE then
          do { x \<leftarrow> parse_cmdline_int (concat (map word_bytes body)) (lit ''fbwidth'');
               y \<leftarrow> parse_cmdline_int (concat (map word_bytes body)) (lit ''fbheight'');
               r \<leftarrow> parse_cmdline_int (concat (map word_bytes body)) (lit ''rev'');
               Some (info\<lparr>framebuffer_x := x, framebuffer_y := y, revision := r\<rparr>) }
        else if tag \<in> set skipped_tags then Some info
        else None)"

fun tags_effect :: "(u32 \<times> u32 list) list \<Rightarrow> atag_info_t \<Rightarrow> atag_info_t option" where
  "tags_effect [] info = Some info"
| "tags_effect (t # ts) info = do { i \<leftarrow> tag_effect t info; tags_effect ts i }"

lemma detect_tag_effect:
  assumes "tag_effect (tag, body) info = Some info1" and "m = p @ tag_words (tag, body) @ rest"
  shows "detect_tag putc ready m (length p) tag info d = Some (True, info1, d) \<and> tag \<noteq> ATAG_NONE"
proof -
  have b: "drop (length p + 2) m = body @ rest" using assms(2) by (simp add: tag_words_def)
  have t: "words_text m (length p + 2) = concat (map word_bytes body) @ concat (map word_bytes rest)"
    unfolding words_text_def b by simp
  have nz: "tag \<noteq> ATAG_NONE"
    using assms(1) by (auto simp: tag_effect_def skipped_tags_def c_const split: if_splits)
  consider (mem) "tag = ATAG_MEM" | (cmd) "tag = ATAG_CMDLINE" | (skip) "tag \<in> set skipped_tags" "tag \<noteq> ATAG_MEM" "tag \<noteq> ATAG_CMDLINE"
    using assms(1) by (auto simp: tag_effect_def split: if_splits)
  then show ?thesis
  proof cases
    case mem
    with assms(1) obtain sz bs where "body = sz # 0 # bs" "info1 = info\<lparr>ramsize := sz\<rparr>"
      by (auto simp: tag_effect_def split: list.splits if_splits)
    with mem nz assms(2) show ?thesis by (simp add: detect_tag_def tag_words_def nth_append)
  next
    case cmd
    then have "tag \<noteq> ATAG_MEM" by (simp add: c_const)
    with cmd assms(1) nz show ?thesis
      by (auto simp: detect_tag_def tag_effect_def t [simplified] option_bind_eq_Some parse_cmdline_int_append)
  next
    case skip
    with assms(1) nz show ?thesis by (auto simp: detect_tag_def tag_effect_def skipped_tags_def)
  qed
qed

lemma detect_loop_tags:
  assumes "tags_effect ts info = Some info1" and "\<forall>t \<in> set ts. length (snd t) + 2 < 2 ^ 32"
    and "m = p @ concat (map tag_words ts) @ rest"
  shows "detect_loop putc ready m (length p) info d =
    detect_loop putc ready m (length p + length (concat (map tag_words ts))) info1 d"
  using assms
proof (induction ts arbitrary: p info)
  case (Cons t ts)
  obtain tag body where t: "t = (tag, body)" by force
  from Cons.prems(1) obtain i1 where i1: "tag_effect t info = Some i1" "tags_effect ts i1 = Some info1"
    by (auto simp: option_bind_eq_Some)
  have "detect_tag putc ready m (length p) tag info d = Some (True, i1, d)" "tag \<noteq> ATAG_NONE"
    using detect_tag_effect [of tag body info i1 m p "concat (map tag_words ts) @ rest" putc ready d] i1 Cons.prems(3) t by auto
  moreover have "unat (of_nat (length body + 2) :: u32) = length body + 2"
    using Cons.prems(2) t by (intro unat_of_nat_small) simp
  ultimately have "detect_loop putc ready m (length p) info d = detect_loop putc ready m (length (p @ tag_words t)) i1 d"
    using Cons.prems(3) t by (subst detect_loop.simps) (simp add: tag_words_def nth_append)
  also have "\<dots> = detect_loop putc ready m (length (p @ tag_words t) + length (concat (map tag_words ts))) info1 d"
    using Cons.prems i1(2) by (intro Cons.IH) auto
  finally show ?case by (simp add: ac_simps)
qed simp

lemma detect_loop_unknown:
  "detect_loop putc ready m i info d = Some r \<Longrightarrow> i + 1 < length m \<and> known_tag (m ! (i + 1))"
proof (induction rule: detect_loop.raw_induct [rotated, consumes 1, case_names step])
  case (step rec putc ready m i info d r)
  then have i: "i + 1 < length m" by (auto simp: option_bind_eq_Some arr_get_eq_Some)
  show ?case
  proof (rule ccontr)
    assume "\<not> ?thesis"
    then have u: "\<not> known_tag (m ! (i + 1))" using i by simp
    then have "\<exists>i1 d1. rec putc ready m i i1 d1 = Some r"
      using step(2) i by (auto simp: known_tag_def skipped_tags_def detect_tag_def option_bind_eq_Some split: if_splits)
    with step(1) u show False by blast
  qed
qed


text \<open>
  C38: A list of tags is read completely, whatever is in front of it and behind it: if it ends with the empty tag, the
  result is what its tags tell, one after the other, and nothing is printed. If it ends with a tag of an unknown number,
  the detection never returns.
\<close>

theorem atags_detect_reads_list:
  assumes "tags_effect ts no_atags = Some info" and "\<forall>t \<in> set ts. length (snd t) + 2 < 2 ^ 32"
    and "m = p @ concat (map tag_words ts) @ sz # last_tag # rest"
  shows "(last_tag = ATAG_NONE \<longrightarrow> atags_detect putc ready m (length p) d = Some (info, d)) \<and>
    (\<not> known_tag last_tag \<longrightarrow> atags_detect putc ready m (length p) d = None)"
proof -
  let ?i = "length p + length (concat (map tag_words ts))"
  have i: "?i + 1 < length m" "m ! ?i = sz" "m ! (?i + 1) = last_tag" by (simp_all add: assms(3) nth_append)
  have "atags_detect putc ready m (length p) d = detect_loop putc ready m ?i info d"
    using detect_loop_tags [OF assms] by (simp add: atags_detect_def)
  moreover have "last_tag = ATAG_NONE \<Longrightarrow> detect_loop putc ready m ?i info d = Some (info, d)"
    using i by (subst detect_loop.simps) simp
  moreover have "\<not> known_tag last_tag \<Longrightarrow> detect_loop putc ready m ?i info d = None"
    using detect_loop_unknown [of putc ready m ?i info d] i(3) by (cases "detect_loop putc ready m ?i info d") auto
  ultimately show ?thesis by simp
qed

theorem atags_detect_reads_list_witness:
  "atags_detect (\<lambda>c d. c # d) True [5, ATAG_CORE, 0, 0, 0, 4, ATAG_MEM, 0x1c000000, 0, 2, 0] 0 [] =
     Some (no_atags\<lparr>ramsize := 0x1c000000\<rparr>, []) \<and>
   atags_detect (\<lambda>c d. c # d) True [5, ATAG_CORE, 0, 0, 0, 4, ATAG_MEM, 0x1c000000, 0, 2, 1] 0 [] = None"
  using atags_detect_reads_list [of "[(ATAG_CORE, [0, 0, 0]), (ATAG_MEM, [0x1c000000, 0])]"
      "no_atags\<lparr>ramsize := 0x1c000000\<rparr>" "[5, ATAG_CORE, 0, 0, 0, 4, ATAG_MEM, 0x1c000000, 0, 2, 0]" "[]" 2 0 "[]" "\<lambda>c d. c # d" True "[]"]
    atags_detect_reads_list [of "[(ATAG_CORE, [0, 0, 0]), (ATAG_MEM, [0x1c000000, 0])]"
      "no_atags\<lparr>ramsize := 0x1c000000\<rparr>" "[5, ATAG_CORE, 0, 0, 0, 4, ATAG_MEM, 0x1c000000, 0, 2, 1]" "[]" 2 1 "[]" "\<lambda>c d. c # d" True "[]"]
  by (simp add: tag_effect_def tag_words_def known_tag_def skipped_tags_def c_const)

section \<open>Printing the command line\<close>

lemma put_string_cut:
  "terminated s \<Longrightarrow> n < 256 \<Longrightarrow> length b = 256 \<Longrightarrow>
   put_string s b n = Some (stored b n (take (256 - n) (cstr s)), n + min (256 - n) (length (cstr s)))"
proof (induction s arbitrary: b n)
  case (Cons c s)
  show ?case
  proof (cases "c = 0")
    case True
    then show ?thesis by (simp add: stored_def)
  next
    case nz: False
    show ?thesis
    proof (cases "n = 255")
      case True
      with Cons.prems nz show ?thesis by (simp add: MAX_PRINT_SIZE_def stored_one)
    next
      case False
      let ?t = "take (256 - Suc n) (cstr s)"
      have e: "256 - n = Suc (256 - Suc n)" using False Cons.prems by simp
      have "put_string s (b[n := c]) (Suc n) =
          Some (stored (b[n := c]) (Suc n) ?t, Suc n + min (256 - Suc n) (length (cstr s)))"
        using False Cons.prems nz by (intro Cons.IH) auto
      moreover have "stored (stored b n [c]) (n + length [c]) ?t = stored b n ([c] @ ?t)"
        using False Cons.prems by (intro stored_stored) auto
      ultimately show ?thesis using False Cons.prems nz by (simp add: MAX_PRINT_SIZE_def stored_one e)
    qed
  qed
qed simp

lemma crlf_append [simp]: "crlf (a @ b) = crlf a @ crlf b"
  by (induction a) auto

lemma printk_string:
  assumes "terminated s"
  shows "printk putc True (lit ''%s'') [Str s] d =
    Some (min 256 (length (cstr s)), fold putc (crlf (take 256 (cstr s))) d)"
proof -
  let ?b = "replicate 256 0" and ?n = "min 256 (length (cstr s))"
  have "vsprintf ?b (lit ''%s'') [Str s] = Some (stored ?b 0 (take 256 (cstr s)), ?n)"
    using put_string_cut [OF assms, of 0 ?b]
    by (simp add: vsprintf_def lit_def vsprintf_loop.simps(2) format_step_def is_digit_def)
  moreover have "take ?n (stored ?b 0 (take 256 (cstr s))) = take 256 (cstr s)" "length (stored ?b 0 (take 256 (cstr s))) = 256"
    by (simp_all add: stored_def min_def)
  ultimately show ?thesis
    using console_write_sends [of "of_nat ?n" "stored ?b 0 (take 256 (cstr s))" putc d]
    by (simp add: printk_def MAX_PRINT_SIZE_def unat_of_nat_small)
qed

lemma dump_cmdline_spec:
  assumes "terminated s" and "len = length (cstr s) - 256 * cnt"
  shows "dump_cmdline putc True s len cnt d = Some (fold putc (crlf (drop (256 * cnt) (cstr s))) d)"
  using assms(2)
proof (induction len arbitrary: cnt d rule: less_induct)
  case (less len)
  let ?n = "256 * cnt"
  show ?case
  proof (cases "len = 0")
    case True
    with less.prems show ?thesis by (subst dump_cmdline.simps) simp
  next
    case False
    then have l: "?n < length (cstr s)" using less.prems by simp
    have "s = cstr s @ drop (length (cstr s)) s" unfolding cstr_def by (metis takeWhile_dropWhile_id dropWhile_eq_drop)
    then have ds: "drop ?n s = drop ?n (cstr s) @ drop (length (cstr s)) s" using l
      by (metis drop_append drop0 diff_is_0_eq less_imp_le)
    moreover have "drop (length (cstr s)) s = 0 # drop (Suc (length (cstr s))) s"
      using assms(1) cstr_nth_zero [of s] by (metis Cons_nth_drop_Suc terminated_iff_cstr_short)
    moreover have "0 \<notin> set (drop ?n (cstr s))" by (auto simp: cstr_def dest: in_set_dropD set_takeWhileD)
    ultimately have c: "cstr (drop ?n s) = drop ?n (cstr s)" "terminated (drop ?n s)"
      unfolding cstr_def terminated_def by (simp_all, subst takeWhile_append2) auto
    have "dump_cmdline putc True s len cnt d =
        dump_cmdline putc True s (len - 256) (Suc cnt) (fold putc (crlf (take 256 (drop ?n (cstr s)))) d)"
      using False by (subst dump_cmdline.simps) (simp add: printk_string [OF c(2)] c(1))
    also have "\<dots> = Some (fold putc (crlf (drop (256 * Suc cnt) (cstr s))) (fold putc (crlf (take 256 (drop ?n (cstr s)))) d))"
      using False less.prems by (intro less.IH) auto
    also have "\<dots> = Some (fold putc (crlf (take 256 (drop ?n (cstr s)) @ drop 256 (drop ?n (cstr s)))) d)"
      by (simp add: ac_simps del: append_take_drop_id)
    finally show ?thesis by (simp only: append_take_drop_id)
  qed
qed

text \<open>
  The command line is printed completely and in order whatever its length, although one message has room for 256
  characters only.
\<close>

lemma dump_cmdline_complete:
  assumes "terminated s"
  shows "dump_cmdline putc True s (length (cstr s)) 0 d = Some (fold putc (crlf (cstr s)) d)"
  using dump_cmdline_spec [OF assms, of "length (cstr s)" 0 putc d] by simp

end
