(* ===== verification/Vlibc.thy ===== *)
theory Vlibc
  imports CString
begin

text \<open>
  Small routines of the C library: \<^verbatim>\<open>strlen\<close> and \<^verbatim>\<open>memset\<close> of \<^verbatim>\<open>userspace/vlibc/string.c\<close>, division in
  software (\<^verbatim>\<open>div.c\<close>), the random numbers (\<^verbatim>\<open>random.c\<close>) and the texts of the errors (\<^verbatim>\<open>error.c\<close>).
\<close>

section \<open>Strings and memory\<close>

text \<open>
  The library has its own copy of the kernel's \<^verbatim>\<open>strlen\<close> and, instruction by instruction, of its \<^verbatim>\<open>memset\<close>: the
  labels \<^verbatim>\<open>asm_memset_4bytealigned\<close>, \<^verbatim>\<open>asm_memset_loop\<close> and \<^verbatim>\<open>asm_memset_lessthan4\<close> stand for the same code.
\<close>

definition vlibc_strlen :: "buf \<Rightarrow> nat option" where
  "vlibc_strlen s = strlen_from s 0"

definition vlibc_memset :: "u32 \<Rightarrow> buf \<Rightarrow> u32 \<Rightarrow> u32 \<Rightarrow> buf option" where
  "vlibc_memset addr s c n =
     (let r3 = addr AND 3 in
      do { st \<leftarrow>
             (if r3 = 0 then memset_4bytealigned c n (s, 0)
              else if sint n < 4 then memset_lessthan4 c (n - 4) (s, 0)
              else do { a \<leftarrow> (if r3 < 2 then strb c (s, 0) else Some (s, 0));
                        b \<leftarrow> (if r3 \<le> 2 then strb c a else Some a);
                        d \<leftarrow> strb c b;
                        memset_4bytealigned c (n - 4 + r3) d });
           Some (fst st) })"

lemma vlibc_strlen_eq: "vlibc_strlen = strlen"
  by (simp add: fun_eq_iff vlibc_strlen_def strlen_def)

lemma vlibc_memset_eq: "vlibc_memset = memset"
  by (simp add: fun_eq_iff vlibc_memset_def memset_def)

section \<open>Division\<close>

partial_function (option) uidiv_loop :: "u32 \<Rightarrow> u32 \<Rightarrow> u32 \<Rightarrow> u32 \<Rightarrow> u32 option" where
  [code]: "uidiv_loop dividend divisor q new_d =
     (if new_d > dividend then Some q else uidiv_loop dividend divisor (q + 1) (new_d + divisor))"

definition aeabi_uidiv :: "u32 \<Rightarrow> u32 \<Rightarrow> u32 option" where
  "aeabi_uidiv dividend divisor =
     (if divisor = 0 then Some 0 else uidiv_loop dividend divisor 0 divisor)"

definition aeabi_idivmod :: "i32 \<Rightarrow> i32 \<Rightarrow> i32 option" where
  "aeabi_idivmod dividend divisor =
     do { q \<leftarrow> aeabi_uidiv dividend divisor; Some (dividend - q * divisor) }"

lemma uidiv_loop_counts:
  assumes "unat new_d = (unat q + 1) * unat divisor" and "unat q \<le> unat dividend div unat divisor"
    and "(unat dividend div unat divisor + 1) * unat divisor < 4294967296" and "divisor \<noteq> 0"
  shows "uidiv_loop dividend divisor q new_d = Some (dividend div divisor)"
  using assms
proof (induction "unat dividend div unat divisor - unat q" arbitrary: q new_d)
  case 0
  then have q: "unat q = unat dividend div unat divisor" by simp
  have "unat dividend < (unat dividend div unat divisor + 1) * unat divisor"
    using div_less_iff_less_mult [of "unat divisor" "unat dividend" "unat dividend div unat divisor + 1"] assms(4)
    by (simp add: unat_gt_0)
  then have "new_d > dividend" using 0(2) q by (simp add: word_less_nat_alt)
  moreover have "q = dividend div divisor" using q by (simp add: word_unat_eq_iff unat_div)
  ultimately show ?case by (subst uidiv_loop.simps) simp
next
  case (Suc n)
  let ?t = "unat dividend div unat divisor"
  have lt: "unat q < ?t" using Suc.hyps(2) by simp
  have "(unat q + 1) * unat divisor \<le> ?t * unat divisor" using lt by (intro mult_le_mono1) simp
  also have "\<dots> \<le> unat dividend" by (rule div_times_less_eq_dividend)
  finally have stay: "\<not> new_d > dividend" using Suc.prems(1) by (simp add: word_less_nat_alt)
  have "(unat q + 2) * unat divisor \<le> (?t + 1) * unat divisor" using lt by (intro mult_le_mono1) simp
  then have s: "unat new_d + unat divisor < 4294967296" using Suc.prems(1,3) by simp
  have "?t \<le> unat dividend" by (rule div_le_dividend)
  then have "unat q < 4294967295" using lt unat_u32_bound [of dividend] by linarith
  then have q1: "unat (q + 1) = unat q + 1" using unat_add_small [of q 1] by simp
  have "uidiv_loop dividend divisor (q + 1) (new_d + divisor) = Some (dividend div divisor)"
  proof (rule Suc.hyps(1))
    show "n = ?t - unat (q + 1)" using Suc.hyps(2) q1 by simp
    show "unat (new_d + divisor) = (unat (q + 1) + 1) * unat divisor"
      using unat_add_small [of new_d divisor] s Suc.prems(1) q1 by simp
    show "unat (q + 1) \<le> ?t" using q1 lt by simp
  qed (use Suc.prems in simp_all)
  with stay show ?case by (subst uidiv_loop.simps) simp
qed

lemma uidiv_loop_never: "uidiv_loop (- 1) divisor q new_d = None"
proof (rule ccontr)
  assume "uidiv_loop (- 1) divisor q new_d \<noteq> None"
  then obtain r where r: "uidiv_loop (- 1) divisor q new_d = Some r" by blast
  have "(- 1 :: u32) \<noteq> - 1"
    using uidiv_loop.raw_induct [of "\<lambda>dividend divisor q new_d r. dividend \<noteq> - 1", OF _ r]
    by (fastforce split: if_splits)
  then show False by simp
qed

text \<open>
  C37: The division of the C library ends and gives the quotient whenever the first multiple of the
  divisor above the dividend fits into 32 bits. Otherwise its counter wraps around: for the
  largest dividend it never returns, whatever the divisor.
\<close>

theorem uidiv_divides:
  assumes "divisor \<noteq> 0"
  shows "((unat dividend div unat divisor + 1) * unat divisor < 4294967296 \<longrightarrow>
      aeabi_uidiv dividend divisor = Some (dividend div divisor)) \<and>
    aeabi_uidiv (- 1) divisor = None"
  using assms
  using uidiv_loop_counts [of divisor 0 divisor dividend] uidiv_loop_never
  by (simp add: aeabi_uidiv_def)

theorem uidiv_divides_witness: "aeabi_uidiv 1000 7 = Some 142 \<and> aeabi_uidiv (- 1) 7 = None"
  using uidiv_divides [of 7 1000] by simp

section \<open>Random numbers\<close>

record rng =
  rng_s :: u32
  rng_x :: u32
  rng_w :: u32

definition rng_initial :: rng where
  "rng_initial = \<lparr>rng_s = 0xDA1CE2A9, rng_x = 0, rng_w = 0\<rparr>"

definition rand :: "rng \<Rightarrow> u16 \<times> rng" where
  "rand g =
     (let x1 = rng_x g * rng_x g;
          w1 = rng_w g + rng_s g;
          x2 = x1 + w1;
          x3 = drop_bit 16 x2 OR push_bit 16 x2 in
      (ucast x3, g\<lparr>rng_x := x3, rng_w := w1\<rparr>))"

definition srand :: "u16 \<Rightarrow> rng \<Rightarrow> rng" where
  "srand seed g =
     (let g0 = g\<lparr>rng_s := (rng_s g AND 0xffff0000) OR ucast seed OR 1\<rparr>;
          g1 = snd (rand g0); g2 = snd (rand g1); g3 = snd (rand g2) in
      snd (rand g3))"

definition draw :: "nat \<Rightarrow> rng \<Rightarrow> rng" where
  "draw n g = ((snd \<circ> rand) ^^ n) g"

lemma rand_state [simp]: "rng_s (snd (rand g)) = rng_s g" "rng_w (snd (rand g)) = rng_w g + rng_s g"
  by (simp_all add: rand_def Let_def)

lemma draw_state: "rng_s (draw n g) = rng_s g" "rng_w (draw n g) = rng_w g + of_nat n * rng_s g"
  by (induction n) (simp_all add: draw_def algebra_simps)

lemma srand_odd: "odd (unat (rng_s (srand seed g)))"
proof -
  have "bit (rng_s (srand seed g)) 0" by (simp add: srand_def Let_def bit_or_iff)
  then have "bit (unat (rng_s (srand seed g))) 0" by (simp add: bit_unsigned_iff)
  then show ?thesis by (simp add: bit_0)
qed

text \<open>
  The random number generator does not get stuck: after any seed, its internal states are all
  different for \<open>2\<close> to the power of \<open>32\<close> numbers, because the seed is made odd.
\<close>

lemma rand_states_distinct: "inj_on (\<lambda>n. draw n (srand seed g)) {..<4294967296}"
proof (rule linorder_inj_onI)
  fix m n :: nat
  let ?s = "rng_s (srand seed g)"
  assume mn: "m < n" "n \<in> {..<4294967296}"
  show "draw m (srand seed g) \<noteq> draw n (srand seed g)"
  proof
    assume "draw m (srand seed g) = draw n (srand seed g)"
    then have "of_nat m * ?s = of_nat n * ?s"
      using draw_state(2) [of m "srand seed g"] draw_state(2) [of n "srand seed g"] by simp
    then have "of_nat (n - m) * ?s = 0" using mn(1) by (simp add: of_nat_diff algebra_simps)
    then have "(of_nat ((n - m) * unat ?s) :: u32) = 0" by simp
    then have "4294967296 dvd (n - m) * unat ?s" unfolding word_of_nat_eq_0_iff by simp
    moreover have "coprime (2 ^ 32) (unat ?s)"
      using srand_odd [of seed g] by (simp only: coprime_power_left_iff coprime_left_2_iff_odd simp_thms)
    ultimately have "4294967296 dvd n - m"
      using coprime_dvd_mult_left_iff [of "2 ^ 32" "unat ?s" "n - m"] by simp
    then show False using mn by (auto dest: dvd_imp_le)
  qed
qed auto

section \<open>Error texts\<close>

definition error_table :: "string list" where
  "error_table = (replicate 40 ''Unknown error'')[0 := ''No error'', 2 := ''File not found'',
     9 := ''Bad file descriptor'', 12 := ''Not enougn memory'', 19 := ''No such device'',
     20 := ''Not a directory'', 23 := ''Not enough fds'', 34 := ''Result out of range'',
     39 := ''No such system call'']"

text \<open>The negation of the smallest number overflows, and has no defined result.\<close>

definition strerror :: "i32 \<Rightarrow> buf option" where
  "strerror errnum =
     (if sint errnum = - 2147483648 then None
      else
        (let e = (if sint errnum < 0 then - errnum else errnum) in
         if sint e \<ge> 40 then Some (lit ''Unknown error'')
         else do { t \<leftarrow> arr_get error_table (unat e); Some (lit t) }))"

text \<open>The text for a missing system call is at 39, although the number of that error is 38.\<close>

lemma strerror_enosys: "strerror (- ENOSYS) = Some (lit ''Unknown error'')" "strerror 39 = Some (lit ''No such system call'')"
  by (simp_all add: strerror_def error_table_def ENOSYS_def)

end
