(* ===== verification/Blackjack.thy ===== *)
theory Blackjack
  imports Vlibc Printk "HOL-Library.Multiset"
begin

text \<open>
  The card game \<^verbatim>\<open>userspace/blackjack.c\<close>. The program is built for the host and for the system itself;
  the two builds differ only in the C library and in the input. Both are the parameter \<open>L\<close> with its
  state, of which \<open>host_like\<close> states what the C standard says. In the build for the system no bet can be
  entered. What the game prints is left out.
\<close>

section \<open>The C library and the input\<close>

text \<open>
  \<open>scan_d\<close> and \<open>scan_s\<close> are \<^verbatim>\<open>scanf("%d")\<close> and \<^verbatim>\<open>scanf("%11s")\<close>, without a value when the result of
  \<^verbatim>\<open>scanf\<close> is not 1.
\<close>

record 'i clib =
  c_atoi :: "buf \<Rightarrow> int option"
  c_rand :: "'i \<Rightarrow> int \<times> 'i"
  c_srand :: "int \<Rightarrow> 'i \<Rightarrow> 'i"
  c_time :: "'i \<Rightarrow> int \<times> 'i"
  scan_d :: "'i \<Rightarrow> int option \<times> 'i"
  scan_s :: "'i \<Rightarrow> buf option \<times> 'i"

text \<open>A signed sum that leaves the 32-bit range is undefined.\<close>

definition c_int :: "int \<Rightarrow> int option" where
  "c_int x = (if - 2147483648 \<le> x \<and> x < 2147483648 then Some x else None)"

text \<open>The remainder of C takes the sign of the dividend.\<close>

definition c_mod :: "int \<Rightarrow> int \<Rightarrow> int" where
  "c_mod x n = (if 0 \<le> x then x mod n else - ((- x) mod n))"

section \<open>Copying cards\<close>

fun bj_memcpy_from :: "buf \<Rightarrow> buf \<Rightarrow> nat \<Rightarrow> nat \<Rightarrow> buf option" where
  "bj_memcpy_from dest src i 0 = Some dest"
| "bj_memcpy_from dest src i (Suc n) =
     do { c \<leftarrow> arr_get src i; d \<leftarrow> arr_set dest i c; bj_memcpy_from d src (Suc i) n }"

definition bj_memcpy :: "buf \<Rightarrow> buf \<Rightarrow> nat \<Rightarrow> buf option" where
  "bj_memcpy dest src n = bj_memcpy_from dest src 0 n"

definition bj_strcpy :: "buf \<Rightarrow> buf \<Rightarrow> buf option" where
  "bj_strcpy dst src = do { n \<leftarrow> strlen src; bj_memcpy dst src (n + 1) }"

section \<open>The state of the game\<close>

definition SHOE_SIZE :: nat where "SHOE_SIZE = 312"

definition HAND_SIZE :: nat where "HAND_SIZE = 22"

definition MAX_HANDS :: nat where "MAX_HANDS = 4"

definition CARD_SIZE :: nat where "CARD_SIZE = 3"

record player =
  pl_value :: "int list"
  pl_result :: "int list"
  money :: int
  bet_size :: int
  has_split :: int
  pl_hand :: "buf list list"
  hand_index :: nat
  pl_next_slot :: "nat list"

record house =
  h_value :: int
  h_result :: int
  h_next_slot :: nat
  h_hand :: "buf list"

text \<open>The whole program: the two structures, the shoe as the strings it points to, and the library.\<close>

record 'i game =
  pl :: player
  hs :: house
  shoe :: "buf list"
  env :: 'i

section \<open>The shoe\<close>

text \<open>The table of the source in its order: six of each suit, the suits of a rank, the ranks.\<close>

definition all_cards :: "buf list" where
  "all_cards = concat (map (\<lambda>r. concat (map (\<lambda>s. replicate 6 (lit [r, s])) ''HDCS'')) ''AKQJT98765432'')"

definition create_shoe :: "buf list" where
  "create_shoe = all_cards"

fun shuffle_from :: "'i clib \<Rightarrow> nat \<Rightarrow> buf list \<Rightarrow> 'i \<Rightarrow> (buf list \<times> 'i) option" where
  "shuffle_from L 0 s e = Some (s, e)"
| "shuffle_from L (Suc i) s e =
     (let (r, e1) = c_rand L e; j = c_mod r (int (Suc i) + 1) in
      if j < 0 then None
      else do { tmp \<leftarrow> arr_get s (Suc i);
                y \<leftarrow> arr_get s (nat j);
                s1 \<leftarrow> arr_set s (Suc i) y;
                s2 \<leftarrow> arr_set s1 (nat j) tmp;
                shuffle_from L i s2 e1 })"

definition shuffle :: "'i clib \<Rightarrow> buf list \<Rightarrow> nat \<Rightarrow> 'i \<Rightarrow> (buf list \<times> 'i) option" where
  "shuffle L s n e = shuffle_from L (n - 1) s e"

text \<open>\<^verbatim>\<open>create_shoe(shoe); srand(time(NULL)); shuffle(shoe, SHOE_SIZE)\<close>.\<close>

definition fresh_shoe :: "'i clib \<Rightarrow> 'i \<Rightarrow> (buf list \<times> 'i) option" where
  "fresh_shoe L e =
     (let s = create_shoe; (t, e1) = c_time L e; e2 = c_srand L t e1 in shuffle L s SHOE_SIZE e2)"

definition pop_shoe :: "'i clib \<Rightarrow> 'i game \<Rightarrow> (buf \<times> 'i game) option" where
  "pop_shoe L g =
     do { tmp \<leftarrow> arr_get (shoe g) 0;
          c \<leftarrow> strncmp tmp [0, 0] 1;
          (tmp1, s, e) \<leftarrow> (if c = 0
             then do { (s, e) \<leftarrow> fresh_shoe L (env g); tmp1 \<leftarrow> arr_get s 0; Some (tmp1, s, e) }
             else Some (tmp, shoe g, env g));
          Some (tmp1, g\<lparr>shoe := tl s @ [[0, 0]], env := e\<rparr>) }"

section \<open>Hands\<close>

text \<open>The loop of both \<^verbatim>\<open>hand_value\<close> functions over the slots of a hand.\<close>

definition card_is :: "buf \<Rightarrow> char \<Rightarrow> bool option" where
  "card_is cd r = do { c \<leftarrow> strncmp cd (lit [r]) 1; Some (c = 0) }"

function sum_from :: "'i clib \<Rightarrow> buf list \<Rightarrow> nat \<Rightarrow> int \<Rightarrow> int \<Rightarrow> (int \<times> int) option" where
  "sum_from L hand i v ace =
     (if i < HAND_SIZE then
        do { cd \<leftarrow> arr_get hand i;
             empty \<leftarrow> strncmp cd [0] 1;
             if empty = 0 then Some (v, ace)
             else
               do { is_ace \<leftarrow> card_is cd CHR ''A'';
                    is_k \<leftarrow> card_is cd CHR ''K'';
                    is_q \<leftarrow> card_is cd CHR ''Q'';
                    is_j \<leftarrow> card_is cd CHR ''J'';
                    is_t \<leftarrow> card_is cd CHR ''T'';
                    if is_ace then do { v1 \<leftarrow> c_int (v + 11); sum_from L hand (i + 1) v1 (ace + 1) }
                    else if is_k \<or> is_q \<or> is_j \<or> is_t
                      then do { v1 \<leftarrow> c_int (v + 10); sum_from L hand (i + 1) v1 ace }
                    else do { n \<leftarrow> c_atoi L cd; v1 \<leftarrow> c_int (v + n); sum_from L hand (i + 1) v1 ace } } }
      else Some (v, ace))"
  by pat_completeness auto
termination
  by (relation "measure (\<lambda>(L, hand, i, v, ace). HAND_SIZE - i)") auto

declare sum_from.simps [simp del]

function lower_aces :: "int \<Rightarrow> int \<Rightarrow> int" where
  "lower_aces v ace = (if v > 21 \<and> ace > 0 then lower_aces (v - 10) (ace - 1) else v)"
  by pat_completeness auto
termination
  by (relation "measure (\<lambda>(v, ace). nat ace)") auto

declare lower_aces.simps [simp del]

definition hand_value_player :: "'i clib \<Rightarrow> nat \<Rightarrow> 'i game \<Rightarrow> int option" where
  "hand_value_player L h g =
     do { hand \<leftarrow> arr_get (pl_hand (pl g)) h;
          (v, ace) \<leftarrow> sum_from L hand 0 0 0;
          Some (lower_aces v ace) }"

definition hand_value_house :: "'i clib \<Rightarrow> 'i game \<Rightarrow> int option" where
  "hand_value_house L g =
     do { (v, ace) \<leftarrow> sum_from L (h_hand (hs g)) 0 0 0;
          Some (lower_aces v ace) }"
section \<open>Dealing and resetting\<close>

text \<open>\<^verbatim>\<open>strcpy(player.hand[h][slot], src)\<close>.\<close>

definition set_card :: "nat \<Rightarrow> nat \<Rightarrow> buf \<Rightarrow> player \<Rightarrow> player option" where
  "set_card h slot src p =
     do { row \<leftarrow> arr_get (pl_hand p) h;
          old \<leftarrow> arr_get row slot;
          new \<leftarrow> bj_strcpy old src;
          Some (p\<lparr>pl_hand := (pl_hand p)[h := row[slot := new]]\<rparr>) }"

definition set_house_card :: "nat \<Rightarrow> buf \<Rightarrow> house \<Rightarrow> house option" where
  "set_house_card slot src h =
     do { old \<leftarrow> arr_get (h_hand h) slot;
          new \<leftarrow> bj_strcpy old src;
          Some (h\<lparr>h_hand := (h_hand h)[slot := new]\<rparr>) }"

text \<open>Of the hand of the house only the first four cards are cleared.\<close>

definition reset_hands :: "'i game \<Rightarrow> 'i game" where
  "reset_hands g =
     g\<lparr>pl := (pl g)\<lparr>has_split := 0, hand_index := 0, pl_value := replicate MAX_HANDS 0,
          pl_result := replicate MAX_HANDS 0, pl_next_slot := replicate MAX_HANDS 0,
          pl_hand := replicate MAX_HANDS (replicate HAND_SIZE (replicate CARD_SIZE 0))\<rparr>,
       hs := (hs g)\<lparr>h_value := 0, h_result := 0, h_next_slot := 0,
          h_hand := replicate MAX_HANDS (replicate CARD_SIZE 0) @ drop MAX_HANDS (h_hand (hs g))\<rparr>\<rparr>"

definition deal_one :: "'i clib \<Rightarrow> nat \<Rightarrow> 'i game \<Rightarrow> 'i game option" where
  "deal_one L i g =
     do { (c1, g1) \<leftarrow> pop_shoe L g;
          p \<leftarrow> set_card (hand_index (pl g1)) i c1 (pl g1);
          (c2, g2) \<leftarrow> pop_shoe L (g1\<lparr>pl := p\<rparr>);
          h \<leftarrow> set_house_card i c2 (hs g2);
          Some (g2\<lparr>hs := h\<rparr>) }"

definition add_slots :: "nat \<Rightarrow> nat \<Rightarrow> player \<Rightarrow> player option" where
  "add_slots h n p =
     do { s \<leftarrow> arr_get (pl_next_slot p) h; Some (p\<lparr>pl_next_slot := (pl_next_slot p)[h := s + n]\<rparr>) }"

definition deal :: "'i clib \<Rightarrow> 'i game \<Rightarrow> 'i game option" where
  "deal L g =
     do { g1 \<leftarrow> deal_one L 0 g;
          g2 \<leftarrow> deal_one L 1 g1;
          p \<leftarrow> add_slots (hand_index (pl g2)) 2 (pl g2);
          Some (g2\<lparr>pl := p, hs := (hs g2)\<lparr>h_next_slot := h_next_slot (hs g2) + 2\<rparr>\<rparr>) }"

section \<open>The turn of the house\<close>

partial_function (option) house_turn :: "'i clib \<Rightarrow> 'i game \<Rightarrow> (int \<times> 'i game) option" where
  [code]: "house_turn L g =
     do { v \<leftarrow> hand_value_house L g;
          let g1 = g\<lparr>hs := (hs g)\<lparr>h_value := v\<rparr>\<rparr>;
          if v > 21 then Some (0, g1\<lparr>hs := (hs g1)\<lparr>h_result := 2\<rparr>\<rparr>)
          else if v \<ge> 17 then Some (0, g1\<lparr>hs := (hs g1)\<lparr>h_result := 1\<rparr>\<rparr>)
          else
            do { (c, g2) \<leftarrow> pop_shoe L g1;
                 h \<leftarrow> set_house_card (h_next_slot (hs g2)) c (hs g2);
                 house_turn L (g2\<lparr>hs := h\<lparr>h_next_slot := h_next_slot h + 1\<rparr>\<rparr>) } }"

section \<open>The turn of the player\<close>

text \<open>
  One round of the loop of \<^verbatim>\<open>player_turn\<close> either returns or goes on with the hand \<open>h\<close> and \<open>n\<close> splits.
\<close>

datatype 'i turn = Finished int "'i game" | Again nat nat "'i game"

definition next_hand :: "nat \<Rightarrow> nat \<Rightarrow> 'i game \<Rightarrow> 'i turn" where
  "next_hand h n g = (if h = n then Finished 0 g else Again (h + 1) n g)"

definition set_result :: "nat \<Rightarrow> int \<Rightarrow> 'i game \<Rightarrow> 'i game option" where
  "set_result h r g = do { xs \<leftarrow> arr_set (pl_result (pl g)) h r; Some (g\<lparr>pl := (pl g)\<lparr>pl_result := xs\<rparr>\<rparr>) }"

definition set_value :: "nat \<Rightarrow> int \<Rightarrow> 'i game \<Rightarrow> 'i game option" where
  "set_value h v g = do { xs \<leftarrow> arr_set (pl_value (pl g)) h v; Some (g\<lparr>pl := (pl g)\<lparr>pl_value := xs\<rparr>\<rparr>) }"

text \<open>The next card goes into the next free slot of the hand.\<close>

definition draw_card :: "'i clib \<Rightarrow> nat \<Rightarrow> 'i game \<Rightarrow> 'i game option" where
  "draw_card L h g =
     do { slot \<leftarrow> arr_get (pl_next_slot (pl g)) h;
          (c, g1) \<leftarrow> pop_shoe L g;
          p \<leftarrow> set_card h slot c (pl g1);
          p1 \<leftarrow> add_slots h 1 p;
          Some (g1\<lparr>pl := p1\<rparr>) }"

definition first_card :: "nat \<Rightarrow> nat \<Rightarrow> 'i game \<Rightarrow> buf option" where
  "first_card h slot g = do { row \<leftarrow> arr_get (pl_hand (pl g)) h; arr_get row slot }"

text \<open>A hand of a pair of aces that was split ends with its second card.\<close>

definition split_aces :: "nat \<Rightarrow> 'i game \<Rightarrow> bool option" where
  "split_aces h g =
     do { slot \<leftarrow> arr_get (pl_next_slot (pl g)) h;
          if slot = 2 then do { c0 \<leftarrow> first_card h 0 g; card_is c0 CHR ''A'' } else Some False }"

definition hit :: "'i clib \<Rightarrow> nat \<Rightarrow> nat \<Rightarrow> 'i game \<Rightarrow> 'i turn option" where
  "hit L h n g =
     do { g1 \<leftarrow> draw_card L h g;
          v \<leftarrow> hand_value_player L h g1;
          g2 \<leftarrow> set_value h v g1;
          if v > 21 then do { g3 \<leftarrow> set_result h 2 g2; Some (next_hand h n g3) }
          else
            do { over \<leftarrow> split_aces h g2;
                 if over then do { g3 \<leftarrow> set_result h 1 g2; Some (next_hand h n g3) }
                 else Some (Again h n g2) } }"

text \<open>The last card of a doubled bet.\<close>

definition double_bet :: "'i clib \<Rightarrow> nat \<Rightarrow> 'i game \<Rightarrow> 'i turn option" where
  "double_bet L h g =
     do { m \<leftarrow> c_int (money (pl g) - bet_size (pl g));
          b \<leftarrow> c_int (bet_size (pl g) + bet_size (pl g));
          g1 \<leftarrow> draw_card L h (g\<lparr>pl := (pl g)\<lparr>money := m, bet_size := b\<rparr>\<rparr>);
          v \<leftarrow> hand_value_player L h g1;
          g2 \<leftarrow> set_value h v g1;
          g3 \<leftarrow> set_result h (if v > 21 then 2 else 1) g2;
          Some (Finished 0 g3) }"

definition double_down :: "'i clib \<Rightarrow> nat \<Rightarrow> nat \<Rightarrow> 'i game \<Rightarrow> 'i turn option" where
  "double_down L h n g =
     (if has_split (pl g) \<noteq> 0 then Some (Again h n g)
      else
        do { v0 \<leftarrow> hand_value_player L h g;
             if v0 = 21 then Some (Again h n g)
             else
               do { slot \<leftarrow> arr_get (pl_next_slot (pl g)) h;
                    if slot \<noteq> 2 then Some (Again h n g)
                    else if bet_size (pl g) > money (pl g) then Some (Again h n g)
                    else double_bet L h g } })"

definition stand :: "'i clib \<Rightarrow> nat \<Rightarrow> nat \<Rightarrow> 'i game \<Rightarrow> 'i turn option" where
  "stand L h n g =
     do { g1 \<leftarrow> set_result h 1 g;
          v \<leftarrow> hand_value_player L h g1;
          g2 \<leftarrow> set_value h v g1;
          Some (next_hand h n g2) }"

text \<open>The search for the next free hand compares no characters.\<close>

partial_function (option) free_hand :: "player \<Rightarrow> nat \<Rightarrow> nat \<Rightarrow> nat option" where
  [code]: "free_hand p h i =
     do { row \<leftarrow> arr_get (pl_hand p) (h + i);
          c \<leftarrow> arr_get row 0;
          r \<leftarrow> strncmp c [0] 0;
          if r \<noteq> 0 then free_hand p h (i + 1) else Some i }"

definition can_split :: "'i clib \<Rightarrow> nat \<Rightarrow> nat \<Rightarrow> 'i game \<Rightarrow> bool option" where
  "can_split L h n g =
     do { slot \<leftarrow> arr_get (pl_next_slot (pl g)) h;
          if slot \<noteq> 2 then Some False
          else
            do { c0 \<leftarrow> first_card h 0 g;
                 c1 \<leftarrow> first_card h 1 g;
                 differ \<leftarrow> strncmp c0 c1 1;
                 no_pair \<leftarrow> (if differ \<noteq> 0 then do { v \<leftarrow> hand_value_player L h g; Some (v \<noteq> 20) } else Some False);
                 Some (\<not> no_pair \<and> n \<noteq> 3 \<and> bet_size (pl g) \<le> money (pl g)) } }"

definition split_hand :: "nat \<Rightarrow> nat \<Rightarrow> 'i game \<Rightarrow> 'i turn option" where
  "split_hand h n g =
     do { m \<leftarrow> c_int (money (pl g) - bet_size (pl g));
          let p = (pl g)\<lparr>money := m\<rparr>;
          i \<leftarrow> free_hand p h 1;
          c1 \<leftarrow> first_card h 1 g;
          p1 \<leftarrow> set_card (h + i) 0 c1 p;
          slot \<leftarrow> arr_get (pl_next_slot p1) h;
          p2 \<leftarrow> set_card h (slot - 1) [0] p1;
          s1 \<leftarrow> arr_set (pl_next_slot p2) h 1;
          s2 \<leftarrow> arr_set s1 (h + i) 1;
          Some (Again h (n + 1) (g\<lparr>pl := p2\<lparr>hand_index := hand_index p2 + 1, pl_next_slot := s2,
            has_split := 1\<rparr>\<rparr>)) }"

definition split :: "'i clib \<Rightarrow> nat \<Rightarrow> nat \<Rightarrow> 'i game \<Rightarrow> 'i turn option" where
  "split L h n g =
     do { able \<leftarrow> can_split L h n g;
          if able then split_hand h n g else Some (Again h n g) }"

definition player_action :: "'i clib \<Rightarrow> buf \<Rightarrow> nat \<Rightarrow> nat \<Rightarrow> 'i game \<Rightarrow> 'i turn option" where
  "player_action L action h n g =
     do { c1 \<leftarrow> strncmp action (lit ''hit'') 3;
          if c1 = 0 then hit L h n g
          else
            do { c2 \<leftarrow> strncmp action (lit ''double_down'') 11;
                 if c2 = 0 then double_down L h n g
                 else
                   do { c3 \<leftarrow> strncmp action (lit ''stand'') 5;
                        if c3 = 0 then stand L h n g
                        else
                          do { c4 \<leftarrow> strncmp action (lit ''split'') 5;
                               if c4 = 0 then split L h n g else Some (Again h n g) } } } }"

partial_function (option) player_loop :: "'i clib \<Rightarrow> nat \<Rightarrow> nat \<Rightarrow> 'i game \<Rightarrow> (int \<times> 'i game) option" where
  [code]: "player_loop L h n g =
     (case scan_s L (env g) of
        (None, e) \<Rightarrow> Some (1, g\<lparr>env := e\<rparr>)
      | (Some action, e) \<Rightarrow>
          do { t \<leftarrow> player_action L action h n (g\<lparr>env := e\<rparr>);
               case t of Finished r g1 \<Rightarrow> Some (r, g1)
               | Again h1 n1 g1 \<Rightarrow> player_loop L h1 n1 g1 })"

definition player_turn :: "'i clib \<Rightarrow> 'i game \<Rightarrow> (int \<times> 'i game) option" where
  "player_turn L g = player_loop L 0 0 g"

section \<open>Settling the bets and the main loop\<close>

text \<open>What one hand wins: nothing, the stake, or twice the stake.\<close>

definition payout :: "nat \<Rightarrow> 'i game \<Rightarrow> int option" where
  "payout i g =
     do { pv \<leftarrow> arr_get (pl_value (pl g)) i;
          let hv = h_value (hs g);
          if pv > 21 then Some 0
          else if hv > 21 then Some (bet_size (pl g) * 2)
          else if pv > hv then Some (bet_size (pl g) * 2)
          else if pv = hv then
            do { slot \<leftarrow> arr_get (pl_next_slot (pl g)) i;
                 if slot = 2 \<and> h_next_slot (hs g) \<noteq> 2 \<and> pv = 21 then Some (bet_size (pl g) * 2)
                 else if slot \<noteq> 2 \<and> h_next_slot (hs g) = 2 \<and> pv = 21 then Some 0
                 else Some (bet_size (pl g)) }
          else Some 0 }"

fun settle_from :: "nat \<Rightarrow> nat \<Rightarrow> 'i game \<Rightarrow> 'i game option" where
  "settle_from i 0 g = Some g"
| "settle_from i (Suc n) g =
     do { w \<leftarrow> payout i g;
          m \<leftarrow> c_int (money (pl g) + w);
          settle_from (Suc i) n (g\<lparr>pl := (pl g)\<lparr>money := m\<rparr>\<rparr>) }"

text \<open>The loop that asks for a bet; no value when the input ends.\<close>

partial_function (option) get_bet :: "'i clib \<Rightarrow> 'i game \<Rightarrow> (bool \<times> 'i game) option" where
  [code]: "get_bet L g =
     (case scan_d L (env g) of
        (None, e) \<Rightarrow> Some (False, g\<lparr>env := e\<rparr>)
      | (Some b, e) \<Rightarrow>
          if b < 1 \<or> b > money (pl g) then get_bet L (g\<lparr>env := e\<rparr>)
          else Some (True, g\<lparr>env := e, pl := (pl g)\<lparr>bet_size := b, money := money (pl g) - b\<rparr>\<rparr>))"

definition stood :: "'i game \<Rightarrow> bool" where
  "stood g = (1 \<in> set (take MAX_HANDS (pl_result (pl g))))"

text \<open>
  One round of the loop of \<^verbatim>\<open>main\<close>: the first result is whether the round was played to its end.
\<close>

definition play_round :: "'i clib \<Rightarrow> 'i game \<Rightarrow> (bool \<times> 'i game) option" where
  "play_round L g =
     do { (ok, g1) \<leftarrow> get_bet L (reset_hands g);
          if \<not> ok then Some (False, g1)
          else
            do { g2 \<leftarrow> deal L g1;
                 (r, g3) \<leftarrow> player_turn L g2;
                 if r \<noteq> 0 then Some (False, g3)
                 else
                   do { (r1, g4) \<leftarrow> (if stood g3 then house_turn L g3 else Some (0, g3));
                        if r1 \<noteq> 0 then Some (False, g4)
                        else do { g5 \<leftarrow> settle_from 0 (hand_index (pl g4) + 1) g4; Some (True, g5) } } } }"

partial_function (option) main_loop :: "'i clib \<Rightarrow> 'i game \<Rightarrow> (int \<times> 'i game) option" where
  [code]: "main_loop L g =
     (if money (pl g) > 0 then
        do { (ok, g1) \<leftarrow> play_round L g;
             if ok then main_loop L g1 else Some (1, g1) }
      else Some (0, g))"

definition new_game :: "buf list \<Rightarrow> 'i \<Rightarrow> 'i game" where
  "new_game s e =
     \<lparr>pl = \<lparr>pl_value = replicate MAX_HANDS 0, pl_result = replicate MAX_HANDS 0, money = 1500, bet_size = 0,
        has_split = 0, pl_hand = replicate MAX_HANDS (replicate HAND_SIZE (replicate CARD_SIZE 0)),
        hand_index = 0, pl_next_slot = replicate MAX_HANDS 0\<rparr>,
      hs = \<lparr>h_value = 0, h_result = 0, h_next_slot = 0, h_hand = replicate HAND_SIZE (replicate CARD_SIZE 0)\<rparr>,
      shoe = s, env = e\<rparr>"

definition blackjack_main :: "'i clib \<Rightarrow> 'i \<Rightarrow> (int \<times> 'i game) option" where
  "blackjack_main L e = do { (s, e1) \<leftarrow> fresh_shoe L e; main_loop L (new_game s e1) }"
section \<open>Cards\<close>

text \<open>What the program relies on: \<^verbatim>\<open>atoi\<close> stops at the suit and \<^verbatim>\<open>rand\<close> is not negative.\<close>

definition host_like :: "'i clib \<Rightarrow> bool" where
  "host_like L \<longleftrightarrow> (\<forall>d\<in>{50..57}. \<forall>s\<in>{72, 68, 67, 83}. c_atoi L [d, s, 0] = Some (uint d - 48)) \<and>
     (\<forall>e. 0 \<le> fst (c_rand L e))"

definition is_card :: "buf \<Rightarrow> bool" where
  "is_card c \<longleftrightarrow> c \<in> set all_cards"

text \<open>The empty slot of a hand, and the end of the shoe.\<close>

abbreviation no_card :: buf where
  "no_card \<equiv> [0, 0, 0]"

abbreviation no_more :: buf where
  "no_more \<equiv> [0, 0]"

lemma all_cards_length: "length all_cards = SHOE_SIZE"
  by (simp add: all_cards_def SHOE_SIZE_def)

lemma is_card_cases:
  "is_card c \<longleftrightarrow> (\<exists>r\<in>set ''AKQJT98765432''. \<exists>s\<in>set ''HDCS''. c = [of_nat (of_char r), of_nat (of_char s), 0])"
  by (auto simp: is_card_def all_cards_def lit_def)

lemma is_card_shape:
  assumes "is_card c"
  obtains r s where "c = [r, s, 0]" "r \<in> {65, 75, 81, 74, 84} \<or> 50 \<le> r \<and> r \<le> 57" "s \<in> {72, 68, 67, 83}" "r \<noteq> 0" "s \<noteq> 0"
  using assms unfolding is_card_cases by (auto intro: that)

lemma bj_strcpy_card: "is_card c \<Longrightarrow> length old = 3 \<Longrightarrow> bj_strcpy old c = Some c"
proof -
  assume c: "is_card c" and "length old = 3"
  then obtain x y z where "old = [x, y, z]" by (auto simp: numeral_3_eq_3 length_Suc_conv)
  moreover obtain r s where "c = [r, s, 0]" "r \<noteq> 0" "s \<noteq> 0" using is_card_shape [OF c] by metis
  ultimately show ?thesis
    by (simp add: bj_strcpy_def bj_memcpy_def strlen_cstr terminated_def arr_get_def arr_set_def eval_nat_numeral)
qed

section \<open>The shoe as a multiset of cards\<close>

lemma shuffle_from_permutes:
  assumes "\<forall>e. 0 \<le> fst (c_rand L e)" and "i < length s"
  shows "\<exists>s' e'. shuffle_from L i s e = Some (s', e') \<and> mset s' = mset s"
  using assms(2)
proof (induction i arbitrary: s e)
  case (Suc i)
  obtain r e1 where r: "c_rand L e = (r, e1)" by (cases "c_rand L e")
  then have "0 \<le> r" using assms(1) by (metis fst_conv)
  then have j: "0 \<le> c_mod r (int (Suc i) + 1)" "nat (c_mod r (int (Suc i) + 1)) < Suc i + 1"
    by (simp_all add: c_mod_def nat_less_iff)
  let ?j = "nat (c_mod r (int (Suc i) + 1))"
  let ?s = "s[Suc i := s ! ?j, ?j := s ! Suc i]"
  have "?j < length s" using j(2) Suc.prems by linarith
  then have m: "mset ?s = mset s" using Suc.prems by (intro mset_swap)
  obtain s' e' where "shuffle_from L i ?s e1 = Some (s', e')" "mset s' = mset ?s"
    using Suc.IH [of ?s e1] Suc.prems by auto
  with r j(1) \<open>?j < length s\<close> Suc.prems m show ?case by (simp add: Let_def)
qed simp

lemma fresh_shoe_permutes:
  assumes "\<forall>e. 0 \<le> fst (c_rand L e)"
  shows "\<exists>s e'. fresh_shoe L e = Some (s, e') \<and> mset s = mset all_cards"
  using shuffle_from_permutes [OF assms, of "SHOE_SIZE - 1" all_cards]
  by (auto simp: fresh_shoe_def shuffle_def create_shoe_def all_cards_length SHOE_SIZE_def Let_def split: prod.splits)

text \<open>The cards that are left, and the shape of the array.\<close>

definition cards_left :: "'i game \<Rightarrow> buf list" where
  "cards_left g = takeWhile (\<lambda>c. c \<noteq> no_more) (shoe g)"

definition shoe_ok :: "'i game \<Rightarrow> bool" where
  "shoe_ok g \<longleftrightarrow> shoe g = cards_left g @ replicate (SHOE_SIZE - length (cards_left g)) no_more \<and>
     mset (cards_left g) \<subseteq># mset all_cards"

lemma card_not_end: "is_card c \<Longrightarrow> c \<noteq> no_more"
  by (auto elim: is_card_shape)

lemma shoe_okI:
  assumes "shoe g = cs @ replicate (SHOE_SIZE - length cs) no_more" and "mset cs \<subseteq># mset all_cards"
  shows "shoe_ok g" and "cards_left g = cs"
proof -
  have "\<forall>c\<in>set cs. is_card c" using set_mset_mono [OF assms(2)] by (auto simp: is_card_def)
  then have "\<forall>c\<in>set cs. c \<noteq> no_more" using card_not_end by blast
  then show "cards_left g = cs"
    by (cases "SHOE_SIZE - length cs") (simp_all add: cards_left_def assms(1) takeWhile_append2)
  then show "shoe_ok g" using assms by (simp add: shoe_ok_def)
qed

lemma pop_shoe_spec:
  assumes "shoe_ok g" and "\<forall>e. 0 \<le> fst (c_rand L e)"
  shows "\<exists>c g'. pop_shoe L g = Some (c, g') \<and> is_card c \<and> shoe_ok g' \<and> g' = g\<lparr>shoe := shoe g', env := env g'\<rparr> \<and>
    add_mset c (mset (cards_left g')) = (if cards_left g = [] then mset all_cards else mset (cards_left g))"
proof -
  have pop: "shoe_ok (g\<lparr>shoe := tl s @ [no_more], env := e\<rparr>) \<and> is_card c \<and>
      cards_left (g\<lparr>shoe := tl s @ [no_more], env := e\<rparr>) = cs"
    if "s = (c # cs) @ replicate (SHOE_SIZE - length (c # cs)) no_more" "mset (c # cs) \<subseteq># mset all_cards" for s c cs e
  proof -
    have "length (c # cs) \<le> SHOE_SIZE"
      using size_mset_mono [OF that(2)] all_cards_length by simp
    then have "SHOE_SIZE - length cs = Suc (SHOE_SIZE - length (c # cs))" by simp
    then have "replicate (SHOE_SIZE - length cs) no_more = replicate (SHOE_SIZE - length (c # cs)) no_more @ [no_more]"
      by (metis replicate_Suc replicate_append_same)
    then have "tl s @ [no_more] = cs @ replicate (SHOE_SIZE - length cs) no_more" by (simp add: that(1))
    moreover have "mset cs \<subseteq># mset (c # cs)" by simp
    then have "mset cs \<subseteq># mset all_cards" using that(2) by (rule subset_mset.order_trans)
    moreover have "is_card c" using set_mset_mono [OF that(2)] by (simp add: is_card_def)
    ultimately show ?thesis using shoe_okI [of "g\<lparr>shoe := tl s @ [no_more], env := e\<rparr>" cs] by simp
  qed
  show ?thesis
  proof (cases "cards_left g")
    case Nil
    obtain s e where f: "fresh_shoe L (env g) = Some (s, e)" "mset s = mset all_cards"
      using fresh_shoe_permutes [OF assms(2)] by blast
    have l: "length s = SHOE_SIZE" using f(2) all_cards_length by (metis size_mset)
    then obtain c cs where s: "s = c # cs" by (cases s) (simp_all add: SHOE_SIZE_def)
    have "arr_get (shoe g) 0 = Some no_more" using assms(1) Nil by (simp add: shoe_ok_def SHOE_SIZE_def)
    then have "pop_shoe L g = Some (c, g\<lparr>shoe := tl s @ [no_more], env := e\<rparr>)"
      using f(1) s by (simp add: pop_shoe_def strncmp_def)
    moreover have "s = (c # cs) @ replicate (SHOE_SIZE - length (c # cs)) no_more" using l s by simp
    moreover have "mset (c # cs) \<subseteq># mset all_cards" using f(2) s by simp
    ultimately show ?thesis using pop [of s c cs e] f(2) s Nil by auto
  next
    case (Cons c cs)
    have sh: "shoe g = (c # cs) @ replicate (SHOE_SIZE - length (c # cs)) no_more" "mset (c # cs) \<subseteq># mset all_cards"
      using assms(1) Cons by (simp_all add: shoe_ok_def)
    have "is_card c" using set_mset_mono [OF sh(2)] by (simp add: is_card_def)
    then obtain r t where "c = [r, t, 0]" "r \<noteq> 0" using is_card_shape by metis
    then have "strncmp c no_more 1 \<noteq> None" "strncmp c no_more 1 \<noteq> Some 0"
      by (simp_all add: strncmp_def uint_0_iff)
    then have "pop_shoe L g = Some (c, g\<lparr>shoe := tl (shoe g) @ [no_more], env := env g\<rparr>)"
      using sh(1) by (auto simp: pop_shoe_def)
    then show ?thesis using pop [OF sh, of "env g"] Cons by auto
  qed
qed
text \<open>Popping several cards in a row.\<close>

fun pop_many :: "'i clib \<Rightarrow> nat \<Rightarrow> 'i game \<Rightarrow> (buf list \<times> 'i game) option" where
  "pop_many L 0 g = Some ([], g)"
| "pop_many L (Suc n) g =
     do { (c, g1) \<leftarrow> pop_shoe L g; (cs, g2) \<leftarrow> pop_many L n g1; Some (c # cs, g2) }"

lemma pop_many_spec:
  assumes "shoe_ok g" and "\<forall>e. 0 \<le> fst (c_rand L e)" and "n \<le> length (cards_left g)"
  shows "\<exists>cs g'. pop_many L n g = Some (cs, g') \<and> length cs = n \<and> shoe_ok g' \<and>
    mset cs + mset (cards_left g') = mset (cards_left g)"
  using assms(1,3)
proof (induction n arbitrary: g)
  case (Suc n)
  then have ne: "cards_left g \<noteq> []" by auto
  obtain c g1 where p: "pop_shoe L g = Some (c, g1)" "shoe_ok g1"
    "add_mset c (mset (cards_left g1)) = mset (cards_left g)"
    using pop_shoe_spec [OF Suc.prems(1) assms(2)] ne by auto
  have "Suc (length (cards_left g1)) = length (cards_left g)" using p(3) by (metis size_add_mset size_mset)
  then have "n \<le> length (cards_left g1)" using Suc.prems(2) by simp
  from Suc.IH [OF p(2) this] obtain cs g' where "pop_many L n g1 = Some (cs, g')" "length cs = n" "shoe_ok g'"
    "mset cs + mset (cards_left g') = mset (cards_left g1)" by blast
  with p show ?case by (simp flip: p(3))
qed simp

lemma of_char_inj: "(of_nat (of_char a) :: u8) = of_nat (of_char b) \<longleftrightarrow> a = b"
proof -
  have "unat (of_nat (of_char c) :: u8) = of_char c" for c :: char by (cases c) (simp add: unat_of_nat)
  then show ?thesis by (metis of_char_eq_iff)
qed

lemma sum_list_one:
  "distinct xs \<Longrightarrow> x \<in> set xs \<Longrightarrow> (\<Sum>y\<leftarrow>xs. if y = x then n else 0 :: nat) = n"
proof (induction xs)
  case (Cons z xs)
  have "x \<notin> set xs \<Longrightarrow> (\<Sum>y\<leftarrow>xs. if y = x then n else 0) = 0" by (induction xs) auto
  with Cons show ?case by auto
qed simp

lemma six_of_each:
  assumes "r \<in> set ''AKQJT98765432''" and "t \<in> set ''HDCS''"
  shows "count (mset all_cards) (lit [r, t]) = 6"
proof -
  have c: "count (mset (concat (map f xs))) x = sum_list (map (\<lambda>y. count (mset (f y)) x) xs)"
    for f :: "char \<Rightarrow> buf list" and xs x by (induction xs) auto
  have "count (mset (replicate 6 (lit [r', t']))) (lit [r, t]) = (if r' = r \<and> t' = t then 6 else 0)" for r' t'
    by (simp add: lit_def of_char_inj)
  then have "count (mset all_cards) (lit [r, t]) =
      (\<Sum>r'\<leftarrow>''AKQJT98765432''. \<Sum>t'\<leftarrow>''HDCS''. if r' = r \<and> t' = t then 6 else 0)"
    by (simp only: all_cards_def c)
  moreover have "(\<Sum>t'\<leftarrow>''HDCS''. if r' = r \<and> t' = t then 6 else 0 :: nat) = (if r' = r then 6 else 0)" for r'
    using assms(2) by auto
  moreover have "(\<Sum>r'\<leftarrow>''AKQJT98765432''. if r' = r then 6 else 0 :: nat) = 6"
    using assms(1) by (intro sum_list_one) simp_all
  ultimately show ?thesis by (simp only:)
qed

text \<open>
  The shoe is a fair pile of six decks. After shuffling, whatever the random numbers are, the
  next \<open>n\<close> cards that are dealt and the cards that are left make up exactly six of each of the 52
  cards, for every \<open>n\<close> up to 312: no card is lost, doubled or invented before the shoe is empty.
\<close>

lemma shoe_deals_six_decks:
  assumes "\<forall>e. 0 \<le> fst (c_rand L e)" and "n \<le> SHOE_SIZE"
  shows "\<exists>s e1 cs g. fresh_shoe L e = Some (s, e1) \<and> pop_many L n (new_game s e1) = Some (cs, g) \<and> length cs = n \<and>
    (\<forall>r\<in>set ''AKQJT98765432''. \<forall>t\<in>set ''HDCS''. count (mset cs + mset (cards_left g)) (lit [r, t]) = 6) \<and>
    size (mset cs + mset (cards_left g)) = SHOE_SIZE"
proof -
  obtain s e1 where f: "fresh_shoe L e = Some (s, e1)" "mset s = mset all_cards"
    using fresh_shoe_permutes [OF assms(1)] by blast
  have l: "length s = SHOE_SIZE" using f(2) all_cards_length by (metis size_mset)
  then have g: "shoe_ok (new_game s e1)" "cards_left (new_game s e1) = s"
    using shoe_okI [of "new_game s e1" s] f(2) by (simp_all add: new_game_def)
  obtain cs g where p: "pop_many L n (new_game s e1) = Some (cs, g)" "length cs = n"
    "mset cs + mset (cards_left g) = mset all_cards"
    using pop_many_spec [OF g(1) assms(1), of n] assms(2) g(2) l f(2) by auto
  have "count (mset cs + mset (cards_left g)) (lit [r, t]) = 6"
    if "r \<in> set ''AKQJT98765432''" "t \<in> set ''HDCS''" for r t
    unfolding p(3) using that by (rule six_of_each)
  moreover have "size (mset cs + mset (cards_left g)) = SHOE_SIZE" unfolding p(3) using all_cards_length by simp
  ultimately show ?thesis using f(1) p(1,2) by blast
qed

text \<open>A library in which everything is zero; the digits are read as the C standard says.\<close>

definition plain_lib :: "unit clib" where
  "plain_lib = \<lparr>c_atoi = (\<lambda>c. Some (uint (hd c) - 48)), c_rand = (\<lambda>e. (0, e)), c_srand = (\<lambda>x e. e),
     c_time = (\<lambda>e. (0, e)), scan_d = (\<lambda>e. (None, e)), scan_s = (\<lambda>e. (None, e))\<rparr>"

lemma plain_lib_host_like: "host_like plain_lib"
  by (simp add: host_like_def plain_lib_def)

text \<open>The rules of the game: what a card may count, all totals of a hand, and the best of them.\<close>

definition points :: "buf \<Rightarrow> int set" where
  "points c = (if hd c = 65 then {1, 11} else if hd c \<in> {75, 81, 74, 84} then {10} else {uint (hd c) - 48})"

fun totals :: "buf list \<Rightarrow> int set" where
  "totals [] = {0}"
| "totals (c # cs) = (\<Union>x\<in>points c. (\<lambda>t. x + t) ` totals cs)"

definition best_total :: "buf list \<Rightarrow> int" where
  "best_total cs = (let ok = {t \<in> totals cs. t \<le> 21} in if ok = {} then Min (totals cs) else Max ok)"

text \<open>The sum with every ace as 11, and the number of aces.\<close>

definition soft :: "buf \<Rightarrow> int" where
  "soft c = (if hd c = 65 then 11 else if hd c \<in> {75, 81, 74, 84} then 10 else uint (hd c) - 48)"

definition aces :: "buf list \<Rightarrow> nat" where
  "aces cs = length (filter (\<lambda>c. hd c = 65) cs)"

lemma soft_bounds: "is_card c \<Longrightarrow> 2 \<le> soft c \<and> soft c \<le> 11"
  by (auto simp: is_card_cases soft_def)

lemma totals_soft: "totals cs = (\<lambda>k. sum_list (map soft cs) - 10 * int k) ` {..aces cs}"
proof (induction cs)
  case (Cons c cs)
  let ?S = "sum_list (map soft cs)"
  show ?case
  proof (cases "hd c = 65")
    case True
    have "totals (c # cs) = (\<lambda>t. 11 + t) ` totals cs \<union> (\<lambda>t. 1 + t) ` totals cs" using True by (auto simp: points_def)
    also have "\<dots> = (\<lambda>k. 11 + ?S - 10 * int k) ` {..aces cs} \<union> (\<lambda>k. 11 + ?S - 10 * int k) ` Suc ` {..aces cs}"
      unfolding Cons.IH image_image by (simp add: algebra_simps)
    also have "\<dots> = (\<lambda>k. 11 + ?S - 10 * int k) ` {..Suc (aces cs)}"
      by (simp only: image_Un [symmetric] image_Suc_atMost) (rule arg_cong2 [where f = image], simp, auto)
    moreover have "soft c = 11" using True by (simp add: soft_def)
    ultimately show ?thesis using True by (simp add: aces_def)
  next
    case False
    have "totals (c # cs) = (\<lambda>t. soft c + t) ` totals cs" using False by (auto simp: points_def soft_def)
    then show ?thesis using False unfolding Cons.IH image_image by (simp add: aces_def algebra_simps)
  qed
qed (simp add: aces_def)

lemma lower_aces_spec:
  "\<exists>k\<le>a. lower_aces v (int a) = v - 10 * int k \<and> (\<forall>j<k. v - 10 * int j > 21) \<and> (k < a \<longrightarrow> v - 10 * int k \<le> 21)"
proof (induction a arbitrary: v)
  case 0
  then show ?case by (simp add: lower_aces.simps)
next
  case (Suc a)
  show ?case
  proof (cases "v > 21")
    case True
    obtain k where k: "k \<le> a" "lower_aces (v - 10) (int a) = v - 10 - 10 * int k" "\<forall>j<k. v - 10 - 10 * int j > 21"
      "k < a \<longrightarrow> v - 10 - 10 * int k \<le> 21" using Suc.IH [of "v - 10"] by blast
    have "v - 10 * int j > 21" if "j < Suc k" for j using k(3) that True by (cases j) auto
    with k True show ?thesis by (intro exI [of _ "Suc k"]) (subst lower_aces.simps, simp)
  next
    case False
    then show ?thesis by (intro exI [of _ 0]) (subst lower_aces.simps, simp)
  qed
qed

lemma lower_aces_best: "lower_aces (sum_list (map soft cs)) (int (aces cs)) = best_total cs"
proof -
  let ?v = "sum_list (map soft cs)" and ?T = "totals cs"
  obtain k where k: "k \<le> aces cs" "lower_aces ?v (int (aces cs)) = ?v - 10 * int k" "\<forall>j<k. ?v - 10 * int j > 21"
    "k < aces cs \<longrightarrow> ?v - 10 * int k \<le> 21" using lower_aces_spec by blast
  have fin: "finite ?T" unfolding totals_soft by simp
  show ?thesis
  proof (cases "?v - 10 * int k \<le> 21")
    case True
    have "Max {t \<in> ?T. t \<le> 21} = ?v - 10 * int k"
    proof (rule Max_eqI)
      show "t \<le> ?v - 10 * int k" if t: "t \<in> {t \<in> ?T. t \<le> 21}" for t
      proof -
        obtain j where "t = ?v - 10 * int j" using t unfolding totals_soft by blast
        moreover have "t \<le> 21" using t by simp
        ultimately have "\<not> j < k" using k(3) by auto
        then show ?thesis using \<open>t = _\<close> by simp
      qed
    qed (use fin k(1) True in \<open>auto simp: totals_soft\<close>)
    moreover have "{t \<in> ?T. t \<le> 21} \<noteq> {}" using k(1) True by (auto simp: totals_soft)
    ultimately show ?thesis unfolding best_total_def Let_def k(2) by (simp only: if_False)
  next
    case False
    then have ka: "k = aces cs" using k(1,4) by simp
    have no: "{t \<in> ?T. t \<le> 21} = {}"
    proof -
      have "\<not> ?v - 10 * int j \<le> 21" if "j \<le> aces cs" for j
        using that k(3) ka False by (cases "j < k") auto
      then show ?thesis by (auto simp: totals_soft)
    qed
    have "Min ?T = ?v - 10 * int k"
      by (rule Min_eqI) (use fin k(1) ka in \<open>auto simp: totals_soft\<close>)
    then show ?thesis unfolding best_total_def Let_def no k(2) by simp
  qed
qed
text \<open>A hand whose slots hold the cards \<open>cs\<close> and then an empty slot.\<close>

definition holds :: "buf list \<Rightarrow> buf list \<Rightarrow> bool" where
  "holds hand cs \<longleftrightarrow> (\<forall>c\<in>set cs. is_card c) \<and> length hand = HAND_SIZE \<and>
     (\<exists>rest. hand = cs @ rest \<and> (rest = [] \<or> (\<exists>x. hd rest = 0 # x)))"

lemma card_is_eq:
  assumes "is_card c"
  shows "card_is c r = Some (hd c = of_nat (of_char r))"
proof -
  obtain x s where "c = [x, s, 0]" using is_card_shape [OF assms] by metis
  then show ?thesis by (simp add: card_is_def strncmp_def lit_def word_uint_eq_iff)
qed

lemma card_value:
  assumes "host_like L" and "is_card c" and "hd c \<noteq> 65" and "hd c \<notin> {75, 81, 74, 84}"
  shows "c_atoi L c = Some (soft c)"
proof -
  obtain r s where c: "c = [r, s, 0]" "r \<in> {65, 75, 81, 74, 84} \<or> 50 \<le> r \<and> r \<le> 57" "s \<in> {72, 68, 67, 83}"
    using is_card_shape [OF assms(2)] by metis
  then have "r \<in> {50..57}" using assms(3,4) by auto
  then have "c_atoi L c = Some (uint r - 48)" using assms(1) c(1,3) unfolding host_like_def by blast
  then show ?thesis using assms(3,4) c(1) by (simp add: soft_def)
qed

lemma sum_from_cards:
  assumes "host_like L" and "\<forall>c\<in>set cs. is_card c" and "hand = pre @ cs @ rest" and "length hand = HAND_SIZE"
    and "rest = [] \<or> (\<exists>x. hd rest = 0 # x)" and "0 \<le> v" and "v \<le> 11 * int (length pre)"
  shows "sum_from L hand (length pre) v a = Some (v + sum_list (map soft cs), a + int (aces cs))"
  using assms(2-7)
proof (induction cs arbitrary: pre v a)
  case Nil
  show ?case
  proof (cases rest)
    case Nil
    then show ?thesis using Nil.prems by (subst sum_from.simps) (simp add: aces_def)
  next
    case (Cons e es)
    then obtain x where "e = 0 # x" using Nil.prems by auto
    then have "strncmp e [0] 1 = Some 0" by (simp add: strncmp_def)
    then show ?thesis using Cons Nil.prems by (subst sum_from.simps) (simp add: aces_def)
  qed
next
  case (Cons c cs)
  have c: "is_card c" and i: "length pre < HAND_SIZE" "hand ! length pre = c"
    using Cons.prems by (simp_all add: nth_append)
  obtain x s where x: "c = [x, s, 0]" "x \<noteq> 0" using is_card_shape [OF c] by metis
  then obtain n where e: "strncmp c [0] 1 = Some n" "n \<noteq> 0" by (simp add: strncmp_def uint_0_iff)
  have ci: "c_int (v + soft c) = Some (v + soft c)"
    using soft_bounds [OF c] Cons.prems(5,6) i(1) by (simp add: c_int_def HAND_SIZE_def)
  have at: "hd c \<noteq> 65 \<and> hd c \<notin> {75, 81, 74, 84} \<Longrightarrow> c_atoi L c = Some (soft c)"
    using card_value [OF assms(1) c] by blast
  have g: "arr_get hand (length pre) = Some c" using i Cons.prems(3) by simp
  have step: "sum_from L hand (length pre) v a =
      sum_from L hand (length (pre @ [c])) (v + soft c) (if hd c = 65 then a + 1 else a)"
  proof (cases "hd c = 65 \<or> hd c \<in> {75, 81, 74, 84}")
    case True
    then show ?thesis using e i(1) g ci by (subst sum_from.simps) (auto simp: card_is_eq [OF c] soft_def)
  next
    case False
    then show ?thesis using e i(1) g ci at by (subst sum_from.simps) (simp add: card_is_eq [OF c])
  qed
  have "sum_from L hand (length (pre @ [c])) (v + soft c) (if hd c = 65 then a + 1 else a) =
      Some (v + soft c + sum_list (map soft cs), (if hd c = 65 then a + 1 else a) + int (aces cs))"
    using Cons.prems soft_bounds [OF c] by (intro Cons.IH) auto
  then show ?case unfolding step by (simp add: aces_def)
qed

lemma sum_from_holds:
  assumes "host_like L" and "holds hand cs"
  shows "sum_from L hand 0 0 0 = Some (sum_list (map soft cs), int (aces cs))"
  using sum_from_cards [OF assms(1), of cs hand "[]" _ 0 0] assms(2) by (auto simp: holds_def)

lemma hand_value_holds:
  assumes "host_like L"
  shows "holds (pl_hand (pl g) ! h) cs \<Longrightarrow> h < length (pl_hand (pl g)) \<Longrightarrow> hand_value_player L h g = Some (best_total cs)"
    and "holds (h_hand (hs g)) ds \<Longrightarrow> hand_value_house L g = Some (best_total ds)"
  using sum_from_holds [OF assms] by (simp_all add: hand_value_player_def hand_value_house_def lower_aces_best)

text \<open>
  C32: The value of a hand is what the rules say, although the program only ever takes ten off for an
  ace while the total is too high: over all choices of 1 or 11 for each ace it is the largest total
  that is not above 21, and the smallest total if all are above. The functions for the player
  and for the house agree.
\<close>

theorem hand_value_best:
  assumes "host_like L" and "holds (pl_hand (pl g) ! h) cs" and "h < length (pl_hand (pl g))" and "holds (h_hand (hs g)) ds"
  shows "hand_value_player L h g = Some (best_total cs) \<and> hand_value_house L g = Some (best_total ds)"
  using hand_value_holds [OF assms(1)] assms(2-4) by blast

text \<open>A pair of aces and a nine: one ace counts 11, the other 1.\<close>

definition demo_game :: "unit game" where
  "demo_game = (let g = new_game create_shoe (); two = replicate (HAND_SIZE - 3) no_card in
     g\<lparr>pl := (pl g)\<lparr>pl_hand := (pl_hand (pl g))[0 := [lit ''AH'', lit ''AS'', lit ''9D''] @ two]\<rparr>,
       hs := (hs g)\<lparr>h_hand := [lit ''KH'', lit ''6S'', lit ''7D''] @ two\<rparr>\<rparr>)"

lemma demo_holds:
  "holds (pl_hand (pl demo_game) ! 0) [lit ''AH'', lit ''AS'', lit ''9D'']"
  "holds (h_hand (hs demo_game)) [lit ''KH'', lit ''6S'', lit ''7D'']"
  by (simp_all add: holds_def demo_game_def new_game_def Let_def HAND_SIZE_def MAX_HANDS_def is_card_cases lit_def)

lemma demo_totals:
  "best_total [lit ''AH'', lit ''AS'', lit ''9D''] = 21" "best_total [lit ''KH'', lit ''6S'', lit ''7D''] = 23"
  unfolding lower_aces_best [symmetric]
  by (simp_all add: soft_def aces_def lit_def lower_aces.simps)

theorem hand_value_best_witness:
  "hand_value_player plain_lib 0 demo_game = Some 21 \<and> hand_value_house plain_lib demo_game = Some 23"
  using hand_value_best [OF plain_lib_host_like demo_holds(1) _ demo_holds(2)]
  by (simp add: demo_totals) (simp add: demo_game_def new_game_def Let_def MAX_HANDS_def)

section \<open>The turn of the house\<close>

text \<open>The hand of the house after a proper reset: the cards \<open>cs\<close>, and all other slots empty.\<close>

definition house_has :: "'i game \<Rightarrow> buf list \<Rightarrow> bool" where
  "house_has g cs \<longleftrightarrow> h_hand (hs g) = cs @ replicate (HAND_SIZE - length cs) no_card \<and>
     (\<forall>c\<in>set cs. is_card c) \<and> h_next_slot (hs g) = length cs \<and> length cs \<le> HAND_SIZE"

lemma house_has_holds: "house_has g cs \<Longrightarrow> holds (h_hand (hs g)) cs"
  by (cases "HAND_SIZE - length cs") (auto simp: house_has_def holds_def)

lemma best_total_length: "\<forall>c\<in>set cs. is_card c \<Longrightarrow> int (length cs) \<le> best_total cs"
proof -
  assume cards: "\<forall>c\<in>set cs. is_card c"
  then have "int (length cs) \<le> sum_list (map soft cs) - 10 * int (aces cs)"
  proof (induction cs)
    case (Cons c cs)
    have "2 \<le> soft c" "hd c = 65 \<Longrightarrow> soft c = 11" using soft_bounds Cons.prems by (auto simp: soft_def)
    with Cons show ?case by (cases "hd c = 65") (auto simp: aces_def)
  qed (simp add: aces_def)
  moreover obtain k where "k \<le> aces cs" "best_total cs = sum_list (map soft cs) - 10 * int k"
    using lower_aces_spec [of "aces cs" "sum_list (map soft cs)"] by (auto simp: lower_aces_best)
  ultimately show ?thesis by simp
qed

text \<open>The house draws one card.\<close>

lemma house_draws:
  assumes "house_has g cs" and "is_card c" and "length cs < HAND_SIZE"
  shows "\<exists>h. set_house_card (h_next_slot (hs g)) c (hs g) = Some h \<and>
    house_has (g\<lparr>hs := h\<lparr>h_next_slot := h_next_slot h + 1\<rparr>\<rparr>) (cs @ [c])"
proof -
  let ?e = "replicate (HAND_SIZE - Suc (length cs)) no_card"
  have r: "replicate (HAND_SIZE - length cs) no_card = no_card # ?e"
    using assms(3) by (metis Suc_diff_Suc replicate_Suc)
  then have h: "h_hand (hs g) = cs @ no_card # ?e" "h_next_slot (hs g) = length cs" using assms(1) by (simp_all add: house_has_def)
  have "set_house_card (h_next_slot (hs g)) c (hs g) = Some ((hs g)\<lparr>h_hand := cs @ c # ?e\<rparr>)"
    using h bj_strcpy_card [OF assms(2), of no_card] by (simp add: set_house_card_def)
  then show ?thesis using assms h(2) by (auto simp: house_has_def)
qed

lemma house_turn_spec:
  assumes "host_like L" and "house_has g cs" and "shoe_ok g"
  shows "\<exists>g' ds. house_turn L g = Some (0, g') \<and> house_has g' (cs @ ds) \<and> shoe_ok g' \<and> pl g' = pl g \<and>
    h_value (hs g') = best_total (cs @ ds) \<and> 17 \<le> best_total (cs @ ds) \<and>
    h_result (hs g') = (if best_total (cs @ ds) > 21 then 2 else 1) \<and>
    (\<forall>n<length ds. best_total (cs @ take n ds) < 17)"
  using assms(2,3)
proof (induction "HAND_SIZE - length cs" arbitrary: g cs rule: less_induct)
  case less
  have v: "hand_value_house L g = Some (best_total cs)"
    using hand_value_holds(2) [OF assms(1)] house_has_holds [OF less.prems(1)] .
  let ?g = "g\<lparr>hs := (hs g)\<lparr>h_value := best_total cs\<rparr>\<rparr>"
  show ?case
  proof (cases "best_total cs \<ge> 17")
    case True
    let ?r = "?g\<lparr>hs := (hs ?g)\<lparr>h_result := (if best_total cs > 21 then 2 else 1)\<rparr>\<rparr>"
    have "house_turn L g = Some (0, ?r)" using v True by (subst house_turn.simps) (simp add: Let_def)
    moreover have "house_has ?r cs" "shoe_ok ?r" using less.prems by (simp_all add: house_has_def shoe_ok_def cards_left_def)
    ultimately show ?thesis using True by (intro exI [of _ ?r] exI [of _ "[]"]) simp
  next
    case False
    have len: "length cs < HAND_SIZE"
      using best_total_length [of cs] less.prems(1) False by (simp add: house_has_def HAND_SIZE_def)
    have "shoe_ok ?g" "house_has ?g cs" using less.prems by (simp_all add: house_has_def shoe_ok_def cards_left_def)
    moreover have "\<forall>e. 0 \<le> fst (c_rand L e)" using assms(1) by (simp add: host_like_def)
    ultimately obtain c g2 where p: "pop_shoe L ?g = Some (c, g2)" "is_card c" "shoe_ok g2"
      "g2 = ?g\<lparr>shoe := shoe g2, env := env g2\<rparr>" using pop_shoe_spec by blast
    have "hs g2 = hs ?g" "pl g2 = pl g" by (subst p(4), simp)+
    then have g2: "house_has g2 cs" "pl g2 = pl g" using \<open>house_has ?g cs\<close> by (simp_all add: house_has_def)
    obtain h where h: "set_house_card (h_next_slot (hs g2)) c (hs g2) = Some h"
      "house_has (g2\<lparr>hs := h\<lparr>h_next_slot := h_next_slot h + 1\<rparr>\<rparr>) (cs @ [c])" using house_draws [OF g2(1) p(2) len] by blast
    let ?g3 = "g2\<lparr>hs := h\<lparr>h_next_slot := h_next_slot h + 1\<rparr>\<rparr>"
    have step: "house_turn L g = house_turn L ?g3"
      using v False p(1) h(1) by (subst house_turn.simps) (simp add: Let_def)
    have dec: "HAND_SIZE - length (cs @ [c]) < HAND_SIZE - length cs" using len by simp
    have "shoe_ok ?g3" using p(3) by (simp add: shoe_ok_def cards_left_def)
    then obtain g' ds where r: "house_turn L ?g3 = Some (0, g')" "house_has g' ((cs @ [c]) @ ds)" "shoe_ok g'" "pl g' = pl ?g3"
      "h_value (hs g') = best_total ((cs @ [c]) @ ds)" "17 \<le> best_total ((cs @ [c]) @ ds)"
      "h_result (hs g') = (if best_total ((cs @ [c]) @ ds) > 21 then 2 else 1)"
      "\<forall>n<length ds. best_total ((cs @ [c]) @ take n ds) < 17"
      using less.hyps [OF dec h(2)] by blast
    have "best_total (cs @ take n (c # ds)) < 17" if "n < length (c # ds)" for n
      using that False r(8) by (cases n) auto
    with r step g2(2) show ?thesis by (intro exI [of _ g'] exI [of _ "c # ds"]) simp
  qed
qed

text \<open>
  The house always finishes its turn, and plays by the rules: it draws exactly as long as its
  best total is below 17, never needs a 23rd slot, and records whether it stands or is bust. The
  player's structure is left alone. This presumes that the unused slots of its hand are empty.
\<close>

lemma house_turn_correct:
  assumes "host_like L" and "house_has g cs" and "shoe_ok g"
  shows "\<exists>g' ds. house_turn L g = Some (0, g') \<and> house_has g' (cs @ ds) \<and> pl g' = pl g \<and>
    h_value (hs g') = best_total (cs @ ds) \<and> 17 \<le> best_total (cs @ ds) \<and>
    h_result (hs g') = (if best_total (cs @ ds) > 21 then 2 else 1) \<and>
    (\<forall>n<length ds. best_total (cs @ take n ds) < 17)"
  using house_turn_spec [OF assms] by blast

text \<open>
  \<^verbatim>\<open>reset_hands\<close> clears only four slots of the house. If the house held five or more cards, the
  fifth and the following ones stay: as soon as the house holds four cards in the next round, its value also
  counts the old ones.
\<close>

lemma house_keeps_old_cards:
  assumes "host_like L" and "house_has g cs" and "4 < length cs" and "\<forall>c\<in>set ds. is_card c" and "length ds = 4"
    and "hs g' = (hs (reset_hands g))\<lparr>h_hand := ds @ drop 4 (h_hand (hs (reset_hands g)))\<rparr>"
  shows "hand_value_house L g' = Some (best_total (ds @ drop 4 cs))"
proof -
  have hd: "h_hand (hs g) = cs @ replicate (HAND_SIZE - length cs) no_card" "\<forall>c\<in>set cs. is_card c" "length cs \<le> HAND_SIZE"
    using assms(2) by (simp_all add: house_has_def)
  have "h_hand (hs g') = (ds @ drop 4 cs) @ replicate (HAND_SIZE - length cs) no_card"
    using assms(3,6) hd(1) by (simp add: reset_hands_def MAX_HANDS_def)
  moreover have "\<forall>c\<in>set (ds @ drop 4 cs). is_card c" using assms(4) hd(2) set_drop_subset by fastforce
  ultimately have "holds (h_hand (hs g')) (ds @ drop 4 cs)"
    using assms(3,5) hd(3) by (cases "HAND_SIZE - length cs") (auto simp: holds_def)
  then show ?thesis using hand_value_holds(2) [OF assms(1)] by blast
qed

text \<open>The house had five cards; with four twos it should draw, but the old king makes it stand.\<close>

definition stale_game :: "unit game" where
  "stale_game = (let g = new_game create_shoe () in
     g\<lparr>hs := (hs g)\<lparr>h_next_slot := 5, h_hand := replicate 4 (lit ''3H'') @ lit ''KD'' # replicate 17 no_card\<rparr>\<rparr>)"

lemma stale_cards: "house_has stale_game (replicate 4 (lit ''3H'') @ [lit ''KD''])"
  by (simp add: house_has_def stale_game_def Let_def HAND_SIZE_def is_card_cases lit_def)

text \<open>A split always uses the next hand, even when it is taken: comparing no characters gives 0.\<close>

lemma split_uses_next_hand:
  assumes "h + 1 < length (pl_hand p)" and "pl_hand p ! (h + 1) \<noteq> []"
  shows "free_hand p h 1 = Some 1"
  using assms by (subst free_hand.simps) (simp add: strncmp_def)

text \<open>The build for the system: the library of the system, no bet, and always \<^verbatim>\<open>hit\<close>.\<close>

definition vlibc_lib :: "u32 \<Rightarrow> rng clib" where
  "vlibc_lib now = \<lparr>c_atoi = (\<lambda>c. map_option sint (atoi c)), c_rand = (\<lambda>e. (uint (fst (rand e)), snd (rand e))),
     c_srand = (\<lambda>x e. srand (word_of_int x) e), c_time = (\<lambda>e. (sint now, e)), scan_d = (\<lambda>e. (None, e)),
     scan_s = (\<lambda>e. (Some (lit ''hit''), e))\<rparr>"

text \<open>\<^verbatim>\<open>atoi\<close> of the system reads the suit as a digit.\<close>

lemma vlibc_nine_of_hearts: "c_atoi (vlibc_lib now) (lit ''9H'') = Some 114"
  by (simp add: vlibc_lib_def lit_def atoi_def)

lemma vlibc_game_ends_at_once:
  "\<exists>g. blackjack_main (vlibc_lib now) e = Some (1, g) \<and> money (pl g) = 1500"
proof -
  have "\<forall>e. 0 \<le> fst (c_rand (vlibc_lib now) e)" by (simp add: vlibc_lib_def)
  then obtain s e1 where "fresh_shoe (vlibc_lib now) e = Some (s, e1)"
    using fresh_shoe_permutes [of "vlibc_lib now" e] by auto
  then show ?thesis
    by (simp add: blackjack_main_def, subst main_loop.simps)
      (simp add: new_game_def play_round_def reset_hands_def, subst get_bet.simps, simp add: vlibc_lib_def)
qed
section \<open>The player never owes money\<close>

definition solvent :: "'i game \<Rightarrow> bool" where
  "solvent g \<longleftrightarrow> 0 \<le> money (pl g) \<and> 0 \<le> bet_size (pl g)"

text \<open>Dealing and bookkeeping do not touch the money.\<close>

definition same_money :: "player \<Rightarrow> player \<Rightarrow> bool" where
  "same_money p q \<longleftrightarrow> money q = money p \<and> bet_size q = bet_size p"

lemma same_money_trans: "same_money p q \<Longrightarrow> same_money q r \<Longrightarrow> same_money p r"
  by (simp add: same_money_def)

lemma solvent_same: "same_money (pl g) (pl g') \<Longrightarrow> solvent g' \<longleftrightarrow> solvent g"
  by (simp add: solvent_def same_money_def)

lemma pop_shoe_money: "pop_shoe L g = Some (c, g') \<Longrightarrow> pl g' = pl g"
  by (auto simp: pop_shoe_def bind_eq_Some_conv split: if_splits)

lemma player_money:
  "set_card h slot c p = Some q \<Longrightarrow> same_money p q"
  "add_slots h n p = Some q \<Longrightarrow> same_money p q"
  by (auto simp: set_card_def add_slots_def same_money_def bind_eq_Some_conv)

lemma draw_card_money: "draw_card L h g = Some g' \<Longrightarrow> same_money (pl g) (pl g')"
  by (auto simp: draw_card_def bind_eq_Some_conv dest!: pop_shoe_money player_money elim: same_money_trans)

lemma bookkeeping_money:
  "set_result h r g = Some g' \<Longrightarrow> same_money (pl g) (pl g')"
  "set_value h v g = Some g' \<Longrightarrow> same_money (pl g) (pl g')"
  by (auto simp: set_result_def set_value_def same_money_def bind_eq_Some_conv)

lemma deal_money: "deal L g = Some g' \<Longrightarrow> same_money (pl g) (pl g')"
proof -
  have one: "deal_one L i g = Some g' \<Longrightarrow> same_money (pl g) (pl g')" for i and g g' :: "'a game"
    by (auto simp: deal_one_def bind_eq_Some_conv dest!: pop_shoe_money player_money)
  show "deal L g = Some g' \<Longrightarrow> same_money (pl g) (pl g')"
    by (auto simp: deal_def bind_eq_Some_conv same_money_def dest!: one player_money)
qed

lemma house_turn_money: "house_turn L g = Some y \<Longrightarrow> pl (snd y) = pl g"
proof (induction rule: house_turn.raw_induct [rotated, consumes 1, case_names step])
  case (step loop L g y)
  from step(2) show ?case
    by (auto simp: bind_eq_Some_conv Let_def dest!: pop_shoe_money step(1) split: if_splits)
qed

fun turn_game :: "'i turn \<Rightarrow> 'i game" where
  "turn_game (Finished r g) = g"
| "turn_game (Again h n g) = g"

lemma turn_game_next [simp]: "turn_game (next_hand h n g) = g"
  by (simp add: next_hand_def)

lemma c_int_Some [simp]: "c_int x = Some y \<longleftrightarrow> y = x \<and> - 2147483648 \<le> x \<and> x < 2147483648"
  by (auto simp: c_int_def)

lemma hit_money: "hit L h n g = Some t \<Longrightarrow> same_money (pl g) (pl (turn_game t))"
  by (auto simp: hit_def bind_eq_Some_conv same_money_def dest!: draw_card_money bookkeeping_money split: if_splits)

lemma stand_money: "stand L h n g = Some t \<Longrightarrow> same_money (pl g) (pl (turn_game t))"
  by (auto simp: stand_def bind_eq_Some_conv same_money_def dest!: bookkeeping_money)

lemma double_solvent: "double_down L h n g = Some t \<Longrightarrow> solvent g \<Longrightarrow> solvent (turn_game t)"
  by (auto simp: double_down_def double_bet_def bind_eq_Some_conv same_money_def solvent_def
      dest!: draw_card_money bookkeeping_money split: if_splits)

lemma split_solvent: "split L h n g = Some t \<Longrightarrow> solvent g \<Longrightarrow> solvent (turn_game t)"
  by (auto simp: split_def can_split_def split_hand_def Let_def bind_eq_Some_conv same_money_def solvent_def
      dest!: player_money split: if_splits)

lemma player_action_solvent: "player_action L action h n g = Some t \<Longrightarrow> solvent g \<Longrightarrow> solvent (turn_game t)"
  by (auto simp: player_action_def bind_eq_Some_conv solvent_same
      dest: double_solvent split_solvent hit_money stand_money split: if_splits)

lemma player_loop_solvent: "player_loop L h n g = Some y \<Longrightarrow> solvent g \<Longrightarrow> solvent (snd y)"
proof (induction rule: player_loop.raw_induct [rotated, consumes 1, case_names step])
  case (step loop L h n g y)
  obtain a e where a: "scan_s L (env g) = (a, e)" by (metis surj_pair)
  have s: "solvent (g\<lparr>env := e\<rparr>)" using step(3) by (simp add: solvent_def)
  show ?case
  proof (cases a)
    case None
    with step(2) a s show ?thesis by auto
  next
    case (Some action)
    with step(2) a obtain t where t: "player_action L action h n (g\<lparr>env := e\<rparr>) = Some t"
      "(case t of Finished r g1 \<Rightarrow> Some (r, g1) | Again h1 n1 g1 \<Rightarrow> loop L h1 n1 g1) = Some y"
      by (auto simp: bind_eq_Some_conv)
    with player_action_solvent [OF t(1) s] step(1) show ?thesis by (cases t) auto
  qed
qed

lemma get_bet_solvent: "get_bet L g = Some y \<Longrightarrow> solvent g \<Longrightarrow> solvent (snd y)"
proof (induction rule: get_bet.raw_induct [rotated, consumes 1, case_names step])
  case (step loop L g y)
  have s: "solvent (g\<lparr>env := e\<rparr>)" for e using step(3) by (simp add: solvent_def)
  from step(2) show ?case
    using s step(1) by (auto simp: solvent_def split: prod.splits option.splits if_splits)
qed

lemma settle_solvent: "settle_from i n g = Some g' \<Longrightarrow> solvent g \<Longrightarrow> solvent g'"
proof (induction n arbitrary: i g)
  case (Suc n)
  then obtain w where w: "payout i g = Some w"
    and r: "settle_from (Suc i) n (g\<lparr>pl := (pl g)\<lparr>money := money (pl g) + w\<rparr>\<rparr>) = Some g'"
    by (auto simp: bind_eq_Some_conv)
  have "0 \<le> w" using w Suc.prems(2) by (auto simp: payout_def solvent_def Let_def bind_eq_Some_conv split: if_splits)
  then show ?case using Suc.IH [OF r] Suc.prems(2) by (simp add: solvent_def)
qed simp

lemma play_round_solvent:
  assumes "play_round L g = Some (ok, g')" and "solvent g"
  shows "solvent g'"
proof -
  have "solvent (reset_hands g)" using assms(2) by (simp add: solvent_def reset_hands_def)
  moreover obtain b g1 where b: "get_bet L (reset_hands g) = Some (b, g1)"
    "\<not> b \<Longrightarrow> g' = g1" using assms(1) by (auto simp: play_round_def bind_eq_Some_conv split: if_splits)
  ultimately have s1: "solvent g1" using get_bet_solvent by fastforce
  show ?thesis
  proof (cases b)
    case True
    then obtain g2 r g3 where g2: "deal L g1 = Some g2" and g3: "player_loop L 0 0 g2 = Some (r, g3)"
      and rest: "(if r \<noteq> 0 then Some (False, g3) else
        do { (r1, g4) \<leftarrow> (if stood g3 then house_turn L g3 else Some (0, g3));
             if r1 \<noteq> 0 then Some (False, g4)
             else do { g5 \<leftarrow> settle_from 0 (hand_index (pl g4) + 1) g4; Some (True, g5) } }) = Some (ok, g')"
      using assms(1) b(1) by (auto simp: play_round_def player_turn_def bind_eq_Some_conv)
    have "solvent g2" using s1 solvent_same [OF deal_money [OF g2]] by simp
    then have s3: "solvent g3" using player_loop_solvent [OF g3] by simp
    show ?thesis
    proof (cases "r = 0")
      case True
      with rest obtain r1 g4 where g4: "(if stood g3 then house_turn L g3 else Some (0, g3)) = Some (r1, g4)"
        and g5: "(if r1 \<noteq> 0 then Some (False, g4)
          else do { g5 \<leftarrow> settle_from 0 (hand_index (pl g4) + 1) g4; Some (True, g5) }) = Some (ok, g')"
        by (auto simp: bind_eq_Some_conv)
      have s4: "solvent g4"
        using g4 s3 house_turn_money [of L g3 "(r1, g4)"] by (simp add: solvent_def split: if_splits)
      show ?thesis
        using g5 s4 settle_solvent [of 0 "hand_index (pl g4) + 1" g4 g']
        by (auto simp: bind_eq_Some_conv simp del: settle_from.simps split: if_splits)
    qed (use rest s3 in simp)
  qed (use b s1 in simp)
qed

lemma main_loop_solvent:
  "main_loop L g = Some y \<Longrightarrow> solvent g \<Longrightarrow> solvent (snd y) \<and> (fst y = 0 \<longrightarrow> money (pl (snd y)) = 0)"
proof (induction rule: main_loop.raw_induct [rotated, consumes 1, case_names step])
  case (step loop L g y)
  show ?case
  proof (cases "money (pl g) > 0")
    case True
    with step(2) obtain ok g1 where r: "play_round L g = Some (ok, g1)" "(if ok then loop L g1 else Some (1, g1)) = Some y"
      by (auto simp: bind_eq_Some_conv)
    have "solvent g1" using play_round_solvent [OF r(1) step(3)] .
    with r(2) step(1) show ?thesis by (auto split: if_splits)
  next
    case False
    with step(2,3) show ?thesis by (auto simp: solvent_def)
  qed
qed

text \<open>
  C34: Whatever the player types, the shoe deals and the library does, the player never owes money, and
  when the game ends by itself the player has exactly nothing left: every bet, double-down and split
  is covered by the money at hand.
\<close>

theorem player_never_owes:
  assumes "blackjack_main L e = Some (r, g)"
  shows "0 \<le> money (pl g) \<and> (r = 0 \<longrightarrow> money (pl g) = 0)"
proof -
  obtain s e1 where "main_loop L (new_game s e1) = Some (r, g)"
    using assms by (auto simp: blackjack_main_def bind_eq_Some_conv)
  moreover have "solvent (new_game s e1)" by (simp add: solvent_def new_game_def)
  ultimately show ?thesis using main_loop_solvent by (fastforce simp: solvent_def)
qed

theorem player_never_owes_witness:
  "\<exists>g. blackjack_main (vlibc_lib 0) rng_initial = Some (1, g) \<and> 0 \<le> money (pl g)"
  using vlibc_game_ends_at_once [of 0 rng_initial] player_never_owes by metis

end
