(* ===== verification/Ls.thy ===== *)
theory Ls
  imports Files Printk Vlibc
begin

text \<open>
  The program \<^verbatim>\<open>userspace/ls.c\<close>: printing dates, permissions and sizes, and listing directories in
  columns or in long form. The program runs on the file layer; \<open>k\<close> is the state of the kernel, which it
  only reads, and its output is collected in a list of bytes. Local variables that the source does not
  initialise are parameters.
\<close>

section \<open>Output\<close>

text \<open>\<^verbatim>\<open>printf\<close> on the collected output.\<close>

definition say :: "buf \<Rightarrow> parg list \<Rightarrow> buf \<Rightarrow> buf option" where
  "say fmt args out = map_option snd (vlibc_printf (\<lambda>t d. d @ t) fmt args out)"

fun spaces :: "nat \<Rightarrow> buf \<Rightarrow> buf option" where
  "spaces 0 out = Some out"
| "spaces (Suc n) out = do { o1 \<leftarrow> say (lit '' '') [] out; spaces n o1 }"

definition LS_EXE_COLOR :: buf where "LS_EXE_COLOR = 27 # lit ''[1;32m''"

definition LS_DIR_COLOR :: buf where "LS_DIR_COLOR = 27 # lit ''[1;34m''"

definition LS_NORMAL_COLOR :: buf where "LS_NORMAL_COLOR = 27 # lit ''[0m''"

definition BUF_SIZE :: nat where "BUF_SIZE = 1024"

section \<open>Dates\<close>

text \<open>All values stay far inside the range of 32 bits, since \<^verbatim>\<open>s\<close> only becomes smaller.\<close>

definition leap_year :: "int \<Rightarrow> bool" where
  "leap_year year \<longleftrightarrow> year mod 4 = 0 \<and> (year mod 100 \<noteq> 0 \<or> year mod 400 = 0)"

definition seconds_in_year :: "int \<Rightarrow> int" where
  "seconds_in_year year = (365 + (if leap_year year then 1 else 0)) * 24 * 60 * 60"

function year_from :: "int \<Rightarrow> int \<Rightarrow> int \<times> int" where
  "year_from s year =
     (if s < seconds_in_year year then (s, year) else year_from (s - seconds_in_year year) (year + 1))"
  by pat_completeness auto
termination
  by (relation "measure (\<lambda>(s, year). nat s)") (auto simp: seconds_in_year_def split: if_splits)

declare year_from.simps [simp del]

definition month_days :: "int list" where
  "month_days = [31, 28, 31, 30, 31, 30, 31, 31, 30, 31, 30, 31]"

definition month_names :: "buf list" where
  "month_names = map lit [''Jan'', ''Feb'', ''Mar'', ''Apr'', ''May'', ''Jun'', ''Jul'', ''Aug'', ''Sep'', ''Oct'',
     ''Nov'', ''Dec'']"

function month_from :: "int \<Rightarrow> bool \<Rightarrow> nat \<Rightarrow> (int \<times> nat) option" where
  "month_from s leap month =
     do { d \<leftarrow> arr_get month_days month;
          let days_in_month = (if month = 1 \<and> leap then d + 1 else d);
          let seconds_in_month = days_in_month * (24 * 60 * 60);
          if s < seconds_in_month then Some (s, month) else month_from (s - seconds_in_month) leap (month + 1) }"
  by pat_completeness auto
termination
  by (relation "measure (\<lambda>(s, leap, month). length month_days - month)") (auto simp: arr_get_eq_Some)

declare month_from.simps [simp del]

text \<open>The loops for the days, hours and minutes, with \<open>u\<close> the positive number of seconds in one of them.\<close>

function count_off :: "int \<Rightarrow> int \<Rightarrow> int \<Rightarrow> int \<times> int" where
  "count_off s u n = (if s < u \<or> u \<le> 0 then (s, n) else count_off (s - u) u (n + 1))"
  by pat_completeness auto
termination
  by (relation "measure (\<lambda>(s, u, n). nat s)") auto

declare count_off.simps [simp del]

definition date_fields :: "int \<Rightarrow> (int \<times> nat \<times> int \<times> int \<times> int \<times> int) option" where
  "date_fields s =
     (let (s1, year) = year_from s 1970 in
      do { (s2, month) \<leftarrow> month_from s1 (leap_year year) 0;
           let (s3, day) = count_off s2 (24 * 60 * 60) 0;
           let (s4, hour) = count_off s3 (60 * 60) 0;
           let (s5, minute) = count_off s4 60 0;
           Some (day, month, year, hour, minute, s5) })"

definition print_date :: "i32 \<Rightarrow> buf \<Rightarrow> buf option" where
  "print_date s out =
     do { (day, month, year, hour, minute, seconds) \<leftarrow> date_fields (sint s);
          name \<leftarrow> arr_get month_names month;
          say (lit ''%2d %s %d %02d:%02d:%02d'') [Num (word_of_int (day + 1)), Str name, Num (word_of_int year),
            Num (word_of_int hour), Num (word_of_int minute), Num (word_of_int seconds)] out }"

section \<open>Permissions, colours and sizes\<close>

definition type_char :: "int \<Rightarrow> string" where
  "type_char type =
     (if type = 1 then ''f'' else if type = 2 then ''c'' else if type = 4 then ''d'' else if type = 6 then ''b''
      else if type = 8 then ''-'' else if type = 10 then ''l'' else if type = 12 then ''s'' else ''?'')"

definition perm_char :: "i32 \<Rightarrow> nat \<Rightarrow> string \<Rightarrow> buf \<Rightarrow> buf option" where
  "perm_char temp i c out = say (lit (if temp AND push_bit i 1 \<noteq> 0 then c else ''-'')) [] out"

definition perm_group :: "i32 \<Rightarrow> nat \<Rightarrow> buf \<Rightarrow> buf option" where
  "perm_group temp i out =
     do { o1 \<leftarrow> perm_char temp (i + 2) ''r'' out;
          o2 \<leftarrow> perm_char temp (i + 1) ''w'' o1;
          perm_char temp i ''x'' o2 }"

definition print_permissions :: "i32 \<Rightarrow> buf \<Rightarrow> buf option" where
  "print_permissions mode out =
     do { o1 \<leftarrow> say (lit (type_char (sint mode div 4096))) [] out;
          let temp = mode AND 0x1ff;
          o2 \<leftarrow> perm_group temp 6 o1;
          o3 \<leftarrow> perm_group temp 3 o2;
          perm_group temp 0 o3 }"

definition print_file_color :: "i32 \<Rightarrow> buf \<Rightarrow> buf \<Rightarrow> buf option" where
  "print_file_color mode name out =
     (if mode AND S_IFMT = S_IFDIR then say (lit ''%s%s%s'') [Str LS_DIR_COLOR, Str name, Str LS_NORMAL_COLOR] out
      else if mode AND 1 \<noteq> 0 then say (lit ''%s%s%s'') [Str LS_EXE_COLOR, Str name, Str LS_NORMAL_COLOR] out
      else say (lit ''%s'') [Str name] out)"

definition ilog10 :: "u32 \<Rightarrow> u32" where
  "ilog10 v =
     (if v \<ge> 1000000000 then 9 else if v \<ge> 100000000 then 8 else if v \<ge> 10000000 then 7
      else if v \<ge> 1000000 then 6 else if v \<ge> 100000 then 5 else if v \<ge> 10000 then 4
      else if v \<ge> 1000 then 3 else if v \<ge> 100 then 2 else if v \<ge> 10 then 1 else 0)"

definition list_file_long :: "stat_t \<Rightarrow> vfs \<Rightarrow> kernel \<Rightarrow> buf \<Rightarrow> i32 \<Rightarrow> buf \<Rightarrow> buf option" where
  "list_file_long stat_buf v k name maxsize out =
     do { (r, st) \<leftarrow> stat name stat_buf v k;
          o1 \<leftarrow> print_permissions (st_mode st) out;
          o2 \<leftarrow> say (lit '' %2d %d %d '') [Num (st_nlink st), Num (st_uid st), Num (st_gid st)] o1;
          let padding = ilog10 maxsize - ilog10 (st_size st);
          o3 \<leftarrow> spaces (nat (sint padding)) o2;
          o4 \<leftarrow> say (lit ''%d '') [Num (st_size st)] o3;
          o5 \<leftarrow> print_date (st_mtime st) o4;
          o6 \<leftarrow> say (lit '' '') [] o5;
          o7 \<leftarrow> print_file_color (st_mode st) name o6;
          say [10, 0] [] o7 }"

section \<open>Directories\<close>

text \<open>The record of a directory entry at an offset of the buffer.\<close>

definition d_reclen :: "buf \<Rightarrow> i32 \<Rightarrow> u32 option" where
  "d_reclen b offset = (if unat offset + 12 \<le> length b then Some (le_word (take 4 (drop (unat offset + 8) b))) else None)"

definition d_name :: "buf \<Rightarrow> i32 \<Rightarrow> buf" where
  "d_name b offset = drop (unat offset + 12) b"

text \<open>A record of length 0 would make the loops run forever.\<close>

partial_function (option) longest_size :: "vfs \<Rightarrow> kernel \<Rightarrow> buf \<Rightarrow> i32 \<Rightarrow> i32 \<Rightarrow> stat_t \<Rightarrow> i32 \<Rightarrow> (stat_t \<times> i32) option" where
  [code]: "longest_size v k b nread offset st max_len =
     (if sint offset < sint nread then
        do { (r, st1) \<leftarrow> stat (d_name b offset) st v k;
             len \<leftarrow> d_reclen b offset;
             longest_size v k b nread (offset + len) st1 (if st_size st1 > max_len then st_size st1 else max_len) }
      else Some (st, max_len))"

partial_function (option) longest_name :: "buf \<Rightarrow> i32 \<Rightarrow> i32 \<Rightarrow> u32 \<Rightarrow> u32 option" where
  [code]: "longest_name b nread offset max_filename_len =
     (if sint offset < sint nread then
        do { n \<leftarrow> strlen (d_name b offset);
             len \<leftarrow> d_reclen b offset;
             longest_name b nread (offset + len) (if of_nat n > max_filename_len then of_nat n else max_filename_len) }
      else Some max_filename_len)"

partial_function (option) print_long :: "stat_t \<Rightarrow> vfs \<Rightarrow> kernel \<Rightarrow> i32 \<Rightarrow> buf \<Rightarrow> i32 \<Rightarrow> i32 \<Rightarrow> buf \<Rightarrow> buf option" where
  [code]: "print_long st0 v k max_len b nread offset out =
     (if sint offset < sint nread then
        do { o1 \<leftarrow> list_file_long st0 v k (d_name b offset) max_len out;
             len \<leftarrow> d_reclen b offset;
             print_long st0 v k max_len b nread (offset + len) o1 }
      else Some out)"

partial_function (option) print_columns :: "vfs \<Rightarrow> kernel \<Rightarrow> u32 \<Rightarrow> u32 \<Rightarrow> buf \<Rightarrow> i32 \<Rightarrow> i32 \<Rightarrow> stat_t \<Rightarrow> u32 \<Rightarrow> buf \<Rightarrow>
    (stat_t \<times> u32 \<times> buf) option" where
  [code]: "print_columns v k columns colwidth b nread offset st whichcol out =
     (if sint offset < sint nread then
        do { (r, st1) \<leftarrow> stat (d_name b offset) st v k;
             o1 \<leftarrow> print_file_color (st_mode st1) (d_name b offset) out;
             len \<leftarrow> d_reclen b offset;
             n \<leftarrow> strlen (d_name b offset);
             o2 \<leftarrow> spaces (unat (colwidth - of_nat n)) o1;
             (w, o3) \<leftarrow> (if whichcol + 1 \<ge> columns then do { o3 \<leftarrow> say [10, 0] [] o2; Some (0, o3) }
                else Some (whichcol + 1, o2));
             print_columns v k columns colwidth b nread (offset + len) st1 w o3 }
      else Some (st, whichcol, out))"
text \<open>
  The loops over \<^verbatim>\<open>getdents\<close>. The variable \<^verbatim>\<open>errno\<close> is never set, so the text of an error is
  always that of number 0.
\<close>

definition say_error :: "buf \<Rightarrow> buf option" where
  "say_error out = do { t \<leftarrow> strerror 0; say (butlast (lit ''Error! %s'') @ [10, 0]) [Str t] out }"

partial_function (option) all_sizes :: "u32 \<Rightarrow> kernel \<Rightarrow> buf \<Rightarrow> stat_t \<Rightarrow> i32 \<Rightarrow> vfs \<Rightarrow> buf \<Rightarrow>
    (buf \<times> stat_t \<times> i32 \<times> vfs \<times> buf) option" where
  [code]: "all_sizes fd k b st max_len v out =
     do { (nread, b1, v1) \<leftarrow> getdents fd b (of_nat BUF_SIZE) v;
          if sint nread < 0 then do { o1 \<leftarrow> say_error out; Some (b1, st, max_len, v1, o1) }
          else if nread = 0 then Some (b1, st, max_len, v1, out)
          else do { (st1, m) \<leftarrow> longest_size v1 k b1 nread 0 st max_len; all_sizes fd k b1 st1 m v1 out } }"

partial_function (option) all_long :: "stat_t \<Rightarrow> u32 \<Rightarrow> kernel \<Rightarrow> i32 \<Rightarrow> buf \<Rightarrow> vfs \<Rightarrow> buf \<Rightarrow> (vfs \<times> buf) option" where
  [code]: "all_long st0 fd k max_len b v out =
     do { (nread, b1, v1) \<leftarrow> getdents fd b (of_nat BUF_SIZE) v;
          if sint nread < 0 then do { o1 \<leftarrow> say_error out; Some (v1, o1) }
          else if nread = 0 then Some (v1, out)
          else do { o1 \<leftarrow> print_long st0 v1 k max_len b1 nread 0 out; all_long st0 fd k max_len b1 v1 o1 } }"

partial_function (option) all_names :: "u32 \<Rightarrow> buf \<Rightarrow> u32 \<Rightarrow> vfs \<Rightarrow> buf \<Rightarrow> (buf \<times> u32 \<times> vfs \<times> buf) option" where
  [code]: "all_names fd b max_filename_len v out =
     do { (nread, b1, v1) \<leftarrow> getdents fd b (of_nat BUF_SIZE) v;
          if sint nread < 0 then do { o1 \<leftarrow> say_error out; Some (b1, max_filename_len, v1, o1) }
          else if nread = 0 then Some (b1, max_filename_len, v1, out)
          else do { m \<leftarrow> longest_name b1 nread 0 max_filename_len; all_names fd b1 m v1 out } }"

partial_function (option) all_columns :: "u32 \<Rightarrow> kernel \<Rightarrow> u32 \<Rightarrow> u32 \<Rightarrow> buf \<Rightarrow> stat_t \<Rightarrow> u32 \<Rightarrow> vfs \<Rightarrow> buf \<Rightarrow>
    (vfs \<times> buf) option" where
  [code]: "all_columns fd k columns colwidth b st whichcol v out =
     do { (nread, b1, v1) \<leftarrow> getdents fd b (of_nat BUF_SIZE) v;
          if sint nread < 0 then do { o1 \<leftarrow> say_error out; Some (v1, o1) }
          else if nread = 0 then Some (v1, out)
          else do { (st1, w, o1) \<leftarrow> print_columns v1 k columns colwidth b1 nread 0 st whichcol out;
                    all_columns fd k columns colwidth b1 st1 w v1 o1 } }"

section \<open>The program\<close>

definition open_dir :: "buf \<Rightarrow> vfs \<Rightarrow> kernel \<Rightarrow> buf \<Rightarrow> (i32 \<times> vfs \<times> buf) option" where
  "open_dir path v k out =
     do { (fd, v1) \<leftarrow> open_file path 0 0 v k;
          o1 \<leftarrow> (if sint fd < 0 then say_error out else Some out);
          Some (fd, v1, o1) }"

text \<open>
  \<open>buf0\<close>, \<open>st0\<close> and \<open>st1\<close> are the uninitialised buffer and structures. \<^verbatim>\<open>close\<close> has no effect.
\<close>

definition ls_long :: "buf \<Rightarrow> stat_t \<Rightarrow> stat_t \<Rightarrow> buf \<Rightarrow> kernel \<Rightarrow> vfs \<Rightarrow> buf \<Rightarrow> (i32 \<times> vfs \<times> buf) option" where
  "ls_long buf0 st0 st1 path k v out =
     do { (result, st) \<leftarrow> stat path st0 v k;
          if sint result < 0 then
            do { o1 \<leftarrow> say (butlast (lit ''Cannot access %s: no such file or directory!'') @ [10, 0]) [Str path] out;
                 Some (- 1, v, o1) }
          else if st_mode st AND S_IFMT \<noteq> S_IFDIR then
            do { o1 \<leftarrow> list_file_long st1 v k path (st_size st) out; Some (0, v, o1) }
          else
            do { (fd, v1, o1) \<leftarrow> open_dir path v k out;
                 (b, st2, max_len, v2, o2) \<leftarrow> all_sizes fd k buf0 st 0 v1 o1;
                 (fd2, v3) \<leftarrow> open_file path 0 0 v2 k;
                 (v4, o3) \<leftarrow> all_long st1 fd2 k max_len b v3 o2;
                 Some (0, v4, o3) } }"

text \<open>A division by zero has no defined result.\<close>

definition column_layout :: "u32 \<Rightarrow> (u32 \<times> u32) option" where
  "column_layout max_filename_len =
     (if max_filename_len + 1 = 0 then None
      else (let columns = 80 div (max_filename_len + 1) in
            if columns = 0 then None else Some (columns, 80 div columns)))"

definition ls_plain :: "buf \<Rightarrow> stat_t \<Rightarrow> buf \<Rightarrow> kernel \<Rightarrow> vfs \<Rightarrow> buf \<Rightarrow> (i32 \<times> vfs \<times> buf) option" where
  "ls_plain buf0 st0 path k v out =
     do { (result, st) \<leftarrow> stat path st0 v k;
          if sint result < 0 then
            do { o1 \<leftarrow> say (butlast (lit ''Cannot access %s: no such file or directory!'') @ [10, 0]) [Str path] out;
                 Some (- 1, v, o1) }
          else if st_mode st AND S_IFMT \<noteq> S_IFDIR then
            do { o1 \<leftarrow> print_file_color (st_mode st) path out;
                 o2 \<leftarrow> say [10, 0] [] o1;
                 Some (0, v, o2) }
          else
            do { (fd, v1, o1) \<leftarrow> open_dir path v k out;
                 (b, m, v2, o2) \<leftarrow> all_names fd buf0 0 v1 o1;
                 (columns, colwidth) \<leftarrow> column_layout m;
                 (fd2, v3) \<leftarrow> open_file path 0 0 v2 k;
                 (v4, o3) \<leftarrow> all_columns fd2 k columns colwidth b st 0 v3 o2;
                 o4 \<leftarrow> say [10, 0] [] o3;
                 Some (0, v4, o4) } }"

text \<open>The arguments behind the name of the program: the last file name, and whether \<^verbatim>\<open>-l\<close> was given.\<close>

fun ls_args :: "buf list \<Rightarrow> buf option \<Rightarrow> bool \<Rightarrow> (buf option \<times> bool) option" where
  "ls_args [] file_to_list list_long = Some (file_to_list, list_long)"
| "ls_args (a # as) file_to_list list_long =
     do { c0 \<leftarrow> arr_get a 0;
          if c0 = 45 then do { c1 \<leftarrow> arr_get a 1; ls_args as file_to_list (list_long \<or> c1 = 108) }
          else ls_args as (Some a) list_long }"

definition ls_main :: "buf \<Rightarrow> stat_t \<Rightarrow> stat_t \<Rightarrow> buf list \<Rightarrow> kernel \<Rightarrow> vfs \<Rightarrow> buf \<Rightarrow> (i32 \<times> vfs \<times> buf) option" where
  "ls_main buf0 st0 st1 argv k v out =
     do { (file_to_list, list_long) \<leftarrow> ls_args (tl argv) None False;
          let path = (case file_to_list of None \<Rightarrow> lit ''.'' | Some f \<Rightarrow> f);
          (r, v1, o1) \<leftarrow> (if list_long then ls_long buf0 st0 st1 path k v out else ls_plain buf0 st0 path k v out);
          Some (0, v1, o1) }"
section \<open>Dates are right\<close>

lemma say_renders:
  assumes "list_all piece_ok ps" and "render ps args = Some t" and "length t < 255"
  shows "say (concat (map piece_format ps) @ [0]) args out = Some (out @ t)"
  using vsprintf_loop_renders [OF assms(1,2), of 0 "replicate MAX_PRINT_SIZE 0" "[]"] assms(3)
  by (simp add: say_def vlibc_printf_def vlibc_vsprintf_def stored_def MAX_PRINT_SIZE_def)

text \<open>
  The calendar: a point in time is a day of a month of a year, with a time of day; months and days count
  from 0. \<open>epoch\<close> is the number of seconds since the beginning of 1970.
\<close>

type_synonym date = "int \<times> nat \<times> int \<times> int \<times> int \<times> int"

definition month_length :: "int \<Rightarrow> nat \<Rightarrow> int" where
  "month_length year month = month_days ! month + (if month = 1 \<and> leap_year year then 1 else 0)"

definition days_to_year :: "int \<Rightarrow> int" where
  "days_to_year year = (\<Sum>y\<in>{1970..<year}. if leap_year y then 366 else 365)"

fun valid_date :: "date \<Rightarrow> bool" where
  "valid_date (day, month, year, hour, minute, sec) \<longleftrightarrow> 1970 \<le> year \<and> month < 12 \<and> 0 \<le> day \<and>
     day < month_length year month \<and> 0 \<le> hour \<and> hour < 24 \<and> 0 \<le> minute \<and> minute < 60 \<and> 0 \<le> sec \<and> sec < 60"

fun epoch :: "date \<Rightarrow> int" where
  "epoch (day, month, year, hour, minute, sec) =
     (days_to_year year + (\<Sum>i<month. month_length year i) + day) * 86400 + hour * 3600 + minute * 60 + sec"

lemma count_off_spec:
  "0 < u \<Longrightarrow> 0 \<le> s \<Longrightarrow> count_off s u n = (s mod u, n + s div u)"
proof (induction "nat s" arbitrary: s n rule: less_induct)
  case less
  show ?case
  proof (cases "s < u")
    case True
    with less.prems show ?thesis by (subst count_off.simps) simp
  next
    case False
    then have "count_off (s - u) u (n + 1) = ((s - u) mod u, n + 1 + (s - u) div u)"
      using less.prems by (intro less.hyps) auto
    moreover have "s div u = (s - u) div u + 1" "s mod u = (s - u) mod u"
      using div_pos_geq [of u s] mod_pos_geq [of u s] False less.prems by linarith+
    moreover have "count_off s u n = count_off (s - u) u (n + 1)"
      using False less.prems(1) by (subst count_off.simps) simp
    ultimately show ?thesis by (simp only: prod.inject) linarith
  qed
qed

lemma year_length: "seconds_in_year y = (if leap_year y then 366 else 365) * 86400" "0 < seconds_in_year y"
  by (simp_all add: seconds_in_year_def)

lemma days_to_year_Suc: "1970 \<le> y \<Longrightarrow> days_to_year (y + 1) = days_to_year y + seconds_in_year y div 86400"
proof -
  assume "1970 \<le> y"
  then have "{1970..<y + 1} = insert y {1970..<y}" by auto
  then show ?thesis by (simp add: days_to_year_def year_length)
qed

lemma year_from_spec:
  assumes "0 \<le> s" and "1970 \<le> y"
  shows "\<exists>r y'. year_from s y = (r, y') \<and> y \<le> y' \<and> 0 \<le> r \<and> r < seconds_in_year y' \<and>
    s + days_to_year y * 86400 = r + days_to_year y' * 86400"
  using assms
proof (induction s y rule: year_from.induct)
  case (1 s y)
  show ?case
  proof (cases "s < seconds_in_year y")
    case True
    with 1 show ?thesis by (subst year_from.simps) simp
  next
    case False
    then obtain r y' where "year_from (s - seconds_in_year y) (y + 1) = (r, y')" "y + 1 \<le> y'" "0 \<le> r"
      "r < seconds_in_year y'" "s - seconds_in_year y + days_to_year (y + 1) * 86400 = r + days_to_year y' * 86400"
      using 1 by fastforce
    moreover have "days_to_year (y + 1) * 86400 = days_to_year y * 86400 + seconds_in_year y"
      using days_to_year_Suc [OF 1(3)] by (simp add: year_length)
    ultimately show ?thesis using False by (subst year_from.simps) auto
  qed
qed

lemma year_months: "(\<Sum>i<12. month_length y i) * 86400 = seconds_in_year y"
  by (simp add: month_length_def year_length month_days_def eval_nat_numeral)

lemma month_from_spec:
  assumes "0 \<le> s" and "m \<le> 12" and "s + (\<Sum>i<m. month_length y i) * 86400 < seconds_in_year y"
  shows "\<exists>r m'. month_from s (leap_year y) m = Some (r, m') \<and> m' < 12 \<and> 0 \<le> r \<and> r < month_length y m' * 86400 \<and>
    s + (\<Sum>i<m. month_length y i) * 86400 = r + (\<Sum>i<m'. month_length y i) * 86400"
  using assms
proof (induction s "leap_year y" m rule: month_from.induct)
  case (1 s m)
  have m: "m < 12" using 1(2,3,4) year_months [of y] by (cases "m = 12") auto
  then have d: "arr_get month_days m = Some (month_days ! m)" by (simp add: month_days_def)
  have l: "(if m = 1 \<and> leap_year y then month_days ! m + 1 else month_days ! m) = month_length y m"
    by (simp add: month_length_def)
  show ?case
  proof (cases "s < month_length y m * 86400")
    case True
    with d l m 1(2) show ?thesis by (subst month_from.simps) (simp add: Let_def)
  next
    case False
    have "(\<Sum>i<m + 1. month_length y i) = (\<Sum>i<m. month_length y i) + month_length y m" by simp
    then have "\<exists>r m'. month_from (s - month_length y m * 86400) (leap_year y) (m + 1) = Some (r, m') \<and> m' < 12 \<and> 0 \<le> r \<and>
        r < month_length y m' * 86400 \<and> s - month_length y m * 86400 + (\<Sum>i<m + 1. month_length y i) * 86400 =
        r + (\<Sum>i<m'. month_length y i) * 86400"
      using 1(1) [OF d refl refl] False m 1(4) l by simp
    with False d l show ?thesis by (subst month_from.simps) (auto simp: Let_def algebra_simps)
  qed
qed
lemma slot_unique:
  fixes f :: "'a :: linordered_idom \<Rightarrow> int"
  assumes "\<And>x y. P x \<Longrightarrow> P y \<Longrightarrow> x < y \<Longrightarrow> f x + g x \<le> f y" and "P a" "P b"
    and "f a \<le> s" "s < f a + g a" "f b \<le> s" "s < f b + g b"
  shows "a = b"
  using assms(1) [OF assms(2,3)] assms(1) [OF assms(3,2)] assms(4-7) by (meson linorder_less_linear not_less order_trans)

lemma days_to_year_step:
  assumes "1970 \<le> y" and "y < z"
  shows "days_to_year y * 86400 + seconds_in_year y \<le> days_to_year z * 86400"
proof -
  have "{1970..<y + 1} \<subseteq> {1970..<z}" using assms by auto
  then have "days_to_year (y + 1) \<le> days_to_year z" unfolding days_to_year_def by (intro sum_mono2) auto
  then show ?thesis using days_to_year_Suc [OF assms(1)] by (simp add: year_length split: if_splits)
qed

lemma month_length_pos: "i < 12 \<Longrightarrow> 0 < month_length y i"
  by (auto simp: month_length_def month_days_def less_Suc_eq eval_nat_numeral)

lemma months_step:
  assumes "n \<le> 12" and "m < n"
  shows "(\<Sum>i<m. month_length y i) + month_length y m \<le> (\<Sum>i<n. month_length y i)"
proof -
  have "(\<Sum>i<Suc m. month_length y i) \<le> (\<Sum>i<n. month_length y i)"
    using assms month_length_pos [of _ y] by (intro sum_mono2) (auto intro: less_imp_le)
  then show ?thesis by simp
qed

lemma clock_div_mod:
  fixes d h m s :: int
  assumes "0 \<le> h" "h < 24" "0 \<le> m" "m < 60" "0 \<le> s" "s < 60" and "x = d * 86400 + h * 3600 + m * 60 + s"
  shows "x div 86400 = d" "x mod 86400 div 3600 = h" "x mod 86400 mod 3600 div 60 = m" "x mod 86400 mod 3600 mod 60 = s"
proof -
  have 1: "x div 86400 = d" "x mod 86400 = h * 3600 + m * 60 + s"
    using int_div_pos_eq [of x 86400 d "h * 3600 + m * 60 + s"] int_mod_pos_eq [of x 86400 d "h * 3600 + m * 60 + s"] assms
    by simp_all
  then show "x div 86400 = d" by simp
  let ?t = "h * 3600 + m * 60 + s"
  have 2: "?t div 3600 = h" "?t mod 3600 = m * 60 + s"
    using int_div_pos_eq [of ?t 3600 h "m * 60 + s"] int_mod_pos_eq [of ?t 3600 h "m * 60 + s"] assms by simp_all
  have 3: "(m * 60 + s) div 60 = m" "(m * 60 + s) mod 60 = s"
    using int_div_pos_eq [of "m * 60 + s" 60 m s] int_mod_pos_eq [of "m * 60 + s" 60 m s] assms by simp_all
  show "x mod 86400 div 3600 = h" "x mod 86400 mod 3600 div 60 = m" "x mod 86400 mod 3600 mod 60 = s"
    unfolding 1(2) 2 3 by (rule refl)+
qed

lemma valid_year:
  assumes "valid_date (d, m, y, h, n, c)"
  defines "r \<equiv> ((\<Sum>i<m. month_length y i) + d) * 86400 + h * 3600 + n * 60 + c"
  shows "0 \<le> r" "r < seconds_in_year y" "epoch (d, m, y, h, n, c) = days_to_year y * 86400 + r"
    "(\<Sum>i<m. month_length y i) * 86400 \<le> r" "r < ((\<Sum>i<m. month_length y i) + month_length y m) * 86400"
proof -
  show "epoch (d, m, y, h, n, c) = days_to_year y * 86400 + r" by (simp add: r_def algebra_simps)
  have m: "m < 12" "0 \<le> d" "d + 1 \<le> month_length y m" using assms(1) by auto
  have t: "0 \<le> h * 3600 + n * 60 + c" "h * 3600 + n * 60 + c < 86400" using assms(1) by auto
  show lo: "(\<Sum>i<m. month_length y i) * 86400 \<le> r" using m(2) t(1) by (simp add: r_def algebra_simps)
  show hi: "r < ((\<Sum>i<m. month_length y i) + month_length y m) * 86400"
    using m(3) t(2) unfolding r_def by (simp add: algebra_simps)
  have "0 \<le> (\<Sum>i<m. month_length y i)" using m(1) month_length_pos [of _ y] by (intro sum_nonneg) (auto intro: less_imp_le)
  with lo show "0 \<le> r" by linarith
  show "r < seconds_in_year y" using hi months_step [of 12 m y] m(1) year_months [of y] by simp
qed

lemma epoch_inj:
  assumes "valid_date f" and "valid_date g" and "epoch f = epoch g"
  shows "f = g"
proof -
  obtain d m y h n c where f: "f = (d, m, y, h, n, c)" by (metis prod_cases6)
  obtain d' m' y' h' n' c' where g: "g = (d', m', y', h', n', c')" by (metis prod_cases6)
  note vf = valid_year [OF assms(1) [unfolded f], folded f] and vg = valid_year [OF assms(2) [unfolded g], folded g]
  have y: "y = y'"
  proof (rule slot_unique [where P = "\<lambda>y. 1970 \<le> y" and f = "\<lambda>y. days_to_year y * 86400" and g = seconds_in_year
        and s = "epoch f"])
    show "1970 \<le> x \<Longrightarrow> 1970 \<le> z \<Longrightarrow> x < z \<Longrightarrow> days_to_year x * 86400 + seconds_in_year x \<le> days_to_year z * 86400" for x z
      using days_to_year_step by blast
    show "1970 \<le> y" "1970 \<le> y'" using assms(1,2) f g by auto
  qed (use vf(1-3) vg(1-3) assms(3) in linarith)+
  let ?r = "((\<Sum>i<m. month_length y i) + d) * 86400 + h * 3600 + n * 60 + c"
  have r: "?r = ((\<Sum>i<m'. month_length y i) + d') * 86400 + h' * 3600 + n' * 60 + c'"
    using vf(3) vg(3) assms(3) y by simp
  have m: "m = m'"
  proof (rule linorder_cases [of m m'])
    show "m = m'" if "m < m'"
      using months_step [of m' m y] that vf(4,5) vg(4,5) r y assms(2) g by simp
    show "m = m'" if "m' < m"
      using months_step [of m m' y] that vf(4,5) vg(4,5) r y assms(1) f by simp
  qed
  have b: "0 \<le> h" "h < 24" "0 \<le> n" "n < 60" "0 \<le> c" "c < 60" "0 \<le> h'" "h' < 24" "0 \<le> n'" "n' < 60" "0 \<le> c'" "c' < 60"
    using assms(1,2) f g by auto
  have e: "d * 86400 + h * 3600 + n * 60 + c = d' * 86400 + h' * 3600 + n' * 60 + c'" using r m by (simp add: algebra_simps)
  note u = clock_div_mod [OF b(1-6) refl, of d] and w = clock_div_mod [OF b(7-12) e]
  have "d = d'" "h = h'" "n = n'" "c = c'" by (rule trans [OF u(1) [symmetric] w(1)] trans [OF u(2) [symmetric] w(2)]
      trans [OF u(3) [symmetric] w(3)] trans [OF u(4) [symmetric] w(4)])+
  with y m show ?thesis by (simp add: f g)
qed

lemma div_slot:
  fixes t u k :: int
  assumes "0 < u" and "0 \<le> t" and "t < k * u"
  shows "0 \<le> t div u" and "t div u < k"
proof -
  show "0 \<le> t div u" using assms(1,2) by (simp add: pos_imp_zdiv_nonneg_iff)
  have "t div u * u < k * u" using div_mult_mod_eq [of t u] pos_mod_sign [OF assms(1), of t] assms(3) by linarith
  with assms(1) show "t div u < k" by simp
qed

lemma date_fields_epoch:
  assumes "0 \<le> s"
  shows "\<exists>f. date_fields s = Some f \<and> valid_date f \<and> epoch f = s"
proof -
  obtain r y where y: "year_from s 1970 = (r, y)" "1970 \<le> y" "0 \<le> r" "r < seconds_in_year y"
    "s = r + days_to_year y * 86400" using year_from_spec [OF assms, of 1970] by (auto simp: days_to_year_def)
  obtain t m where m: "month_from r (leap_year y) 0 = Some (t, m)" "m < 12" "0 \<le> t" "t < month_length y m * 86400"
    "r = t + (\<Sum>i<m. month_length y i) * 86400" using month_from_spec [of r 0 y] y(3,4) by auto
  let ?f = "(t div 86400, m, y, t mod 86400 div 3600, t mod 86400 mod 3600 div 60, t mod 86400 mod 3600 mod 60)"
  have f: "date_fields s = Some ?f"
    using y(1) m(1,3) by (simp add: date_fields_def count_off_spec)
  have t: "0 \<le> t mod 86400" "t mod 86400 < 86400" "0 \<le> t mod 86400 mod 3600" "t mod 86400 mod 3600 < 3600" by simp_all
  have "0 \<le> t mod 86400 div 3600" "t mod 86400 div 3600 < 24"
    by (rule div_slot [where k = 24]; use t in linarith)+
  moreover have "0 \<le> t mod 86400 mod 3600 div 60" "t mod 86400 mod 3600 div 60 < 60"
    by (rule div_slot [where k = 60]; use t in linarith)+
  moreover have "0 \<le> t mod 86400 mod 3600 mod 60" "t mod 86400 mod 3600 mod 60 < 60"
    by (rule pos_mod_sign pos_mod_bound; simp)+
  moreover have "0 \<le> t div 86400" "t div 86400 < month_length y m"
    by (rule div_slot [where k = "month_length y m"]; use m(3,4) in linarith)+
  ultimately have "valid_date ?f" unfolding valid_date.simps using y(2) m(2) by blast
  moreover have "epoch ?f = s"
    using div_mult_mod_eq [of t 86400] div_mult_mod_eq [of "t mod 86400" 3600] div_mult_mod_eq [of "t mod 86400 mod 3600" 60]
    unfolding y(5) m(5) epoch.simps distrib_right by linarith
  ultimately show ?thesis using f by blast
qed
lemma dec_text_length: "length (dec_text ds x) \<le> unat (pad_width ds) + 11"
proof -
  have "length (number_text 10 (unat z) (pad_width ds) (pad_fill ds) p) \<le> unat (pad_width ds) + 10" for z :: u32 and p
    using u32_digits(1) [of z] by (simp add: number_text_def)
  from this [of "- x" 1] this [of x 0] show ?thesis by (auto simp: dec_text_def)
qed

text \<open>The text of a date: day, month, year and the time of day.\<close>

fun date_text :: "date \<Rightarrow> buf" where
  "date_text (day, month, year, hour, minute, sec) =
     dec_text [50] (word_of_int (day + 1)) @ [32] @ cstr (month_names ! month) @ [32] @ dec_text [] (word_of_int year) @ [32] @
     dec_text [48, 50] (word_of_int hour) @ [58] @ dec_text [48, 50] (word_of_int minute) @ [58] @
     dec_text [48, 50] (word_of_int sec)"

lemma month_name: "m < 12 \<Longrightarrow> terminated (month_names ! m) \<and> length (cstr (month_names ! m)) = 3"
  by (simp add: less_Suc_eq eval_nat_numeral) (elim disjE; simp add: month_names_def lit_def terminated_def)

lemma print_date_text:
  assumes "date_fields (sint s) = Some f" and "valid_date f"
  shows "print_date s out = Some (out @ date_text f)" and "length (date_text f) \<le> 80"
proof -
  obtain d m y h n c where f: "f = (d, m, y, h, n, c)" by (metis prod_cases6)
  let ?ps = "[Dec [50], Lit 32, Strg, Lit 32, Dec [], Lit 32, Dec [48, 50], Lit 58, Dec [48, 50], Lit 58, Dec [48, 50]]"
  let ?args = "[Num (word_of_int (d + 1)), Str (month_names ! m), Num (word_of_int y), Num (word_of_int h), Num (word_of_int n),
    Num (word_of_int c)]"
  have m: "m < 12" using assms(2) f by simp
  then have r: "render ?ps ?args = Some (date_text f)" using month_name [of m] by (simp add: f)
  have w: "unat (pad_width [50]) = 2" "unat (pad_width []) = 0" "unat (pad_width [48, 50]) = 2" by (simp_all add: pad_width_def)
  show l: "length (date_text f) \<le> 80"
    using dec_text_length [of "[50]" "word_of_int (d + 1)"] dec_text_length [of "[]" "word_of_int y"]
      dec_text_length [of "[48, 50]" "word_of_int h"] dec_text_length [of "[48, 50]" "word_of_int n"]
      dec_text_length [of "[48, 50]" "word_of_int c"] month_name [OF m] w by (simp add: f)
  have "list_all piece_ok ?ps" by (simp add: is_digit_def)
  note say_renders [OF this r, of out]
  moreover have "concat (map piece_format ?ps) @ [0] = lit ''%2d %s %d %02d:%02d:%02d''" by (simp add: lit_def)
  ultimately have "say (lit ''%2d %s %d %02d:%02d:%02d'') ?args out = Some (out @ date_text f)" using l by simp
  moreover have "arr_get month_names m = Some (month_names ! m)" using m by (simp add: arr_get_def month_names_def)
  ultimately show "print_date s out = Some (out @ date_text f)" by (simp add: print_date_def assms(1) f)
qed

section \<open>Listing a directory\<close>

text \<open>Single texts on the output.\<close>

definition plain :: "u8 \<Rightarrow> bool" where
  "plain c \<longleftrightarrow> c \<noteq> 0 \<and> c \<noteq> 37"

lemma say_plain: "list_all plain t \<Longrightarrow> length t < 255 \<Longrightarrow> say (t @ [0]) [] out = Some (out @ t)"
proof -
  assume a: "list_all plain t" "length t < 255"
  have "list_all piece_ok (map Lit t)" using a(1) by (simp add: list_all_iff plain_def)
  moreover have "render (map Lit t) [] = Some t" by (induction t) auto
  moreover have "concat (map piece_format (map Lit t)) = t" by (induction t) auto
  ultimately show ?thesis using say_renders [of "map Lit t" "[]" t out] a(2) by simp
qed

lemma spaces_spec: "spaces n out = Some (out @ replicate n 32)"
proof (induction n arbitrary: out)
  case (Suc n)
  have "say (lit '' '') [] out = Some (out @ [32])" using say_plain [of "[32]" out] by (simp add: lit_def plain_def)
  with Suc show ?case by simp
qed simp

lemma say_newline: "say [10, 0] [] out = Some (out @ [10])"
  using say_plain [of "[10]" out] by (simp add: plain_def)

definition colored :: "bool \<Rightarrow> bool \<Rightarrow> buf \<Rightarrow> buf" where
  "colored dir exe nm =
     (if dir then butlast LS_DIR_COLOR @ nm @ butlast LS_NORMAL_COLOR
      else if exe then butlast LS_EXE_COLOR @ nm @ butlast LS_NORMAL_COLOR else nm)"

lemma print_file_color_spec:
  assumes "terminated name" and "length (cstr name) \<le> 200"
  shows "print_file_color mode name out =
    Some (out @ colored (mode AND S_IFMT = S_IFDIR) (mode AND 1 \<noteq> 0) (cstr name))"
proof -
  have s: "say (lit ''%s'') [Str name] out = Some (out @ cstr name)"
    using say_renders [of "[Strg]" "[Str name]" "cstr name" out] assms by (simp add: lit_def)
  have t: "say (lit ''%s%s%s'') [Str c, Str name, Str n] out = Some (out @ cstr c @ cstr name @ cstr n)"
    if "terminated c" "terminated n" "length (cstr c) \<le> 10" "length (cstr n) \<le> 10" for c n
    using say_renders [of "[Strg, Strg, Strg]" "[Str c, Str name, Str n]" "cstr c @ cstr name @ cstr n" out] assms that
    by (simp add: lit_def)
  have c: "terminated LS_DIR_COLOR" "terminated LS_EXE_COLOR" "terminated LS_NORMAL_COLOR"
    "cstr LS_DIR_COLOR = butlast LS_DIR_COLOR" "cstr LS_EXE_COLOR = butlast LS_EXE_COLOR"
    "cstr LS_NORMAL_COLOR = butlast LS_NORMAL_COLOR" "length LS_DIR_COLOR \<le> 11" "length LS_EXE_COLOR \<le> 11"
    "length LS_NORMAL_COLOR \<le> 11"
    by (simp_all add: LS_DIR_COLOR_def LS_EXE_COLOR_def LS_NORMAL_COLOR_def lit_def terminated_def cstr_def)
  show ?thesis
    unfolding print_file_color_def colored_def using s c t [of LS_DIR_COLOR LS_NORMAL_COLOR] t [of LS_EXE_COLOR LS_NORMAL_COLOR]
    by simp
qed

text \<open>A record of the buffer.\<close>

lemma record_fields:
  assumes "records_at b pos ((j, nm) # es)" and "pos < 4294967296"
  shows "terminated (d_name b (of_nat pos))" "cstr (d_name b (of_nat pos)) = nm"
    "d_reclen b (of_nat pos) = Some (of_nat (reclen nm))" "strlen (d_name b (of_nat pos)) = Some (length nm)"
proof -
  have u: "unat (of_nat pos :: i32) = pos" using assms(2) by simp
  note rb = reclen_bounds [of nm]
  show c: "cstr (d_name b (of_nat pos)) = nm" using assms(1) unfolding d_name_def u by simp
  have "pos + reclen nm \<le> length b" using assms(1) by simp
  with rb have "length nm < length (d_name b (of_nat pos))" unfolding d_name_def u length_drop by linarith
  with c show t: "terminated (d_name b (of_nat pos))" by (simp add: terminated_iff_cstr_short)
  from c t show "strlen (d_name b (of_nat pos)) = Some (length nm)" by (simp add: strlen_cstr)
  show "d_reclen b (of_nat pos) = Some (of_nat (reclen nm))" using assms(1) rb unfolding d_reclen_def u by simp
qed

lemma sint_small_nat: "n < 2147483648 \<Longrightarrow> sint (of_nat n :: i32) = int n"
  by (subst sint_uint) (simp add: uint_nat signed_take_bit_int_eq_self_iff)

lemma record_step:
  assumes "pos + total_reclen ((j, nm) # es) < 2147483648"
  shows "sint (of_nat pos :: i32) < sint (of_nat (pos + total_reclen ((j, nm) # es)) :: i32)"
    "(of_nat pos :: i32) + of_nat (reclen nm) = of_nat (pos + reclen nm)"
    "pos + total_reclen ((j, nm) # es) = pos + reclen nm + total_reclen es"
    "pos < 4294967296" "length nm < 4294967296"
proof -
  show t: "pos + total_reclen ((j, nm) # es) = pos + reclen nm + total_reclen es" by (simp add: total_reclen_def)
  have r: "length nm < reclen nm" using reclen_bounds(1) [of nm] by simp
  then show "sint (of_nat pos :: i32) < sint (of_nat (pos + total_reclen ((j, nm) # es)) :: i32)"
    using assms unfolding t by (simp add: sint_small_nat del: of_nat_add)
  show "length nm < 4294967296" using r assms unfolding t by linarith
qed (use assms in simp_all)

lemma longest_name_spec:
  assumes "records_at b pos es" and "pos + total_reclen es < 2147483648" and "m < 4294967296"
  shows "longest_name b (of_nat (pos + total_reclen es)) (of_nat pos) (of_nat m) =
    Some (of_nat (fold (\<lambda>e. max (length (snd e))) es m))"
  using assms
proof (induction es arbitrary: pos m)
  case Nil
  then show ?case by (subst longest_name.simps) (simp add: total_reclen_def)
next
  case (Cons e es)
  obtain j nm where e: "e = (j, nm)" by (cases e)
  note st = record_step [OF Cons.prems(2) [unfolded e]]
  note f = record_fields [OF Cons.prems(1) [unfolded e] st(4)]
  let ?n = "of_nat (pos + total_reclen (e # es)) :: i32"
  have "(if of_nat (length nm) > (of_nat m :: u32) then of_nat (length nm) else of_nat m) = (of_nat (max (length nm) m) :: u32)"
    using st(5) Cons.prems(3) by (simp add: word_less_nat_alt max_def)
  then have "longest_name b ?n (of_nat pos) (of_nat m) = longest_name b ?n (of_nat (pos + reclen nm)) (of_nat (max (length nm) m))"
    using st(1,2) f by (subst longest_name.simps) (simp add: e del: of_nat_add)
  also have "\<dots> = Some (of_nat (fold (\<lambda>e. max (length (snd e))) es (max (length nm) m)))"
    using Cons.IH [of "pos + reclen nm" "max (length nm) m"] Cons.prems st(3,5) by (simp add: e add.assoc del: of_nat_add)
  finally show ?case by (simp add: e)
qed
lemma get_inode_name:
  assumes "start_dir False v k = Some d" and "path_leads (disk v) d [cstr s] r" and "component (cstr s)" and "terminated s"
  shows "get_inode v k s = Some r"
proof -
  obtain x xs where c: "cstr s = x # xs" "x \<noteq> 0" "x \<noteq> 47" using assms(3) by (cases "cstr s") (auto simp: component_def)
  have s: "s = cstr s @ 0 # drop (Suc (length (cstr s))) s" using cstr_terminator [OF assms(4)] .
  then have "arr_get s 0 = Some x" using c(1) by (metis append_Cons arr_get_eq_Some length_greater_0_conv list.distinct(1) nth_Cons_0)
  with c(2,3) assms(1) have "get_inode v k s = walk_path (disk v) s 0 (replicate 256 0) d"
    by (auto simp: get_inode_def start_dir_def MAX_FILENAME_SIZE_def)
  also have "\<dots> = Some r"
    using walk_path_leads [OF assms(2), of 0 s "drop (Suc (length (cstr s))) s" "replicate 256 0"] s assms(3) by simp
  finally show ?thesis .
qed

text \<open>The working directory of the process, with the files that its entries lead to.\<close>

definition listable :: "vfs \<Rightarrow> kernel \<Rightarrow> i32 \<Rightarrow> (u32 \<times> buf) list \<Rightarrow> (u32 \<Rightarrow> u32) \<Rightarrow> bool" where
  "listable v k d es T \<longleftrightarrow> start_dir False v k = Some d \<and> directory (disk v) d es T \<and> distinct (map snd es) \<and>
     (\<forall>(i, nm)\<in>set es. component nm \<and> length nm < 80 \<and> 0 \<le> sint (T i) \<and> on_disk (disk v) (T i) 12)"

definition shown :: "ramdisk \<Rightarrow> u32 \<Rightarrow> buf \<Rightarrow> buf" where
  "shown rd j nm = colored (word_at rd j AND 7 = 1) (word_at rd j AND 8 \<noteq> 0) nm"

lemma entry_of_unique:
  assumes "distinct (map snd es)" and "(i, nm) \<in> set es"
  shows "entry_of es T nm = Some (T i)"
  using assms by (induction es) (auto simp: entry_of_def rev_image_eqI)

lemma stat_entry:
  assumes "listable v k d es T" and "(i, nm) \<in> set es" and "terminated s" and "cstr s = nm"
  shows "\<exists>st'. stat s st v k = Some (0, st') \<and> (st_mode st' AND S_IFMT = S_IFDIR \<longleftrightarrow> word_at (disk v) (T i) AND 7 = 1) \<and>
    print_file_color (st_mode st') s out = Some (out @ shown (disk v) (T i) nm)"
proof -
  have l: "start_dir False v k = Some d" "directory (disk v) d es T" "distinct (map snd es)" "component nm" "length nm < 80"
    "0 \<le> sint (T i)" "on_disk (disk v) (T i) 12" using assms(1,2) by (auto simp: listable_def)
  have "path_leads (disk v) d [cstr s] (T i)" using path_leads.found [OF l(2) entry_of_unique [OF l(3) assms(2), of T]] assms(4) by simp
  then have g: "get_inode v k s = Some (T i)" using get_inode_name [OF l(1)] l(4) assms(3,4) by blast
  have "resolves (disk v) i (T i)" using l(2) assms(2) by (force simp: directory_def)
  then have "resolves (disk v) (T i) (T i)"
    using resolves_end [of "disk v" i "T i"] on_disk_mono [OF l(7), of 8] by (intro resolves.here) auto
  from romfs_stat_spec [OF this l(7)] obtain st' where st: "romfs_stat (disk v) (T i) = Some (0, st')"
    "word_at (disk v) (T i) AND 7 = 1 \<longleftrightarrow> st_mode st' AND S_IFMT = S_IFDIR"
    "word_at (disk v) (T i) AND 8 \<noteq> 0 \<longleftrightarrow> st_mode st' AND 1 \<noteq> 0" by blast
  have "stat s st v k = Some (0, st')" using g l(6) st(1) by (simp add: stat_def)
  with print_file_color_spec [OF assms(3), of "st_mode st'" out] l(5) st(2,3) assms(4) show ?thesis
    by (simp add: shown_def)
qed
text \<open>
  The listing: every name is followed by blanks up to the width of a column, and a line ends after the last
  column.
\<close>

fun columns_text :: "nat \<Rightarrow> nat \<Rightarrow> nat \<Rightarrow> (buf \<times> buf) list \<Rightarrow> buf" where
  "columns_text columns colwidth w [] = []"
| "columns_text columns colwidth w ((nm, t) # cs) = t @ replicate (colwidth - length nm) 32 @
     (if columns \<le> w + 1 then 10 # columns_text columns colwidth 0 cs else columns_text columns colwidth (w + 1) cs)"

lemma print_columns_spec:
  assumes "listable v k d all T" and "set es \<subseteq> set all" and "records_at b pos es" and "pos + total_reclen es < 2147483648"
    and "w < columns" and "columns \<le> 80" and "colwidth \<le> 80" and "\<forall>e\<in>set es. length (snd e) \<le> colwidth"
  shows "\<exists>st' w'. print_columns v k (of_nat columns) (of_nat colwidth) b (of_nat (pos + total_reclen es)) (of_nat pos) st (of_nat w) out =
    Some (st', w', out @ columns_text columns colwidth w (map (\<lambda>(i, nm). (nm, shown (disk v) (T i) nm)) es))"
  using assms(2-5,8)
proof (induction es arbitrary: pos st w out)
  case Nil
  then show ?case by (subst print_columns.simps) (simp add: total_reclen_def)
next
  case (Cons e es)
  obtain j nm where e: "e = (j, nm)" by (cases e)
  note st = record_step [OF Cons.prems(3) [unfolded e]]
  note f = record_fields [OF Cons.prems(2) [unfolded e] st(4)]
  have "(j, nm) \<in> set all" using Cons.prems(1) e by simp
  from stat_entry [OF assms(1) this f(1,2), of st out]
  obtain st' where s: "stat (d_name b (of_nat pos)) st v k = Some (0, st')"
    "print_file_color (st_mode st') (d_name b (of_nat pos)) out = Some (out @ shown (disk v) (T j) nm)" by blast
  have nm: "length nm \<le> colwidth" using Cons.prems(5) e by simp
  have p: "unat (of_nat colwidth - of_nat (length nm) :: u32) = colwidth - length nm"
    using nm assms(7) by (simp flip: of_nat_diff)
  have c: "(of_nat w :: u32) + 1 \<ge> of_nat columns \<longleftrightarrow> columns \<le> w + 1"
    using Cons.prems(4) assms(6) unat_small [of "w + 1"] by (simp add: word_le_nat_alt add.commute)
  let ?o = "out @ shown (disk v) (T j) nm @ replicate (colwidth - length nm) 32"
  let ?w = "if columns \<le> w + 1 then 0 else w + 1" and ?o' = "if columns \<le> w + 1 then ?o @ [10] else ?o"
  let ?n = "of_nat (pos + total_reclen (e # es)) :: i32"
  have "print_columns v k (of_nat columns) (of_nat colwidth) b ?n (of_nat pos) st (of_nat w) out =
      print_columns v k (of_nat columns) (of_nat colwidth) b ?n (of_nat (pos + reclen nm)) st' (of_nat ?w) ?o'"
    using st(1,2) f(3,4) s p c by (subst print_columns.simps) (simp add: e spaces_spec say_newline add.commute del: of_nat_add)
  moreover have "set es \<subseteq> set all" "records_at b (pos + reclen nm) es" "pos + reclen nm + total_reclen es < 2147483648"
    "?w < columns" "\<forall>e\<in>set es. length (snd e) \<le> colwidth" using Cons.prems st(3) by (auto simp: e)
  from Cons.IH [OF this, of st' ?o'] obtain st2 w2 where "print_columns v k (of_nat columns) (of_nat colwidth) b (of_nat (pos + reclen nm + total_reclen es))
      (of_nat (pos + reclen nm)) st' (of_nat ?w) ?o' =
      Some (st2, w2, ?o' @ columns_text columns colwidth ?w (map (\<lambda>(i, nm). (nm, shown (disk v) (T i) nm)) es))" by blast
  ultimately show ?case unfolding e st(3) by simp
qed
text \<open>A descriptor of the directory: one call reads all entries, the next one reports the end.\<close>

definition dir_fd :: "nat \<Rightarrow> i32 \<Rightarrow> u32 \<Rightarrow> vfs \<Rightarrow> vfs" where
  "dir_fd f d ptr v = v\<lparr>fd_table := (fd_table v)[f := \<lparr>fd_valid = 1, fd_inode = d, fd_file_ptr = ptr\<rparr>]\<rparr>"

lemma dir_fd_simps [simp]:
  "disk (dir_fd f d ptr v) = disk v" "root_dir (dir_fd f d ptr v) = root_dir v"
  "length (fd_table (dir_fd f d ptr v)) = length (fd_table v)" "dir_fd f d ptr' (dir_fd f d ptr v) = dir_fd f d ptr' v"
  by (simp_all add: dir_fd_def)

lemma listable_dir_fd [simp]: "listable (dir_fd f d' ptr v) k d es T = listable v k d es T"
  by (simp add: listable_def start_dir_def)

definition fits :: "ramdisk \<Rightarrow> (u32 \<times> buf) list \<Rightarrow> bool" where
  "fits rd es \<longleftrightarrow> (\<exists>vol. header_at rd 0 vol \<and> total_reclen es + reclen vol \<le> BUF_SIZE)"

lemma getdents_dir_fd:
  assumes "listable v k d es T" and "fits (disk v) es" and "length b = BUF_SIZE" and "f < 32" and "length (fd_table v) = 32"
  shows "\<exists>b'. getdents (of_nat f) b (of_nat BUF_SIZE) (dir_fd f d 0 v) =
      Some (of_nat (total_reclen es), b', dir_fd f d 0xffffffff v) \<and> length b' = BUF_SIZE \<and> records_at b' 0 es"
    and "getdents (of_nat f) b (of_nat BUF_SIZE) (dir_fd f d 0xffffffff v) = Some (0, b, dir_fd f d 0xffffffff v)"
proof -
  have u: "unat (of_nat BUF_SIZE :: u32) = BUF_SIZE" by (simp add: BUF_SIZE_def)
  have f: "unat (of_nat f :: u32) = f" using assms(4) by simp
  have e: "arr_get (fd_table (dir_fd f d p v)) f = Some \<lparr>fd_valid = 1, fd_inode = d, fd_file_ptr = p\<rparr>" for p
    using assms(4,5) by (simp add: dir_fd_def arr_get_def)
  have up: "(dir_fd f d p v)\<lparr>fd_table := (fd_table (dir_fd f d p v))[f := \<lparr>fd_valid = 1, fd_inode = d, fd_file_ptr = q\<rparr>]\<rparr> =
      dir_fd f d q v" for p q by (simp add: dir_fd_def)
  obtain vol where vol: "header_at (disk v) 0 vol" "total_reclen es + reclen vol \<le> BUF_SIZE"
    using assms(2) by (auto simp: fits_def)
  have d: "on_disk (disk v) d 8" "word_at (disk v) d AND 7 = 1" "dir_chain (disk v) (word_at (disk v) (d + 4)) es"
    using assms(1) by (auto simp: listable_def directory_def)
  obtain b' where "romfs_getdents (disk v) d 0 b (of_nat BUF_SIZE) = Some (of_nat (total_reclen es), 0xffffffff, b')"
    "length b' = BUF_SIZE" "records_at b' 0 es"
    using romfs_getdents_first [OF d vol(1), of "of_nat BUF_SIZE" b] vol(2) assms(3) unfolding u by (auto simp: BUF_SIZE_def)
  with e f up assms(4) show "\<exists>b'. getdents (of_nat f) b (of_nat BUF_SIZE) (dir_fd f d 0 v) =
      Some (of_nat (total_reclen es), b', dir_fd f d 0xffffffff v) \<and> length b' = BUF_SIZE \<and> records_at b' 0 es"
    by (simp add: getdents_def MAX_FD_def)
  show "getdents (of_nat f) b (of_nat BUF_SIZE) (dir_fd f d 0xffffffff v) = Some (0, b, dir_fd f d 0xffffffff v)"
    using e f up assms(4) by (simp add: getdents_def MAX_FD_def romfs_getdents_def)
qed

lemma total_reclen_pos: "es \<noteq> [] \<Longrightarrow> 0 < total_reclen es"
  using reclen_bounds(1) [of "snd (hd es)"] by (cases es) (auto simp: total_reclen_def)

lemma records_read:
  assumes "listable v k d es T" and "fits (disk v) es"
  shows "total_reclen es \<le> 1024" "\<not> sint (of_nat (total_reclen es) :: i32) < 0" "(of_nat (total_reclen es) :: i32) \<noteq> 0"
proof -
  have "0 < total_reclen es" using assms(1) total_reclen_pos [of es] by (auto simp: listable_def directory_def)
  moreover show "total_reclen es \<le> 1024" using assms(2) by (auto simp: fits_def BUF_SIZE_def)
  ultimately show "\<not> sint (of_nat (total_reclen es) :: i32) < 0" "(of_nat (total_reclen es) :: i32) \<noteq> 0"
    using sint_small_nat [of "total_reclen es"] by auto
qed

lemma all_names_spec:
  assumes "listable v k d es T" and "fits (disk v) es" and "length b = BUF_SIZE" and "f < 32" and "length (fd_table v) = 32"
  shows "\<exists>b'. all_names (of_nat f) b 0 (dir_fd f d 0 v) out =
    Some (b', of_nat (fold (\<lambda>e. max (length (snd e))) es 0), dir_fd f d 0xffffffff v, out) \<and> length b' = BUF_SIZE"
proof -
  obtain b' where b: "getdents (of_nat f) b (of_nat BUF_SIZE) (dir_fd f d 0 v) =
      Some (of_nat (total_reclen es), b', dir_fd f d 0xffffffff v)" "length b' = BUF_SIZE" "records_at b' 0 es"
    using getdents_dir_fd(1) [OF assms] by blast
  note e = getdents_dir_fd(2) [OF assms(1,2) b(2) assms(4,5)]
  note n = records_read [OF assms(1,2)]
  have l: "longest_name b' (of_nat (total_reclen es)) 0 0 = Some (of_nat (fold (\<lambda>e. max (length (snd e))) es 0))"
    using longest_name_spec [OF b(3), of 0] n(1) by simp
  have "all_names (of_nat f) b' m (dir_fd f d 0xffffffff v) out = Some (b', m, dir_fd f d 0xffffffff v, out)" for m
    by (subst all_names.simps) (simp add: e)
  with b n l show ?thesis by (subst all_names.simps) simp
qed

lemma all_columns_spec:
  assumes "listable v k d es T" and "fits (disk v) es" and "length b = BUF_SIZE" and "f < 32" and "length (fd_table v) = 32"
    and "0 < columns" and "columns \<le> 80" and "colwidth \<le> 80" and "\<forall>e\<in>set es. length (snd e) \<le> colwidth"
  shows "all_columns (of_nat f) k (of_nat columns) (of_nat colwidth) b st 0 (dir_fd f d 0 v) out =
    Some (dir_fd f d 0xffffffff v, out @ columns_text columns colwidth 0 (map (\<lambda>(i, nm). (nm, shown (disk v) (T i) nm)) es))"
proof -
  obtain b' where b: "getdents (of_nat f) b (of_nat BUF_SIZE) (dir_fd f d 0 v) =
      Some (of_nat (total_reclen es), b', dir_fd f d 0xffffffff v)" "length b' = BUF_SIZE" "records_at b' 0 es"
    using getdents_dir_fd(1) [OF assms(1-5)] by blast
  note e = getdents_dir_fd(2) [OF assms(1,2) b(2) assms(4,5)]
  note n = records_read [OF assms(1,2)]
  obtain st' w where p: "print_columns (dir_fd f d 0xffffffff v) k (of_nat columns) (of_nat colwidth) b' (of_nat (total_reclen es)) 0 st 0 out =
      Some (st', w, out @ columns_text columns colwidth 0 (map (\<lambda>(i, nm). (nm, shown (disk v) (T i) nm)) es))"
    using print_columns_spec [of "dir_fd f d 0xffffffff v" k d es T es b' 0 0 columns colwidth st out] assms b(3) n(1) by auto
  have "all_columns (of_nat f) k (of_nat columns) (of_nat colwidth) b' s w' (dir_fd f d 0xffffffff v) o' =
      Some (dir_fd f d 0xffffffff v, o')" for s w' o'
    by (subst all_columns.simps) (simp add: e)
  with b n p show ?thesis by (subst all_columns.simps) simp
qed
lemma column_layout_spec:
  assumes "m < 80"
  defines "c \<equiv> 80 div (m + 1)"
  shows "column_layout (of_nat m) = Some (of_nat c, of_nat (80 div c))" and "0 < c" and "c \<le> 80" and "m < 80 div c"
    and "c * (80 div c) \<le> 80"
proof -
  show c: "0 < c" using assms(1) div_le_mono [of "m + 1" 80 "m + 1"] by (simp add: c_def)
  show c80: "c \<le> 80" by (simp add: c_def)
  have "(m + 1) * c \<le> 80" unfolding c_def by (rule times_div_less_eq_dividend)
  then show "m < 80 div c" using c by (simp add: less_eq_div_iff_mult_less_eq Suc_le_eq [symmetric])
  show "c * (80 div c) \<le> 80" by simp
  have m: "unat (of_nat m + 1 :: u32) = m + 1" using unat_small [of "m + 1"] assms(1) by (simp add: add.commute)
  then have "unat (80 div (of_nat m + 1) :: u32) = c" by (simp add: unat_div c_def)
  then have d: "(80 div (of_nat m + 1) :: u32) = of_nat c" using c80 by (simp add: word_unat_eq_iff)
  have q: "80 div c < 4294967296" using div_le_dividend [of 80 c] by linarith
  have "unat (80 div of_nat c :: u32) = 80 div c" using c80 by (simp add: unat_div)
  then have e: "(80 div of_nat c :: u32) = of_nat (80 div c)" using unat_small [of "80 div c"] q by (simp add: word_unat_eq_iff)
  have "(of_nat m + 1 :: u32) \<noteq> 0" "(of_nat c :: u32) \<noteq> 0" using m c c80 by (auto simp: unat_eq_zero [symmetric])
  with d e show "column_layout (of_nat m) = Some (of_nat c, of_nat (80 div c))" by (simp add: column_layout_def Let_def)
qed

definition longest :: "(u32 \<times> buf) list \<Rightarrow> nat" where
  "longest es = Max ((\<lambda>e. length (snd e)) ` set es)"

lemma longest_fold: "es \<noteq> [] \<Longrightarrow> fold (\<lambda>e. max (length (snd e))) es 0 = longest es"
proof -
  assume "es \<noteq> []"
  have "fold (\<lambda>e. max (length (snd e))) es 0 = fold max (map (\<lambda>e. length (snd e)) es) 0" by (simp add: fold_map comp_def)
  also have "\<dots> = Max (insert 0 ((\<lambda>e. length (snd e)) ` set es))" by (simp flip: Max.set_eq_fold)
  also have "\<dots> = longest es" using \<open>es \<noteq> []\<close> by (simp add: longest_def)
  finally show ?thesis .
qed

lemma longest_bound:
  assumes "listable v k d es T"
  shows "es \<noteq> []" "longest es < 80" "\<forall>e\<in>set es. length (snd e) \<le> longest es"
  using assms by (auto simp: longest_def listable_def directory_def)

lemma open_dot:
  assumes "listable v k d es T" and "entry_of es T [46] = Some d" and "length (fd_table v) = 32"
    and "\<exists>f<32. fd_valid (fd_table v ! f) = 0"
  shows "\<exists>f<32. open_file (lit ''.'') 0 0 v k = Some (of_nat f, dir_fd f d 0 v) \<and> fd_valid (fd_table v ! f) = 0"
    and "\<exists>st'. stat (lit ''.'') st v k = Some (0, st') \<and> st_mode st' AND S_IFMT = S_IFDIR"
proof -
  obtain i where i: "(i, [46]) \<in> set es" "T i = d"
    using assms(2) by (auto simp: entry_of_def find_Some_iff) (metis nth_mem snd_conv)
  have l: "lit ''.'' = [46, 0]" "terminated (lit ''.'')" "cstr (lit ''.'') = [46]" "component [46]"
    by (simp_all add: lit_def terminated_def cstr_def component_def)
  have dir: "start_dir False v k = Some d" "directory (disk v) d es T" "word_at (disk v) d AND 7 = 1" "0 \<le> sint d"
    using assms(1) i by (auto simp: listable_def directory_def)
  have "get_inode v k (lit ''.'') = Some d"
    using get_inode_name [OF dir(1), of "lit ''.''" d] path_leads.found [OF dir(2) assms(2)] l by simp
  with fd_allocate_free [OF assms(3,4), of d] dir(4)
  show "\<exists>f<32. open_file (lit ''.'') 0 0 v k = Some (of_nat f, dir_fd f d 0 v) \<and> fd_valid (fd_table v ! f) = 0"
    by (simp add: open_file_def dir_fd_def)
  show "\<exists>st'. stat (lit ''.'') st v k = Some (0, st') \<and> st_mode st' AND S_IFMT = S_IFDIR"
    using stat_entry [OF assms(1) i(1) l(2,3), of st] dir(3) i(2) by blast
qed
lemma dir_fd_table: "length (fd_table v) = 32 \<Longrightarrow> f < 32 \<Longrightarrow> g < 32 \<Longrightarrow>
   fd_valid (fd_table (dir_fd f d p v) ! g) = (if g = f then 1 else fd_valid (fd_table v ! g))"
  by (simp add: dir_fd_def)

text \<open>
  C24: \<^verbatim>\<open>ls\<close> without arguments prints every entry of the working directory, in the order of the
  directory, directories and programs in colour, in as many columns as fit a line of 80 characters with the longest name
  and a blank in each, for every directory whose records fit the buffer and whose names are shorter than 80
  characters. Two descriptors are taken and stay taken.
\<close>

theorem ls_lists_directory:
  assumes "listable v k d es T" and "entry_of es T [46] = Some d" and "fits (disk v) es" and "length buf0 = BUF_SIZE"
    and "length (fd_table v) = 32" and "\<exists>f<32. \<exists>g<32. f \<noteq> g \<and> fd_valid (fd_table v ! f) = 0 \<and> fd_valid (fd_table v ! g) = 0"
  shows "\<exists>v' columns colwidth. ls_main buf0 st0 st1 [prog] k v out = Some (0, v', out @
      columns_text columns colwidth 0 (map (\<lambda>(i, nm). (nm, shown (disk v) (T i) nm)) es) @ [10]) \<and>
    columns = 80 div (longest es + 1) \<and> 0 < columns \<and> longest es < colwidth \<and> columns * colwidth \<le> 80 \<and>
    (\<exists>f<32. \<exists>g<32. f \<noteq> g \<and> (\<forall>h<32. fd_valid (fd_table v' ! h) = (if h = f \<or> h = g then 1 else fd_valid (fd_table v ! h))) \<and>
      fd_valid (fd_table v ! f) = 0 \<and> fd_valid (fd_table v ! g) = 0)"
proof -
  let ?c = "80 div (longest es + 1)"
  note lb = longest_bound [OF assms(1)] and lay = column_layout_spec [OF longest_bound(2) [OF assms(1)]]
  have w: "80 div ?c \<le> 80" "\<forall>e\<in>set es. length (snd e) \<le> 80 div ?c" using lb(3) lay(4) by force+
  obtain st where st: "stat (lit ''.'') st0 v k = Some (0, st)" "st_mode st AND S_IFMT = S_IFDIR"
    using open_dot(2) [OF assms(1,2,5)] assms(6) by blast
  obtain f where f: "f < 32" "open_file (lit ''.'') 0 0 v k = Some (of_nat f, dir_fd f d 0 v)" "fd_valid (fd_table v ! f) = 0"
    using open_dot(1) [OF assms(1,2,5)] assms(6) by blast
  let ?v = "dir_fd f d 0xffffffff v"
  obtain b where b: "all_names (of_nat f) buf0 0 (dir_fd f d 0 v) out = Some (b, of_nat (longest es), ?v, out)" "length b = BUF_SIZE"
    using all_names_spec [OF assms(1,3,4) f(1) assms(5), of out] longest_fold [OF lb(1)] by auto
  have "\<exists>g<32. fd_valid (fd_table ?v ! g) = 0" using assms(6) dir_fd_table [OF assms(5) f(1)] by metis
  then obtain g where g: "g < 32" "open_file (lit ''.'') 0 0 ?v k = Some (of_nat g, dir_fd g d 0 ?v)" "fd_valid (fd_table ?v ! g) = 0"
    using open_dot(1) [of ?v k d es T] assms(1,2,5) by auto
  let ?o = "columns_text ?c (80 div ?c) 0 (map (\<lambda>(i, nm). (nm, shown (disk v) (T i) nm)) es)"
  have cols: "all_columns (of_nat g) k (of_nat ?c) (of_nat (80 div ?c)) b st 0 (dir_fd g d 0 ?v) out =
      Some (dir_fd g d 0xffffffff ?v, out @ ?o)"
    using all_columns_spec [of ?v k d es T b g ?c "80 div ?c" st out] assms(1,3,5) b(2) g(1) lay(2,3) w by auto
  have fd: "\<not> sint (of_nat f :: i32) < 0" using f(1) sint_small_nat [of f] by auto
  have "ls_plain buf0 st0 (lit ''.'') k v out = Some (0, dir_fd g d 0xffffffff ?v, out @ ?o @ [10])"
    using st f(2) b(1) lay(1) g(2) cols fd by (simp add: ls_plain_def open_dir_def say_newline)
  then have "ls_main buf0 st0 st1 [prog] k v out = Some (0, dir_fd g d 0xffffffff ?v, out @ ?o @ [10])"
    by (simp add: ls_main_def)
  moreover have "f \<noteq> g" "fd_valid (fd_table v ! g) = 0"
    using g(1,3) dir_fd_table [OF assms(5) f(1) g(1)] by (auto split: if_splits)
  moreover have "\<forall>h<32. fd_valid (fd_table (dir_fd g d 0xffffffff ?v) ! h) = (if h = f \<or> h = g then 1 else fd_valid (fd_table v ! h))"
    using dir_fd_table [of ?v g] dir_fd_table [OF assms(5) f(1)] g(1) assms(5) by simp
  ultimately show ?thesis using f(1,3) g(1) lay(2,4,5) by blast
qed
lemma demo_listable:
  "listable demo_vfs (k\<lparr>pcbs := (\<lambda>p. Some (b\<lparr>current_dir := 32\<rparr>))\<rparr>) 32 demo_entries id" "fits (disk demo_vfs) demo_entries"
proof -
  have d: "disk demo_vfs = demo_disk" by (simp add: demo_vfs_def)
  show "listable demo_vfs (k\<lparr>pcbs := (\<lambda>p. Some (b\<lparr>current_dir := 32\<rparr>))\<rparr>) 32 demo_entries id"
    using demo_directory by (simp add: listable_def start_dir_def d demo_entries_def component_def demo_on_disk)
  show "fits (disk demo_vfs) demo_entries"
    unfolding fits_def d demo_total using demo_volume by (intro exI [of _ "[116, 101, 115, 116]"]) (simp add: reclen_def BUF_SIZE_def)
qed

theorem ls_lists_directory_witness:
  "\<forall>k b. \<exists>v'. ls_main (replicate BUF_SIZE 0) zero_stat zero_stat [lit ''ls''] (k\<lparr>pcbs := (\<lambda>p. Some (b\<lparr>current_dir := 32\<rparr>))\<rparr>) demo_vfs [] =
    Some (0, v', [27, 91, 49, 59, 51, 52, 109, 46, 27, 91, 48, 109] @ replicate 5 32 @ [104, 101, 108, 108, 111, 32, 10])"
proof (intro allI)
  fix k :: kernel and b
  have n: "demo_entries = [(32, [46]), (64, [104, 101, 108, 108, 111])]" by (simp add: demo_entries_def)
  have l: "longest demo_entries = 5" by (simp add: longest_def n)
  have s: "shown demo_disk 32 [46] = [27, 91, 49, 59, 51, 52, 109, 46, 27, 91, 48, 109]"
    "shown demo_disk 64 [104, 101, 108, 108, 111] = [104, 101, 108, 108, 111]"
    by (simp_all add: shown_def demo_words colored_def LS_DIR_COLOR_def LS_NORMAL_COLOR_def lit_def)
  have free: "\<exists>f<32. \<exists>g<32. f \<noteq> g \<and> fd_valid (fd_table demo_vfs ! f) = 0 \<and> fd_valid (fd_table demo_vfs ! g) = 0"
    by (intro exI [of _ 3] conjI exI [of _ 4]) (simp_all add: demo_vfs_def nth_append)
  have "length (replicate BUF_SIZE (0 :: u8)) = BUF_SIZE" "length (fd_table demo_vfs) = 32" by (simp_all add: demo_vfs_def)
  from ls_lists_directory [OF demo_listable(1) [of b k] demo_entry(1) demo_listable(2) this free, of zero_stat zero_stat "lit ''ls''" "[]"]
  obtain v' w where v: "ls_main (replicate BUF_SIZE 0) zero_stat zero_stat [lit ''ls''] (k\<lparr>pcbs := (\<lambda>p. Some (b\<lparr>current_dir := 32\<rparr>))\<rparr>)
      demo_vfs [] = Some (0, v', columns_text (80 div (longest demo_entries + 1)) w 0
        (map (\<lambda>(i, nm). (nm, shown (disk demo_vfs) (id i) nm)) demo_entries) @ [10])"
    "5 < w" "13 * w \<le> 80" unfolding l by auto
  have "w = 6" using v(2,3) by linarith
  with v(1) s show "\<exists>v'. ls_main (replicate BUF_SIZE 0) zero_stat zero_stat [lit ''ls''] (k\<lparr>pcbs := (\<lambda>p. Some (b\<lparr>current_dir := 32\<rparr>))\<rparr>)
      demo_vfs [] = Some (0, v', [27, 91, 49, 59, 51, 52, 109, 46, 27, 91, 48, 109] @ replicate 5 32 @ [104, 101, 108, 108, 111, 32, 10])"
    by (simp add: l [unfolded n] n demo_vfs_def)
qed
section \<open>The long listing\<close>


lemma days_to_2000: "days_to_year 2000 = 10957"
  by (simp add: days_to_year_def leap_year_def) code_simp


text \<open>\<^verbatim>\<open>ilog10\<close> is one less than the number of digits.\<close>

lemma ilog10_digits:
  "v \<noteq> 0 \<Longrightarrow> 10 ^ unat (ilog10 v) \<le> unat v \<and> unat v < 10 ^ (unat (ilog10 v) + 1)" "ilog10 0 = 0"
  using unat_u32_bound [of v] by (auto simp: ilog10_def word_le_nat_alt not_le unat_gt_0 Suc_le_eq)

text \<open>The permissions: the type of the file and nine letters.\<close>

definition mode_text :: "i32 \<Rightarrow> buf" where
  "mode_text mode = butlast (lit (type_char (sint mode div 4096))) @
     map (\<lambda>(i, c). if bit mode i then c else 45) [(8, 114), (7, 119), (6, 120), (5, 114), (4, 119), (3, 120), (2, 114), (1, 119), (0, 120)]"

lemma perm_char_text:
  assumes "i < 9" and "c = ''r'' \<or> c = ''w'' \<or> c = ''x''"
  shows "perm_char (mode AND 0x1ff) i c out = Some (out @ [if bit mode i then hd (lit c) else 45])"
proof -
  have m: "(0x1ff :: i32) = mask 9" by (simp add: mask_eq_exp_minus_1)
  have "bit (mode AND 0x1ff) i \<longleftrightarrow> bit mode i" unfolding m using assms(1) by (simp add: bit_and_iff bit_mask_iff del: mask_numeral)
  then have "(mode AND 0x1ff) AND push_bit i 1 \<noteq> 0 \<longleftrightarrow> bit mode i"
    by (simp add: and_exp_eq_0_iff_not_bit push_bit_eq_mult)
  moreover have "say (lit ''-'') [] out = Some (out @ [45])" "say (lit c) [] out = Some (out @ [hd (lit c)])"
    using say_plain [of "[45]" out] say_plain [of "[hd (lit c)]" out] assms(2) by (auto simp: lit_def plain_def)
  ultimately show ?thesis by (simp add: perm_char_def)
qed

lemma print_permissions_text: "print_permissions mode out = Some (out @ mode_text mode)"
proof -
  have l: "hd (lit ''r'') = 114" "hd (lit ''w'') = 119" "hd (lit ''x'') = 120" by (simp_all add: lit_def)
  have "say (lit (type_char n)) [] o' = Some (o' @ butlast (lit (type_char n)))" for n o'
  proof -
    have "lit t = butlast (lit t) @ [0]" for t by (simp add: lit_def)
    moreover have "list_all plain (butlast (lit (type_char n)))" "length (butlast (lit (type_char n))) < 255"
      unfolding type_char_def by (simp_all add: lit_def plain_def)
    ultimately show ?thesis using say_plain by metis
  qed
  then show ?thesis
    by (simp add: print_permissions_def perm_group_def perm_char_text mode_text_def Let_def numeral_2_eq_2 split del: if_split)
      (intro conjI; simp add: l)
qed

end
