(* ===== verification/Userland.thy ===== *)
theory Userland
  imports Syscalls Ls
begin

text \<open>
  What the user programs share: the system calls as a program sees them, and the remaining parts of the C library
  (\<^verbatim>\<open>vlibc/tty.c\<close>, \<^verbatim>\<open>stdio.c\<close>, \<^verbatim>\<open>system.c\<close>, \<^verbatim>\<open>start.c\<close> and the sleeping functions of \<^verbatim>\<open>time.c\<close>). Between a
  call and its return other processes run, so the other side of the calls is a parameter \<open>sys\<close> on a state \<open>'w\<close>
  that it may change in any way. A call carries the data its pointers lead to; the answer is the returned value and the
  bytes that were stored.
\<close>

section \<open>System calls\<close>

datatype call =
    Sys_exit i32
  | Sys_read i32 u32
  | Sys_write i32 buf
  | Sys_open buf
  | Sys_close u32
  | Sys_waitpid i32 i32
  | Sys_execve buf "buf list"
  | Sys_chdir buf
  | Sys_getcwd u32
  | Sys_getpid
  | Sys_time
  | Sys_times
  | Sys_stat buf
  | Sys_sysinfo
  | Sys_uname
  | Sys_nanosleep u32 i32
  | Sys_vfork
  | Sys_ioctl i32 u32 buf
  | Sys_reboot
  | Sys_blink i32
  | Sys_setfont i32
  | Sys_gradient
  | Sys_get_temp
  | Sys_i2c_read u16 u32
  | Sys_i2c_write u16 buf
  | Sys_malloc u32
  | Sys_framebuffer_load i32 i32 i32 buf

type_synonym answer = "i32 \<times> buf"
type_synonym 'w os = "call \<Rightarrow> 'w \<Rightarrow> (answer \<times> 'w) option"

definition syscall :: "'w os \<Rightarrow> call \<Rightarrow> 'w \<Rightarrow> (i32 \<times> 'w) option" where
  "syscall sys c w = do { ((r, d), w1) \<leftarrow> sys c w; Some (r, w1) }"

text \<open>The bytes that a call stored, over what the memory held before; too many bytes leave the object.\<close>

definition over :: "buf \<Rightarrow> buf \<Rightarrow> buf option" where
  "over d b = (if length d \<le> length b then Some (d @ drop (length d) b) else None)"

definition syscall_into :: "'w os \<Rightarrow> call \<Rightarrow> buf \<Rightarrow> 'w \<Rightarrow> (i32 \<times> buf \<times> 'w) option" where
  "syscall_into sys c b w = do { ((r, d), w1) \<leftarrow> sys c w; b1 \<leftarrow> over d b; Some (r, b1, w1) }"

text \<open>A string that is passed to a call.\<close>

definition ctext :: "buf \<Rightarrow> buf option" where
  "ctext s = (if terminated s then Some (cstr s) else None)"

section \<open>The C library\<close>

definition printf :: "'w os \<Rightarrow> buf \<Rightarrow> parg list \<Rightarrow> 'w \<Rightarrow> 'w option" where
  "printf sys fmt args w =
     do { (b, result) \<leftarrow> vlibc_vsprintf (replicate MAX_PRINT_SIZE 0) fmt args;
          (r, w1) \<leftarrow> syscall sys (Sys_write 1 (take result b)) w;
          Some w1 }"

text \<open>A line: a format that ends with a newline.\<close>

definition line :: "string \<Rightarrow> buf" where
  "line s = butlast (lit s) @ [10, 0]"

definition putchar :: "'w os \<Rightarrow> i32 \<Rightarrow> 'w \<Rightarrow> (i32 \<times> 'w) option" where
  "putchar sys c w = syscall sys (Sys_write 1 [ucast c]) w"

definition getchar :: "'w os \<Rightarrow> 'w \<Rightarrow> (i32 \<times> 'w) option" where
  "getchar sys w = do { (r, b, w1) \<leftarrow> syscall_into sys (Sys_read 0 1) [0] w; Some (ucast (hd b), w1) }"

definition reboot :: "'w os \<Rightarrow> 'w \<Rightarrow> (i32 \<times> 'w) option" where
  "reboot sys w = syscall sys Sys_reboot w"

definition start :: "'w os \<Rightarrow> ('w \<Rightarrow> (i32 \<times> 'w) option) \<Rightarrow> 'w \<Rightarrow> 'w option" where
  "start sys main w = do { (result, w1) \<leftarrow> main w; (r, w2) \<leftarrow> syscall sys (Sys_exit result) w1; Some w2 }"

definition sleep :: "'w os \<Rightarrow> u32 \<Rightarrow> 'w \<Rightarrow> (i32 \<times> 'w) option" where
  "sleep sys seconds w = do { (r, w1) \<leftarrow> syscall sys (Sys_nanosleep seconds 0) w; Some (0, w1) }"

definition usleep :: "'w os \<Rightarrow> u32 \<Rightarrow> 'w \<Rightarrow> (i32 \<times> 'w) option" where
  "usleep sys usecs w =
     do { let tv_sec = usecs div 1000000;
          let tv_nsec = (usecs - tv_sec * 1000000) * 1000;
          (r, w1) \<leftarrow> syscall sys (Sys_nanosleep tv_sec tv_nsec) w;
          Some (0, w1) }"

definition libc_time :: "'w os \<Rightarrow> 'w \<Rightarrow> (i32 \<times> 'w) option" where
  "libc_time sys w = syscall sys Sys_time w"

text \<open>The terminal settings. \<open>c_rest\<close> are the bytes behind the four words of flags.\<close>

record termios =
  c_iflag :: u32
  c_oflag :: u32
  c_cflag :: u32
  c_lflag :: u32
  c_rest :: buf

definition termios_bytes :: "termios \<Rightarrow> buf" where
  "termios_bytes t = concat (map word_bytes [c_iflag t, c_oflag t, c_cflag t, c_lflag t]) @ c_rest t"

definition termios_of :: "buf \<Rightarrow> termios" where
  "termios_of b = \<lparr>c_iflag = le_word (take 4 b), c_oflag = le_word (take 4 (drop 4 b)), c_cflag = le_word (take 4 (drop 8 b)),
     c_lflag = le_word (take 4 (drop 12 b)), c_rest = drop 16 b\<rparr>"

definition cfmakeraw :: "termios \<Rightarrow> termios" where
  "cfmakeraw t = t\<lparr>c_iflag := c_iflag t AND NOT 0x5eb, c_oflag := c_oflag t AND NOT 1,
     c_lflag := c_lflag t AND NOT 0x804b, c_cflag := (c_cflag t AND NOT 0x130) OR 0x30\<rparr>"

definition tcgetattr :: "'w os \<Rightarrow> i32 \<Rightarrow> termios \<Rightarrow> 'w \<Rightarrow> (i32 \<times> termios \<times> 'w) option" where
  "tcgetattr sys fd t w =
     do { (r, b, w1) \<leftarrow> syscall_into sys (Sys_ioctl fd 0x5401 (termios_bytes t)) (termios_bytes t) w;
          Some (r, termios_of b, w1) }"

definition tcsetattr :: "'w os \<Rightarrow> i32 \<Rightarrow> i32 \<Rightarrow> termios \<Rightarrow> 'w \<Rightarrow> (i32 \<times> 'w) option" where
  "tcsetattr sys fd optional_actions t w = syscall sys (Sys_ioctl fd 0x5402 (termios_bytes t)) w"

section \<open>The other side of the calls\<close>

text \<open>
  The file layer and the console as the other side. \<open>w_out\<close> is what was written to the console. A read that has to
  wait for input, and a call that concerns other parts of the kernel, has no answer here.
\<close>

record world =
  w_files :: vfs
  w_kernel :: kernel
  w_console :: console
  w_out :: buf

fun kernel_os :: "world os" where
  "kernel_os (Sys_read fd cnt) w =
     do { (r, b, v, c, k) \<leftarrow> read fd (replicate (unat cnt) 0) cnt (w_files w) (w_console w) (w_kernel w);
          case r of Blocked \<Rightarrow> None
          | Returned n \<Rightarrow> Some ((n, if 0 < sint n then take (unat n) b else []),
              w\<lparr>w_files := v, w_console := c, w_kernel := k\<rparr>) }"
| "kernel_os (Sys_write fd t) w =
     do { (n, d) \<leftarrow> write_fd (\<lambda>c d. d @ [c]) True fd t (of_nat (length t)) (w_out w);
          Some ((n, []), w\<lparr>w_out := d\<rparr>) }"
| "kernel_os (Sys_open path) w =
     do { (fd, v) \<leftarrow> open_file (path @ [0]) 0 0 (w_files w) (w_kernel w); Some ((fd, []), w\<lparr>w_files := v\<rparr>) }"
| "kernel_os (Sys_close fd) w = Some ((close fd, []), w)"
| "kernel_os (Sys_chdir path) w =
     do { (r, k) \<leftarrow> chdir (path @ [0]) (w_files w) (w_kernel w); Some ((r, []), w\<lparr>w_kernel := k\<rparr>) }"
| "kernel_os (Sys_stat path) w =
     do { (r, st) \<leftarrow> stat (path @ [0]) zero_stat (w_files w) (w_kernel w);
          Some ((r, if sint r < 0 then [] else concat (map word_bytes (stat_words st))), w) }"
| "kernel_os _ w = None"


section \<open>Output\<close>

lemma printf_renders:
  assumes "list_all piece_ok ps" and "render ps args = Some t" and "length t < 255"
  shows "printf sys (concat (map piece_format ps) @ [0]) args w = map_option snd (syscall sys (Sys_write 1 t) w)"
proof -
  have "vlibc_vsprintf (replicate MAX_PRINT_SIZE 0) (concat (map piece_format ps) @ [0]) args =
      Some (stored (replicate MAX_PRINT_SIZE 0) 0 t, length t)"
    using vsprintf_loop_renders [OF assms(1,2), of 0 "replicate MAX_PRINT_SIZE 0" "[]"] assms(3)
    by (simp add: vlibc_vsprintf_def MAX_PRINT_SIZE_def)
  moreover have "take (length t) (stored (replicate MAX_PRINT_SIZE 0) 0 t) = t" by (simp add: stored_def)
  ultimately show ?thesis by (cases "syscall sys (Sys_write 1 t) w") (auto simp: printf_def)
qed

lemma printf_plain:
  "list_all plain t \<Longrightarrow> length t < 255 \<Longrightarrow> printf sys (t @ [0]) [] w = map_option snd (syscall sys (Sys_write 1 t) w)"
proof -
  assume a: "list_all plain t" "length t < 255"
  have "list_all piece_ok (map Lit t)" using a(1) by (simp add: list_all_iff plain_def)
  moreover have "render (map Lit t) [] = Some t" by (induction t) auto
  moreover have "concat (map piece_format (map Lit t)) = t" by (induction t) auto
  ultimately show ?thesis using printf_renders [of "map Lit t" "[]" t sys w] a(2) by simp
qed

end
