(* ===== verification/Programs.thy ===== *)
theory Programs
  imports Userland "HOL-Library.Signed_Division"
begin

text \<open>
  The small user programs: \<^verbatim>\<open>cat.c\<close>, \<^verbatim>\<open>cat_count.c\<close>, \<^verbatim>\<open>pwd.c\<close>, \<^verbatim>\<open>uname.c\<close>, \<^verbatim>\<open>sysinfo.c\<close>, \<^verbatim>\<open>hello.c\<close>,
  \<^verbatim>\<open>printa.c\<close>, \<^verbatim>\<open>printb.c\<close>, \<^verbatim>\<open>bet_amount.c\<close> and \<^verbatim>\<open>wii_controller.c\<close>. Objects that a program does not initialise
  are parameters. A signed addition that overflows has no defined result.
\<close>

section \<open>cat\<close>

definition cat_BUF_SIZE :: u32 where "cat_BUF_SIZE = 128"

definition write_part :: "'w os \<Rightarrow> i32 \<Rightarrow> buf \<Rightarrow> i32 \<Rightarrow> 'w \<Rightarrow> (i32 \<times> 'w) option" where
  "write_part sys fd b n w = (if unat n \<le> length b then syscall sys (Sys_write fd (take (unat n) b)) w else None)"

partial_function (option) cat :: "'w os \<Rightarrow> i32 \<Rightarrow> i32 \<Rightarrow> buf \<Rightarrow> 'w \<Rightarrow> (i32 \<times> 'w) option" where
  [code]: "cat sys in_fd out_fd buffer w =
     do { (result, b, w1) \<leftarrow> syscall_into sys (Sys_read in_fd cat_BUF_SIZE) buffer w;
          if sint result \<le> 0 then Some (0, w1)
          else
            do { (result2, w2) \<leftarrow> write_part sys out_fd b result w1;
                 if sint result2 \<le> 0 then Some (0, w2) else cat sys in_fd out_fd b w2 } }"

fun cat_files :: "'w os \<Rightarrow> buf \<Rightarrow> buf list \<Rightarrow> 'w \<Rightarrow> (i32 \<times> 'w) option" where
  "cat_files sys buffer [] w = Some (0, w)"
| "cat_files sys buffer (a # as) w =
     do { path \<leftarrow> ctext a;
          (input_fd, w1) \<leftarrow> syscall sys (Sys_open path) w;
          if sint input_fd < 0 then do { w2 \<leftarrow> printf sys (line ''Error opening %s'') [Str a] w1; Some (- 1, w2) }
          else
            do { (r, w2) \<leftarrow> cat sys input_fd 1 buffer w1;
                 (r2, w3) \<leftarrow> syscall sys (Sys_close input_fd) w2;
                 cat_files sys buffer as w3 } }"

definition cat_main :: "'w os \<Rightarrow> buf \<Rightarrow> buf list \<Rightarrow> 'w \<Rightarrow> (i32 \<times> 'w) option" where
  "cat_main sys buffer argv w =
     (if length argv < 2 then do { (r, w1) \<leftarrow> cat sys 0 1 buffer w; Some (0, w1) }
      else cat_files sys buffer (tl argv) w)"

text \<open>\<^verbatim>\<open>cat_count.c\<close>; its buffer of 8192 bytes is static and zero at the start.\<close>

definition cat_count_main :: "'w os \<Rightarrow> buf list \<Rightarrow> 'w \<Rightarrow> (i32 \<times> 'w) option" where
  "cat_count_main sys argv w =
     (if length argv \<noteq> 3 then
        do { a0 \<leftarrow> arr_get argv 0;
             w1 \<leftarrow> printf sys (butlast (lit ''Usage:'') @ [10, 9] @ butlast (lit ''%s FILENAME count'') @ [10, 10, 0]) [Str a0] w;
             Some (- 1, w1) }
      else
        do { count \<leftarrow> atoi (argv ! 2);
             w1 \<leftarrow> printf sys (line ''Only catting %d bytes'') [Num count] w;
             path \<leftarrow> ctext (argv ! 1);
             (input_fd, w2) \<leftarrow> syscall sys (Sys_open path) w1;
             if sint input_fd < 0 then do { w3 \<leftarrow> printf sys (line ''Error opening %s'') [Str (argv ! 1)] w2; Some (- 1, w3) }
             else
               do { (result, b, w3) \<leftarrow> syscall_into sys (Sys_read input_fd count) (replicate 8192 0) w2;
                    (r, w4) \<leftarrow> (if sint result > 0 then write_part sys 1 b result w3 else Some (result, w3));
                    (r2, w5) \<leftarrow> syscall sys (Sys_close input_fd) w4;
                    Some (0, w5) } })"

section \<open>Information about the system\<close>

definition pwd_main :: "'w os \<Rightarrow> buf \<Rightarrow> 'w \<Rightarrow> (i32 \<times> 'w) option" where
  "pwd_main sys dirname w =
     do { (r, b, w1) \<leftarrow> syscall_into sys (Sys_getcwd 256) dirname w;
          w2 \<leftarrow> printf sys (line ''%s'') [Str b] w1;
          Some (0, w2) }"

text \<open>The strings of \<^verbatim>\<open>struct utsname\<close>.\<close>

definition uts_field :: "buf \<Rightarrow> nat \<Rightarrow> buf" where
  "uts_field b i = drop (65 * i) b"

definition uname_main :: "'w os \<Rightarrow> buf \<Rightarrow> 'w \<Rightarrow> (i32 \<times> 'w) option" where
  "uname_main sys buf0 w =
     do { (r, b, w1) \<leftarrow> syscall_into sys Sys_uname buf0 w;
          w2 \<leftarrow> printf sys (line ''%s %s %s %s'') [Str (uts_field b 0), Str (uts_field b 1), Str (uts_field b 2), Str (uts_field b 4)] w1;
          Some (0, w2) }"

definition word_field :: "buf \<Rightarrow> nat \<Rightarrow> u32" where
  "word_field b i = le_word (take 4 (drop (4 * i) b))"

definition sysinfo_main :: "'w os \<Rightarrow> buf \<Rightarrow> buf \<Rightarrow> buf \<Rightarrow> 'w \<Rightarrow> (i32 \<times> 'w) option" where
  "sysinfo_main sys buf0 ubuf0 timestring w =
     do { (r, b, w1) \<leftarrow> syscall_into sys Sys_sysinfo buf0 w;
          (r2, u, w2) \<leftarrow> syscall_into sys Sys_uname ubuf0 w1;
          w3 \<leftarrow> printf sys [10, 0] [] w2;
          w4 \<leftarrow> printf sys (line ''%s version %s system info:'') [Str (uts_field u 0), Str (uts_field u 2)] w3;
          w5 \<leftarrow> printf sys (9 # line ''%d/%d Processes Ready'') [Num (word_field b 14), Num (word_field b 10)] w4;
          w6 \<leftarrow> printf sys (9 # line ''%dk/%dk RAM free'') [Num (word_field b 5 div 1024), Num (word_field b 4 div 1024)] w5;
          t1 \<leftarrow> time_pretty (word_field b 0) timestring;
          w7 \<leftarrow> printf sys (9 # lit ''Up %s, '') [Str t1] w6;
          t2 \<leftarrow> time_pretty (word_field b 15) t1;
          w8 \<leftarrow> printf sys (line ''Idle for %s'') [Str t2] w7;
          Some (0, w8) }"

definition hello_main :: "'w os \<Rightarrow> 'w \<Rightarrow> (i32 \<times> 'w) option" where
  "hello_main sys w =
     do { w1 \<leftarrow> printf sys (line ''Hello World!'') [] w;
          (r, w2) \<leftarrow> syscall sys (Sys_exit 5) w1;
          Some (0, w2) }"

text \<open>\<^verbatim>\<open>printa.c\<close> and \<^verbatim>\<open>printb.c\<close>; the empty delay loop is left out.\<close>

partial_function (option) print_until :: "'w os \<Rightarrow> string \<Rightarrow> i32 \<Rightarrow> 'w \<Rightarrow> (i32 \<times> 'w) option" where
  [code]: "print_until sys letter t0 w =
     do { w1 \<leftarrow> printf sys (lit letter) [] w;
          (current_time, w2) \<leftarrow> libc_time sys w1;
          if sint (current_time - t0) > 5 then Some (current_time, w2) else print_until sys letter t0 w2 }"

definition print_letter :: "'w os \<Rightarrow> string \<Rightarrow> buf \<Rightarrow> 'w \<Rightarrow> (i32 \<times> 'w) option" where
  "print_letter sys letter buf0 w =
     do { (t0, w1) \<leftarrow> libc_time sys w;
          (current_time, w2) \<leftarrow> print_until sys letter t0 w1;
          (r, b, w3) \<leftarrow> syscall_into sys Sys_times buf0 w2;
          let user = word_of_int (sint (word_field b 0) sdiv 64);
          w4 \<leftarrow> printf sys (10 # butlast (lit (''Time running '' @ letter @ '': '')) @
              line ''Wallclock: %d seconds, User: %d seconds, Running %d%% of time'')
            [Num (current_time - t0), Num user, Num (user * 100 div (current_time - t0))] w3;
          Some (0, w4) }"

definition printa_main :: "'w os \<Rightarrow> buf \<Rightarrow> 'w \<Rightarrow> (i32 \<times> 'w) option" where
  "printa_main sys buf0 w = print_letter sys ''A'' buf0 w"

definition printb_main :: "'w os \<Rightarrow> buf \<Rightarrow> 'w \<Rightarrow> (i32 \<times> 'w) option" where
  "printb_main sys buf0 w = print_letter sys ''B'' buf0 w"

section \<open>The controller on the I2C bus\<close>

definition WII_CONTROLLER_ADDR :: u16 where "WII_CONTROLLER_ADDR = 0x52"

text \<open>The parameter \<open>addr\<close> is not used by the source.\<close>

definition i2c_set_reg :: "'w os \<Rightarrow> u16 \<Rightarrow> u8 \<Rightarrow> u8 \<Rightarrow> 'w \<Rightarrow> (i32 \<times> 'w) option" where
  "i2c_set_reg sys addr reg_addr v w = syscall sys (Sys_i2c_write WII_CONTROLLER_ADDR [reg_addr, v]) w"

definition i2c_get_regs :: "'w os \<Rightarrow> u16 \<Rightarrow> u8 \<Rightarrow> buf \<Rightarrow> u32 \<Rightarrow> 'w \<Rightarrow> (i32 \<times> buf \<times> 'w) option" where
  "i2c_get_regs sys addr reg_addr b cnt w =
     do { (r, w1) \<leftarrow> syscall sys (Sys_i2c_write WII_CONTROLLER_ADDR [reg_addr]) w;
          (r2, w2) \<leftarrow> usleep sys 200 w1;
          syscall_into sys (Sys_i2c_read WII_CONTROLLER_ADDR cnt) b w2 }"

text \<open>The part of \<^verbatim>\<open>init_controller\<close> that both programs have: an error, or the identification.\<close>

definition read_id :: "'w os \<Rightarrow> buf \<Rightarrow> 'w \<Rightarrow> ((i32 + u16) \<times> 'w) option" where
  "read_id sys id0 w =
     do { (r1, w1) \<leftarrow> i2c_set_reg sys WII_CONTROLLER_ADDR 0xf0 0x55 w;
          if r1 \<noteq> 2 then Some (Inl (- 1), w1)
          else
            do { (u1, w2) \<leftarrow> usleep sys 2000 w1;
                 (r2, w3) \<leftarrow> i2c_set_reg sys WII_CONTROLLER_ADDR 0xfb 0 w2;
                 if r2 \<noteq> 2 then Some (Inl (- 2), w3)
                 else
                   do { (u2, w4) \<leftarrow> usleep sys 2000 w3;
                        (r3, b, w5) \<leftarrow> i2c_get_regs sys WII_CONTROLLER_ADDR 0xfe id0 2 w4;
                        if r3 \<noteq> 2 then Some (Inl (- 3), w5)
                        else Some (Inr (ucast (b ! 0) OR push_bit 8 (ucast (b ! 1))), w5) } } }"

definition bet_init_controller :: "'w os \<Rightarrow> buf \<Rightarrow> 'w \<Rightarrow> (i32 \<times> 'w) option" where
  "bet_init_controller sys id0 w =
     do { (i, w1) \<leftarrow> read_id sys id0 w;
          Some (case i of Inl e \<Rightarrow> e | Inr n \<Rightarrow> if n = 0 then 1 else if n \<noteq> 0x0101 then 1 else 0, w1) }"

definition controller_name :: "u16 \<Rightarrow> string option" where
  "controller_name n =
     (if n = 0x0000 then Some ''Nunchuk'' else if n = 0x0101 then Some ''Classic Controller''
      else if n = 0x0013 then Some ''Drawsome Graphics tablet'' else if n = 0x0103 then Some ''Guitar Hero/DJ Hero controller''
      else if n = 0x0111 then Some ''Taiko no Tatsujin TaTaCon'' else if n = 0x0112 then Some ''uDraw GameTablet''
      else if n = 0x0310 then Some ''Densha de GO! Shinkansen Controller'' else if n = 0x0402 then Some ''Wii Balance Board''
      else if n = 0x0005 \<or> n = 0x0405 then Some ''Wii Motion Plus''
      else if n = 0x0505 then Some ''Wii Motion Plus (Nunchuck passthru)''
      else if n = 0x0705 then Some ''Wii Motion Plus (Classic Controller Passthru)'' else None)"

definition wii_init_controller :: "'w os \<Rightarrow> buf \<Rightarrow> 'w \<Rightarrow> (i32 \<times> 'w) option" where
  "wii_init_controller sys id0 w =
     do { (i, w1) \<leftarrow> read_id sys id0 w;
          case i of Inl e \<Rightarrow> Some (e, w1)
          | Inr n \<Rightarrow>
              (case controller_name n of
                 None \<Rightarrow> do { w2 \<leftarrow> printf sys (lit ''No valid controller detected!'') [] w1; Some (1, w2) }
               | Some nm \<Rightarrow>
                   do { w2 \<leftarrow> printf sys (lit nm) [] w1;
                        w3 \<leftarrow> printf sys (line '' detected'') [] w2;
                        Some (if n = 0x0101 then 0 else - 4, w3) }) }"

definition BDR :: u16 where "BDR = 0x8000"
definition BDD :: u16 where "BDD = 0x4000"
definition BLT :: u16 where "BLT = 0x2000"
definition BMI :: u16 where "BMI = 0x1000"
definition BHO :: u16 where "BHO = 0x0800"
definition BPL :: u16 where "BPL = 0x0400"
definition BRT :: u16 where "BRT = 0x0200"
definition BZL :: u16 where "BZL = 0x0080"
definition BB :: u16 where "BB = 0x0040"
definition BY :: u16 where "BY = 0x0020"
definition BA :: u16 where "BA = 0x0010"
definition BX :: u16 where "BX = 0x0008"
definition BZR :: u16 where "BZR = 0x0004"
definition BDL :: u16 where "BDL = 0x0002"
definition BDU :: u16 where "BDU = 0x0001"

definition read_buttons :: "'w os \<Rightarrow> buf \<Rightarrow> 'w \<Rightarrow> (i32 \<times> buf \<times> 'w) option" where
  "read_buttons sys b w =
     do { (results, b1, w1) \<leftarrow> i2c_get_regs sys WII_CONTROLLER_ADDR 0 b 6 w;
          Some (if sint results < 0 then results else if results \<noteq> 6 then - 3 else 0, b1, w1) }"

definition pressed :: "buf \<Rightarrow> u16" where
  "pressed b = NOT (push_bit 8 (ucast (b ! 4)) OR ucast (b ! 5))"

section \<open>bet\_amount\<close>

definition signed_add :: "i32 \<Rightarrow> i32 \<Rightarrow> i32 option" where
  "signed_add a b = (if - 2147483648 \<le> sint a + sint b \<and> sint a + sint b \<le> 2147483647 then Some (a + b) else None)"

definition signed_sub :: "i32 \<Rightarrow> i32 \<Rightarrow> i32 option" where
  "signed_sub a b = (if - 2147483648 \<le> sint a - sint b \<and> sint a - sint b \<le> 2147483647 then Some (a - b) else None)"

text \<open>One step of the amount when up or down is held.\<close>

definition adjust :: "u16 \<Rightarrow> u8 \<Rightarrow> i32 \<Rightarrow> i32 \<Rightarrow> i32 \<Rightarrow> i32 option" where
  "adjust buttons consecutive delta minimum cash =
     do { c1 \<leftarrow> (if consecutive = 0 \<and> buttons AND BDD \<noteq> 0 then
             do { d \<leftarrow> signed_sub cash delta; Some (if sint d \<ge> sint minimum then d else cash) }
           else Some cash);
          if consecutive = 0 \<and> buttons AND BDU \<noteq> 0 then signed_add c1 delta else Some c1 }"

definition INT32_MIN :: i32 where "INT32_MIN = 0x80000000"

definition ESC :: "string \<Rightarrow> buf" where "ESC s = 27 # butlast (lit s)"

partial_function (option) prompt_loop :: "'w os \<Rightarrow> i32 \<Rightarrow> i32 \<Rightarrow> i32 \<Rightarrow> buf \<Rightarrow> u16 \<Rightarrow> u8 \<Rightarrow> i32 \<Rightarrow> 'w \<Rightarrow> (i32 \<times> 'w) option" where
  [code]: "prompt_loop sys col delta minimum b buttons consecutive cash w =
     (if buttons AND BA \<noteq> 0 then
        do { w1 \<leftarrow> printf sys (10 # ESC ''[?25h'' @ [0]) [] w; Some (cash, w1) }
      else
        do { (result, b1, w1) \<leftarrow> read_buttons sys b w;
             if result \<noteq> 0 then
               do { w2 \<leftarrow> printf sys (13 # butlast (lit ''Error reading from controller'') @ ESC ''[0'' @ 10 # ESC ''[?25h'' @ [0]) [] w1;
                    Some (INT32_MIN, w2) }
             else
               do { let now = pressed b1;
                    (cash1, cons1, w2) \<leftarrow>
                      (if now AND (BDU OR BDD) \<noteq> 0 then
                         do { c \<leftarrow> adjust now consecutive delta minimum cash;
                              w2 \<leftarrow> printf sys (ESC ''[%dG%d'' @ ESC ''[0K'' @ [0]) [Num col, Num c] w1;
                              Some (c, (consecutive + 1) AND 7, w2) }
                       else Some (cash, 0, w1));
                    (u, w3) \<leftarrow> usleep sys 2000 w2;
                    prompt_loop sys col delta minimum b1 now cons1 cash1 w3 } })"

definition wii_controller_prompt :: "'w os \<Rightarrow> buf \<Rightarrow> buf \<Rightarrow> i32 \<Rightarrow> i32 \<Rightarrow> i32 \<Rightarrow> 'w \<Rightarrow> (i32 \<times> 'w) option" where
  "wii_controller_prompt sys b0 msg starting_val delta minimum w =
     do { n \<leftarrow> strlen msg;
          w1 \<leftarrow> printf sys (ESC ''[?25l%s%d'' @ [0]) [Str msg, Num starting_val] w;
          prompt_loop sys (of_nat n + 1) delta minimum b0 0 0 starting_val w1 }"

definition bet_main :: "'w os \<Rightarrow> buf \<Rightarrow> buf \<Rightarrow> 'w \<Rightarrow> (i32 \<times> 'w) option" where
  "bet_main sys id0 b0 w =
     do { (result, w1) \<leftarrow> bet_init_controller sys id0 w;
          if sint result < 0 then do { w2 \<leftarrow> printf sys (line ''Error configuring controller: %d'') [Num result] w1; Some (- 1, w2) }
          else if result \<noteq> 0 then
            do { w2 \<leftarrow> printf sys (line ''A controller was connected, but not a classic controller, exiting.'') [] w1; Some (- 2, w2) }
          else
            do { w2 \<leftarrow> printf sys (line ''Press up or down to change the value or press A to confirm.'') [] w1;
                 (cash, w3) \<leftarrow> wii_controller_prompt sys b0 (lit ''Choose bet amount: $'') 10 10 0 w2;
                 w4 \<leftarrow> printf sys (line ''Player betted $%d'') [Num cash] w3;
                 Some (0, w4) } }"

section \<open>wii\_controller\<close>

text \<open>The order in which the buttons are tested, with what is printed for each.\<close>

definition button_texts :: "(u16 \<times> string) list" where
  "button_texts = [(BDR, ''> ''), (BDD, ''V ''), (BDL, ''< ''), (BDU, ''^ ''), (BA, ''A ''), (BB, ''B ''), (BX, ''X ''), (BY, ''Y ''),
     (BRT, ''RT ''), (BLT, ''LT ''), (BZR, ''ZL ''), (BZL, ''ZR ''), (BPL, ''+ ''), (BMI, ''- ''), (BHO, ''H '')]"

fun print_buttons :: "'w os \<Rightarrow> u16 \<Rightarrow> (u16 \<times> string) list \<Rightarrow> 'w \<Rightarrow> 'w option" where
  "print_buttons sys tmp [] w = Some w"
| "print_buttons sys tmp ((m, t) # ts) w =
     do { w1 \<leftarrow> (if tmp AND m \<noteq> 0 then printf sys (lit t) [] w else Some w); print_buttons sys tmp ts w1 }"

partial_function (option) button_loop :: "'w os \<Rightarrow> buf \<Rightarrow> u16 \<Rightarrow> 'w \<Rightarrow> (i32 \<times> 'w) option" where
  [code]: "button_loop sys b buttons w =
     (if buttons AND BHO \<noteq> 0 then Some (0, w)
      else
        do { (result, b1, w1) \<leftarrow> read_buttons sys b w;
             if result \<noteq> 0 then do { w2 \<leftarrow> printf sys (line ''Error reading from controller'') [] w1; Some (result, w2) }
             else
               do { let now = pressed b1;
                    let tmp = (now XOR buttons) AND now;
                    w2 \<leftarrow> (if tmp \<noteq> 0 then
                        do { w2 \<leftarrow> print_buttons sys tmp button_texts w1; printf sys [10, 0] [Num (ucast tmp)] w2 }
                      else Some w1);
                    (u, w3) \<leftarrow> usleep sys 2000 w2;
                    button_loop sys b1 now w3 } })"

definition wii_main :: "'w os \<Rightarrow> buf \<Rightarrow> buf \<Rightarrow> 'w \<Rightarrow> (i32 \<times> 'w) option" where
  "wii_main sys id0 b0 w =
     do { w0 \<leftarrow> printf sys (line ''Initializing Wii Extension Controller...'') [] w;
          (result, w1) \<leftarrow> wii_init_controller sys id0 w0;
          if sint result < 0 then do { w2 \<leftarrow> printf sys (line ''Error configuring controller: %d'') [Num result] w1; Some (- 1, w2) }
          else if result \<noteq> 0 then
            do { w2 \<leftarrow> printf sys (line ''A controller was connected, but not a classic controller, exiting.'') [] w1; Some (- 2, w2) }
          else
            do { w2 \<leftarrow> printf sys (line ''Reading buttons: printing when a new one is pressed.'') [] w1;
                 w3 \<leftarrow> printf sys (line ''Press home to exit'') [] w2;
                 button_loop sys b0 0 w3 } }"
section \<open>cat prints files\<close>

lemma kernel_write:
  assumes "length t < 4294967296"
  shows "kernel_os (Sys_write 1 t) w = Some ((of_nat (length t), []), w\<lparr>w_out := w_out w @ crlf t\<rparr>)"
proof -
  have f: "fold (\<lambda>c d. d @ [c]) xs d = d @ xs" for xs d :: buf by (induction xs arbitrary: d) auto
  have "serial_write_loop (\<lambda>c d. d @ [c]) t 0 (length t) (w_out w) = Some (w_out w @ crlf t)"
    using serial_write_loop_spec [of 0 "length t" t "\<lambda>c d. d @ [c]" "w_out w"] by (simp add: f)
  with assms show ?thesis by (simp add: write_fd_def console_write_def serial_write_def)
qed

text \<open>A descriptor of a regular file that is at position \<open>p\<close>.\<close>

definition file_fd :: "nat \<Rightarrow> i32 \<Rightarrow> nat \<Rightarrow> vfs \<Rightarrow> bool" where
  "file_fd f i p v \<longleftrightarrow> 0 < f \<and> f < 32 \<and> length (fd_table v) = 32 \<and>
     (\<exists>q. fd_table v ! f = \<lparr>fd_valid = 1, fd_inode = i, fd_file_ptr = q\<rparr> \<and> unat q = p)"

text \<open>Reading changes neither the disk nor which descriptors are in use.\<close>

definition same_files :: "vfs \<Rightarrow> vfs \<Rightarrow> bool" where
  "same_files v v' \<longleftrightarrow> disk v' = disk v \<and> root_dir v' = root_dir v \<and> map fd_valid (fd_table v') = map fd_valid (fd_table v)"

lemma same_files_trans: "same_files u v \<Longrightarrow> same_files v w \<Longrightarrow> same_files u w" and same_files_refl [simp]: "same_files v v"
  by (auto simp: same_files_def)

lemma read_fd_same_files: "read_fd fd b n v = Some (r, b', v') \<Longrightarrow> same_files v v'"
  by (auto simp: read_fd_def same_files_def option_bind_eq_Some arr_get_eq_Some map_update list_update_same_conv split: if_splits)

lemma kernel_read_file:
  assumes "file_at (disk (w_files w)) i contents" and "file_fd f i p (w_files w)" and "p \<le> length contents" and "unat n < 2147483648"
  defines "m \<equiv> min (unat n) (length contents - p)"
  shows "\<exists>v'. kernel_os (Sys_read (of_nat f) n) w = Some ((of_nat m, take m (drop p contents)), w\<lparr>w_files := v'\<rparr>) \<and>
    same_files (w_files w) v' \<and> file_fd f i (p + m) v'"
proof -
  obtain q where q: "fd_table (w_files w) ! f = \<lparr>fd_valid = 1, fd_inode = i, fd_file_ptr = q\<rparr>" "unat q = p"
    and f: "0 < f" "f < 32" "length (fd_table (w_files w)) = 32" using assms(2) by (auto simp: file_fd_def)
  have u: "unat (of_nat f :: u32) = f" using f(2) by simp
  then have nz: "(of_nat f :: u32) \<noteq> 0" using f(1) by auto
  have m: "m < 2147483648" "m \<le> unat n" "m \<le> length contents - p" using assms(4) by (auto simp: m_def)
  then have um: "unat (of_nat m :: u32) = m" "0 < sint (of_nat m :: i32) \<longleftrightarrow> 0 < m" using sint_small_nat [of m] by auto
  define B where "B = take (unat n) (drop p contents) @ drop (length contents - p) (replicate (unat n) (0 :: u8))"
  obtain v' r where v: "read_fd (of_nat f) (replicate (unat n) 0) n (w_files w) = Some (of_nat m, B, v')"
    "disk v' = disk (w_files w)" "length (fd_table v') = 32"
    "fd_table v' ! f = \<lparr>fd_valid = 1, fd_inode = i, fd_file_ptr = r\<rparr>" "unat r = min (p + unat n) (length contents)"
    using read_fd_file [OF assms(1), of "of_nat f" q n] q f u assms(3) unfolding B_def m_def by auto
  have "unat r = p + m" using v(5) assms(3) by (auto simp: m_def)
  then have "file_fd f i (p + m) v'" using f v(3,4) by (auto simp: file_fd_def)
  moreover have "take m B = take m (drop p contents)"
    by (cases "unat n \<le> length contents - p") (auto simp: B_def m_def min_def)
  ultimately show ?thesis using v(1) read_fd_same_files [OF v(1)] um nz f(2) u by (auto simp: Files.read_def MAX_FD_def)
qed

lemma cat_spec:
  assumes "file_at (disk (w_files w)) i contents" and "file_fd f i p (w_files w)" and "p \<le> length contents" and "length b = 128"
  shows "\<exists>v. cat kernel_os (of_nat f) 1 b w = Some (0, w\<lparr>w_files := v, w_out := w_out w @ crlf (drop p contents)\<rparr>) \<and>
    same_files (w_files w) v"
  using assms
proof (induction "length contents - p" arbitrary: w b p rule: less_induct)
  case less
  define m where "m = min 128 (length contents - p)"
  obtain v where v: "kernel_os (Sys_read (of_nat f) cat_BUF_SIZE) w = Some ((of_nat m, take m (drop p contents)), w\<lparr>w_files := v\<rparr>)"
    "same_files (w_files w) v" "file_fd f i (p + m) v"
    using kernel_read_file [OF less.prems(1,2,3), of cat_BUF_SIZE] by (auto simp: cat_BUF_SIZE_def m_def)
  have sm: "sint (of_nat m :: i32) = int m" "unat (of_nat m :: u32) = m" by (auto simp: m_def intro: sint_small_nat)
  have lm: "length (take m (drop p contents)) = m" "m \<le> 128" by (auto simp: m_def)
  show ?case
  proof (cases "m = 0")
    case True
    then have "drop p contents = []" using less.prems(3) by (auto simp: m_def min_def split: if_splits)
    with True v(1,2) sm show ?thesis
      by (subst cat.simps) (auto simp: syscall_into_def over_def intro: exI [of _ v])
  next
    case False
    let ?t = "take m (drop p contents)"
    define w2 where "w2 = w\<lparr>w_files := v, w_out := w_out w @ crlf ?t\<rparr>"
    have r: "syscall_into kernel_os (Sys_read (of_nat f) cat_BUF_SIZE) b w = Some (of_nat m, ?t @ drop m b, w\<lparr>w_files := v\<rparr>)"
      using v(1) lm less.prems(4) by (simp add: syscall_into_def over_def)
    have wr: "write_part kernel_os 1 (?t @ drop m b) (of_nat m) (w\<lparr>w_files := v\<rparr>) = Some (of_nat m, w2)"
      using kernel_write [of ?t "w\<lparr>w_files := v\<rparr>"] lm less.prems(4) sm(2) by (simp add: write_part_def syscall_def w2_def)
    have step: "cat kernel_os (of_nat f) 1 b w = cat kernel_os (of_nat f) 1 (?t @ drop m b) w2"
      using r wr sm(1) False by (subst cat.simps) simp
    have "length contents - (p + m) < length contents - p" "p + m \<le> length contents" using False less.prems(3) by (auto simp: m_def)
    moreover have "file_at (disk (w_files w2)) i contents" "file_fd f i (p + m) (w_files w2)" "length (?t @ drop m b) = 128"
      using less.prems(1,4) v(2,3) lm by (auto simp: w2_def same_files_def)
    ultimately obtain v2 where "cat kernel_os (of_nat f) 1 (?t @ drop m b) w2 =
        Some (0, w2\<lparr>w_files := v2, w_out := w_out w2 @ crlf (drop (p + m) contents)\<rparr>)" "same_files (w_files w2) v2"
      using less.hyps [of "p + m" w2 "?t @ drop m b"] by blast
    moreover have "crlf ?t @ crlf (drop (p + m) contents) = crlf (drop p contents)"
    proof -
      have a: "crlf (xs @ ys) = crlf xs @ crlf ys" for xs ys by (induction xs) auto
      show ?thesis unfolding a [symmetric] by (metis add.commute append_take_drop_id drop_drop)
    qed
    moreover have "same_files (w_files w) v2" using same_files_trans v(2) calculation(2) by (simp add: w2_def)
    ultimately show ?thesis unfolding step by (auto simp: w2_def)
  qed
qed
text \<open>A path that leads to a regular file with the given contents.\<close>

definition names_file :: "vfs \<Rightarrow> kernel \<Rightarrow> buf \<Rightarrow> buf \<Rightarrow> bool" where
  "names_file v k path contents \<longleftrightarrow> (\<exists>absolute cs d i. path = path_text absolute cs \<and> start_dir absolute v k = Some d \<and>
     path_leads (disk v) d cs i \<and> (\<forall>c\<in>set cs. component c) \<and> 0 \<le> sint i \<and> file_at (disk v) i contents)"

definition free_fds :: "vfs \<Rightarrow> nat set" where
  "free_fds v = {f. f < 32 \<and> fd_valid (fd_table v ! f) = 0}"

lemma path_text_ctext:
  assumes "\<forall>c\<in>set cs. component c"
  shows "ctext (path_text absolute cs) = Some (butlast (path_text absolute cs))"
    "butlast (path_text absolute cs) @ [0] = path_text absolute cs"
proof -
  have "0 \<notin> set (path_string cs)" using assms by (induction cs rule: path_string.induct) (auto simp: component_def)
  then have "0 \<notin> set (butlast (path_text absolute cs))" by (simp add: path_text_def butlast_append)
  moreover show p: "butlast (path_text absolute cs) @ [0] = path_text absolute cs" by (simp add: path_text_def butlast_append)
  ultimately show "ctext (path_text absolute cs) = Some (butlast (path_text absolute cs))"
    unfolding ctext_def using cstr_append_zero [of "butlast (path_text absolute cs)" "[]"] by (simp add: terminated_def path_text_def)
qed

lemma kernel_open:
  assumes "names_file (w_files w) (w_kernel w) path contents" and "length (fd_table (w_files w)) = 32" and "free_fds (w_files w) \<noteq> {}"
    and "fd_valid (fd_table (w_files w) ! 0) \<noteq> 0"
  shows "\<exists>f i v'. ctext path = Some (butlast path) \<and> kernel_os (Sys_open (butlast path)) w = Some ((of_nat f, []), w\<lparr>w_files := v'\<rparr>) \<and>
    file_at (disk v') i contents \<and> file_fd f i 0 v' \<and> disk v' = disk (w_files w) \<and> root_dir v' = root_dir (w_files w) \<and>
    free_fds v' = free_fds (w_files w) - {f} \<and> f \<in> free_fds (w_files w) \<and> fd_valid (fd_table v' ! 0) \<noteq> 0"
proof -
  let ?v = "w_files w"
  obtain absolute cs d i where n: "path = path_text absolute cs" "start_dir absolute ?v (w_kernel w) = Some d"
    "path_leads (disk ?v) d cs i" "\<forall>c\<in>set cs. component c" "0 \<le> sint i" "file_at (disk ?v) i contents"
    using assms(1) by (auto simp: names_file_def)
  obtain f where f: "f < 32" "fd_allocate i ?v = Some (of_nat f, ?v\<lparr>fd_table :=
      (fd_table ?v)[f := \<lparr>fd_valid = 1, fd_inode = i, fd_file_ptr = 0\<rparr>]\<rparr>)" "fd_valid (fd_table ?v ! f) = 0"
    using fd_allocate_free [OF assms(2), of i] assms(3) by (auto simp: free_fds_def)
  have f0: "0 < f" using f(3) assms(4) by (cases f) auto
  let ?v' = "?v\<lparr>fd_table := (fd_table ?v)[f := \<lparr>fd_valid = 1, fd_inode = i, fd_file_ptr = 0\<rparr>]\<rparr>"
  have "kernel_os (Sys_open (butlast path)) w = Some ((of_nat f, []), w\<lparr>w_files := ?v'\<rparr>)"
    using path_text_ctext(2) [OF n(4), of absolute] get_inode_leads [OF n(2,3,4)] n(5) f(2) by (simp add: n(1) open_file_def)
  moreover have "file_fd f i 0 ?v'" using f0 f(1) assms(2) by (simp add: file_fd_def)
  moreover have "free_fds ?v' = free_fds ?v - {f}" using assms(2) f(1) by (auto simp: free_fds_def nth_list_update split: if_splits)
  ultimately show ?thesis using n(1,6) path_text_ctext(1) [OF n(4), of absolute] f(1,3) f0 assms(2,4)
    by (intro exI [of _ f] exI [of _ i] exI [of _ ?v']) (auto simp: free_fds_def)
qed

lemma same_files_fds:
  assumes "same_files v v'" and "length (fd_table v) = 32"
  shows "free_fds v' = free_fds v" "length (fd_table v') = 32" "fd_valid (fd_table v' ! 0) = fd_valid (fd_table v ! 0)"
proof -
  show l: "length (fd_table v') = 32" using assms unfolding same_files_def by (metis length_map)
  have "fd_valid (fd_table v' ! f) = fd_valid (fd_table v ! f)" if "f < 32" for f
    using assms that l unfolding same_files_def by (metis nth_map)
  then show "free_fds v' = free_fds v" "fd_valid (fd_table v' ! 0) = fd_valid (fd_table v ! 0)" by (auto simp: free_fds_def)
qed
lemma names_file_cong:
  "disk v' = disk v \<Longrightarrow> root_dir v' = root_dir v \<Longrightarrow> names_file v' k = names_file v k"
  by (simp add: names_file_def start_dir_def fun_eq_iff)

lemma cat_files_spec:
  assumes "\<forall>(path, contents)\<in>set files. names_file (w_files w) (w_kernel w) path contents" and "length b = 128"
    and "length (fd_table (w_files w)) = 32" and "length files \<le> card (free_fds (w_files w))"
    and "fd_valid (fd_table (w_files w) ! 0) \<noteq> 0"
  shows "\<exists>v'. cat_files kernel_os b (map fst files) w = Some (0, w\<lparr>w_files := v', w_out := w_out w @ crlf (concat (map snd files))\<rparr>)"
  using assms
proof (induction files arbitrary: w)
  case Nil
  then show ?case by (auto intro: exI [of _ "w_files w"])
next
  case (Cons e files)
  obtain path contents where e: "e = (path, contents)" by (cases e)
  have fin: "finite (free_fds (w_files w))" by (simp add: free_fds_def)
  then have "free_fds (w_files w) \<noteq> {}" using Cons.prems(4) by auto
  moreover have "names_file (w_files w) (w_kernel w) path contents" using Cons.prems(1) e by simp
  ultimately obtain f i v1 where o1: "ctext path = Some (butlast path)"
    "kernel_os (Sys_open (butlast path)) w = Some ((of_nat f, []), w\<lparr>w_files := v1\<rparr>)"
    "file_at (disk v1) i contents" "file_fd f i 0 v1" "disk v1 = disk (w_files w)" "root_dir v1 = root_dir (w_files w)"
    "free_fds v1 = free_fds (w_files w) - {f}" "f \<in> free_fds (w_files w)" "fd_valid (fd_table v1 ! 0) \<noteq> 0"
    using kernel_open [of w path contents] Cons.prems(3,5) by blast
  have l1: "length (fd_table v1) = 32" "f < 32" using o1(4) by (simp_all add: file_fd_def)
  obtain v2 where c: "cat kernel_os (of_nat f) 1 b (w\<lparr>w_files := v1\<rparr>) =
      Some (0, w\<lparr>w_files := v2, w_out := w_out w @ crlf contents\<rparr>)" "same_files v1 v2"
    using cat_spec [of "w\<lparr>w_files := v1\<rparr>" i contents f 0 b] o1(3,4) Cons.prems(2) by auto
  note s2 = same_files_fds [OF c(2) l1(1)]
  let ?w2 = "w\<lparr>w_files := v2, w_out := w_out w @ crlf contents\<rparr>"
  have "length files \<le> card (free_fds v2)"
    using Cons.prems(4) o1(7,8) s2(1) fin by (simp add: card_Diff_singleton)
  moreover have "disk v2 = disk (w_files w)" "root_dir v2 = root_dir (w_files w)" using c(2) o1(5,6) by (auto simp: same_files_def)
  then have "\<forall>(path, contents)\<in>set files. names_file (w_files ?w2) (w_kernel ?w2) path contents"
    using Cons.prems(1) names_file_cong [of v2 "w_files w"] by auto
  ultimately obtain v3 where "cat_files kernel_os b (map fst files) ?w2 =
      Some (0, ?w2\<lparr>w_files := v3, w_out := w_out ?w2 @ crlf (concat (map snd files))\<rparr>)"
    using Cons.IH [of ?w2] Cons.prems(2) s2(2,3) o1(9) by auto
  moreover have "\<not> sint (of_nat f :: i32) < 0" using l1(2) sint_small_nat [of f] by auto
  moreover have "crlf (xs @ ys) = crlf xs @ crlf ys" for xs ys by (induction xs) auto
  moreover have "syscall kernel_os (Sys_open (butlast path)) w = Some (of_nat f, w\<lparr>w_files := v1\<rparr>)" unfolding syscall_def o1(2) by simp
  moreover have "syscall kernel_os (Sys_close fd) w' = Some (close fd, w')" for fd w' by (simp add: syscall_def)
  ultimately show ?case using o1(1) c(1) by (auto simp: e)
qed


section \<open>The amount of the bet\<close>

lemma signed_add_sint: "signed_add a b = Some c \<Longrightarrow> sint c = sint a + sint b"
  by (auto simp: signed_add_def sint_word_ariths signed_take_bit_int_eq_self_iff split: if_splits)

lemma signed_sub_sint: "signed_sub a b = Some c \<Longrightarrow> sint c = sint a - sint b"
  by (auto simp: signed_sub_def sint_word_ariths signed_take_bit_int_eq_self_iff split: if_splits)

definition amount_ok :: "i32 \<Rightarrow> i32 \<Rightarrow> i32 \<Rightarrow> i32 \<Rightarrow> bool" where
  "amount_ok delta minimum s c \<longleftrightarrow> sint minimum \<le> sint c \<and> sint delta dvd sint c - sint s"

lemma adjust_ok:
  assumes "adjust buttons n delta minimum cash = Some c" and "amount_ok delta minimum s cash" and "0 < sint delta"
  shows "amount_ok delta minimum s c"
proof -
  obtain c1 where c1: "(if n = 0 \<and> buttons AND BDD \<noteq> 0 then
        do { d \<leftarrow> signed_sub cash delta; Some (if sint d \<ge> sint minimum then d else cash) } else Some cash) = Some c1"
    "(if n = 0 \<and> buttons AND BDU \<noteq> 0 then signed_add c1 delta else Some c1) = Some c"
    using assms(1) by (auto simp: adjust_def option_bind_eq_Some)
  have "amount_ok delta minimum s c1"
  proof (cases "n = 0 \<and> buttons AND BDD \<noteq> 0")
    case True
    with c1(1) obtain d where d: "signed_sub cash delta = Some d" "c1 = (if sint d \<ge> sint minimum then d else cash)"
      by (auto simp: option_bind_eq_Some)
    have "sint d - sint s = sint cash - sint s - sint delta" using signed_sub_sint [OF d(1)] by simp
    moreover have "sint delta dvd sint cash - sint s - sint delta" using assms(2) dvd_diff [of "sint delta" "sint cash - sint s" "sint delta"]
      by (simp add: amount_ok_def)
    ultimately have "sint delta dvd sint d - sint s" by metis
    with d(2) assms(2) show ?thesis by (auto simp: amount_ok_def)
  qed (use c1(1) assms(2) in auto)
  then show ?thesis
  proof (cases "n = 0 \<and> buttons AND BDU \<noteq> 0")
    case True
    assume a: "amount_ok delta minimum s c1"
    have c: "sint c = sint c1 + sint delta" using c1(2) True signed_add_sint by auto
    then have "sint c - sint s = (sint c1 - sint s) + sint delta" by simp
    moreover have "sint delta dvd (sint c1 - sint s) + sint delta" using a by (intro dvd_add) (simp_all add: amount_ok_def)
    ultimately have "sint delta dvd sint c - sint s" by metis
    with a c assms(3) show ?thesis by (simp add: amount_ok_def)
  qed (use c1(2) in auto)
qed

lemma prompt_loop_ok:
  assumes "prompt_loop sys col delta minimum b buttons n cash w = Some y" and "amount_ok delta minimum s cash" and "0 < sint delta"
  shows "fst y = INT32_MIN \<or> amount_ok delta minimum s (fst y)"
  using assms
proof (induction rule: prompt_loop.raw_induct [rotated, consumes 1, case_names step])
  case (step loop sys col delta minimum b buttons n cash w y)
  show ?case
  proof (cases "buttons AND BA = 0")
    case True
    with step(2) obtain result b1 w1 where r: "read_buttons sys b w = Some (result, b1, w1)" by (auto simp: bind_eq_Some_conv)
    show ?thesis
    proof (cases "result = 0")
      case res: True
      with step(2) True r obtain c m w2 u w3 where l: "loop sys col delta minimum b1 (pressed b1) m c w3 = Some y"
        "c = cash \<or> adjust (pressed b1) n delta minimum cash = Some c"
        by (auto simp: bind_eq_Some_conv Let_def split: if_splits)
      have "amount_ok delta minimum s c" using l(2) adjust_ok step(3,4) by blast
      with step(1) [OF l(1) _ step(4)] show ?thesis by blast
    qed (use step(2) True r in \<open>auto simp: bind_eq_Some_conv\<close>)
  qed (use step(2,3) in \<open>auto simp: bind_eq_Some_conv\<close>)
qed

text \<open>
  C35: Whatever the controller reports, the amount that \<^verbatim>\<open>wii_controller_prompt\<close> returns is the error value, or it is
  at least the minimum and differs from the first value by a multiple of the step.
\<close>

theorem prompt_amount:
  assumes "wii_controller_prompt sys b0 msg starting_val delta minimum w = Some (r, w')" and "sint minimum \<le> sint starting_val"
    and "0 < sint delta"
  shows "r = INT32_MIN \<or> (sint minimum \<le> sint r \<and> sint delta dvd sint r - sint starting_val)"
proof -
  obtain n w1 where "prompt_loop sys (of_nat n + 1) delta minimum b0 0 0 starting_val w1 = Some (r, w')"
    using assms(1) by (auto simp: wii_controller_prompt_def bind_eq_Some_conv)
  moreover have "amount_ok delta minimum starting_val starting_val" using assms(2) by (simp add: amount_ok_def)
  ultimately show ?thesis using prompt_loop_ok [of sys _ delta minimum b0 0 0 starting_val w1 "(r, w')" starting_val] assms(3)
    by (simp add: amount_ok_def)
qed
text \<open>A controller that gives a list of reports: up, and then A.\<close>

fun demo_pad :: "buf list os" where
  "demo_pad (Sys_i2c_read a n) w = (case w of [] \<Rightarrow> Some ((- 5, []), []) | r # rs \<Rightarrow> Some ((6, r), rs))"
| "demo_pad _ w = Some ((0, []), w)"

lemma demo_pad_calls:
  "usleep demo_pad n w = Some (0, w)" "syscall demo_pad (Sys_write fd t) w = Some (0, w)"
  "read_buttons demo_pad [a, b, c, d, e, f] ([a', b', c', d', e', f'] # w) = Some (0, [a', b', c', d', e', f'], w)"
  by (simp_all add: usleep_def syscall_def read_buttons_def i2c_get_regs_def syscall_into_def over_def)

lemma demo_pad_output:
  "printf demo_pad (ESC ''[?25l%s%d'' @ [0]) [Str (lit ''Bet''), Num 10] w = Some w"
  "printf demo_pad (ESC ''[%dG%d'' @ ESC ''[0K'' @ [0]) [Num c, Num d] w = Some w"
  "printf demo_pad (10 # ESC ''[?25h'' @ [0]) [] w = Some w"
proof -
  let ?p = "[Lit 27, Lit 91, Lit 63, Lit 50, Lit 53, Lit 108, Strg, Dec []]"
  show "printf demo_pad (ESC ''[?25l%s%d'' @ [0]) [Str (lit ''Bet''), Num 10] w = Some w"
    using printf_renders [of ?p "[Str (lit ''Bet''), Num 10]" "[27, 91, 63, 50, 53, 108, 66, 101, 116] @ dec_text [] 10" demo_pad w]
      dec_text_length [of "[]" 10]
    by (simp add: ESC_def lit_def demo_pad_calls pad_width_def terminated_def)
  let ?q = "[Lit 27, Lit 91, Dec [], Lit 71, Dec [], Lit 27, Lit 91, Lit 48, Lit 75]"
  show "printf demo_pad (ESC ''[%dG%d'' @ ESC ''[0K'' @ [0]) [Num c, Num d] w = Some w"
    using printf_renders [of ?q "[Num c, Num d]" "[27, 91] @ dec_text [] c @ 71 # dec_text [] d @ [27, 91, 48, 75]" demo_pad w]
      dec_text_length [of "[]" c] dec_text_length [of "[]" d]
    by (simp add: ESC_def lit_def demo_pad_calls pad_width_def)
  show "printf demo_pad (10 # ESC ''[?25h'' @ [0]) [] w = Some w"
    using printf_plain [of "[10, 27, 91, 63, 50, 53, 104]" demo_pad w] by (simp add: ESC_def lit_def plain_def demo_pad_calls)
qed

theorem prompt_amount_witness:
  "wii_controller_prompt demo_pad (replicate 6 0) (lit ''Bet'') 10 10 0 [[0, 0, 0, 0, 255, 254], [0, 0, 0, 0, 255, 239]] = Some (20, []) \<and>
   (20 = INT32_MIN \<or> sint (0 :: i32) \<le> sint (20 :: i32) \<and> sint (10 :: i32) dvd sint (20 :: i32) - sint (10 :: i32))"
proof -
  have p: "pressed [0, 0, 0, 0, 255, 254] = 1" "pressed [0, 0, 0, 0, 255, 239] = 16" by (simp_all add: pressed_def)
  have b: "(replicate 6 0 :: buf) = [0, 0, 0, 0, 0, 0]" by (simp add: eval_nat_numeral)
  have a: "adjust 1 0 10 0 10 = Some 20" by (simp add: adjust_def BDD_def BDU_def signed_add_def)
  have "prompt_loop demo_pad c 10 0 bs 16 n 20 [] = Some (20, [])" for c bs n
    by (subst prompt_loop.simps) (simp add: demo_pad_output BA_def)
  then have "prompt_loop demo_pad c 10 0 [0, 0, 0, 0, 255, 254] 1 1 20 [[0, 0, 0, 0, 255, 239]] = Some (20, [])" for c
    by (subst prompt_loop.simps) (simp add: demo_pad_calls demo_pad_output p BA_def BDU_def BDD_def Let_def)
  then have "prompt_loop demo_pad c 10 0 [0, 0, 0, 0, 0, 0] 0 0 10 [[0, 0, 0, 0, 255, 254], [0, 0, 0, 0, 255, 239]] = Some (20, [])" for c
    by (subst prompt_loop.simps) (simp add: demo_pad_calls demo_pad_output p a BA_def BDU_def BDD_def Let_def)
  moreover have "strlen (lit ''Bet'') = Some 3" by (simp add: strlen_cstr lit_def terminated_def)
  ultimately have r: "wii_controller_prompt demo_pad (replicate 6 0) (lit ''Bet'') 10 10 0
      [[0, 0, 0, 0, 255, 254], [0, 0, 0, 0, 255, 239]] = Some (20, [])"
    by (simp add: wii_controller_prompt_def demo_pad_output b)
  with prompt_amount [OF r] show ?thesis by simp
qed


end
