(* ===== verification/Shell.thy ===== *)
theory Shell
  imports Programs
begin

text \<open>
  The shell, \<^verbatim>\<open>userspace/shell.c\<close>: editing the input line, the built-in commands, splitting a line into arguments and
  running programs. The line stays in one buffer of 256 bytes, whose bytes behind the terminator are those of earlier
  lines. Messages that are only printed when a debugging flag is set are left out.
\<close>

section \<open>Splitting a line\<close>

definition MAX_ARGUMENTS :: nat where "MAX_ARGUMENTS = 16"

function word_end :: "buf \<Rightarrow> nat \<Rightarrow> nat option" where
  "word_end s ptr = do { c \<leftarrow> arr_get s ptr; if c \<noteq> 32 \<and> c \<noteq> 0 then word_end s (ptr + 1) else Some ptr }"
  by pat_completeness auto
termination
  by (relation "measure (\<lambda>(s, ptr). length s - ptr)") (auto simp: arr_get_eq_Some)

declare word_end.simps [simp del]

text \<open>An argument is the index of its first character in the line, or nothing for \<^verbatim>\<open>NULL\<close>.\<close>

type_synonym arg_table = "nat option list"

function create_argv_from :: "buf \<Rightarrow> nat \<Rightarrow> nat \<Rightarrow> arg_table \<Rightarrow> (nat \<times> bool \<times> buf \<times> arg_table) option" where
  "create_argv_from s ptr cnt arguments =
     do { a1 \<leftarrow> arr_set arguments cnt (Some ptr);
          c \<leftarrow> arr_get s ptr;
          if c = 38 then Some (cnt, True, s, a1[cnt := None])
          else
            do { p \<leftarrow> word_end s ptr;
                 e \<leftarrow> arr_get s p;
                 if e = 0 then do { a2 \<leftarrow> arr_set a1 (cnt + 1) None; Some (cnt + 1, False, s, a2) }
                 else create_argv_from (s[p := 0]) (p + 1) (cnt + 1) a1 } }"
  by pat_completeness auto
termination
  by (relation "measure (\<lambda>(s, ptr, cnt, a). length a - cnt)") (auto simp: arr_set_def split: if_splits)

declare create_argv_from.simps [simp del]

definition create_argv :: "buf \<Rightarrow> arg_table \<Rightarrow> (nat \<times> bool \<times> buf \<times> arg_table) option" where
  "create_argv s arguments = create_argv_from s 0 0 arguments"

definition is_relative :: "buf \<Rightarrow> nat option" where
  "is_relative s = do { n \<leftarrow> strlen s; Some (length (filter ((=) 47) (take n s))) }"

text \<open>The strings that the table passes to \<^verbatim>\<open>execve\<close>, up to the first \<^verbatim>\<open>NULL\<close>.\<close>

fun argv_strings :: "buf \<Rightarrow> arg_table \<Rightarrow> buf list option" where
  "argv_strings s [] = None"
| "argv_strings s (None # as) = Some []"
| "argv_strings s (Some p # as) = do { t \<leftarrow> ctext (drop p s); ts \<leftarrow> argv_strings s as; Some (t # ts) }"

section \<open>Commands\<close>

record 'w shell =
  world :: 'w
  rng :: rng
  arguments :: arg_table

definition out :: "'w os \<Rightarrow> buf \<Rightarrow> parg list \<Rightarrow> 'w shell \<Rightarrow> 'w shell option" where
  "out sys fmt args st = do { w \<leftarrow> printf sys fmt args (world st); Some (st\<lparr>world := w\<rparr>) }"

definition ask :: "'w os \<Rightarrow> call \<Rightarrow> 'w shell \<Rightarrow> (i32 \<times> 'w shell) option" where
  "ask sys c st = do { (r, w) \<leftarrow> syscall sys c (world st); Some (r, st\<lparr>world := w\<rparr>) }"

definition VERSION :: buf where "VERSION = lit ''13.1''"

definition TAB :: string where "TAB = [CHR 0x09]"

definition help_lines :: "string list" where
  "help_lines = [''blink on/off'' @ TAB @ ''- turns on/off heartbeat LED'', ''cd'' @ TAB @ TAB @ ''- change directory'',
     ''cls'' @ TAB @ TAB @ ''- clears the screen'', ''color X'' @ TAB @ ''- set text to color #X'',
     ''echo X'' @ TAB @ ''- prints string X'', ''font X'' @ TAB @ ''- sets the font to font #X'',
     ''getpid'' @ TAB @ ''- print current process ID'', ''gradient'' @ TAB @ ''- make background look cool'',
     ''help'' @ TAB @ TAB @ ''- prints this help message'', ''random'' @ TAB @ ''- print random number'',
     ''reset'' @ TAB @ TAB @ ''- reset the machine'', ''sleep'' @ TAB @ ''X'' @ TAB @ ''- sleep for X seconds'',
     ''temp'' @ TAB @ TAB @ ''- print the temperature'', ''uptime'' @ TAB @ ''- print seconds since boot'',
     ''ver'' @ TAB @ TAB @ ''- print version'']"

fun print_lines :: "'w os \<Rightarrow> string list \<Rightarrow> 'w shell \<Rightarrow> 'w shell option" where
  "print_lines sys [] st = Some st"
| "print_lines sys (l # ls) st = do { st1 \<leftarrow> out sys (9 # line l) [] st; print_lines sys ls st1 }"

definition print_help :: "'w os \<Rightarrow> 'w shell \<Rightarrow> (i32 \<times> 'w shell) option" where
  "print_help sys st =
     do { st1 \<leftarrow> out sys (butlast (lit ''VMWos Shell Version %s'') @ [10, 10, 0]) [Str VERSION] st;
          st2 \<leftarrow> print_lines sys help_lines st1;
          st3 \<leftarrow> out sys [10, 0] [] st2;
          Some (0, st3) }"

definition starts :: "buf \<Rightarrow> string \<Rightarrow> bool option" where
  "starts s p = do { r \<leftarrow> vlibc_strncmp s (lit p) (length p); Some (r = 0) }"

definition cmd_echo :: "'w os \<Rightarrow> buf \<Rightarrow> 'w shell \<Rightarrow> 'w shell option" where
  "cmd_echo sys s st = do { c \<leftarrow> arr_get s 4; if c \<noteq> 0 then out sys (line ''%s'') [Str (drop 5 s)] st else Some st }"

definition cmd_cd :: "'w os \<Rightarrow> buf \<Rightarrow> 'w shell \<Rightarrow> (i32 \<times> 'w shell) option" where
  "cmd_cd sys s st =
     do { n \<leftarrow> strlen s;
          path \<leftarrow> (if n > 3 then ctext (drop 3 s) else ctext (lit ''/home''));
          (result, st1) \<leftarrow> ask sys (Sys_chdir path) st;
          if sint result < 0 then
            do { t \<leftarrow> strerror result; st2 \<leftarrow> out sys (line ''Error changing directory %s'') [Str t] st1; Some (result, st2) }
          else Some (result, st1) }"

text \<open>\<open>tms0\<close> and \<open>ts0\<close> are the local variables of the branch.\<close>

definition cmd_uptime :: "'w os \<Rightarrow> buf \<Rightarrow> buf \<Rightarrow> 'w shell \<Rightarrow> 'w shell option" where
  "cmd_uptime sys tms0 ts0 st =
     do { (r, b, w1) \<leftarrow> syscall_into sys Sys_times tms0 (world st);
          (now, w2) \<leftarrow> libc_time sys w1;
          t1 \<leftarrow> time_pretty now ts0;
          st1 \<leftarrow> out sys (line ''Time since boot: %s'') [Str t1] (st\<lparr>world := w2\<rparr>);
          t2 \<leftarrow> time_pretty (word_of_int (sint (word_field b 0) sdiv 64)) t1;
          out sys (line ''Time running: %s'') [Str t2] st1 }"

definition cmd_sleep :: "'w os \<Rightarrow> buf \<Rightarrow> 'w shell \<Rightarrow> 'w shell option" where
  "cmd_sleep sys s st =
     do { seconds \<leftarrow> atoi (drop 6 s);
          st1 \<leftarrow> out sys (line ''Sleeping for %ds...'') [Num seconds] st;
          (r, w) \<leftarrow> sleep sys seconds (world st1);
          Some (st1\<lparr>world := w\<rparr>) }"

definition cmd_temp :: "'w os \<Rightarrow> 'w shell \<Rightarrow> 'w shell option" where
  "cmd_temp sys st =
     do { (temperature, st1) \<leftarrow> ask sys Sys_get_temp st;
          out sys (line ''Current temperature %dC, %dF'') [Num (temperature div 1000), Num (temperature * 9 div 5000 + 32)] st1 }"

definition cmd_random :: "'w os \<Rightarrow> 'w shell \<Rightarrow> 'w shell option" where
  "cmd_random sys st = (let (r, g) = rand (rng st) in out sys (line ''%d'') [Num (ucast r)] (st\<lparr>rng := g\<rparr>))"

definition NOT_FOUND :: string where
  "NOT_FOUND = ''Commmand not found: '' @ [CHR 0x22] @ ''%s'' @ [CHR 0x22] @ ''!''"

text \<open>
  Running a program. After \<^verbatim>\<open>vfork\<close> the child goes on with \<^verbatim>\<open>execve\<close> and, should that return, with the rest of the
  shell; \<open>tmp0\<close>, \<open>st0\<close> and \<open>status0\<close> are the local variables.
\<close>

definition run_program :: "'w os \<Rightarrow> buf \<Rightarrow> buf \<Rightarrow> buf \<Rightarrow> buf \<Rightarrow> 'w shell \<Rightarrow> (buf \<times> 'w shell) option" where
  "run_program sys tmp0 stat0 status0 s st =
     do { (cnt, background, s1, args) \<leftarrow> create_argv s (arguments st);
          let st1 = st\<lparr>arguments := args\<rparr>;
          rel \<leftarrow> is_relative s1;
          (n, tmp) \<leftarrow> vlibc_sprintf tmp0 (lit (if rel \<noteq> 0 then ''%s'' else ''/bin/%s'')) [Str s1];
          path \<leftarrow> ctext tmp;
          (r, b, w1) \<leftarrow> syscall_into sys (Sys_stat path) stat0 (world st1);
          let st2 = st1\<lparr>world := w1\<rparr>;
          if sint r < 0 then
            do { st3 \<leftarrow> out sys (10 # line NOT_FOUND) [Str tmp] st2; Some (s1, st3) }
          else
            do { (pid, st3) \<leftarrow> ask sys Sys_vfork st2;
                 if pid = 0 then
                   do { argv \<leftarrow> argv_strings s1 args;
                        (e, st4) \<leftarrow> ask sys (Sys_execve path argv) st3;
                        Some (s1, st4) }
                 else if background then Some (s1, st3)
                 else
                   do { st4 \<leftarrow> out sys (line ''Waiting for %d to finish'') [Num pid] st3;
                        (q, status, w5) \<leftarrow> syscall_into sys (Sys_waitpid pid 0) status0 (world st4);
                        st6 \<leftarrow> out sys (line ''Child exited with %d'') [Num (word_field status 0)] (st4\<lparr>world := w5\<rparr>);
                        Some (s1, st6) } } }"

text \<open>The uninitialised local variables of \<^verbatim>\<open>parse_input\<close>.\<close>

record shell_locals =
  temp_string :: buf
  stat_buf :: buf
  status_buf :: buf
  tms_buf :: buf
  timestring :: buf

definition done_ok :: "buf \<Rightarrow> 'w shell option \<Rightarrow> (i32 \<times> buf \<times> 'w shell) option" where
  "done_ok s r = map_option (\<lambda>st. (0, s, st)) r"

text \<open>The commands, in the order in which \<^verbatim>\<open>parse_input\<close> tests for them.\<close>

datatype command = Echo | Cls | Cd | Font | Gradient | Getpid | Exit_shell | Blink | Help | Color | Ver | Uptime | Reset | Sleep
  | Temp | Random | Empty | Program

definition command_table :: "(string \<times> command) list" where
  "command_table = [(''echo'', Echo), (''cls'', Cls), (''cd'', Cd), (''font '', Font), (''gradient'', Gradient), (''getpid'', Getpid),
     (''exit'', Exit_shell), (''blink '', Blink), (''help'', Help), (''color '', Color), (''ver'', Ver), (''uptime'', Uptime),
     (''reset'', Reset), (''sleep'', Sleep), (''temp'', Temp), (''random'', Random)]"

fun find_command :: "buf \<Rightarrow> (string \<times> command) list \<Rightarrow> command option" where
  "find_command s [] = do { n \<leftarrow> strlen s; Some (if n = 0 then Empty else Program) }"
| "find_command s ((p, c) # cs) = do { b \<leftarrow> starts s p; if b then Some c else find_command s cs }"

definition parse_input :: "'w os \<Rightarrow> shell_locals \<Rightarrow> buf \<Rightarrow> 'w shell \<Rightarrow> (i32 \<times> buf \<times> 'w shell) option" where
  "parse_input sys L s st =
     do { c \<leftarrow> find_command s command_table;
          case c of
            Echo \<Rightarrow> done_ok s (cmd_echo sys s st)
          | Cls \<Rightarrow> done_ok s (out sys (10 # 13 # ESC ''[2J'' @ ESC ''[H'' @ [0]) [] st)
          | Cd \<Rightarrow> do { (r, st1) \<leftarrow> cmd_cd sys s st; Some (r, s, st1) }
          | Font \<Rightarrow> do { ch \<leftarrow> arr_get s 5; (r, st1) \<leftarrow> ask sys (Sys_setfont (ucast ch)) st; Some (0, s, st1) }
          | Gradient \<Rightarrow> do { (r, st1) \<leftarrow> ask sys Sys_gradient st; Some (0, s, st1) }
          | Getpid \<Rightarrow> do { (pid, st1) \<leftarrow> ask sys Sys_getpid st; done_ok s (out sys (line ''Current pid: %d'') [Num pid] st1) }
          | Exit_shell \<Rightarrow> Some (1, s, st)
          | Blink \<Rightarrow> do { ch \<leftarrow> arr_get s 6; (r, st1) \<leftarrow> ask sys (Sys_blink (ucast ch)) st; Some (0, s, st1) }
          | Help \<Rightarrow> do { (r, st1) \<leftarrow> print_help sys st; Some (r, s, st1) }
          | Color \<Rightarrow> do { ch \<leftarrow> arr_get s 6; done_ok s (out sys (line ''%c[3%cm'') [Num 27, Num (ucast ch)] st) }
          | Ver \<Rightarrow> done_ok s (out sys (line ''VMWos Shell version %s'') [Str VERSION] st)
          | Uptime \<Rightarrow> done_ok s (cmd_uptime sys (tms_buf L) (timestring L) st)
          | Reset \<Rightarrow> do { st1 \<leftarrow> out sys (line ''Resetting...'') [] st; (r, w) \<leftarrow> reboot sys (world st1); Some (0, s, st1\<lparr>world := w\<rparr>) }
          | Sleep \<Rightarrow> done_ok s (cmd_sleep sys s st)
          | Temp \<Rightarrow> done_ok s (cmd_temp sys st)
          | Random \<Rightarrow> done_ok s (cmd_random sys st)
          | Empty \<Rightarrow> Some (0, s, st)
          | Program \<Rightarrow> do { (s1, st1) \<leftarrow> run_program sys (temp_string L) (stat_buf L) (status_buf L) s st; Some (0, s1, st1) } }"

section \<open>The main loop\<close>

text \<open>Reading one line and executing it; the result says whether the shell ends.\<close>

partial_function (option) read_line :: "'w os \<Rightarrow> shell_locals \<Rightarrow> buf \<Rightarrow> nat \<Rightarrow> 'w shell \<Rightarrow> (bool \<times> buf \<times> 'w shell) option" where
  [code]: "read_line sys L s input_pointer st =
     do { (ch, w) \<leftarrow> getchar sys (world st);
          let st1 = st\<lparr>world := w\<rparr>;
          if ch = 10 \<or> ch = 13 then
            do { st2 \<leftarrow> out sys [10, 0] [] st1;
                 s1 \<leftarrow> arr_set s input_pointer 0;
                 (result, s2, st3) \<leftarrow> parse_input sys L s1 st2;
                 Some (result = 1, s2, st3) }
          else if ch = 4 then Some (True, s, st1)
          else if ch = 127 \<or> ch = 8 then
            (if input_pointer > 0 then
               do { st2 \<leftarrow> out sys [8, 32, 8, 0] [] st1; read_line sys L s (input_pointer - 1) st2 }
             else read_line sys L s input_pointer st1)
          else
            do { s1 \<leftarrow> arr_set s input_pointer (ucast ch);
                 (r, w2) \<leftarrow> putchar sys ch w;
                 read_line sys L s1 (input_pointer + 1) (st1\<lparr>world := w2\<rparr>) } }"

partial_function (option) shell_loop :: "'w os \<Rightarrow> shell_locals \<Rightarrow> buf \<Rightarrow> buf \<Rightarrow> 'w shell \<Rightarrow> 'w shell option" where
  [code]: "shell_loop sys L s status st =
     do { st1 \<leftarrow> out sys (lit ''] '') [] st;
          (finished, s1, st2) \<leftarrow> read_line sys L s 0 st1;
          (result, status1, w3) \<leftarrow> syscall_into sys (Sys_waitpid (- 1) WNOHANG) status (world st2);
          st4 \<leftarrow> (if sint result > 0 then out sys (line ''Child %d exited with %d'') [Num result, Num (word_field status1 0)] (st2\<lparr>world := w3\<rparr>)
            else Some (st2\<lparr>world := w3\<rparr>));
          if finished then Some st4 else shell_loop sys L s1 status1 st4 }"

definition shell_main :: "'w os \<Rightarrow> shell_locals \<Rightarrow> buf \<Rightarrow> buf \<Rightarrow> termios \<Rightarrow> 'w shell \<Rightarrow> (i32 \<times> 'w shell) option" where
  "shell_main sys L input_string status0 oldt0 st =
     do { (r, oldt, w1) \<leftarrow> tcgetattr sys 0 oldt0 (world st);
          let newt = cfmakeraw oldt;
          (r2, w2) \<leftarrow> tcsetattr sys 0 0 newt w1;
          st3 \<leftarrow> shell_loop sys L input_string status0 (st\<lparr>world := w2\<rparr>);
          (r4, w4) \<leftarrow> tcsetattr sys 0 0 oldt (world st3);
          Some (0, st3\<lparr>world := w4\<rparr>) }"

section \<open>Words\<close>

text \<open>A line is a list of words with a blank between two of them; a word may be empty.\<close>

definition word_ok :: "buf \<Rightarrow> bool" where
  "word_ok w \<longleftrightarrow> 0 \<notin> set w \<and> 32 \<notin> set w"

definition ampersand :: "buf \<Rightarrow> bool" where
  "ampersand w \<longleftrightarrow> w \<noteq> [] \<and> hd w = 38"

fun join :: "buf list \<Rightarrow> buf" where
  "join [] = []"
| "join [w] = w"
| "join (w # ws) = w @ 32 # join ws"

definition split_text :: "buf list \<Rightarrow> buf" where
  "split_text ws = concat (map (\<lambda>w. w @ [0]) ws)"

fun word_starts :: "nat \<Rightarrow> buf list \<Rightarrow> nat list" where
  "word_starts n [] = []"
| "word_starts n (w # ws) = n # word_starts (n + length w + 1) ws"

lemma join_Cons: "ws \<noteq> [] \<Longrightarrow> join (w # ws) = w @ 32 # join ws"
  by (cases ws) auto

lemma word_starts_length [simp]: "length (word_starts n ws) = length ws"
  by (induction ws arbitrary: n) auto

lemma word_end_spec:
  "drop ptr s = w @ e # r \<Longrightarrow> word_ok w \<Longrightarrow> e = 0 \<or> e = 32 \<Longrightarrow> word_end s ptr = Some (ptr + length w)"
proof (induction w arbitrary: ptr)
  case Nil
  then have "arr_get s ptr = Some e" by (metis append_Nil arr_get_eq_Some drop_eq_Nil leI list.distinct(1) nth_via_drop)
  with Nil.prems(3) show ?case by (subst word_end.simps) auto
next
  case (Cons x w)
  have g: "arr_get s ptr = Some x"
    using Cons.prems(1) by (metis append_Cons arr_get_eq_Some drop_eq_Nil leI list.distinct(1) nth_via_drop)
  have d: "drop (ptr + 1) s = w @ e # r"
    using Cons.prems(1) by (metis Suc_eq_plus1 append_Cons drop_Suc list.sel(3) tl_drop)
  have "word_end s (ptr + 1) = Some (ptr + 1 + length w)" using Cons.IH [OF d] Cons.prems(2,3) by (simp add: word_ok_def)
  with g Cons.prems(2) show ?case by (subst word_end.simps) (auto simp: word_ok_def)
qed

text \<open>One round of the loop: a word that another one follows.\<close>

lemma create_argv_round:
  assumes "word_ok w" and "\<not> ampersand w" and "n < length args"
  shows "create_argv_from (pre @ w @ 32 # t) (length pre) n args =
    create_argv_from ((pre @ w @ [0]) @ t) (length (pre @ w @ [0])) (n + 1) (args[n := Some (length pre)])"
proof -
  let ?s = "pre @ w @ 32 # t"
  have e: "word_end ?s (length pre) = Some (length pre + length w)" using word_end_spec [of "length pre" ?s w 32 t] assms(1) by simp
  have c: "arr_get ?s (length pre) = Some (hd (w @ [32]))" by (cases w) (simp_all add: arr_get_def nth_append)
  have g: "arr_get ?s (length pre + length w) = Some 32" by (simp add: arr_get_def nth_append)
  have u: "?s[length pre + length w := 0] = (pre @ w @ [0]) @ t" by (simp add: list_update_append)
  have "hd (w @ [32]) \<noteq> 38" using assms(2) by (cases w) (auto simp: ampersand_def)
  with c e g u assms(3) show ?thesis by (subst create_argv_from.simps) (simp add: arr_set_def)
qed

lemma create_argv_words:
  assumes "\<forall>w\<in>set us. word_ok w \<and> \<not> ampersand w" and "n + length us \<le> length args" and "vs \<noteq> []"
  shows "create_argv_from (pre @ join (us @ vs) @ t) (length pre) n args =
    create_argv_from (pre @ split_text us @ join vs @ t) (length pre + length (split_text us)) (n + length us)
      (take n args @ map Some (word_starts (length pre) us) @ drop (n + length us) args)"
  using assms(1,2)
proof (induction us arbitrary: pre n args)
  case (Cons w us)
  let ?a = "args[n := Some (length pre)]"
  have n: "n < length args" "n + 1 + length us \<le> length ?a" using Cons.prems(2) by auto
  have "create_argv_from (pre @ join ((w # us) @ vs) @ t) (length pre) n args =
      create_argv_from ((pre @ w @ [0]) @ join (us @ vs) @ t) (length (pre @ w @ [0])) (n + 1) ?a"
    using create_argv_round [of w n args pre "join (us @ vs) @ t"] Cons.prems(1) n(1) assms(3) by (simp add: join_Cons)
  also have "\<dots> = create_argv_from ((pre @ w @ [0]) @ split_text us @ join vs @ t) (length (pre @ w @ [0]) + length (split_text us))
      (n + 1 + length us) (take (n + 1) ?a @ map Some (word_starts (length (pre @ w @ [0])) us) @ drop (n + 1 + length us) ?a)"
    using Cons.prems(1) n(2) by (intro Cons.IH) auto
  also have "take (n + 1) ?a = take n args @ [Some (length pre)]" using n(1) by (simp add: take_Suc_conv_app_nth)
  finally show ?case by (simp add: split_text_def ac_simps)
qed (simp add: split_text_def)
lemma create_argv_last:
  assumes "word_ok w" and "\<not> ampersand w" and "n < length args"
  shows "create_argv_from (pre @ w @ 0 # t) (length pre) n args =
    (if n + 1 < length args then Some (n + 1, False, pre @ w @ 0 # t, args[n := Some (length pre), n + 1 := None]) else None)"
proof -
  let ?s = "pre @ w @ 0 # t"
  have e: "word_end ?s (length pre) = Some (length pre + length w)" using word_end_spec [of "length pre" ?s w 0 t] assms(1) by simp
  have c: "arr_get ?s (length pre) = Some (hd (w @ [0]))" by (cases w) (simp_all add: arr_get_def nth_append)
  have g: "arr_get ?s (length pre + length w) = Some 0" by (simp add: arr_get_def nth_append)
  have "hd (w @ [0]) \<noteq> 38" using assms(2) by (cases w) (auto simp: ampersand_def)
  with c e g assms(3) show ?thesis by (subst create_argv_from.simps) (simp add: arr_set_def)
qed

lemma create_argv_amp:
  assumes "ampersand v" and "n < length args"
  shows "create_argv_from (pre @ v @ t) (length pre) n args = Some (n, True, pre @ v @ t, args[n := None])"
proof -
  have "arr_get (pre @ v @ t) (length pre) = Some 38" using assms(1) by (cases v) (simp_all add: ampersand_def arr_get_def nth_append)
  with assms(2) show ?thesis by (subst create_argv_from.simps) (simp add: arr_set_def)
qed

lemma create_argv_full: "length args \<le> n \<Longrightarrow> create_argv_from s p n args = None"
  by (subst create_argv_from.simps) (simp add: arr_set_def)

lemma arg_slot:
  assumes "length A = n" and "length args = 16" and "n < 16"
  shows "(A @ drop n args)[n := x] = A @ x # drop (n + 1) args"
  using assms by (simp add: list_update_append Cons_nth_drop_Suc [symmetric])

text \<open>The table and the line that \<^verbatim>\<open>create_argv\<close> leaves for the words \<open>us\<close>.\<close>

lemma create_argv_too_many:
  assumes "\<forall>w\<in>set ws. word_ok w \<and> \<not> ampersand w" and "16 \<le> length ws" and "vs \<noteq> []" and "length args = 16"
  shows "create_argv (join (ws @ vs) @ t) args = None"
proof -
  have ne: "drop 16 ws @ vs \<noteq> []" using assms(3) by simp
  have "\<forall>w\<in>set (take 16 ws). word_ok w \<and> \<not> ampersand w" using assms(1) by (meson in_set_takeD)
  from create_argv_words [OF this _ ne, of 0 args "[]" t] assms(2,4) show ?thesis
    unfolding create_argv_def by (simp add: create_argv_full flip: append_assoc)
qed

lemma create_argv_foreground:
  assumes "\<forall>w\<in>set ws. word_ok w \<and> \<not> ampersand w" and "ws \<noteq> []" and "length args = 16"
  shows "create_argv (join ws @ 0 # r) args =
    (if length ws < 16 then Some (length ws, False, split_text ws @ r, map Some (word_starts 0 ws) @ None # drop (length ws + 1) args)
     else None)"
proof -
  obtain us w where ws: "ws = us @ [w]" using assms(2) by (metis append_butlast_last_id)
  show ?thesis
  proof (cases "length us < 16")
    case True
    let ?A = "map Some (word_starts 0 us)"
    have "create_argv (join ws @ 0 # r) args =
        create_argv_from (split_text us @ w @ 0 # r) (length (split_text us)) (length us) (?A @ drop (length us) args)"
      using create_argv_words [of us 0 args "[w]" "[]" "0 # r"] assms True by (simp add: create_argv_def ws)
    also have "\<dots> = (if length us + 1 < 16 then Some (length us + 1, False, split_text us @ w @ 0 # r,
        (?A @ drop (length us) args)[length us := Some (length (split_text us)), length us + 1 := None]) else None)"
      using create_argv_last [of w "length us" "?A @ drop (length us) args" "split_text us" r] assms(1,3) ws True by simp
    also have "(?A @ drop (length us) args)[length us := Some (length (split_text us))] =
        (?A @ [Some (length (split_text us))]) @ drop (length us + 1) args"
      using arg_slot [of ?A "length us" args "Some (length (split_text us))"] assms(3) True by simp
    finally have r: "create_argv (join ws @ 0 # r) args = (if length us + 1 < 16 then Some (length us + 1, False, split_text us @ w @ 0 # r,
        ((?A @ [Some (length (split_text us))]) @ drop (length us + 1) args)[length us + 1 := None]) else None)" .
    have st: "word_starts k (us @ [w]) = word_starts k us @ [k + length (split_text us)]" for k us
      by (induction us arbitrary: k) (simp_all add: split_text_def)
    show ?thesis
    proof (cases "length us + 1 < 16")
      case True
      have "((?A @ [Some (length (split_text us))]) @ drop (length us + 1) args)[length us + 1 := None] =
          (?A @ [Some (length (split_text us))]) @ None # drop (length us + 1 + 1) args"
        using arg_slot [of "?A @ [Some (length (split_text us))]" "length us + 1" args None] assms(3) True by simp
      with True r st show ?thesis by (simp add: ws split_text_def)
    qed (use r ws in simp)
  next
    case False
    then show ?thesis using create_argv_too_many [of us "[w]" args "0 # r"] assms ws by simp
  qed
qed

lemma create_argv_background:
  assumes "\<forall>w\<in>set us. word_ok w \<and> \<not> ampersand w" and "ampersand v" and "length args = 16"
  shows "create_argv (join (us @ v # vs) @ t) args =
    (if length us < 16 then Some (length us, True, split_text us @ join (v # vs) @ t,
       map Some (word_starts 0 us) @ None # drop (length us + 1) args) else None)"
proof (cases "length us < 16")
  case True
  let ?A = "map Some (word_starts 0 us)"
  obtain x where x: "join (v # vs) = v @ x" by (cases vs) auto
  have "create_argv (join (us @ v # vs) @ t) args =
      create_argv_from (split_text us @ v @ x @ t) (length (split_text us)) (length us) (?A @ drop (length us) args)"
    using create_argv_words [of us 0 args "v # vs" "[]" t] assms True x by (simp add: create_argv_def)
  also have "\<dots> = Some (length us, True, split_text us @ v @ x @ t, ?A @ None # drop (length us + 1) args)"
    using create_argv_amp [OF assms(2), of "length us" "?A @ drop (length us) args" "split_text us" "x @ t"]
      arg_slot [of ?A "length us" args None] assms(3) True by simp
  finally show ?thesis using True x by simp
next
  case False
  then show ?thesis using create_argv_too_many [OF assms(1) _ _ assms(3), of "v # vs" t] by simp
qed

lemma argv_strings_words:
  "\<forall>w\<in>set us. word_ok w \<Longrightarrow> argv_strings (pre @ split_text us @ r) (map Some (word_starts (length pre) us) @ None # x) = Some us"
proof (induction us arbitrary: pre)
  case (Cons w us)
  have "argv_strings ((pre @ w @ [0]) @ split_text us @ r) (map Some (word_starts (length (pre @ w @ [0])) us) @ None # x) = Some us"
    using Cons.IH [of "pre @ w @ [0]"] Cons.prems by simp
  moreover have "ctext (w @ 0 # y) = Some w" for y
    using Cons.prems cstr_append_zero [of w y] by (simp add: ctext_def word_ok_def terminated_def)
  ultimately show ?case by (simp add: split_text_def)
qed simp
section \<open>Finding the command\<close>

definition text_of :: "string \<Rightarrow> buf" where
  "text_of p = butlast (lit p)"

lemma strncmp_prefix:
  "vlibc_strncmp_from s (t @ [0]) i (length t) = Some r \<Longrightarrow> i \<le> length t \<Longrightarrow> i \<le> length s \<Longrightarrow>
   r = 0 \<longleftrightarrow> take (length t - i) (drop i s) = drop i t"
proof (induction "length t - i" arbitrary: i)
  case 0
  then show ?case by (subst (asm) vlibc_strncmp_from.simps) simp
next
  case (Suc n)
  have i: "i < length t" using Suc.hyps(2) by simp
  from Suc.prems(1) i obtain a where a: "arr_get s i = Some a"
    by (subst (asm) vlibc_strncmp_from.simps) (auto simp: bind_eq_Some_conv)
  have ls: "i < length s" "s ! i = a" using a by (simp_all add: arr_get_eq_Some)
  have b: "arr_get (t @ [0]) i = Some (t ! i)" using i by (simp add: arr_get_def nth_append)
  have d: "take (length t - i) (drop i s) = a # take (length t - Suc i) (drop (Suc i) s)" "drop i t = t ! i # drop (Suc i) t"
    using ls i by (simp_all add: Cons_nth_drop_Suc [symmetric] take_Cons' Suc_diff_le)
  show ?case
  proof (cases "a = t ! i")
    case True
    then have "vlibc_strncmp_from s (t @ [0]) (Suc i) (length t) = Some r"
      using Suc.prems(1) i a b by (subst (asm) vlibc_strncmp_from.simps) simp
    with Suc.hyps(1) [of "Suc i"] Suc.hyps(2) i ls True d show ?thesis by simp
  next
    case False
    then have "uint a - uint (t ! i) \<noteq> 0" by (simp add: word_uint_eq_iff)
    then have "r \<noteq> 0" using Suc.prems(1) i a b by (subst (asm) vlibc_strncmp_from.simps) (simp add: Let_def)
    with False d show ?thesis by simp
  qed
qed

lemma strncmp_defined:
  assumes "terminated s" and "0 \<notin> set t" and "i \<le> length t" and "i \<le> length (cstr s)" and "take i s = take i t"
  shows "\<exists>r. vlibc_strncmp_from s (t @ [0]) i (length t) = Some r"
  using assms(3-5)
proof (induction "length t - i" arbitrary: i)
  case 0
  then show ?case by (subst vlibc_strncmp_from.simps) simp
next
  case (Suc n)
  have i: "i < length t" using Suc.hyps(2) by simp
  have ls: "i < length s" using Suc.prems(2) assms(1) by (simp add: terminated_iff_cstr_short)
  have a: "arr_get s i = Some (s ! i)" "arr_get (t @ [0]) i = Some (t ! i)" using i ls by (simp_all add: arr_get_def nth_append)
  show ?case
  proof (cases "s ! i = t ! i")
    case True
    then have "s ! i \<noteq> 0" using assms(2) i by (metis nth_mem)
    then have "i < length (cstr s)" using Suc.prems(2) cstr_nth_zero [OF assms(1)] by (cases "i = length (cstr s)") auto
    moreover have "take (Suc i) s = take (Suc i) t" using True Suc.prems(3) i ls by (simp add: take_Suc_conv_app_nth)
    ultimately have "\<exists>r. vlibc_strncmp_from s (t @ [0]) (Suc i) (length t) = Some r" using Suc.hyps i by auto
    with True a i show ?thesis by (subst vlibc_strncmp_from.simps) simp
  next
    case False
    then have "uint (s ! i) - uint (t ! i) \<noteq> 0" by (simp add: word_uint_eq_iff)
    with a i show ?thesis by (subst vlibc_strncmp_from.simps) (simp add: Let_def)
  qed
qed

lemma starts_spec:
  assumes "terminated s" and "0 \<notin> set (text_of p)"
  shows "starts s p = Some (take (length p) (cstr s) = text_of p)"
proof -
  have l: "lit p = text_of p @ [0]" "length (text_of p) = length p" by (simp_all add: text_of_def lit_def)
  obtain r where r: "vlibc_strncmp_from s (text_of p @ [0]) 0 (length (text_of p)) = Some r"
    using strncmp_defined [OF assms, of 0] by auto
  have "take (length p) s = text_of p \<longleftrightarrow> take (length p) (cstr s) = text_of p"
  proof
    assume t: "take (length p) s = text_of p"
    have "length p \<le> length (cstr s)"
    proof (rule ccontr)
      assume "\<not> length p \<le> length (cstr s)"
      then have "s ! length (cstr s) \<in> set (take (length p) s)"
        using assms(1) by (auto simp: in_set_conv_nth terminated_iff_cstr_short intro!: exI [of _ "length (cstr s)"])
      then show False using cstr_nth_zero [OF assms(1)] assms(2) t by simp
    qed
    then show "take (length p) (cstr s) = text_of p" using t
      by (metis cstr_def takeWhile_eq_take take_take min.absorb1)
  next
    assume t: "take (length p) (cstr s) = text_of p"
    then have "length p \<le> length (cstr s)" using l(2) by (metis length_take min.absorb_iff2)
    then show "take (length p) s = text_of p" using t by (metis cstr_def takeWhile_eq_take take_take min.absorb1)
  qed
  with strncmp_prefix [OF r] r l show ?thesis by (simp add: starts_def vlibc_strncmp_def)
qed

lemma find_program:
  assumes "terminated s" and "cstr s \<noteq> []" and "\<forall>(p, c)\<in>set tab. 0 \<notin> set (text_of p) \<and> take (length p) (cstr s) \<noteq> text_of p"
  shows "find_command s tab = Some Program"
  using assms(3) by (induction tab) (auto simp: strlen_cstr starts_spec assms(1,2))
section \<open>Running a program\<close>

text \<open>
  A terminal with the keys that are still to be typed, and the calls that the shell made so far except those that
  read a key. \<open>ans\<close> gives the answers to the calls; it may depend on all calls before.
\<close>

type_synonym terminal = "u8 list \<times> call list"

fun terminal_os :: "(call list \<Rightarrow> call \<Rightarrow> answer) \<Rightarrow> terminal os" where
  "terminal_os ans (Sys_read fd n) (keys, tr) = (case keys of [] \<Rightarrow> None | k # ks \<Rightarrow> Some ((1, [k]), (ks, tr)))"
| "terminal_os ans c (keys, tr) = Some (ans tr c, (keys, tr @ [c]))"

lemma terminal_calls:
  "syscall (terminal_os ans) (Sys_write fd t) (keys, tr) = Some (fst (ans tr (Sys_write fd t)), (keys, tr @ [Sys_write fd t]))"
  "syscall (terminal_os ans) Sys_vfork (keys, tr) = Some (fst (ans tr Sys_vfork), (keys, tr @ [Sys_vfork]))"
  "syscall (terminal_os ans) (Sys_execve path argv) (keys, tr) =
     Some (fst (ans tr (Sys_execve path argv)), (keys, tr @ [Sys_execve path argv]))"
  "length (snd (ans tr (Sys_stat path))) \<le> length b \<Longrightarrow> syscall_into (terminal_os ans) (Sys_stat path) b (keys, tr) =
     Some (fst (ans tr (Sys_stat path)), snd (ans tr (Sys_stat path)) @ drop (length (snd (ans tr (Sys_stat path)))) b,
       (keys, tr @ [Sys_stat path]))"
  "length (snd (ans tr (Sys_waitpid pid opts))) \<le> length b \<Longrightarrow> syscall_into (terminal_os ans) (Sys_waitpid pid opts) b (keys, tr) =
     Some (fst (ans tr (Sys_waitpid pid opts)), snd (ans tr (Sys_waitpid pid opts)) @ drop (length (snd (ans tr (Sys_waitpid pid opts)))) b,
       (keys, tr @ [Sys_waitpid pid opts]))"
  by (auto simp: syscall_def syscall_into_def over_def split: prod.splits)

text \<open>The calls for a command with the given path and arguments.\<close>

definition waiting_text :: "i32 \<Rightarrow> buf" where
  "waiting_text pid = text_of ''Waiting for '' @ dec_text [] pid @ text_of '' to finish'' @ [10]"

definition exited_text :: "u32 \<Rightarrow> buf" where
  "exited_text status = text_of ''Child exited with '' @ dec_text [] status @ [10]"

definition not_found_text :: "buf \<Rightarrow> buf" where
  "not_found_text path = 10 # text_of ''Commmand not found: '' @ 34 # path @ [34, 33, 10]"

definition command_calls :: "(call list \<Rightarrow> call \<Rightarrow> answer) \<Rightarrow> buf \<Rightarrow> call list \<Rightarrow> buf \<Rightarrow> buf list \<Rightarrow> bool \<Rightarrow> call list" where
  "command_calls ans status0 tr path argv background =
     (let tr1 = tr @ [Sys_stat path]; pid = fst (ans tr1 Sys_vfork); tr2 = tr1 @ [Sys_vfork] in
      if sint (fst (ans tr (Sys_stat path))) < 0 then tr1 @ [Sys_write 1 (not_found_text path)]
      else if pid = 0 then tr2 @ [Sys_execve path argv]
      else if background then tr2
      else
        (let tr3 = tr2 @ [Sys_write 1 (waiting_text pid)]; status = snd (ans tr3 (Sys_waitpid pid 0)) in
         tr3 @ [Sys_waitpid pid 0, Sys_write 1 (exited_text (word_field (status @ drop (length status) status0) 0))]))"

text \<open>The path of a command: as it is when it contains a slash, otherwise in \<^verbatim>\<open>/bin\<close>.\<close>

definition command_path :: "buf \<Rightarrow> buf" where
  "command_path w = (if 47 \<in> set w then w else text_of ''/bin/'' @ w)"

lemma is_relative_spec: "terminated s \<Longrightarrow> is_relative s = Some (length (filter ((=) 47) (cstr s)))"
proof -
  assume "terminated s"
  moreover have "take (length (cstr s)) s = cstr s" unfolding cstr_def by (metis takeWhile_eq_take)
  ultimately show ?thesis by (simp add: is_relative_def strlen_cstr)
qed

lemma sprintf_path:
  assumes "terminated s" and "length (cstr s) \<le> 200" and "length tmp = 256"
  shows "\<exists>n b. vlibc_sprintf tmp (lit (if filter ((=) 47) (cstr s) \<noteq> [] then ''%s'' else ''/bin/%s'')) [Str s] = Some (n, b) \<and>
    ctext b = Some (command_path (cstr s)) \<and> terminated b \<and> cstr b = command_path (cstr s)"
proof -
  let ?rel = "47 \<in> set (cstr s)"
  let ?ps = "if ?rel then [Strg] else [Lit 47, Lit 98, Lit 105, Lit 110, Lit 47, Strg]"
  let ?t = "command_path (cstr s)"
  have rel: "filter ((=) 47) (cstr s) \<noteq> [] \<longleftrightarrow> ?rel" by (auto simp: filter_empty_conv)
  have ok: "list_all piece_ok ?ps" "render ?ps [Str s] = Some ?t" using assms(1) by (simp_all add: command_path_def text_of_def lit_def)
  have f: "concat (map piece_format ?ps) @ [0] = lit (if ?rel then ''%s'' else ''/bin/%s'')" by (simp add: lit_def)
  have l: "length ?t \<le> 205" using assms(2) by (simp add: command_path_def text_of_def lit_def)
  have "vlibc_vsprintf tmp (lit (if ?rel then ''%s'' else ''/bin/%s'')) [Str s] = Some (stored tmp 0 ?t, length ?t)"
    using vsprintf_loop_renders [OF ok, of 0 tmp "[]"] l assms(3) f by (simp add: vlibc_vsprintf_def)
  moreover have "(stored tmp 0 ?t)[length ?t := 0] = ?t @ 0 # drop (Suc (length ?t)) tmp"
    using l assms(3) by (simp add: stored_def list_update_append Cons_nth_drop_Suc [symmetric])
  moreover have "0 \<notin> set ?t" using zero_notin_cstr [of s] by (simp add: command_path_def text_of_def lit_def)
  ultimately show ?thesis unfolding rel using l assms(3) cstr_append_zero [of ?t]
    by (simp add: vlibc_sprintf_def stored_def ctext_def terminated_def)
qed
lemma render_text: "render (map Lit t @ ps) args = map_option ((@) t) (render ps args)"
  by (induction t) (auto simp: option.map_comp comp_def option.map_ident)

lemma format_text: "concat (map piece_format (map Lit t)) = t"
  by (induction t) auto

lemma out_renders:
  assumes "list_all piece_ok ps" and "render ps args = Some t" and "length t < 255" and "fmt = concat (map piece_format ps) @ [0]"
    and "world st = (keys, tr)"
  shows "out (terminal_os ans) fmt args st = Some (st\<lparr>world := (keys, tr @ [Sys_write 1 t])\<rparr>)"
  using printf_renders [OF assms(1-3), of "terminal_os ans" "(keys, tr)"] assms(4,5) by (simp add: out_def terminal_calls)

lemma texts_plain:
  "list_all piece_ok (map Lit (text_of ''Waiting for ''))" "list_all piece_ok (map Lit (text_of '' to finish'' @ [10]))"
  "list_all piece_ok (map Lit (text_of ''Child exited with ''))" "list_all piece_ok (map Lit (10 # text_of ''Commmand not found: '' @ [34]))"
  by (simp_all add: text_of_def lit_def)

lemma dec_text_short: "length (dec_text [] x) \<le> 11"
  using dec_text_length [of "[]" x] by (simp add: pad_width_def)

lemma shell_messages:
  assumes "world st = (keys, tr)"
  shows "out (terminal_os ans) (line ''Waiting for %d to finish'') [Num pid] st = Some (st\<lparr>world := (keys, tr @ [Sys_write 1 (waiting_text pid)])\<rparr>)"
    and "out (terminal_os ans) (line ''Child exited with %d'') [Num n] st = Some (st\<lparr>world := (keys, tr @ [Sys_write 1 (exited_text n)])\<rparr>)"
    and "terminated p \<Longrightarrow> length (cstr p) \<le> 205 \<Longrightarrow>
      out (terminal_os ans) (10 # line NOT_FOUND) [Str p] st =
        Some (st\<lparr>world := (keys, tr @ [Sys_write 1 (not_found_text (cstr p))])\<rparr>)"
proof -
  show "out (terminal_os ans) (line ''Waiting for %d to finish'') [Num pid] st = Some (st\<lparr>world := (keys, tr @ [Sys_write 1 (waiting_text pid)])\<rparr>)"
  proof (rule out_renders [where ps = "map Lit (text_of ''Waiting for '') @ [Dec []] @ map Lit (text_of '' to finish'' @ [10])", OF _ _ _ _ assms])
    show "length (waiting_text pid) < 255" using dec_text_short [of pid] by (simp add: waiting_text_def text_of_def lit_def)
  qed (simp_all add: render_text waiting_text_def line_def text_of_def lit_def)
  show "out (terminal_os ans) (line ''Child exited with %d'') [Num n] st = Some (st\<lparr>world := (keys, tr @ [Sys_write 1 (exited_text n)])\<rparr>)"
  proof (rule out_renders [where ps = "map Lit (text_of ''Child exited with '') @ [Dec [], Lit 10]", OF _ _ _ _ assms])
    show "length (exited_text n) < 255" using dec_text_short [of n] by (simp add: exited_text_def text_of_def lit_def)
  qed (simp_all add: render_text exited_text_def line_def text_of_def lit_def)
  assume p: "terminated p" "length (cstr p) \<le> 205"
  show "out (terminal_os ans) (10 # line NOT_FOUND) [Str p] st =
      Some (st\<lparr>world := (keys, tr @ [Sys_write 1 (not_found_text (cstr p))])\<rparr>)"
  proof (rule out_renders [where ps = "map Lit (10 # text_of ''Commmand not found: '' @ [34]) @ [Strg, Lit 34, Lit 33, Lit 10]", OF _ _ _ _ assms])
    show "length (not_found_text (cstr p)) < 255" using p(2) by (simp add: not_found_text_def text_of_def lit_def)
  qed (use p(1) in \<open>simp_all add: render_text not_found_text_def line_def text_of_def lit_def NOT_FOUND_def\<close>)
qed

text \<open>What the kernel stores fits the structures of the shell.\<close>

definition answers_fit :: "(call list \<Rightarrow> call \<Rightarrow> answer) \<Rightarrow> shell_locals \<Rightarrow> bool" where
  "answers_fit ans L \<longleftrightarrow> length (temp_string L) = 256 \<and>
     (\<forall>tr p. length (snd (ans tr (Sys_stat p))) \<le> length (stat_buf L)) \<and>
     (\<forall>tr p n. length (snd (ans tr (Sys_waitpid p n))) \<le> length (status_buf L))"

lemma run_program_spec:
  assumes "answers_fit ans L" and "world st = (keys, tr)" and "create_argv s (arguments st) = Some (n, background, s1, args)"
    and "terminated s1" and "length (cstr s1) \<le> 200" and "argv_strings s1 args = Some argv"
  shows "run_program (terminal_os ans) (temp_string L) (stat_buf L) (status_buf L) s st = Some (s1,
    st\<lparr>arguments := args, world := (keys, command_calls ans (status_buf L) tr (command_path (cstr s1)) argv background)\<rparr>)"
proof -
  let ?p = "command_path (cstr s1)"
  note fit = assms(1) [unfolded answers_fit_def]
  obtain m b where b: "vlibc_sprintf (temp_string L) (lit (if filter ((=) 47) (cstr s1) \<noteq> [] then ''%s'' else ''/bin/%s'')) [Str s1] = Some (m, b)"
    "ctext b = Some ?p" "terminated b" "cstr b = ?p" using sprintf_path [OF assms(4,5)] fit by blast
  have l: "length ?p \<le> 205" using assms(5) by (simp add: command_path_def text_of_def lit_def)
  note sm = shell_messages(1,2) shell_messages(3) [OF _ b(3)]
  show ?thesis
    unfolding run_program_def assms(3) using is_relative_spec [OF assms(4)] b fit assms(2,6) l
    by (simp add: terminal_calls ask_def sm command_calls_def Let_def)
qed
section \<open>Commands that are not built in\<close>

definition not_builtin :: "buf \<Rightarrow> bool" where
  "not_builtin t \<longleftrightarrow> t \<noteq> [] \<and> (\<forall>(p, c)\<in>set command_table. take (length p) t \<noteq> text_of p)"

lemma command_table_texts: "\<forall>(p, c)\<in>set command_table. 0 \<notin> set (text_of p)"
  by (simp add: command_table_def text_of_def lit_def)

lemma parse_program:
  assumes "terminated s" and "not_builtin (cstr s)"
    and "run_program sys (temp_string L) (stat_buf L) (status_buf L) s st = Some (s1, st1)"
  shows "parse_input sys L s st = Some (0, s1, st1)"
proof -
  have "find_command s command_table = Some Program"
    using assms(1,2) command_table_texts by (intro find_program) (auto simp: not_builtin_def)
  with assms(3) show ?thesis by (simp add: parse_input_def)
qed

text \<open>A command line: a program and its arguments, in the foreground, or in the background with an ampersand.\<close>

datatype command_line = Foreground "buf list" | Background "buf list" buf

fun line_text :: "command_line \<Rightarrow> buf" where
  "line_text (Foreground ws) = join ws"
| "line_text (Background ws x) = join (ws @ [38 # x])"

fun line_args :: "command_line \<Rightarrow> buf list" where
  "line_args (Foreground ws) = ws"
| "line_args (Background ws x) = ws"

fun in_background :: "command_line \<Rightarrow> bool" where
  "in_background (Foreground ws) = False"
| "in_background (Background ws x) = True"

definition line_ok :: "command_line \<Rightarrow> bool" where
  "line_ok c \<longleftrightarrow> line_args c \<noteq> [] \<and> length (line_args c) < 16 \<and> length (hd (line_args c)) \<le> 200 \<and>
     (\<forall>w\<in>set (line_args c). word_ok w \<and> \<not> ampersand w) \<and> not_builtin (line_text c) \<and> 0 \<notin> set (line_text c)"

lemma create_argv_line:
  assumes "line_ok c" and "length args = 16"
  shows "\<exists>r' x. create_argv (line_text c @ 0 # r) args =
    Some (length (line_args c), in_background c, split_text (line_args c) @ r', map Some (word_starts 0 (line_args c)) @ None # x)"
  using create_argv_foreground [of "line_args c" args r] create_argv_background [of "line_args c" _ args "[]" "0 # r"] assms
  by (cases c) (auto simp: line_ok_def ampersand_def)

lemma parse_command_line:
  assumes "answers_fit ans L" and "world st = (keys, tr)" and "length (arguments st) = 16" and "line_ok c"
  shows "\<exists>s1 args. parse_input (terminal_os ans) L (line_text c @ 0 # r) st = Some (0, s1, st\<lparr>arguments := args,
    world := (keys, command_calls ans (status_buf L) tr (command_path (hd (line_args c))) (line_args c) (in_background c))\<rparr>)"
proof -
  let ?s = "line_text c @ 0 # r"
  have ok: "line_args c \<noteq> []" "length (hd (line_args c)) \<le> 200" "\<forall>w\<in>set (line_args c). word_ok w" "not_builtin (line_text c)"
    "0 \<notin> set (line_text c)" using assms(4) by (auto simp: line_ok_def)
  obtain r' x where a: "create_argv ?s (arguments st) = Some (length (line_args c), in_background c,
      split_text (line_args c) @ r', map Some (word_starts 0 (line_args c)) @ None # x)"
    using create_argv_line [OF assms(4,3)] by blast
  let ?s1 = "split_text (line_args c) @ r'"
  obtain w ws where w: "line_args c = w # ws" using ok(1) by (cases "line_args c") auto
  have s1: "terminated ?s1" "cstr ?s1 = w"
    using ok(3) cstr_append_zero [of w] by (simp_all add: w split_text_def word_ok_def terminated_def)
  have "argv_strings ?s1 (map Some (word_starts 0 (line_args c)) @ None # x) = Some (line_args c)"
    using argv_strings_words [OF ok(3), of "[]" r' x] by simp
  from run_program_spec [OF assms(1,2) a s1(1) _ this] ok(2) s1(2) w
  have "run_program (terminal_os ans) (temp_string L) (stat_buf L) (status_buf L) ?s st = Some (?s1,
      st\<lparr>arguments := map Some (word_starts 0 (line_args c)) @ None # x,
        world := (keys, command_calls ans (status_buf L) tr (command_path w) (line_args c) (in_background c))\<rparr>)" by simp
  moreover have "terminated ?s" "cstr ?s = line_text c" using ok(5) cstr_append_zero [of "line_text c"] by (simp_all add: terminated_def)
  ultimately show ?thesis using parse_program [of ?s "terminal_os ans" L st] ok(4) w by auto
qed
section \<open>Editing the line\<close>

definition is_rubout :: "u8 \<Rightarrow> bool" where
  "is_rubout k \<longleftrightarrow> k = 127 \<or> k = 8"

definition is_text_key :: "u8 \<Rightarrow> bool" where
  "is_text_key k \<longleftrightarrow> k \<noteq> 10 \<and> k \<noteq> 13 \<and> k \<noteq> 4"

text \<open>The text after some keys, what is echoed for them, and that the text never outgrows the buffer.\<close>

fun edited :: "buf \<Rightarrow> u8 list \<Rightarrow> buf" where
  "edited t [] = t"
| "edited t (k # ks) = (if is_rubout k then edited (butlast t) ks else edited (t @ [k]) ks)"

fun echoed :: "buf \<Rightarrow> u8 list \<Rightarrow> buf list" where
  "echoed t [] = [[10]]"
| "echoed t (k # ks) =
     (if is_rubout k then (if t = [] then echoed t ks else [8, 32, 8] # echoed (butlast t) ks) else [k] # echoed (t @ [k]) ks)"

fun line_fits :: "buf \<Rightarrow> u8 list \<Rightarrow> bool" where
  "line_fits t [] \<longleftrightarrow> length t < 256"
| "line_fits t (k # ks) \<longleftrightarrow> (if is_rubout k then line_fits (butlast t) ks else length t < 256 \<and> line_fits (t @ [k]) ks)"

lemma terminal_getchar:
  "getchar (terminal_os ans) (k # keys, tr) = Some (ucast k, (keys, tr))"
  by (simp add: getchar_def syscall_into_def over_def)

lemma terminal_putchar:
  "putchar (terminal_os ans) (ucast (k :: u8)) (keys, tr) = Some (fst (ans tr (Sys_write 1 [k])), (keys, tr @ [Sys_write 1 [k]]))"
  by (simp add: putchar_def terminal_calls ucast_u8_u32)

lemma key_inj: "(ucast (k :: u8) :: i32) = ucast (l :: u8) \<longleftrightarrow> k = l"
  by (metis ucast_u8_u32)

lemma key_word: "(ucast (k :: u8) :: i32) = 10 \<longleftrightarrow> k = 10" "(ucast (k :: u8) :: i32) = 13 \<longleftrightarrow> k = 13"
  "(ucast (k :: u8) :: i32) = 4 \<longleftrightarrow> k = 4" "(ucast (k :: u8) :: i32) = 127 \<longleftrightarrow> k = 127" "(ucast (k :: u8) :: i32) = 8 \<longleftrightarrow> k = 8"
  using key_inj [of k 10] key_inj [of k 13] key_inj [of k 4] key_inj [of k 127] key_inj [of k 8] by simp_all

lemma terminal_out:
  assumes "list_all plain t" and "length t < 255" and "world st = (keys, tr)"
  shows "out (terminal_os ans) (t @ [0]) [] st = Some (st\<lparr>world := (keys, tr @ [Sys_write 1 t])\<rparr>)"
  using printf_plain [OF assms(1,2), of "terminal_os ans" "(keys, tr)"] assms(3) by (simp add: out_def terminal_calls)

fun line_result :: "i32 \<times> buf \<times> 'w shell \<Rightarrow> bool \<times> buf \<times> 'w shell" where
  "line_result (result, s, st) = (result = 1, s, st)"

lemma line_result_bind: "do { (result, s2, st3) \<leftarrow> p; Some (result = 1, s2, st3) } = map_option line_result p"
  by (cases p) auto

lemma read_line_edits:
  assumes "list_all is_text_key ks" and "take (length t) s = t" and "length s = 256" and "world st = (ks @ 13 # keys, tr)" and "length t \<le> 256"
  shows "if line_fits t ks then
      \<exists>r. length (edited t ks @ 0 # r) = 256 \<and> read_line (terminal_os ans) L s (length t) st =
        map_option line_result (parse_input (terminal_os ans) L (edited t ks @ 0 # r)
          (st\<lparr>world := (keys, tr @ map (Sys_write 1) (echoed t ks))\<rparr>))
    else read_line (terminal_os ans) L s (length t) st = None"
  using assms
proof (induction ks arbitrary: t s st tr)
  case Nil
  have g: "getchar (terminal_os ans) (world st) = Some (13, (keys, tr))" using terminal_getchar [of ans 13 keys tr] Nil.prems(4) by simp
  have o: "out (terminal_os ans) [10, 0] [] (st\<lparr>world := (keys, tr)\<rparr>) = Some (st\<lparr>world := (keys, tr @ [Sys_write 1 [10]])\<rparr>)"
    using terminal_out [of "[10]" "st\<lparr>world := (keys, tr)\<rparr>" keys tr ans] by (simp add: plain_def)
  show ?case
  proof (cases "length t < 256")
    case True
    then have "s[length t := 0] = t @ 0 # drop (Suc (length t)) s"
      using Nil.prems(2,3) by (metis upd_conv_take_nth_drop)
    moreover have "length (t @ 0 # drop (Suc (length t)) s) = 256" using True Nil.prems(3) by simp
    ultimately show ?thesis using True g o Nil.prems(3)
      by (subst read_line.simps) (auto simp: Let_def arr_set_def line_result_bind intro!: exI [of _ "drop (Suc (length t)) s"])
  next
    case False
    with g o Nil.prems(3) show ?thesis by (subst read_line.simps) (simp add: Let_def arr_set_def)
  qed
next
  case (Cons k ks)
  have g: "getchar (terminal_os ans) (world st) = Some (ucast k, (ks @ 13 # keys, tr))" using terminal_getchar Cons.prems(4) by simp
  have k: "k \<noteq> 10" "k \<noteq> 13" "k \<noteq> 4" "list_all is_text_key ks" using Cons.prems(1) by (auto simp: is_text_key_def [of k])
  show ?case
  proof (cases "is_rubout k")
    case rub: True
    show ?thesis
    proof (cases "t = []")
      case True
      have "read_line (terminal_os ans) L s (length t) st = read_line (terminal_os ans) L s (length t) (st\<lparr>world := (ks @ 13 # keys, tr)\<rparr>)"
        using True rub g k by (subst read_line.simps) (auto simp: key_word is_rubout_def Let_def)
      with Cons.IH [of "[]" s "st\<lparr>world := (ks @ 13 # keys, tr)\<rparr>" tr] Cons.prems k rub True show ?thesis by (simp split: if_splits)
    next
      case False
      have o: "out (terminal_os ans) [8, 32, 8, 0] [] (st\<lparr>world := (ks @ 13 # keys, tr)\<rparr>) =
          Some (st\<lparr>world := (ks @ 13 # keys, tr @ [Sys_write 1 [8, 32, 8]])\<rparr>)"
        using terminal_out [of "[8, 32, 8]" "st\<lparr>world := (ks @ 13 # keys, tr)\<rparr>" "ks @ 13 # keys" tr ans] by (simp add: plain_def)
      have "read_line (terminal_os ans) L s (length t) st =
          read_line (terminal_os ans) L s (length (butlast t)) (st\<lparr>world := (ks @ 13 # keys, tr @ [Sys_write 1 [8, 32, 8]])\<rparr>)"
        using False rub g k o by (subst read_line.simps) (auto simp: key_word is_rubout_def Let_def)
      moreover have "take (length (butlast t)) s = butlast t" "length (butlast t) \<le> 256"
        using Cons.prems(2,5) by (simp_all add: butlast_conv_take) (metis One_nat_def diff_le_self min.absorb1 take_take)
      ultimately show ?thesis
        using Cons.IH [of "butlast t" s "st\<lparr>world := (ks @ 13 # keys, tr @ [Sys_write 1 [8, 32, 8]])\<rparr>" "tr @ [Sys_write 1 [8, 32, 8]]"]
          Cons.prems k rub False by (simp split: if_splits)
    qed
  next
    case rub: False
    show ?thesis
    proof (cases "length t < 256")
      case True
      let ?st = "st\<lparr>world := (ks @ 13 # keys, tr @ [Sys_write 1 [k]])\<rparr>" and ?s = "s[length t := k]"
      have "read_line (terminal_os ans) L s (length t) st = read_line (terminal_os ans) L ?s (length (t @ [k])) ?st"
        using True rub g k Cons.prems(3) by (subst read_line.simps) (simp add: key_word is_rubout_def Let_def arr_set_def terminal_putchar ucast_u8_u32)
      moreover have "take (length (t @ [k])) ?s = t @ [k]" using True Cons.prems(2,3) by (simp add: take_Suc_conv_app_nth)
      ultimately show ?thesis using Cons.IH [of "t @ [k]" ?s ?st "tr @ [Sys_write 1 [k]]"] Cons.prems k rub True by (simp split: if_splits)
    next
      case False
      with rub g k Cons.prems(3) show ?thesis by (subst read_line.simps) (simp add: key_word is_rubout_def Let_def arr_set_def)
    qed
  qed
qed
section \<open>Properties of the shell\<close>



text \<open>
  C23: A command that is typed at the prompt, with corrections, is run: after the echo of the keys the shell looks for
  the program, at the path itself or in \<^verbatim>\<open>/bin\<close>; if it is missing a message is printed, otherwise the shell forks, the
  child executes the program with exactly the words of the line as arguments, and the parent waits for it and reports
  its exit value, or goes on at once when the line ends with an ampersand. There are no other calls, whatever
  the kernel answers.
\<close>

theorem shell_runs_typed_command:
  assumes "answers_fit ans L" and "world st = (ks @ 13 # keys, tr)" and "length (arguments st) = MAX_ARGUMENTS" and "length s = 256"
    and "list_all is_text_key ks" and "line_fits [] ks" and "edited [] ks = line_text c" and "line_ok c"
  shows "\<exists>s1 args. read_line (terminal_os ans) L s 0 st = Some (False, s1, st\<lparr>arguments := args, world := (keys,
    command_calls ans (status_buf L) (tr @ map (Sys_write 1) (echoed [] ks)) (command_path (hd (line_args c))) (line_args c)
      (in_background c))\<rparr>)"
proof -
  let ?st = "st\<lparr>world := (keys, tr @ map (Sys_write 1) (echoed [] ks))\<rparr>"
  obtain r where r: "read_line (terminal_os ans) L s 0 st = map_option line_result (parse_input (terminal_os ans) L (line_text c @ 0 # r) ?st)"
    using read_line_edits [OF assms(5) _ assms(4,2), of "[]" ans L] assms(6,7) by auto
  obtain s1 args where "parse_input (terminal_os ans) L (line_text c @ 0 # r) ?st = Some (0, s1, ?st\<lparr>arguments := args,
      world := (keys, command_calls ans (status_buf L) (tr @ map (Sys_write 1) (echoed [] ks)) (command_path (hd (line_args c)))
        (line_args c) (in_background c))\<rparr>)"
    using parse_command_line [OF assms(1) _ _ assms(8), of ?st keys "tr @ map (Sys_write 1) (echoed [] ks)" r] assms(3)
    by (auto simp: MAX_ARGUMENTS_def)
  with r show ?thesis by auto
qed

text \<open>\<^verbatim>\<open>lx\<close>, a rubout, \<^verbatim>\<open>s &\<close> and return; every call is answered with 7.\<close>

definition demo_locals :: shell_locals where
  "demo_locals = \<lparr>temp_string = replicate 256 0, stat_buf = replicate 52 0, status_buf = [0, 0, 0, 0], tms_buf = replicate 16 0,
     timestring = replicate 256 0\<rparr>"

theorem shell_runs_typed_command_witness:
  "\<forall>g. \<exists>s1 args. read_line (terminal_os (\<lambda>tr c. (7, []))) demo_locals (replicate 256 0) 0
      \<lparr>world = ([108, 120, 127, 115, 32, 38, 13], []), rng = g, arguments = replicate 16 None\<rparr> =
    Some (False, s1, \<lparr>world = ([], [Sys_write 1 [108], Sys_write 1 [120], Sys_write 1 [8, 32, 8], Sys_write 1 [115], Sys_write 1 [32],
      Sys_write 1 [38], Sys_write 1 [10], Sys_stat (text_of ''/bin/ls''), Sys_vfork]), rng = g, arguments = args\<rparr>)"
proof
  fix g
  let ?st = "\<lparr>world = ([108, 120, 127, 115, 32, 38, 13], []), rng = g, arguments = replicate 16 None\<rparr> :: terminal shell"
  let ?c = "Background [[108, 115]] []" and ?ks = "[108, 120, 127, 115, 32, 38] :: u8 list"
  have c: "line_ok ?c"
    by (simp add: line_ok_def not_builtin_def command_table_def text_of_def lit_def word_ok_def ampersand_def)
  have fit: "answers_fit (\<lambda>tr c. (7, [])) demo_locals" by (simp add: answers_fit_def demo_locals_def)
  have k: "list_all is_text_key ?ks" "line_fits [] ?ks" "edited [] ?ks = line_text ?c"
    by (simp_all add: is_text_key_def is_rubout_def)
  have p: "command_path [108, 115] = text_of ''/bin/ls''" by (simp add: command_path_def text_of_def lit_def)
  show "\<exists>s1 args. read_line (terminal_os (\<lambda>tr c. (7, []))) demo_locals (replicate 256 0) 0 ?st =
    Some (False, s1, \<lparr>world = ([], [Sys_write 1 [108], Sys_write 1 [120], Sys_write 1 [8, 32, 8], Sys_write 1 [115], Sys_write 1 [32],
      Sys_write 1 [38], Sys_write 1 [10], Sys_stat (text_of ''/bin/ls''), Sys_vfork]), rng = g, arguments = args\<rparr>)"
    using shell_runs_typed_command [OF fit _ _ _ k(1-3) c, of ?st "[]" "[]" "replicate 256 0"]
    by (simp add: is_rubout_def p command_calls_def Let_def MAX_ARGUMENTS_def)
qed

text \<open>A line of more than 255 characters is written behind the end of the buffer.\<close>

lemma line_overflow:
  assumes "list_all (\<lambda>k. is_text_key k \<and> \<not> is_rubout k) ks" and "255 < length ks" and "length s = 256" and "world st = (ks @ 13 # keys, tr)"
  shows "read_line (terminal_os ans) L s 0 st = None"
proof -
  have "line_fits t ks \<Longrightarrow> list_all (\<lambda>k. \<not> is_rubout k) ks \<Longrightarrow> length t + length ks < 256" for t ks
  proof (induction ks arbitrary: t)
    case (Cons k ks)
    then show ?case using Cons.IH [of "t @ [k]"] by simp
  qed simp
  then have "\<not> line_fits [] ks" using assms(1,2) by (fastforce simp: list_all_iff)
  moreover have "list_all is_text_key ks" using assms(1) by (auto simp: list_all_iff)
  ultimately show ?thesis using read_line_edits [OF _ _ assms(3,4), of "[]" ans L] by simp
qed

text \<open>
  A built-in command takes every line that begins with its name, so a program whose name begins that way cannot be
  run from the prompt.
\<close>

lemma cdplayer_changes_directory:
  "find_command (lit ''cdplayer'') command_table = Some Cd" "find_command (lit ''verify'') command_table = Some Ver"
  by code_simp+

end
