(* ===== verification/Slideshow.thy ===== *)
theory Slideshow
  imports Programs
begin

text \<open>
  \<^verbatim>\<open>userspace/slideshow.c\<close>: the decoder for run-length encoded pictures and the program that shows them. A picture is
  read byte by byte; a row of it consists of four planes, of which the first three are stored. The objects that the
  program does not initialise are parameters, new ones for every picture; the memory from \<^verbatim>\<open>vmwos_malloc\<close> is one of them.
\<close>

section \<open>Decoding\<close>

definition hdr_word :: "buf \<Rightarrow> nat \<Rightarrow> nat" where
  "hdr_word h i = unat (h ! Suc i) * 256 + unat (h ! i)"

fun printf_all :: "'w os \<Rightarrow> (buf \<times> parg list) list \<Rightarrow> 'w \<Rightarrow> 'w option" where
  "printf_all sys [] w = Some w"
| "printf_all sys ((fmt, args) # ps) w = do { w1 \<leftarrow> printf sys fmt args w; printf_all sys ps w1 }"

text \<open>The messages about the header, one \<^verbatim>\<open>printf\<close> after the other.\<close>

definition pcx_version :: "u8 \<Rightarrow> buf \<times> parg list" where
  "pcx_version version =
     (if version = 0 then (line ''2.5'', [])
      else if version = 2 then (line ''2.8 w palette'', [])
      else if version = 3 then (line ''2.8 w/o palette'', [])
      else if version = 4 then (line ''Paintbrush for Windows'', [])
      else if version = 5 then (line ''3.0+'', [])
      else (line ''Unknown %i'', [Num (ucast version)]))"

definition pcx_messages :: "buf \<Rightarrow> (buf \<times> parg list) list" where
  "pcx_messages h =
     [(lit ''Manufacturer: '', []),
      if h ! 0 = 10 then (line ''Zsoft'', []) else (line ''Unknown %d'', [Num (ucast (h ! 0))]),
      (lit ''Version: '', []),
      pcx_version (h ! 1),
      (lit ''Encoding: '', []),
      if h ! 2 = 1 then (line ''RLE'', []) else (line ''Unknown %d'', [Num (ucast (h ! 2))]),
      (line ''BitsPerPixelPerPlane: %d'', [Num (ucast (h ! 3))]),
      (line ''File goes from %i,%i to %i,%i'', map (\<lambda>i. Num (of_nat (hdr_word h i))) [4, 6, 8, 10]),
      (line ''Horizontal DPI: %i'', [Num (of_nat (hdr_word h 12))]),
      (line ''Vertical   DPI: %i'', [Num (of_nat (hdr_word h 14))]),
      (line ''Number of colored planes: %i'', [Num (ucast (h ! 65))]),
      (line ''Bytes per line: %i'', [Num (of_nat (hdr_word h 66))]),
      (line ''Palette Type: %i'', [Num (of_nat (hdr_word h 68))]),
      (line ''Hscreen Size: %i'', [Num (of_nat (hdr_word h 70))]),
      (line ''Vscreen Size: %i'', [Num (of_nat (hdr_word h 72))])]"

text \<open>\<^verbatim>\<open>rgb[x][plane]=v\<close>, and the loop that stores a run.\<close>

definition put_rgb :: "i32 list list \<Rightarrow> nat \<Rightarrow> nat \<Rightarrow> u8 \<Rightarrow> i32 list list option" where
  "put_rgb rgb x plane v = do { px \<leftarrow> arr_get rgb x; px1 \<leftarrow> arr_set px plane (ucast v); arr_set rgb x px1 }"

fun put_run :: "i32 list list \<Rightarrow> nat \<Rightarrow> nat \<Rightarrow> u8 \<Rightarrow> nat \<Rightarrow> i32 list list option" where
  "put_run rgb x plane v 0 = Some rgb"
| "put_run rgb x plane v (Suc n) = do { r \<leftarrow> put_rgb rgb x plane v; put_run r (Suc x) plane v n }"

text \<open>One plane of a row. \<open>temp\<close> is \<^verbatim>\<open>temp_byte\<close>, which keeps its value when nothing can be read.\<close>

partial_function (option) decode_plane :: "'w os \<Rightarrow> i32 \<Rightarrow> nat \<Rightarrow> nat \<Rightarrow> nat \<Rightarrow> u8 \<Rightarrow> i32 list list \<Rightarrow> 'w \<Rightarrow> (u8 \<times> i32 list list \<times> 'w) option" where
  [code]: "decode_plane sys fd xsize plane x temp rgb w =
     (if x < xsize then
        do { (r, b, w1) \<leftarrow> syscall_into sys (Sys_read fd 1) [temp] w;
             if hd b AND 0xc0 = 0xc0 then
               do { let numacross = unat (hd b AND 0x3f);
                    (r2, b2, w2) \<leftarrow> syscall_into sys (Sys_read fd 1) b w1;
                    rgb1 \<leftarrow> put_run rgb x plane (hd b2) numacross;
                    decode_plane sys fd xsize plane (x + numacross) (hd b2) rgb1 w2 }
             else
               do { rgb1 \<leftarrow> put_rgb rgb x plane (hd b);
                    decode_plane sys fd xsize plane (x + 1) (hd b) rgb1 w1 } }
      else Some (temp, rgb, w))"

fun decode_planes :: "'w os \<Rightarrow> i32 \<Rightarrow> nat \<Rightarrow> nat list \<Rightarrow> u8 \<Rightarrow> i32 list list \<Rightarrow> 'w \<Rightarrow> (u8 \<times> i32 list list \<times> 'w) option" where
  "decode_planes sys fd xsize [] temp rgb w = Some (temp, rgb, w)"
| "decode_planes sys fd xsize (p # ps) temp rgb w =
     do { (t, r, w1) \<leftarrow> decode_plane sys fd xsize p 0 temp rgb w; decode_planes sys fd xsize ps t r w1 }"

text \<open>The loop that stores a row; \<open>n\<close> pixels are left, the next one is \<open>i\<close>.\<close>

fun copy_row :: "i32 list list \<Rightarrow> nat \<Rightarrow> nat \<Rightarrow> nat \<Rightarrow> buf \<Rightarrow> buf option" where
  "copy_row rgb at i 0 raw = Some raw"
| "copy_row rgb at i (Suc n) raw =
     do { px \<leftarrow> arr_get rgb i;
          r \<leftarrow> arr_get px 0;
          raw0 \<leftarrow> arr_set raw (at + i * 3 + 0) (ucast r);
          g \<leftarrow> arr_get px 1;
          raw1 \<leftarrow> arr_set raw0 (at + i * 3 + 1) (ucast g);
          b \<leftarrow> arr_get px 2;
          raw2 \<leftarrow> arr_set raw1 (at + i * 3 + 2) (ucast b);
          copy_row rgb at (Suc i) n raw2 }"

fun load_rows :: "'w os \<Rightarrow> i32 \<Rightarrow> nat \<Rightarrow> nat \<Rightarrow> nat \<Rightarrow> u8 \<Rightarrow> i32 list list \<Rightarrow> buf \<Rightarrow> 'w \<Rightarrow> (buf \<times> 'w) option" where
  "load_rows sys fd xsize y 0 temp rgb raw w = Some (raw, w)"
| "load_rows sys fd xsize y (Suc n) temp rgb raw w =
     do { (t, rgb1, w1) \<leftarrow> decode_planes sys fd xsize [0, 1, 2, 3] temp rgb w;
          raw1 \<leftarrow> copy_row rgb1 (y * xsize * 3) 0 xsize raw;
          load_rows sys fd xsize (Suc y) n t rgb1 raw1 w1 }"

text \<open>The uninitialised locals of \<^verbatim>\<open>vmwLoadPCX\<close>. A size below zero means that the loops are not entered.\<close>

record pcx_locals =
  pcx_header :: buf
  temp_byte :: u8
  rgb :: "i32 list list"

definition pcx_xsize :: "buf \<Rightarrow> nat" where
  "pcx_xsize h = hdr_word h 8 + 1 - hdr_word h 4"

definition pcx_ysize :: "buf \<Rightarrow> nat" where
  "pcx_ysize h = hdr_word h 10 + 1 - hdr_word h 6"

definition vmwLoadPCX :: "'w os \<Rightarrow> pcx_locals \<Rightarrow> buf \<Rightarrow> buf \<Rightarrow> 'w \<Rightarrow> (i32 \<times> buf \<times> 'w) option" where
  "vmwLoadPCX sys l filename raw_image w =
     do { path \<leftarrow> ctext filename;
          (pcx_fd, w1) \<leftarrow> syscall sys (Sys_open path) w;
          if sint pcx_fd < 0 then
            do { w2 \<leftarrow> printf sys (butlast (lit ''ERROR!  File '') @ [34] @ butlast (lit ''%s'') @ [34] @ line '' not found!'') [Str filename] w1;
                 Some (- 1, raw_image, w2) }
          else
            do { (r, h, w2) \<leftarrow> syscall_into sys (Sys_read pcx_fd 128) (pcx_header l) w1;
                 w3 \<leftarrow> printf_all sys (pcx_messages h) w2;
                 (raw1, w4) \<leftarrow> load_rows sys pcx_fd (pcx_xsize h) 0 (pcx_ysize h) (temp_byte l) (rgb l) raw_image w3;
                 (r2, w5) \<leftarrow> syscall sys (Sys_close pcx_fd) w4;
                 Some (0, raw1, w5) } }"

section \<open>The slide show\<close>

text \<open>The number of the next slide, or the end of the show.\<close>

definition next_slide :: "i32 \<Rightarrow> i32 \<Rightarrow> i32 option option" where
  "next_slide ch slide =
     do { s1 \<leftarrow> (if ch = 32 then signed_add slide 1 else Some slide);
          if ch = 113 then Some None
          else if ch = 98 then do { s2 \<leftarrow> signed_sub s1 1; Some (Some (if sint s2 < 0 then 0 else s2)) }
          else Some (Some s1) }"

text \<open>\<open>junk n\<close> are the locals of the call for picture \<open>n\<close>.\<close>

partial_function (option) slide_loop :: "'w os \<Rightarrow> (nat \<Rightarrow> pcx_locals) \<Rightarrow> nat \<Rightarrow> i32 \<Rightarrow> buf \<Rightarrow> buf \<Rightarrow> 'w \<Rightarrow> (i32 \<times> 'w) option" where
  [code]: "slide_loop sys junk n slide filename pixels w =
     do { (len, name) \<leftarrow> vlibc_sprintf filename (lit ''out-%d.pcx'') [Num slide];
          (result, px, w1) \<leftarrow> vmwLoadPCX sys (junk n) name pixels w;
          w2 \<leftarrow> (if sint result < 0 then
                    do { wa \<leftarrow> printf sys (line ''Error opening %s'') [Str name] w1;
                         (r, wb) \<leftarrow> syscall sys (Sys_exit 1) wa;
                         Some wb }
                  else Some w1);
          (r, w3) \<leftarrow> syscall sys (Sys_framebuffer_load 800 600 24 px) w2;
          w4 \<leftarrow> printf sys (line ''About to get character'') [] w3;
          (ch, w5) \<leftarrow> getchar sys w4;
          w6 \<leftarrow> printf sys (line ''Read character %x'') [Num ch] w5;
          next \<leftarrow> next_slide ch slide;
          case next of None \<Rightarrow> Some (0, w6)
          | Some s \<Rightarrow> slide_loop sys junk (Suc n) s name px w6 }"

text \<open>\<open>area\<close> are the bytes that lie at the allocated address before the program fills them.\<close>

definition slideshow_main :: "'w os \<Rightarrow> (nat \<Rightarrow> pcx_locals) \<Rightarrow> buf \<Rightarrow> buf \<Rightarrow> 'w \<Rightarrow> (i32 \<times> 'w) option" where
  "slideshow_main sys junk filename area w =
     do { w1 \<leftarrow> printf sys (line ''Starting slide show!'') [] w;
          (p, w2) \<leftarrow> syscall sys (Sys_malloc (800 * 600 * 3)) w1;
          w3 \<leftarrow> printf sys (line ''Memsetting %p'') [Num p] w2;
          if p = NULL then None
          else do { pixels \<leftarrow> vlibc_memset p area 0xff (800 * 600 * 3);
                    slide_loop sys junk 0 0 filename pixels w3 } }"

section \<open>Formats of messages\<close>

text \<open>Reading a format as a sequence of pieces, so that the text of a message can be computed.\<close>

fun parse_format :: "buf \<Rightarrow> piece list option" where
  "parse_format [] = None"
| "parse_format (c # s) =
     (if c = 0 then (if s = [] then Some [] else None)
      else if c \<noteq> 37 then map_option ((#) (Lit c)) (parse_format s)
      else case s of [] \<Rightarrow> None
        | k # s1 \<Rightarrow>
            if k = 100 then map_option ((#) (Dec [])) (parse_format s1)
            else if k = 105 then map_option ((#) (DecI [])) (parse_format s1)
            else if k = 120 then map_option ((#) (Hex [])) (parse_format s1)
            else if k = 115 then map_option ((#) Strg) (parse_format s1)
            else None)"

lemma parse_format_pieces:
  "parse_format fmt = Some ps \<Longrightarrow> fmt = concat (map piece_format ps) @ [0] \<and> list_all piece_ok ps"
  by (induction fmt arbitrary: ps rule: parse_format.induct) (auto split: if_splits list.splits)

definition renders :: "buf \<times> parg list \<Rightarrow> bool" where
  "renders m \<longleftrightarrow> (\<exists>ps t. parse_format (fst m) = Some ps \<and> render ps (snd m) = Some t \<and> length t < 255)"

lemma dec_text_short_form: "length (dec_text [] x) \<le> 11"
  using u32_digits(1) [of x] u32_digits(1) [of "- x"] by (auto simp: dec_text_def number_text_def pad_width_def)

section \<open>Pictures\<close>

text \<open>A plane of a row is a sequence of runs and of single bytes whose two highest bits are not both set.\<close>

datatype rle = Run nat u8 | Single u8

fun rle_ok :: "rle \<Rightarrow> bool" where
  "rle_ok (Run n v) \<longleftrightarrow> 0 < n \<and> n < 64"
| "rle_ok (Single v) \<longleftrightarrow> v AND 0xc0 \<noteq> 0xc0"

fun rle_bytes :: "rle \<Rightarrow> buf" where
  "rle_bytes (Run n v) = [0xc0 + of_nat n, v]"
| "rle_bytes (Single v) = [v]"

fun rle_pixels :: "rle \<Rightarrow> buf" where
  "rle_pixels (Run n v) = replicate n v"
| "rle_pixels (Single v) = [v]"

definition plane_bytes :: "rle list \<Rightarrow> buf" where
  "plane_bytes items = concat (map rle_bytes items)"

definition plane_pixels :: "rle list \<Rightarrow> buf" where
  "plane_pixels items = concat (map rle_pixels items)"

lemma run_byte:
  assumes "n < 64"
  shows "(0xc0 + of_nat n :: u8) AND 0xc0 = 0xc0" "unat ((0xc0 + of_nat n :: u8) AND 0x3f) = n"
proof -
  have "\<forall>n \<in> set [0..<64]. (0xc0 + of_nat n :: u8) AND 0xc0 = 0xc0 \<and> unat ((0xc0 + of_nat n :: u8) AND 0x3f) = n"
    by code_simp
  with assms show "(0xc0 + of_nat n :: u8) AND 0xc0 = 0xc0" "unat ((0xc0 + of_nat n :: u8) AND 0x3f) = n" by auto
qed

definition rgb_ok :: "i32 list list \<Rightarrow> bool" where
  "rgb_ok r \<longleftrightarrow> length r = 800 \<and> (\<forall>px \<in> set r. length px = 4)"

fun put_column :: "i32 list list \<Rightarrow> nat \<Rightarrow> nat \<Rightarrow> buf \<Rightarrow> i32 list list" where
  "put_column r x plane [] = r"
| "put_column r x plane (v # vs) = put_column (r[x := (r ! x)[plane := ucast v]]) (Suc x) plane vs"

lemma rgb_ok_update: "rgb_ok r \<Longrightarrow> x < 800 \<Longrightarrow> rgb_ok (r[x := (r ! x)[plane := v]])"
  by (auto simp: rgb_ok_def dest!: subsetD [OF set_update_subset_insert])

lemma put_column_ok: "rgb_ok r \<Longrightarrow> x + length vs \<le> 800 \<Longrightarrow> rgb_ok (put_column r x plane vs)"
  by (induction vs arbitrary: r x) (auto simp: rgb_ok_update)

lemma put_column_nth:
  "rgb_ok r \<Longrightarrow> x + length vs \<le> 800 \<Longrightarrow> j < 800 \<Longrightarrow>
   put_column r x plane vs ! j = (if x \<le> j \<and> j < x + length vs then (r ! j)[plane := ucast (vs ! (j - x))] else r ! j)"
proof (induction vs arbitrary: r x)
  case (Cons v vs)
  let ?r = "r[x := (r ! x)[plane := ucast v]]"
  have "put_column ?r (Suc x) plane vs ! j =
      (if Suc x \<le> j \<and> j < Suc x + length vs then (?r ! j)[plane := ucast (vs ! (j - Suc x))] else ?r ! j)"
    using Cons.prems by (intro Cons.IH) (auto simp: rgb_ok_update)
  moreover have "Suc x \<le> j \<Longrightarrow> (v # vs) ! (j - x) = vs ! (j - Suc x)" by (simp add: nth_Cons')
  ultimately show ?case using Cons.prems by (cases "j = x") (auto simp: rgb_ok_def)
qed auto

lemma put_column_append:
  "put_column r x plane (a @ b) = put_column (put_column r x plane a) (x + length a) plane b"
  by (induction a arbitrary: r x) simp_all

lemma put_rgb_column:
  "rgb_ok r \<Longrightarrow> x < 800 \<Longrightarrow> plane < 4 \<Longrightarrow> put_rgb r x plane v = Some (put_column r x plane [v])"
  by (simp add: put_rgb_def rgb_ok_def)

lemma put_run_column:
  "rgb_ok r \<Longrightarrow> x + n \<le> 800 \<Longrightarrow> plane < 4 \<Longrightarrow> put_run r x plane v n = Some (put_column r x plane (replicate n v))"
  by (induction n arbitrary: r x) (auto simp: put_rgb_column rgb_ok_update)

lemma copy_row_spec:
  "rgb_ok r \<Longrightarrow> i + n \<le> 800 \<Longrightarrow> at + 3 * (i + n) \<le> length raw \<Longrightarrow>
   copy_row r at i n raw =
     Some (take (at + 3 * i) raw @ concat (map (\<lambda>j. map ucast (take 3 (r ! j))) [i..<i + n]) @ drop (at + 3 * (i + n)) raw)"
proof (induction n arbitrary: i raw)
  case (Suc n)
  have l: "length (r ! i) = 4" using Suc.prems by (auto simp: rgb_ok_def)
  then obtain a b c e where px: "r ! i = [a, b, c, e]" by (auto simp: numeral_eq_Suc length_Suc_conv)
  define k where "k = at + 3 * i"
  let ?raw = "raw[k := ucast a, k + 1 := ucast b, k + 2 := ucast c]"
  have k: "at + i * 3 = k" "k + 3 \<le> length raw" using Suc.prems by (simp_all add: k_def)
  have "copy_row r at i (Suc n) raw = copy_row r at (Suc i) n ?raw"
    using Suc.prems k px l by (simp add: rgb_ok_def)
  also have "\<dots> = Some (take (at + 3 * Suc i) ?raw @ concat (map (\<lambda>j. map ucast (take 3 (r ! j))) [Suc i..<Suc i + n]) @
      drop (at + 3 * (Suc i + n)) ?raw)"
    using Suc.prems by (intro Suc.IH) auto
  also have "take (at + 3 * Suc i) ?raw = take k raw @ [ucast a, ucast b, ucast c]"
  proof -
    have e: "at + 3 * Suc i = Suc (Suc (Suc k))" by (simp add: k_def)
    show ?thesis unfolding e using k(2) by (simp add: take_Suc_conv_app_nth)
  qed
  also have "drop (at + 3 * (Suc i + n)) ?raw = drop (at + 3 * (i + Suc n)) raw" by (simp add: k_def drop_update_cancel)
  also have "[i..<i + Suc n] = i # [Suc i..<Suc i + n]" by (simp add: upt_rec)
  ultimately show ?case by (simp add: k_def px)
qed simp

text \<open>
  What the decoder needs of the calls: an open file whose next bytes are known, from which every read delivers as many
  bytes as it can, and which writing to the terminal leaves alone.
\<close>

locale byte_file =
  fixes sys :: "'w os" and fd :: i32 and ahead :: "'w \<Rightarrow> buf \<Rightarrow> bool"
  assumes read_ahead: "ahead w bs \<Longrightarrow> unat n < 2147483648 \<Longrightarrow> \<exists>w'. ahead w' (drop (unat n) bs) \<and>
      sys (Sys_read fd n) w = Some ((of_nat (min (unat n) (length bs)), take (unat n) bs), w')"
    and write_ahead: "ahead w bs \<Longrightarrow> length t < 4294967296 \<Longrightarrow> \<exists>r w'. sys (Sys_write 1 t) w = Some (r, w') \<and> ahead w' bs"
begin

lemma read_one: "ahead w (c # bs) \<Longrightarrow> \<exists>w'. syscall_into sys (Sys_read fd 1) [t] w = Some (1, [c], w') \<and> ahead w' bs"
  using read_ahead [of w "c # bs" 1] by (auto simp: syscall_into_def over_def)

lemma printf_all_ahead: "ahead w bs \<Longrightarrow> list_all renders ms \<Longrightarrow> \<exists>w'. printf_all sys ms w = Some w' \<and> ahead w' bs"
proof (induction ms arbitrary: w)
  case (Cons m ms)
  obtain fmt args where m: "m = (fmt, args)" by force
  from Cons.prems(2) m obtain ps t where t: "parse_format fmt = Some ps" "render ps args = Some t" "length t < 255"
    by (auto simp: renders_def)
  obtain r w1 where w1: "sys (Sys_write 1 t) w = Some (r, w1)" "ahead w1 bs"
    using write_ahead [OF Cons.prems(1), of t] t(3) by auto
  have "printf sys fmt args w = Some w1"
    using printf_renders [of ps args t sys w] parse_format_pieces [OF t(1)] t(2,3) w1(1) by (cases r) (auto simp: syscall_def)
  with Cons.IH [OF w1(2)] Cons.prems(2) m show ?case by auto
qed simp

lemma decode_plane_spec:
  assumes "list_all rle_ok items" and "rgb_ok r" and "plane < 4" and "x + length (plane_pixels items) = xsize" and "xsize \<le> 800"
    and "ahead w (plane_bytes items @ rest)"
  shows "\<exists>t w'. decode_plane sys fd xsize plane x temp r w = Some (t, put_column r x plane (plane_pixels items), w') \<and> ahead w' rest"
  using assms(1,2,4,6)
proof (induction items arbitrary: x temp r w)
  case Nil
  then show ?case by (subst decode_plane.simps) (simp add: plane_pixels_def plane_bytes_def)
next
  case (Cons i items)
  note pdefs = plane_pixels_def plane_bytes_def
  show ?case
  proof (cases i)
    case (Run n v)
    with Cons.prems have n: "0 < n" "n < 64" by auto
    have len: "x + n + length (plane_pixels items) = xsize" using Cons.prems(3) Run by (simp add: pdefs)
    obtain w1 where w1: "syscall_into sys (Sys_read fd 1) [temp] w = Some (1, [0xc0 + of_nat n], w1)"
      "ahead w1 (v # plane_bytes items @ rest)" 
      using read_one [of w "0xc0 + of_nat n" "v # plane_bytes items @ rest" temp] Cons.prems(4) Run by (auto simp: pdefs)
    obtain w2 where w2: "syscall_into sys (Sys_read fd 1) [0xc0 + of_nat n] w1 = Some (1, [v], w2)"
      "ahead w2 (plane_bytes items @ rest)" using read_one [OF w1(2)] by blast
    let ?r = "put_column r x plane (replicate n v)"
    have r: "put_run r x plane v n = Some ?r" "rgb_ok ?r"
      using put_run_column [of r x n plane v] put_column_ok [of r x "replicate n v"] Cons.prems(2) assms(3,5) len by auto
    obtain t w' where "decode_plane sys fd xsize plane (x + n) v ?r w2 =
        Some (t, put_column ?r (x + n) plane (plane_pixels items), w')" "ahead w' rest"
      using Cons.IH [OF _ r(2) len w2(2), of v] Cons.prems(1) by auto
    then show ?thesis using n len w1(1) w2(1) r(1) run_byte [OF n(2)]
      by (subst decode_plane.simps) (simp add: Run pdefs put_column_append)
  next
    case (Single v)
    with Cons.prems have v: "v AND 0xc0 \<noteq> 0xc0" by auto
    have len: "x + 1 + length (plane_pixels items) = xsize" using Cons.prems(3) Single by (simp add: pdefs)
    obtain w1 where w1: "syscall_into sys (Sys_read fd 1) [temp] w = Some (1, [v], w1)"
      "ahead w1 (plane_bytes items @ rest)" 
      using read_one [of w v "plane_bytes items @ rest" temp] Cons.prems(4) Single by (auto simp: pdefs)
    let ?r = "put_column r x plane [v]"
    have r: "put_rgb r x plane v = Some ?r" "rgb_ok ?r"
      using put_rgb_column [of r x plane v] put_column_ok [of r x "[v]"] Cons.prems(2) assms(3,5) len by auto
    obtain t w' where "decode_plane sys fd xsize plane (x + 1) v ?r w1 =
        Some (t, put_column ?r (x + 1) plane (plane_pixels items), w')" "ahead w' rest"
      using Cons.IH [OF _ r(2) len w1(2), of v] Cons.prems(1) by auto
    then show ?thesis using len w1(1) r(1) v
      by (subst decode_plane.simps) (simp add: Single pdefs)
  qed
qed

lemma decode_planes_spec:
  assumes "\<forall>(p, items) \<in> set pis. p < 4 \<and> list_all rle_ok items \<and> length (plane_pixels items) = xsize" and "distinct (map fst pis)"
    and "rgb_ok r" and "xsize \<le> 800" and "ahead w (concat (map (\<lambda>e. plane_bytes (snd e)) pis) @ rest)"
  shows "\<exists>t r' w'. decode_planes sys fd xsize (map fst pis) temp r w = Some (t, r', w') \<and> rgb_ok r' \<and> ahead w' rest \<and>
    (\<forall>j < xsize. (\<forall>(p, items) \<in> set pis. r' ! j ! p = ucast (plane_pixels items ! j)) \<and>
      (\<forall>q. q \<notin> fst ` set pis \<longrightarrow> r' ! j ! q = r ! j ! q))"
  using assms(1,2,3,5)
proof (induction pis arbitrary: temp r w)
  case (Cons e pis)
  obtain p items where e: "e = (p, items)" by force
  let ?r = "put_column r 0 p (plane_pixels items)"
  have i: "p < 4" "list_all rle_ok items" "length (plane_pixels items) = xsize" using Cons.prems(1) e by auto
  obtain t w1 where d: "decode_plane sys fd xsize p 0 temp r w = Some (t, ?r, w1)" "ahead w1 (concat (map (\<lambda>e. plane_bytes (snd e)) pis) @ rest)"
    using decode_plane_spec [OF i(2) Cons.prems(3) i(1), of 0 xsize w "concat (map (\<lambda>e. plane_bytes (snd e)) pis) @ rest" temp]
      i(3) assms(4) Cons.prems(4) e by auto
  have ok: "rgb_ok ?r" using put_column_ok [OF Cons.prems(3)] i(3) assms(4) by simp
  have c: "?r ! j = (r ! j)[p := ucast (plane_pixels items ! j)]" "length (r ! j) = 4" if "j < xsize" for j
    using put_column_nth [OF Cons.prems(3), of 0 "plane_pixels items" j p] Cons.prems(3) i(3) assms(4) that by (auto simp: rgb_ok_def)
  have "\<forall>(p, items) \<in> set pis. p < 4 \<and> list_all rle_ok items \<and> length (plane_pixels items) = xsize" "distinct (map fst pis)"
    using Cons.prems(1,2) by auto
  from Cons.IH [OF this ok d(2), of t]
  obtain t2 r' w' where r': "decode_planes sys fd xsize (map fst pis) t ?r w1 = Some (t2, r', w')" "rgb_ok r'" "ahead w' rest"
    "\<forall>j < xsize. (\<forall>(p, items) \<in> set pis. r' ! j ! p = ucast (plane_pixels items ! j)) \<and>
      (\<forall>q. q \<notin> fst ` set pis \<longrightarrow> r' ! j ! q = ?r ! j ! q)"
    by blast
  have "r' ! j ! p = ucast (plane_pixels items ! j)" if "j < xsize" for j
    using r'(4) Cons.prems(2) e c [OF that] i(1) that by auto
  moreover have "r' ! j ! q = r ! j ! q" if "j < xsize" "q \<notin> fst ` set (e # pis)" for j q
    using r'(4) e c [OF that(1)] that by auto
  ultimately show ?case using r' d(1) by (auto simp: e)
qed simp

end

text \<open>A row: its four planes, the bytes of the file for it, and the pixels that are stored.\<close>

definition row_ok :: "nat \<Rightarrow> rle list list \<Rightarrow> bool" where
  "row_ok xsize row \<longleftrightarrow> length row = 4 \<and> (\<forall>items \<in> set row. list_all rle_ok items \<and> length (plane_pixels items) = xsize)"

definition row_bytes :: "rle list list \<Rightarrow> buf" where
  "row_bytes row = concat (map plane_bytes row)"

definition row_pixels :: "nat \<Rightarrow> rle list list \<Rightarrow> buf" where
  "row_pixels xsize row = concat (map (\<lambda>j. map (\<lambda>p. plane_pixels (row ! p) ! j) [0, 1, 2]) [0..<xsize])"

lemma row_pixels_length: "length (row_pixels xsize row) = 3 * xsize"
  by (induction xsize) (simp_all add: row_pixels_def)

context byte_file
begin

lemma decode_row:
  assumes "row_ok xsize row" and "rgb_ok r" and "xsize \<le> 800" and "ahead w (row_bytes row @ rest)"
  shows "\<exists>t r' w'. decode_planes sys fd xsize [0, 1, 2, 3] temp r w = Some (t, r', w') \<and> rgb_ok r' \<and> ahead w' rest \<and>
    concat (map (\<lambda>j. map ucast (take 3 (r' ! j))) [0..<xsize]) = row_pixels xsize row"
proof -
  obtain a b c d where row: "row = [a, b, c, d]" using assms(1) by (auto simp: row_ok_def numeral_eq_Suc length_Suc_conv)
  let ?pis = "[(0 :: nat, a), (1, b), (2, c), (3, d)]"
  have "\<forall>(p, items) \<in> set ?pis. p < 4 \<and> list_all rle_ok items \<and> length (plane_pixels items) = xsize"
    using assms(1) row by (auto simp: row_ok_def)
  moreover have "distinct (map fst ?pis)" by simp
  moreover have "ahead w (concat (map (\<lambda>e. plane_bytes (snd e)) ?pis) @ rest)" using assms(4) row by (simp add: row_bytes_def)
  ultimately obtain t r' w' where d: "decode_planes sys fd xsize (map fst ?pis) temp r w = Some (t, r', w')" "rgb_ok r'" "ahead w' rest"
    "\<forall>j < xsize. \<forall>(p, items) \<in> set ?pis. r' ! j ! p = ucast (plane_pixels items ! j)"
    using decode_planes_spec [OF _ _ assms(2,3), of ?pis w rest temp] by blast
  have "map ucast (take 3 (r' ! j)) = map (\<lambda>p. plane_pixels (row ! p) ! j) [0, 1, 2]" if j: "j < xsize" for j
  proof -
    have "length (r' ! j) = 4" using d(2) j assms(3) by (auto simp: rgb_ok_def)
    then obtain x y z u where "r' ! j = [x, y, z, u]" by (auto simp: numeral_eq_Suc length_Suc_conv)
    with d(4) j row show ?thesis by (auto simp: ucast_u8_u32)
  qed
  then have "concat (map (\<lambda>j. map ucast (take 3 (r' ! j))) [0..<xsize]) = row_pixels xsize row"
    unfolding row_pixels_def by (intro arg_cong [of _ _ concat] map_cong) auto
  with d show ?thesis by auto
qed

lemma load_rows_spec:
  assumes "\<forall>row \<in> set rows. row_ok xsize row" and "rgb_ok r" and "xsize \<le> 800"
    and "3 * xsize * (y + length rows) \<le> length raw" and "ahead w (concat (map row_bytes rows) @ rest)"
  shows "\<exists>w'. load_rows sys fd xsize y (length rows) temp r raw w =
      Some (take (3 * xsize * y) raw @ concat (map (row_pixels xsize) rows) @ drop (3 * xsize * (y + length rows)) raw, w') \<and>
    ahead w' rest"
  using assms(1,2,4,5)
proof (induction rows arbitrary: y temp r raw w)
  case (Cons row rows)
  let ?n = "3 * xsize * y" and ?p = "row_pixels xsize row"
  obtain t r' w1 where d: "decode_planes sys fd xsize [0, 1, 2, 3] temp r w = Some (t, r', w1)" "rgb_ok r'"
    "ahead w1 (concat (map row_bytes rows) @ rest)" "concat (map (\<lambda>j. map ucast (take 3 (r' ! j))) [0..<xsize]) = ?p"
    using decode_row [of xsize row r w "concat (map row_bytes rows) @ rest" temp] Cons.prems assms(3) by auto
  have y1: "3 * xsize * Suc y = ?n + 3 * xsize" by simp
  define raw1 where "raw1 = take ?n raw @ ?p @ drop (?n + 3 * xsize) raw"
  have le: "?n + 3 * xsize \<le> length raw"
    using Cons.prems(3) by (simp add: algebra_simps)
  have c: "copy_row r' (y * xsize * 3) 0 xsize raw = Some raw1"
  proof -
    have yx: "y * xsize * 3 = ?n" by simp
    show ?thesis unfolding yx using copy_row_spec [OF d(2), of 0 xsize ?n raw] d(4) assms(3) le by (simp add: raw1_def)
  qed
  have len: "length raw1 = length raw" using le by (simp add: raw1_def row_pixels_length)
  have y2: "y + length (row # rows) = Suc y + length rows" by simp
  obtain w' where "load_rows sys fd xsize (Suc y) (length rows) t r' raw1 w1 =
      Some (take (3 * xsize * Suc y) raw1 @ concat (map (row_pixels xsize) rows) @ drop (3 * xsize * (Suc y + length rows)) raw1, w')"
    "ahead w' rest"
    using Cons.IH [OF _ d(2) _ d(3), of "Suc y" raw1 t] Cons.prems(1,3) len unfolding y2 by auto
  moreover have "take (3 * xsize * Suc y) raw1 = take ?n raw @ ?p"
    unfolding y1 using le by (simp add: raw1_def row_pixels_length)
  moreover have "drop (3 * xsize * (Suc y + length rows)) raw1 = drop (3 * xsize * (y + length (row # rows))) raw"
  proof -
    have e: "3 * xsize * (Suc y + length rows) = ?n + 3 * xsize + 3 * xsize * length rows" by (simp add: algebra_simps)
    show ?thesis unfolding y2 e using le by (simp add: raw1_def row_pixels_length add.commute add.left_commute)
  qed
  ultimately show ?case using d(1) c by simp
qed simp

end

lemma pcx_messages_render: "list_all renders (pcx_messages h)"
proof -
  have v: "renders (pcx_version v)" for v
    using dec_text_short_form [of "ucast v"] by (simp add: pcx_version_def renders_def line_def lit_def)
  have f: "renders (line ''File goes from %i,%i to %i,%i'', [Num a, Num b, Num c, Num e])" for a b c e
    using dec_text_short_form [of a] dec_text_short_form [of b] dec_text_short_form [of c] dec_text_short_form [of e]
    by (simp add: renders_def line_def lit_def)
  have n: "length (dec_text [] x) < 200" for x using dec_text_short_form [of x] by simp
  show ?thesis unfolding pcx_messages_def
    using v f by (simp add: renders_def [of "(_, _)"] line_def lit_def less_le_trans [OF n])
qed

interpretation disk_file: byte_file kernel_os "of_nat f"
  "\<lambda>w bs. \<exists>p. file_at (disk (w_files w)) i contents \<and> file_fd f i p (w_files w) \<and> p \<le> length contents \<and> bs = drop p contents"
  for f i contents
proof
  fix w :: world and bs :: buf and n :: u32
  assume "\<exists>p. file_at (disk (w_files w)) i contents \<and> file_fd f i p (w_files w) \<and> p \<le> length contents \<and> bs = drop p contents"
    and n: "unat n < 2147483648"
  then obtain p where p: "file_at (disk (w_files w)) i contents" "file_fd f i p (w_files w)" "p \<le> length contents" "bs = drop p contents"
    by auto
  define m where "m = min (unat n) (length contents - p)"
  obtain v' where v: "kernel_os (Sys_read (of_nat f) n) w = Some ((of_nat m, take m (drop p contents)), w\<lparr>w_files := v'\<rparr>)"
    "same_files (w_files w) v'" "file_fd f i (p + m) v'"
    using kernel_read_file [OF p(1-3) n] by (auto simp: m_def)
  have "drop (unat n) bs = drop (p + m) contents" "take m (drop p contents) = take (unat n) bs"
    using p(3,4) by (auto simp: m_def min_def add.commute)
  with v p show "\<exists>w'. (\<exists>p. file_at (disk (w_files w')) i contents \<and> file_fd f i p (w_files w') \<and> p \<le> length contents \<and>
      drop (unat n) bs = drop p contents) \<and>
      kernel_os (Sys_read (of_nat f) n) w = Some ((of_nat (min (unat n) (length bs)), take (unat n) bs), w')"
    by (intro exI [of _ "w\<lparr>w_files := v'\<rparr>"] conjI exI [of _ "p + m"]) (auto simp: same_files_def m_def)
next
  fix w :: world and bs t :: buf
  assume "\<exists>p. file_at (disk (w_files w)) i contents \<and> file_fd f i p (w_files w) \<and> p \<le> length contents \<and> bs = drop p contents"
    and "length t < 4294967296"
  then show "\<exists>r w'. kernel_os (Sys_write 1 t) w = Some (r, w') \<and>
      (\<exists>p. file_at (disk (w_files w')) i contents \<and> file_fd f i p (w_files w') \<and> p \<le> length contents \<and> bs = drop p contents)"
    using kernel_write [of t w] by (auto simp del: kernel_os.simps)
qed

text \<open>
  C33: Loading a picture of the disk stores exactly the pixels that its runs and single bytes denote: the first three of
  the four planes of every row, interleaved, row after row, and nothing behind them. The picture may be at most 800
  pixels wide and has to fit into the given memory.
\<close>

theorem pcx_load_decodes:
  assumes "names_file (w_files w) (w_kernel w) path (h @ concat (map row_bytes rows) @ rest)" and "length h = 128"
    and "\<forall>row \<in> set rows. row_ok (pcx_xsize h) row" and "length rows = pcx_ysize h" and "pcx_xsize h \<le> 800"
    and "3 * pcx_xsize h * pcx_ysize h \<le> length raw" and "length (pcx_header l) = 128" and "rgb_ok (rgb l)"
    and "length (fd_table (w_files w)) = 32" and "free_fds (w_files w) \<noteq> {}" and "fd_valid (fd_table (w_files w) ! 0) \<noteq> 0"
  shows "\<exists>w'. vmwLoadPCX kernel_os l path raw w =
    Some (0, concat (map (row_pixels (pcx_xsize h)) rows) @ drop (3 * pcx_xsize h * pcx_ysize h) raw, w')"
proof -
  let ?c = "h @ concat (map row_bytes rows) @ rest"
  obtain f i v where o1: "ctext path = Some (butlast path)" "kernel_os (Sys_open (butlast path)) w = Some ((of_nat f, []), w\<lparr>w_files := v\<rparr>)"
    "file_at (disk v) i ?c" "file_fd f i 0 v"
    using kernel_open [OF assms(1,9-11)] by blast
  have fd: "\<not> sint (of_nat f :: i32) < 0" using o1(4) sint_small_nat [of f] by (auto simp: file_fd_def)



  let ?ahead = "\<lambda>w bs. \<exists>p. file_at (disk (w_files w)) i ?c \<and> file_fd f i p (w_files w) \<and> p \<le> length ?c \<and> bs = drop p ?c"
  let ?w1 = "w\<lparr>w_files := v\<rparr>" and ?b = "concat (map row_bytes rows) @ rest"
  have a1: "?ahead ?w1 ?c" using o1(3,4) by (intro exI [of _ 0]) simp
  obtain w2 where w2: "kernel_os (Sys_read (of_nat f) 128) ?w1 = Some ((of_nat (min 128 (length ?c)), take 128 ?c), w2)" "?ahead w2 (drop 128 ?c)"
    using disk_file.read_ahead [OF a1, of 128] by auto
  have t: "take 128 ?c = h" "drop 128 ?c = ?b" using assms(2) by simp_all
  have r2: "syscall_into kernel_os (Sys_read (of_nat f) 128) (pcx_header l) ?w1 = Some (of_nat (min 128 (length ?c)), h, w2)"
    unfolding syscall_into_def w2(1) t(1) using assms(2,7) by (simp add: over_def)
  obtain w3 where w3: "printf_all kernel_os (pcx_messages h) w2 = Some w3" "?ahead w3 ?b"
    using disk_file.printf_all_ahead [OF w2(2) pcx_messages_render] unfolding t(2) by blast
  obtain w4 where w4: "load_rows kernel_os (of_nat f) (pcx_xsize h) 0 (length rows) (temp_byte l) (rgb l) raw w3 =
      Some (take (3 * pcx_xsize h * 0) raw @ concat (map (row_pixels (pcx_xsize h)) rows) @ drop (3 * pcx_xsize h * (0 + length rows)) raw, w4)"
    using disk_file.load_rows_spec [OF assms(3,8,5) _ w3(2), of 0 raw "temp_byte l"] assms(4,6) by auto
  have "syscall kernel_os (Sys_open (butlast path)) w = Some (of_nat f, ?w1)" unfolding syscall_def o1(2) by simp
  moreover have "syscall kernel_os (Sys_close (of_nat f)) w4 = Some (close (of_nat f), w4)" by (simp add: syscall_def)
  ultimately show ?thesis using fd o1(1) r2 w3(1) w4 assms(4) by (simp add: vmwLoadPCX_def del: kernel_os.simps)
qed

text \<open>A disk with a picture of two pixels.\<close>

definition demo_header :: buf where
  "demo_header = [10, 5, 1, 8, 0, 0, 0, 0, 1, 0, 0, 0] @ replicate 116 0"

definition demo_rows :: "rle list list list" where
  "demo_rows = [[[Run 2 7], [Single 1, Single 2], [Run 2 200], [Run 2 0]]]"

definition picture_disk :: ramdisk where
  "picture_disk = \<lparr>rd_data = [45, 114, 111, 109, 49, 102, 115, 45, 0, 0, 0, 232, 0, 0, 0, 0,
     116, 101, 115, 116, 0, 0, 0, 0, 0, 0, 0, 0, 0, 0, 0, 0,
     0, 0, 0, 73, 0, 0, 0, 32, 0, 0, 0, 0, 0, 0, 0, 0,
     46, 0, 0, 0, 0, 0, 0, 0, 0, 0, 0, 0, 0, 0, 0, 0,
     0, 0, 0, 2, 0, 0, 0, 0, 0, 0, 0, 136, 0, 0, 0, 0,
     112, 105, 99, 0, 0, 0, 0, 0, 0, 0, 0, 0, 0, 0, 0, 0] @ demo_header @ [194, 7, 1, 2, 194, 200, 194, 0], rd_length = 232\<rparr>"

lemma picture_words:
  "word_at picture_disk 32 = 73" "word_at picture_disk 36 = 32" "word_at picture_disk 64 = 2" "word_at picture_disk 72 = 136"
  by (simp_all add: word_at_def be_word_def bytes_at_def picture_disk_def)

lemma picture_on_disk: "unat off + n \<le> 232 \<Longrightarrow> on_disk picture_disk off n"
  by (simp add: on_disk_def picture_disk_def demo_header_def)

lemma picture_names: "name_at picture_disk 48 [46]" "name_at picture_disk 80 [112, 105, 99]"
proof -
  have "bytes_at picture_disk 48 16 = [46] @ replicate 15 0" "bytes_at picture_disk 80 16 = [112, 105, 99] @ replicate 13 0"
    by (simp_all add: bytes_at_def picture_disk_def, simp_all add: eval_nat_numeral)
  then show "name_at picture_disk 48 [46]" "name_at picture_disk 80 [112, 105, 99]"
    by (simp_all add: name_at_def picture_on_disk name_chunks_def)
qed

lemma picture_path: "path_leads picture_disk 32 [[112, 105, 99]] 64"
proof (rule path_leads.found [of _ _ "[(32, [46]), (64, [112, 105, 99])]" id])
  have "resolves picture_disk 32 32" "resolves picture_disk 64 64"
    by (auto simp: picture_words picture_on_disk intro!: resolves.here)
  then show "directory picture_disk 32 [(32, [46]), (64, [112, 105, 99])] id"
    by (simp add: directory_def header_at_def picture_on_disk picture_words picture_names)
qed (simp add: entry_of_def)

lemma picture_file: "file_at picture_disk 64 (demo_header @ concat (map row_bytes demo_rows) @ [])"
proof -
  have "data_start 64 [112, 105, 99] = 96" by (simp add: data_start_def name_chunks_def)
  moreover have "bytes_at picture_disk 96 136 = demo_header @ [194, 7, 1, 2, 194, 200, 194, 0]"
    by (simp add: bytes_at_def picture_disk_def demo_header_def)
  ultimately show ?thesis unfolding file_at_def
    by (intro exI [of _ "[112, 105, 99]"])
      (simp add: header_at_def picture_on_disk picture_words picture_names demo_rows_def row_bytes_def plane_bytes_def)
qed

theorem pcx_load_decodes_witness:
  "\<forall>k c t. \<exists>w'. vmwLoadPCX kernel_os \<lparr>pcx_header = replicate 128 0, temp_byte = t, rgb = replicate 800 [0, 0, 0, 0]\<rparr> (lit ''/pic'')
      (replicate 8 255) \<lparr>w_files = demo_vfs\<lparr>disk := picture_disk\<rparr>, w_kernel = k, w_console = c, w_out = []\<rparr> =
    Some (0, [7, 1, 200, 7, 2, 200, 255, 255], w')"
proof (intro allI)
  fix k c t
  let ?v = "demo_vfs\<lparr>disk := picture_disk\<rparr>" and ?raw = "replicate 8 (255 :: u8)"
  let ?w = "\<lparr>w_files = ?v, w_kernel = k, w_console = c, w_out = []\<rparr>"
  let ?l = "\<lparr>pcx_header = replicate 128 0, temp_byte = t, rgb = replicate 800 [0, 0, 0, 0]\<rparr>"
  have p: "lit ''/pic'' = path_text True [[112, 105, 99]]" by (simp add: path_text_def lit_def)
  have n: "names_file ?v k (lit ''/pic'') (demo_header @ concat (map row_bytes demo_rows) @ [])"
    unfolding names_file_def p using picture_path picture_file
    by (intro exI [of _ True] exI [of _ "[[112, 105, 99]]"] exI [of _ 32] exI [of _ 64])
      (simp add: start_dir_def demo_vfs_def component_def)
  have s: "pcx_xsize demo_header = 2" "pcx_ysize demo_header = 1"
    by (simp_all add: pcx_xsize_def pcx_ysize_def hdr_word_def demo_header_def)
  have rows: "\<forall>row \<in> set demo_rows. row_ok 2 row" "length demo_rows = 1"
    by (simp_all add: demo_rows_def row_ok_def plane_pixels_def)
  have fds: "length (fd_table ?v) = 32" "free_fds ?v \<noteq> {}" "fd_valid (fd_table ?v ! 0) \<noteq> 0"
  proof -
    have "3 \<in> free_fds ?v" by (simp add: free_fds_def demo_vfs_def nth_append)
    then show "free_fds ?v \<noteq> {}" by blast
  qed (simp_all add: demo_vfs_def nth_append)
  have "concat (map (row_pixels 2) demo_rows) @ drop 6 ?raw = [7, 1, 200, 7, 2, 200, 255, 255]"
    by (simp add: demo_rows_def row_pixels_def plane_pixels_def upt_rec numeral_eq_Suc)
  with pcx_load_decodes [of ?w "lit ''/pic''" demo_header demo_rows "[]" ?raw ?l] n s rows fds
  show "\<exists>w'. vmwLoadPCX kernel_os ?l (lit ''/pic'') ?raw ?w = Some (0, [7, 1, 200, 7, 2, 200, 255, 255], w')"
    by (simp add: rgb_ok_def demo_header_def)
qed

end
