(* ===== verification/Spec2Isabelle.thy ===== *)
theory Spec2Isabelle
  imports System Debug Atags Blackjack Shell Slideshow
begin

text \<open>
  A verification library for the ECE531 OS (vmwOS), a small operating system in C for the Raspberry
  Pi: the kernel under \<^verbatim>\<open>src/kernel\<close>, its C library under \<^verbatim>\<open>src/userspace/vlibc\<close> and its user
  programs under \<^verbatim>\<open>src/userspace\<close>.

  \<^bold>\<open>The program.\<close> A process traps into \<^verbatim>\<open>swi_handler_c\<close>, which dispatches its system call to the
  process table, the file layer, the console, the timer or the allocator. A call that has to wait
  puts the process into a wait queue and calls \<^verbatim>\<open>schedule\<close>. Interrupts arrive in
  \<^verbatim>\<open>interrupt_handler_c\<close>: characters of the serial port go to the console ring and wake its
  readers, timer ticks wake sleepers, and both may reschedule. Files are read from a romfs image in
  memory. There is no address translation and no protection. \<^verbatim>\<open>kernel_main\<close> detects the board, sets up
  memory, drivers and the file system, and starts the idle task and the shell, which runs the other
  programs.

  \<^bold>\<open>How code is modelled.\<close> Integers are words of their width, arrays and memory regions are lists of
  words, structures are records with the fields of the source. A function of the source is one
  definition that takes the state it reads and returns the state it leaves. A result of type
  \<^typ>\<open>'a option\<close> is \<^term>\<open>None\<close> when the execution has no defined result in C or never returns; error
  codes are ordinary values. Loops that may run forever are partial functions, all others are
  total, so there is no fuel and no bound on sizes other than those of the machine words. Messages
  that the kernel prints for debugging are left out, except in \<^verbatim>\<open>Debug\<close>, where they are what the code is
  for. Code that is not in the repository, and hardware, is a parameter: the devices behind the
  registers, the other side of the system calls for a user program (\<open>sys\<close> of type \<^typ>\<open>'w os\<close>, with the
  kernel of this library as the instance \<open>kernel_os\<close>), the host's C library for the card game
  (\<^typ>\<open>'i clib\<close>), the cycle counter of the memory test.

  \<^bold>\<open>Theories.\<close>
  \<^item> \<^verbatim>\<open>Prelude\<close>: types, array accesses, error numbers, shared lemmas.
  \<^item> \<^verbatim>\<open>Contracts\<close>: the interfaces between components as locales. An allocator whose blocks never
    overlap (\<open>allocator\<close>), an ordered table (\<open>ordered_table\<close>), fair choice in a ring (\<open>round_robin\<close>),
    queues of sleepers (\<open>sleep_queues\<close>) and a bounded queue (\<open>bounded_fifo\<close>). Each is interpreted
    on the definitions of the component that provides it.
  \<^item> \<^verbatim>\<open>CString\<close> (\<^verbatim>\<open>lib/string.c\<close>, \<^verbatim>\<open>memset.c\<close>, \<^verbatim>\<open>memcpy.c\<close>, \<^verbatim>\<open>vlibc/string.c\<close>): strings and memory
    blocks, with the unrolled fill routines.
  \<^item> \<^verbatim>\<open>Memory\<close> (\<^verbatim>\<open>memory/memory.c\<close>): the bitmap of 4 kB chunks; allocation, release, and that every
    history of both keeps live blocks apart.
  \<^item> \<^verbatim>\<open>Process\<close> (\<^verbatim>\<open>processes/process.c\<close>): control blocks in a doubly linked list on an explicit
    store, refined to a list of processes; the invariants \<open>ktab\<close> and \<open>kinv\<close> tie the table to the allocator.
  \<^item> \<^verbatim>\<open>Scheduler\<close> (\<^verbatim>\<open>processes/scheduler.c\<close>): choice of the next process, termination and fairness.
  \<^item> \<^verbatim>\<open>WaitQueue\<close> (\<^verbatim>\<open>processes/waitqueue.c\<close>): sleeping and waking without lost wake-ups.
  \<^item> \<^verbatim>\<open>Lifecycle\<close> (\<^verbatim>\<open>vfork.c\<close>, \<^verbatim>\<open>exit.c\<close>, \<^verbatim>\<open>waitpid.c\<close>, \<^verbatim>\<open>idle_task.c\<close>): processes from birth to reaping.
  \<^item> \<^verbatim>\<open>Console\<close> (\<^verbatim>\<open>drivers/console/console_io.c\<close>, \<^verbatim>\<open>drivers/serial/serial.c\<close>): the input ring as a
    bounded queue, blocking reads.
  \<^item> \<^verbatim>\<open>Romfs\<close> (\<^verbatim>\<open>fs/romfs/romfs.c\<close>, \<^verbatim>\<open>drivers/block/ramdisk.c\<close>) and \<^verbatim>\<open>Files\<close> (\<^verbatim>\<open>fs/files.c\<close>): the file
    system against a description of the disk image, path names, descriptors.
  \<^item> \<^verbatim>\<open>Exec\<close> (\<^verbatim>\<open>processes/exec.c\<close>): loading a program and laying out its arguments.
  \<^item> \<^verbatim>\<open>Board\<close> (\<^verbatim>\<open>drivers/gpio/gpio.c\<close>, \<^verbatim>\<open>drivers/led/led.c\<close>, \<^verbatim>\<open>interrupts/gic-400.c\<close>), \<^verbatim>\<open>Timer\<close>
    (\<^verbatim>\<open>drivers/timer/sp804_timer.c\<close>, \<^verbatim>\<open>syscalls/nanosleep.c\<close>), \<^verbatim>\<open>Interrupts\<close> (\<^verbatim>\<open>interrupts/interrupts.c\<close>,
    \<^verbatim>\<open>drivers/serial/pl011_uart.c\<close>, \<^verbatim>\<open>mini_uart.c\<close>) and \<^verbatim>\<open>I2c\<close> (\<^verbatim>\<open>drivers/i2c\<close>): the devices. The
    hardware behind the registers is a parameter, a state with a load and a store operation.
  \<^item> \<^verbatim>\<open>Syscalls\<close> (\<^verbatim>\<open>syscalls/syscalls.c\<close>, \<^verbatim>\<open>sysinfo.c\<close>, \<^verbatim>\<open>times.c\<close>, \<^verbatim>\<open>uname.c\<close>, \<^verbatim>\<open>vlibc/syscalls.arm.c\<close>,
    \<^verbatim>\<open>vmwos.c\<close>, \<^verbatim>\<open>i2c-dev.c\<close>): the whole machine in one record, the dispatcher, the user side, and
    a program that reads a file through all layers.
  \<^item> \<^verbatim>\<open>Printk\<close> (\<^verbatim>\<open>lib/printk.c\<close>, \<^verbatim>\<open>vlibc/printf.c\<close>, \<^verbatim>\<open>vlibc/time.c\<close>): formatted output against a
    reference rendering.
  \<^item> \<^verbatim>\<open>DeviceTree\<close> (\<^verbatim>\<open>boot/device_tree.c\<close>): the flattened device tree against an abstract tree.
  \<^item> \<^verbatim>\<open>Vlibc\<close> (\<^verbatim>\<open>vlibc/div.c\<close>, \<^verbatim>\<open>random.c\<close>, \<^verbatim>\<open>error.c\<close>): software division, random numbers, error texts.
  \<^item> \<^verbatim>\<open>Boot\<close> (\<^verbatim>\<open>kernel_main.c\<close>, \<^verbatim>\<open>boot/hardware_detect.c\<close>, \<^verbatim>\<open>processes/userspace.c\<close>, \<^verbatim>\<open>drivers/drivers.c\<close>):
    the boot sequence from the device tree to the first program.
  \<^item> \<^verbatim>\<open>System\<close>: the kernel in motion, as a step relation over system calls, interrupts, calls that go on
    after waiting, and programs that change their memory; the invariants of all reachable states.
  \<^item> \<^verbatim>\<open>Atags\<close> (\<^verbatim>\<open>boot/atags.c\<close>): the older list of boot tags and the settings in a command line.
  \<^item> \<^verbatim>\<open>Debug\<close> (\<^verbatim>\<open>debug/*.c\<close>, \<^verbatim>\<open>lib/memory_benchmark.c\<close> and the messages of \<^verbatim>\<open>hardware_detect.c\<close> and
    \<^verbatim>\<open>device_tree.c\<close>): dumps, blinking, the memory test, handlers of unexpected events.
  \<^item> \<^verbatim>\<open>Userland\<close> (\<^verbatim>\<open>vlibc/tty.c\<close>, \<^verbatim>\<open>stdio.c\<close>, \<^verbatim>\<open>system.c\<close>, \<^verbatim>\<open>start.c\<close>, \<^verbatim>\<open>time.c\<close>): system calls as a program
    sees them, start-up, \<^verbatim>\<open>printf\<close>, \<^verbatim>\<open>system\<close>, sleeping.
  \<^item> \<^verbatim>\<open>Programs\<close> (\<^verbatim>\<open>cat.c\<close>, \<^verbatim>\<open>cat_count.c\<close>, \<^verbatim>\<open>pwd.c\<close>, \<^verbatim>\<open>uname.c\<close>, \<^verbatim>\<open>sysinfo.c\<close>, \<^verbatim>\<open>hello.c\<close>, \<^verbatim>\<open>printa.c\<close>,
    \<^verbatim>\<open>printb.c\<close>, \<^verbatim>\<open>bet_amount.c\<close>, \<^verbatim>\<open>wii_controller.c\<close>), \<^verbatim>\<open>Ls\<close> (\<^verbatim>\<open>ls.c\<close>), \<^verbatim>\<open>Shell\<close> (\<^verbatim>\<open>shell.c\<close>), \<^verbatim>\<open>Blackjack\<close>
    (\<^verbatim>\<open>blackjack.c\<close>) and \<^verbatim>\<open>Slideshow\<close> (\<^verbatim>\<open>slideshow.c\<close>): the user programs. What the decoder of pictures
    needs of the file it reads is the locale \<open>byte_file\<close>, interpreted on the files of the kernel.

  \<^bold>\<open>What the theorems show.\<close> The allocator, the process table, the scheduler, the wait queues and
  the console ring meet their contracts for every sequence of operations. \<^verbatim>\<open>vfork\<close>, \<^verbatim>\<open>execve\<close>,
  \<^verbatim>\<open>exit\<close> and \<^verbatim>\<open>waitpid\<close> keep the invariant of the table and do what they promise. Path lookup,
  file reads and directory listings return what the disk image describes. A key press reaches the
  process that waits for it, and a sleeper wakes at its tick. Booting leaves the shell running with the
  table and the allocator in their invariants, and from there every sequence of steps keeps the processes
  apart, in their numbers and in their memory, and keeps the descriptors and the console in shape; a typed command reaches the program it names; \<^verbatim>\<open>cat\<close> and
  \<^verbatim>\<open>ls\<close> print the contents of files and directories, and pictures are decoded as the format
  describes. Boot tags and settings of a command line are read back as they were written. Where the code falls short (memory
  past the end, a lookup through a missing directory, wrap-around of counters, overrun of
  buffers), a theorem states what it does instead, with an input that shows it.

  \<^bold>\<open>Assumptions.\<close> Calls that give up the processor return \<open>Blocked\<close>, and the rest of their work is a
  definition of its own. The two reads of the tick counter in one call give the same value, since
  interrupts are off. Structures of the kernel are separate objects, so wild pointers of a program
  are outside of the model; memory that C leaves uninitialised is a parameter.

  \<^bold>\<open>Not modelled.\<close> The assembly files, which have no C statements to translate; the MMU and cache functions,
  which have empty bodies because their code is disabled; the stubs of the system calls for
  the build on a host (\<^verbatim>\<open>vlibc/syscalls.x86_64.c\<close>); code between \<^verbatim>\<open>#if 0\<close> and \<^verbatim>\<open>#endif\<close>; the third-party tool
  \<^verbatim>\<open>genromfs\<close>, which runs on the host.
\<close>

end
